(* ===== verification/Prelude.thy ===== *)
theory Prelude
  imports Main "HOL-Library.Word"
begin

text \<open>
  Shared vocabulary of the development: the machine integer types, the ways an execution can
  stop abnormally, and generic facts on words and lists that several components use.
  Unsigned C++ integers are words of their width. Signed C++ integers are \<open>int\<close>: signed
  overflow has no defined result, so where a bound matters it is stated and proved.
\<close>

unbundle bit_operations_syntax

section \<open>Machine integers\<close>

type_synonym u8 = "8 word"
type_synonym u16 = "16 word"
type_synonym u32 = "32 word"
type_synonym u64 = "64 word"
type_synonym u128 = "128 word"

text \<open>Conversion of an unsigned value to the signed \<open>int\<close> type of 32 or 64 bits, and back.\<close>

definition to_i32 :: "'a::len word \<Rightarrow> int" where
  "to_i32 w = sint (ucast w :: u32)"

definition to_i64 :: "'a::len word \<Rightarrow> int" where
  "to_i64 w = sint (ucast w :: u64)"

text \<open>Integer division and remainder of C++ on signed operands: the quotient is truncated.\<close>

definition cdiv :: "int \<Rightarrow> int \<Rightarrow> int" where
  "cdiv a b = sgn a * sgn b * (\<bar>a\<bar> div \<bar>b\<bar>)"

definition cmod :: "int \<Rightarrow> int \<Rightarrow> int" where
  "cmod a b = a - b * cdiv a b"

section \<open>Abnormal ends of an execution\<close>

text \<open>
  \<open>AssertFail\<close> is a failed \<open>assert\<close>, \<open>Exit\<close> a call of \<open>exit\<close> with its status, \<open>OutOfBounds\<close> an
  access outside an array or a mapped buffer, \<open>NullDeref\<close> a use of a null pointer,
  \<open>Diverges\<close> a loop that no longer makes progress, \<open>Unspecified\<close> any other operation to which the
  language gives no meaning.
\<close>

datatype fault = AssertFail | Exit int | OutOfBounds | NullDeref | Diverges | Unspecified

named_theorems fault_simps "unfolding of result-type plumbing"

definition rbind :: "'e + 'a \<Rightarrow> ('a \<Rightarrow> 'e + 'b) \<Rightarrow> 'e + 'b" where
  "rbind r f = (case r of Inl e \<Rightarrow> Inl e | Inr a \<Rightarrow> f a)"

lemma rbind_simps [simp, fault_simps]:
  "rbind (Inl e) f = Inl e"
  "rbind (Inr a) f = f a"
  by (simp_all add: rbind_def)

lemma rbind_Inr_iff:
  "rbind r f = Inr b \<longleftrightarrow> (\<exists>a. r = Inr a \<and> f a = Inr b)"
  by (cases r) auto

lemma rbind_E: "rbind r f = Inr b \<Longrightarrow> (\<And>a. r = Inr a \<Longrightarrow> f a = Inr b \<Longrightarrow> P) \<Longrightarrow> P"
  by (auto simp: rbind_Inr_iff)

text \<open>A read of an array element, with the bound made explicit.\<close>

definition idx :: "'a list \<Rightarrow> nat \<Rightarrow> fault + 'a" where
  "idx xs i = (if i < length xs then Inr (xs ! i) else Inl OutOfBounds)"

lemma idx_in [simp]: "i < length xs \<Longrightarrow> idx xs i = Inr (xs ! i)"
  by (simp add: idx_def)

lemma idx_Inr_iff: "idx xs i = Inr x \<longleftrightarrow> i < length xs \<and> x = xs ! i"
  by (auto simp: idx_def)

text \<open>A loop over a list whose body may stop abnormally.\<close>

fun rfold :: "('a \<Rightarrow> 's \<Rightarrow> 'e + 's) \<Rightarrow> 'a list \<Rightarrow> 's \<Rightarrow> 'e + 's" where
  "rfold f [] s = Inr s"
| "rfold f (x # xs) s = rbind (f x s) (rfold f xs)"

lemma rfold_append: "rfold f (xs @ ys) s = rbind (rfold f xs s) (rfold f ys)"
proof (induction xs arbitrary: s)
  case (Cons x xs)
  then show ?case by (cases "f x s") simp_all
qed simp

lemma rfold_inv:
  "rfold f xs s = Inr s' \<Longrightarrow> P s \<Longrightarrow> (\<And>x s s'. x \<in> set xs \<Longrightarrow> P s \<Longrightarrow> f x s = Inr s' \<Longrightarrow> P s') \<Longrightarrow> P s'"
proof (induction xs arbitrary: s)
  case (Cons x xs)
  then obtain s1 where s1: "f x s = Inr s1" "rfold f xs s1 = Inr s'" by (auto simp: rbind_Inr_iff)
  with Cons.prems(2,3) have "P s1" by auto
  with Cons.IH [OF s1(2)] Cons.prems(3) show ?case by auto
qed simp

lemma rfold_total:
  "P s \<Longrightarrow> (\<And>x s. x \<in> set xs \<Longrightarrow> P s \<Longrightarrow> \<exists>s'. f x s = Inr s' \<and> P s') \<Longrightarrow> \<exists>s'. rfold f xs s = Inr s' \<and> P s'"
proof (induction xs arbitrary: s)
  case (Cons x xs)
  then obtain s1 where "f x s = Inr s1" "P s1" by (meson list.set_intros(1))
  with Cons show ?case by simp
qed simp

section \<open>Words\<close>

lemma unat_mod_power_two:
  fixes w :: "'a::len word"
  assumes "n < LENGTH('a)"
  shows "unat (w mod 2 ^ n) = unat w mod 2 ^ n"
  using assms by (metis take_bit_eq_mod unsigned_take_bit_eq)

lemma bit_mod_power_two:
  fixes w :: "'a::len word"
  shows "bit (w mod 2 ^ n) k \<longleftrightarrow> k < n \<and> bit w k"
  by (metis bit_take_bit_iff take_bit_eq_mod)

lemma unat_drop_bit_div:
  fixes w :: "'a::len word"
  shows "unat (drop_bit n w) = unat w div 2 ^ n"
  by (simp add: unat_drop_bit_eq flip: drop_bit_eq_div)

lemma bit_nat_bound: "bit (n::nat) i \<Longrightarrow> n < 2 ^ k \<Longrightarrow> i < k"
  by (metis bit_take_bit_iff take_bit_nat_eq_self)

lemma or_low:
  assumes "(b::nat) < 2 ^ n" shows "push_bit n a OR b = 2 ^ n * a + b"
proof -
  have "push_bit n a OR b = push_bit n a + b"
    by (rule disjunctive_add [symmetric]) (use assms in \<open>auto simp: bit_simps dest: bit_nat_bound\<close>)
  then show ?thesis by (simp add: push_bit_eq_mult)
qed
lemma unat_of_nat_small: "n < 2 ^ LENGTH('a) \<Longrightarrow> unat (of_nat n :: 'a::len word) = n"
  by (simp add: unat_of_nat)

text \<open>
  Packed bit fields: a list of \<open>(width, value)\<close> pairs, the least significant field first, and the
  number it stands for. \<open>pack_nth\<close> reads a field back by shift and mask.
\<close>

fun pack :: "(nat \<times> nat) list \<Rightarrow> nat" where
  "pack [] = 0"
| "pack ((w, v) # fs) = v + 2 ^ w * pack fs"

definition width :: "(nat \<times> nat) list \<Rightarrow> nat" where
  "width fs = sum_list (map fst fs)"

definition fits :: "(nat \<times> nat) list \<Rightarrow> bool" where
  "fits fs \<longleftrightarrow> (\<forall>(w, v) \<in> set fs. v < 2 ^ w)"

lemma width_simps [simp]: "width [] = 0" "width ((w, v) # fs) = w + width fs" "width (xs @ ys) = width xs + width ys"
  by (simp_all add: width_def)
lemma fits_simps [simp]: "fits []" "fits ((w, v) # fs) \<longleftrightarrow> v < 2 ^ w \<and> fits fs" "fits (xs @ ys) \<longleftrightarrow> fits xs \<and> fits ys"
  by (auto simp: fits_def)

lemma pack_append: "pack (xs @ ys) = pack xs + 2 ^ width xs * pack ys"
  by (induction xs rule: pack.induct) (simp_all add: power_add algebra_simps)

lemma pack_bound: "fits fs \<Longrightarrow> pack fs < 2 ^ width fs"
proof (induction fs rule: pack.induct)
  case (2 w v fs)
  then have v: "v < 2 ^ w" and p: "Suc (pack fs) \<le> 2 ^ width fs" by auto
  have "v + 2 ^ w * pack fs < 2 ^ w * Suc (pack fs)" using v by simp
  also have "\<dots> \<le> 2 ^ w * 2 ^ width fs" using p by (intro mult_le_mono2)
  finally show ?case by (simp add: power_add)
qed simp

lemma pack_field:
  assumes "fits (xs @ [(w, v)])"
  shows "pack (xs @ (w, v) # ys) div 2 ^ width xs mod 2 ^ w = v"
proof -
  have "pack xs < 2 ^ width xs" using assms pack_bound by auto
  then have "pack (xs @ (w, v) # ys) div 2 ^ width xs = v + 2 ^ w * pack ys"
    by (simp add: pack_append)
  with assms show ?thesis by simp
qed

lemma pack_nth:
  assumes "fits fs" "i < length fs"
  shows "pack fs div 2 ^ width (take i fs) mod 2 ^ fst (fs ! i) = snd (fs ! i)"
proof -
  obtain w v where wv: "fs ! i = (w, v)" by fastforce
  have split: "take i fs @ (w, v) # drop (Suc i) fs = fs"
    using id_take_nth_drop [OF assms(2)] wv by simp
  have "fits (take i fs @ [(w, v)])"
    using assms wv nth_mem [OF assms(2)] unfolding fits_def by (auto dest: in_set_takeD)
  from pack_field [OF this, of "drop (Suc i) fs"] show ?thesis
    unfolding split wv by simp
qed

lemma pack_split:
  assumes "fits fs"
  shows "pack fs div 2 ^ width (take i fs) = pack (drop i fs)"
    and "pack fs mod 2 ^ width (take i fs) = pack (take i fs)"
proof -
  have "fits (take i fs)" using assms unfolding fits_def by (auto dest: in_set_takeD)
  then have "pack (take i fs) < 2 ^ width (take i fs)" by (rule pack_bound)
  moreover have "pack fs = pack (take i fs) + 2 ^ width (take i fs) * pack (drop i fs)"
    by (metis append_take_drop_id pack_append)
  ultimately show "pack fs div 2 ^ width (take i fs) = pack (drop i fs)"
    and "pack fs mod 2 ^ width (take i fs) = pack (take i fs)" by simp_all
qed

section \<open>Lists\<close>

lemma take_update_past [simp]: "n \<le> i \<Longrightarrow> take n (xs[i := x]) = take n xs"
  by simp

lemma sum_list_map_const: "sum_list (map (\<lambda>_. c) xs) = (length xs) * (c::nat)"
  by (induction xs) simp_all

end
