(* ===== verification/Event_Decode.thy ===== *)
theory Event_Decode
  imports Prelude
begin

text \<open>
  Decoding of raw data frames: the class \<open>RawEventWord\<close> of raw_data/event_decode.hpp and the
  struct \<open>RawDataFrame\<close> of raw_data/shm_raw.hpp. An event is a 128 bit word assembled from two
  64 bit words of a frame; the accessors cut fixed bit fields out of it. The lemmas state which
  bit of the frame each field comes from, the ranges of the fields and, with the layout written
  as an encoder, that decoding inverts it.
\<close>

section \<open>Event words\<close>

datatype RawEventWord = RawEventWord (word: u128)

text \<open>\<open>operator<\<close> orders event words by their value.\<close>

instantiation RawEventWord :: linorder
begin

definition less_RawEventWord :: "RawEventWord \<Rightarrow> RawEventWord \<Rightarrow> bool" where
  "less_RawEventWord a b \<longleftrightarrow> word a < word b"

definition less_eq_RawEventWord :: "RawEventWord \<Rightarrow> RawEventWord \<Rightarrow> bool" where
  "less_eq_RawEventWord a b \<longleftrightarrow> word a \<le> word b"

instance
  by standard (auto simp: less_RawEventWord_def less_eq_RawEventWord_def intro: RawEventWord.expand)

end

definition getT1Coarse :: "RawEventWord \<Rightarrow> u16" where
  "getT1Coarse e = ucast (drop_bit 73 (word e) mod 1024)"

definition getT2Coarse :: "RawEventWord \<Rightarrow> u16" where
  "getT2Coarse e = ucast (drop_bit 63 (word e) mod 1024)"

definition getQCoarse :: "RawEventWord \<Rightarrow> u16" where
  "getQCoarse e = ucast (drop_bit 53 (word e) mod 1024)"

definition getQFine :: "RawEventWord \<Rightarrow> u16" where
  "getQFine e = ucast (drop_bit 43 (word e) mod 1024)"

definition getT2Fine :: "RawEventWord \<Rightarrow> u16" where
  "getT2Fine e = ucast (drop_bit 33 (word e) mod 1024)"

definition getT1Fine :: "RawEventWord \<Rightarrow> u16" where
  "getT1Fine e = ucast (drop_bit 23 (word e) mod 1024)"

definition getPrevEventTime :: "RawEventWord \<Rightarrow> u16" where
  "getPrevEventTime e = ucast (drop_bit 13 (word e) mod 1024)"

definition getPrevEventFlags :: "RawEventWord \<Rightarrow> u16" where
  "getPrevEventFlags e = ucast (drop_bit 8 (word e) mod 16)"

definition getTacID :: "RawEventWord \<Rightarrow> u16" where
  "getTacID e = ucast (drop_bit 5 (word e) mod 8)"

definition getChannelID :: "RawEventWord \<Rightarrow> u32" where
  "getChannelID e =
     (let asicID = drop_bit 83 (word e);
          channelID = word e mod 32
      in ucast (push_bit 5 asicID OR channelID))"

section \<open>Frames\<close>

text \<open>
  \<open>MaxRawDataFrameSize\<close> and \<open>MaxRawDataFrameQueueSize\<close>; the array of a frame has the former
  number of words, so a well-formed frame is a list of that length.
\<close>

definition MaxRawDataFrameSize :: nat where
  "MaxRawDataFrameSize = 2048"

definition MaxRawDataFrameQueueSize :: nat where
  "MaxRawDataFrameQueueSize = 16 * 1024"

record RawDataFrame =
  data :: "u64 list"

definition wf_frame :: "RawDataFrame \<Rightarrow> bool" where
  "wf_frame f \<longleftrightarrow> length (data f) = MaxRawDataFrameSize"

definition getFrameSize :: "RawDataFrame \<Rightarrow> u32" where
  "getFrameSize f = ucast (drop_bit 36 (data f ! 0) AND 0x7FFF)"

definition getFrameID :: "RawDataFrame \<Rightarrow> u64" where
  "getFrameID f = data f ! 0 AND 0xFFFFFFFFF"

definition getFrameLost :: "RawDataFrame \<Rightarrow> bool" where
  "getFrameLost f \<longleftrightarrow> data f ! 1 AND 0x18000 \<noteq> 0"

definition getNEvents :: "RawDataFrame \<Rightarrow> nat" where
  "getNEvents f = unat ((data f ! 1 AND 0x7FFF) div 2)"

text \<open>The 128 bit word assembled from the two words of an event.\<close>

definition assemble :: "u64 \<Rightarrow> u64 \<Rightarrow> u128" where
  "assemble word_h word_l =
     (let w = ucast (drop_bit 54 word_h);
          w = push_bit 44 w OR ucast (word_h AND 0xfffffffffff);
          w = push_bit 44 w OR ucast (word_l AND 0xfffffffffff)
      in w)"

definition getEventWord :: "RawDataFrame \<Rightarrow> nat \<Rightarrow> fault + RawEventWord" where
  "getEventWord f event =
     rbind (idx (data f) (2 + 2 * event + 0)) (\<lambda>word_h.
     rbind (idx (data f) (2 + 2 * event + 1)) (\<lambda>word_l.
     Inr (RawEventWord (assemble word_h word_l))))"

section \<open>The layout of an event\<close>

lemma m44: "(0xfffffffffff :: 64 word) = mask 44" by (simp add: mask_numeral)

lemma bit_assemble: "bit (assemble h l) n \<longleftrightarrow> (if n < 44 then bit l n else if n < 88 then bit h (n - 44) else n < 98 \<and> bit h (n - 34))"
    unfolding assemble_def Let_def m44
    by (auto simp: bit_simps not_less dest: bit_imp_le_length)

lemma unat_assemble:
  "unat (assemble h l) = unat l mod 2 ^ 44 + 2 ^ 44 * (unat h mod 2 ^ 44) + 2 ^ 88 * (unat h div 2 ^ 54)"
proof -
  let ?a = "take_bit 44 (unat l)" and ?b = "push_bit 44 (take_bit 44 (unat h))" and ?c = "push_bit 88 (drop_bit 54 (unat h))"
  have "unat (assemble h l) = (?a OR ?b) OR ?c"
    by (rule bit_eqI) (auto simp: bit_unsigned_iff bit_assemble bit_simps dest: bit_imp_le_length)
  also have "\<dots> = (?a OR ?b) + ?c"
    by (rule disjunctive_add [symmetric]) (auto simp: bit_simps)
  also have "?a OR ?b = ?a + ?b"
    by (rule disjunctive_add [symmetric]) (auto simp: bit_simps)
  finally show ?thesis by (simp add: take_bit_eq_mod push_bit_eq_mult drop_bit_eq_div mult.commute)
qed
record event_fields =
  ef_port :: nat
  ef_slave :: nat
  ef_chip :: nat
  ef_t1coarse :: nat
  ef_t2coarse :: nat
  ef_qcoarse :: nat
  ef_qfine :: nat
  ef_t2fine :: nat
  ef_t1fine :: nat
  ef_ptime :: nat
  ef_pflags :: nat
  ef_tac :: nat
  ef_channel :: nat

definition event_layout :: "event_fields \<Rightarrow> (nat \<times> nat) list" where
  "event_layout f =
     [(5, ef_channel f), (3, ef_tac f), (4, ef_pflags f), (1, 0), (10, ef_ptime f), (10, ef_t1fine f),
      (10, ef_t2fine f), (10, ef_qfine f), (10, ef_qcoarse f), (10, ef_t2coarse f),
      (10, ef_t1coarse f), (5, ef_chip f)]"

definition full_layout :: "event_fields \<Rightarrow> (nat \<times> nat) list" where
  "full_layout f = event_layout f @ [(5, ef_slave f), (5, ef_port f)]"

definition fields_ok :: "event_fields \<Rightarrow> bool" where
  "fields_ok f \<longleftrightarrow> fits (event_layout f) \<and> ef_slave f < 32 \<and> ef_port f < 32"

definition encode_event :: "event_fields \<Rightarrow> u64 \<times> u64" where
  "encode_event f =
     (let e = pack (event_layout f)
      in (of_nat (e div 2 ^ 44 + 2 ^ 54 * (ef_slave f + 32 * ef_port f)), of_nat (e mod 2 ^ 44)))"

lemma unat_encode:
  assumes "fields_ok f" and hl: "encode_event f = (h, l)"
  shows "unat (assemble h l) = pack (event_layout f @ [(5, ef_slave f), (5, ef_port f)])"
proof -
  let ?e = "pack (event_layout f)" and ?s = "ef_slave f + 32 * ef_port f"
  have f: "fits (event_layout f)" and s: "?s < 2 ^ 10" using assms by (auto simp: fields_ok_def)
  have w: "width (event_layout f) = 88" by (simp add: event_layout_def)
  have e: "?e < 2 ^ 88" using pack_bound [OF f] w by simp
  then have e44: "?e div 2 ^ 44 < 2 ^ 44" by (simp add: less_mult_imp_div_less)
  have "?e div 2 ^ 44 + 2 ^ 54 * ?s < 2 ^ 64" using e44 s by simp
  then have h: "unat h = ?e div 2 ^ 44 + 2 ^ 54 * ?s" and l: "unat l = ?e mod 2 ^ 44"
    using hl e44 by (auto simp: encode_event_def Let_def unat_of_nat_small simp del: of_nat_add of_nat_mult)
  have h1: "unat h mod 2 ^ 44 = ?e div 2 ^ 44" and h2: "unat h div 2 ^ 54 = ?s"
    using e44 h by (simp_all add: mod_add_eq [symmetric])
  have "unat (assemble h l) = ?e mod 2 ^ 44 + 2 ^ 44 * (?e div 2 ^ 44) + 2 ^ 88 * ?s"
    unfolding unat_assemble h1 h2 l by simp
  also have "\<dots> = ?e + 2 ^ 88 * ?s" by simp
  also have "\<dots> = pack (event_layout f @ [(5, ef_slave f), (5, ef_port f)])"
    by (simp add: pack_append w)
  finally show ?thesis .
qed

lemma layout_fields:
  assumes "fields_ok f"
  defines "P \<equiv> pack (full_layout f)"
  shows "P div 2 ^ 73 mod 2 ^ 10 = ef_t1coarse f" "P div 2 ^ 63 mod 2 ^ 10 = ef_t2coarse f"
    "P div 2 ^ 53 mod 2 ^ 10 = ef_qcoarse f" "P div 2 ^ 43 mod 2 ^ 10 = ef_qfine f"
    "P div 2 ^ 33 mod 2 ^ 10 = ef_t2fine f" "P div 2 ^ 23 mod 2 ^ 10 = ef_t1fine f"
    "P div 2 ^ 13 mod 2 ^ 10 = ef_ptime f" "P div 2 ^ 8 mod 2 ^ 4 = ef_pflags f"
    "P div 2 ^ 5 mod 2 ^ 3 = ef_tac f" "P mod 2 ^ 5 = ef_channel f"
    "P div 2 ^ 83 = ef_chip f + 32 * ef_slave f + 1024 * ef_port f" "P < 2 ^ 98"
proof -
  have F: "fits (full_layout f)" using assms by (simp add: fields_ok_def full_layout_def)
  note X = pack_nth [OF F, folded P_def] and L = full_layout_def event_layout_def
  show "P div 2 ^ 73 mod 2 ^ 10 = ef_t1coarse f" using X [of 10] by (simp add: L)
  show "P div 2 ^ 63 mod 2 ^ 10 = ef_t2coarse f" using X [of 9] by (simp add: L)
  show "P div 2 ^ 53 mod 2 ^ 10 = ef_qcoarse f" using X [of 8] by (simp add: L)
  show "P div 2 ^ 43 mod 2 ^ 10 = ef_qfine f" using X [of 7] by (simp add: L)
  show "P div 2 ^ 33 mod 2 ^ 10 = ef_t2fine f" using X [of 6] by (simp add: L)
  show "P div 2 ^ 23 mod 2 ^ 10 = ef_t1fine f" using X [of 5] by (simp add: L)
  show "P div 2 ^ 13 mod 2 ^ 10 = ef_ptime f" using X [of 4] by (simp add: L)
  show "P div 2 ^ 8 mod 2 ^ 4 = ef_pflags f" using X [of 2] by (simp add: L)
  show "P div 2 ^ 5 mod 2 ^ 3 = ef_tac f" using X [of 1] by (simp add: L)
  show "P mod 2 ^ 5 = ef_channel f" using X [of 0] by (simp add: L)
  show "P div 2 ^ 83 = ef_chip f + 32 * ef_slave f + 1024 * ef_port f"
    using pack_split(1) [OF F, of 11, folded P_def] by (simp add: L)
  show "P < 2 ^ 98" using pack_bound [OF F, folded P_def] by (simp add: L)
qed

lemma unat_field: 
  fixes w :: u128
  assumes "k < 16" 
  shows "unat (ucast (drop_bit n w mod 2 ^ k) :: u16) = unat w div 2 ^ n mod 2 ^ k"
proof -
  have "unat w div 2 ^ n mod 2 ^ k < 2 ^ k" by simp
  also have "\<dots> < 2 ^ 16" using assms by (intro power_strict_increasing) auto
  finally show ?thesis using assms
    by (simp add: unsigned_ucast_eq unat_mod_power_two unat_drop_bit_div take_bit_nat_eq_self)
qed

named_theorems accessor_unat "values of the event word accessors"

lemma accessor_values [accessor_unat]:
  "unat (getT1Coarse e) = unat (word e) div 2 ^ 73 mod 2 ^ 10"
  "unat (getT2Coarse e) = unat (word e) div 2 ^ 63 mod 2 ^ 10"
  "unat (getQCoarse e) = unat (word e) div 2 ^ 53 mod 2 ^ 10"
  "unat (getQFine e) = unat (word e) div 2 ^ 43 mod 2 ^ 10"
  "unat (getT2Fine e) = unat (word e) div 2 ^ 33 mod 2 ^ 10"
  "unat (getT1Fine e) = unat (word e) div 2 ^ 23 mod 2 ^ 10"
  "unat (getPrevEventTime e) = unat (word e) div 2 ^ 13 mod 2 ^ 10"
  "unat (getPrevEventFlags e) = unat (word e) div 2 ^ 8 mod 2 ^ 4"
  "unat (getTacID e) = unat (word e) div 2 ^ 5 mod 2 ^ 3"
  using unat_field [of 10 _ "word e"] unat_field [of 4 8 "word e"] unat_field [of 3 5 "word e"]
  by (simp_all add: getT1Coarse_def getT2Coarse_def getQCoarse_def getQFine_def getT2Fine_def
      getT1Fine_def getPrevEventTime_def getPrevEventFlags_def getTacID_def)

lemma channel_value:
  assumes "unat (word e) < 2 ^ 110"
  shows "unat (getChannelID e) = unat (word e) mod 32 + 32 * (unat (word e) div 2 ^ 83 mod 2 ^ 27)"
proof -
  let ?w = "unat (word e)"
  have a: "unat (push_bit 5 (drop_bit 83 (word e)) OR word e mod 32) = push_bit 5 (?w div 2 ^ 83) OR ?w mod 2 ^ 5"
    using assms unat_mod_power_two [of 5 "word e"]
    by (simp add: unsigned_or_eq unsigned_push_bit_eq unat_drop_bit_div take_bit_push_bit take_bit_nat_eq_self less_mult_imp_div_less)
  have "unat (getChannelID e) = take_bit 32 (push_bit 5 (?w div 2 ^ 83) OR ?w mod 2 ^ 5)"
    unfolding getChannelID_def Let_def unsigned_ucast_eq a by simp
  also have "push_bit 5 (?w div 2 ^ 83) OR ?w mod 2 ^ 5 = 2 ^ 5 * (?w div 2 ^ 83) + ?w mod 2 ^ 5"
    by (rule or_low) simp
  also have "take_bit 32 (2 ^ 5 * (?w div 2 ^ 83) + ?w mod 2 ^ 5) = ?w mod 2 ^ 5 + 2 ^ 5 * (?w div 2 ^ 83 mod 2 ^ 27)"
    using mod_mult2_eq [of "2 ^ 5 * (?w div 2 ^ 83) + ?w mod 2 ^ 5" "2 ^ 5" "2 ^ 27"]
    by (simp add: take_bit_eq_mod)
  finally show ?thesis by simp
qed

lemma decode_encode:
  assumes "fields_ok f" and "encode_event f = (h, l)"
  defines "e \<equiv> RawEventWord (assemble h l)"
  shows "unat (getT1Coarse e) = ef_t1coarse f" "unat (getT2Coarse e) = ef_t2coarse f"
    "unat (getQCoarse e) = ef_qcoarse f" "unat (getQFine e) = ef_qfine f"
    "unat (getT2Fine e) = ef_t2fine f" "unat (getT1Fine e) = ef_t1fine f"
    "unat (getPrevEventTime e) = ef_ptime f" "unat (getPrevEventFlags e) = ef_pflags f"
    "unat (getTacID e) = ef_tac f"
    "unat (getChannelID e) = ef_channel f + 32 * ef_chip f + 1024 * ef_slave f + 32768 * ef_port f"
proof -
  have W: "unat (word e) = pack (full_layout f)"
    using unat_encode [OF assms(1,2)] by (simp add: e_def full_layout_def)
  note P = layout_fields [OF assms(1)]
  show "unat (getT1Coarse e) = ef_t1coarse f" "unat (getT2Coarse e) = ef_t2coarse f"
    "unat (getQCoarse e) = ef_qcoarse f" "unat (getQFine e) = ef_qfine f"
    "unat (getT2Fine e) = ef_t2fine f" "unat (getT1Fine e) = ef_t1fine f"
    "unat (getPrevEventTime e) = ef_ptime f" "unat (getPrevEventFlags e) = ef_pflags f"
    "unat (getTacID e) = ef_tac f"
    unfolding accessor_unat W by (rule P)+
  have ok: "ef_chip f < 32" "ef_slave f < 32" "ef_port f < 32"
    using assms(1) by (auto simp: fields_ok_def event_layout_def)
  have "unat (word e) < 2 ^ 110" using P(12) W by simp
  from channel_value [OF this, unfolded W P(11)] P(10)
  show "unat (getChannelID e) = ef_channel f + 32 * ef_chip f + 1024 * ef_slave f + 32768 * ef_port f"
    using ok by simp
qed

lemma base32_digits:
  fixes d :: nat
  assumes "a < 32" "b < 32" "(c::nat) < 32"
  defines "g \<equiv> a + 32 * b + 1024 * c + 32768 * d"
  shows "g div 32768 = d" "g div 1024 mod 32 = c" "g div 32 mod 32 = b" "g mod 32 = a"
proof -
  have g: "g = a + 32 * (b + 32 * (c + 32 * d))" by (simp add: g_def)
  have 1: "g div 32 = b + 32 * (c + 32 * d)" and m: "g mod 32 = a"
    unfolding g using assms(1) by (simp_all only: div_mult_self4 div_mult_self2 mod_mult_self2 mod_less div_less add_0_right add_0_left zero_neq_numeral not_False_eq_True)
  have 2: "g div 1024 = c + 32 * d"
    using 1 assms(2) div_mult2_eq [of g 32 32] by simp
  have 3: "g div 32768 = d"
    using 2 assms(3) div_mult2_eq [of g 1024 32] by simp
  show "g div 32768 = d" by (rule 3)
  show "g div 1024 mod 32 = c" using 2 assms(3) by simp
  show "g div 32 mod 32 = b" unfolding 1 using assms(2) by (simp only: mod_mult_self2 mod_less)
  show "g mod 32 = a" by (rule m)
qed

definition decode_fields :: "RawEventWord \<Rightarrow> event_fields" where
  "decode_fields e =
     \<lparr>ef_port = unat (getChannelID e) div 32768, ef_slave = unat (getChannelID e) div 1024 mod 32,
      ef_chip = unat (getChannelID e) div 32 mod 32, ef_t1coarse = unat (getT1Coarse e),
      ef_t2coarse = unat (getT2Coarse e), ef_qcoarse = unat (getQCoarse e), ef_qfine = unat (getQFine e),
      ef_t2fine = unat (getT2Fine e), ef_t1fine = unat (getT1Fine e), ef_ptime = unat (getPrevEventTime e),
      ef_pflags = unat (getPrevEventFlags e), ef_tac = unat (getTacID e),
      ef_channel = unat (getChannelID e) mod 32\<rparr>"


definition example_fields :: event_fields where
  "example_fields = \<lparr>ef_port = 3, ef_slave = 17, ef_chip = 31, ef_t1coarse = 1023, ef_t2coarse = 1,
     ef_qcoarse = 512, ef_qfine = 700, ef_t2fine = 0, ef_t1fine = 333, ef_ptime = 5, ef_pflags = 15,
     ef_tac = 7, ef_channel = 30\<rparr>"


end
