(* ===== verification/Shm_Raw.thy ===== *)
theory Shm_Raw
  imports Event_Decode
begin

text \<open>
  The shared memory ring of raw data frames as its readers see it: class \<open>SHM_RAW\<close> of
  raw_data/shm_raw.hpp and the export of a range of frames to Python, \<open>events_as_bytes\<close> of
  raw_data/shm_raw_py.cpp. The mapping of the memory object itself is left out; the ring is the
  list of its frames. \<open>events_as_bytes\<close> sizes its buffer in a first pass over the frames and fills
  it in a second one: the lemmas show that the two passes agree and what the buffer holds.
\<close>

record SHM_RAW =
  shm :: "RawDataFrame list"

definition wf_shm :: "SHM_RAW \<Rightarrow> bool" where
  "wf_shm s \<longleftrightarrow> length (shm s) = MaxRawDataFrameQueueSize \<and> (\<forall>f \<in> set (shm s). wf_frame f)"

definition getSizeInFrames :: "SHM_RAW \<Rightarrow> nat" where
  "getSizeInFrames s = MaxRawDataFrameQueueSize"

definition getRawDataFrame :: "SHM_RAW \<Rightarrow> nat \<Rightarrow> fault + RawDataFrame" where
  "getRawDataFrame s index = idx (shm s) index"

definition shm_getFrameSize :: "SHM_RAW \<Rightarrow> nat \<Rightarrow> fault + u32" where
  "shm_getFrameSize s index = rbind (getRawDataFrame s index) (\<lambda>f. Inr (getFrameSize f))"

definition shm_getFrameID :: "SHM_RAW \<Rightarrow> nat \<Rightarrow> fault + u64" where
  "shm_getFrameID s index = rbind (getRawDataFrame s index) (\<lambda>f. Inr (getFrameID f))"

definition shm_getFrameLost :: "SHM_RAW \<Rightarrow> nat \<Rightarrow> fault + bool" where
  "shm_getFrameLost s index = rbind (getRawDataFrame s index) (\<lambda>f. Inr (getFrameLost f))"

definition shm_getNEvents :: "SHM_RAW \<Rightarrow> nat \<Rightarrow> fault + nat" where
  "shm_getNEvents s index = rbind (getRawDataFrame s index) (\<lambda>f. Inr (getNEvents f))"

text \<open>
  \<open>getRawEventWord\<close>; the accessors \<open>getQFine\<close> to \<open>getChannelID\<close> of the class apply an accessor of
  the event word to it, which is what \<open>shm_get\<close> does with the accessor as its argument.
\<close>

definition getRawEventWord :: "SHM_RAW \<Rightarrow> nat \<Rightarrow> nat \<Rightarrow> fault + RawEventWord" where
  "getRawEventWord s index event = rbind (getRawDataFrame s index) (\<lambda>f. getEventWord f event)"

definition shm_get :: "(RawEventWord \<Rightarrow> 'a) \<Rightarrow> SHM_RAW \<Rightarrow> nat \<Rightarrow> nat \<Rightarrow> fault + 'a" where
  "shm_get acc s index event = rbind (getRawEventWord s index event) (\<lambda>e. Inr (acc e))"

section \<open>Export of events\<close>

record unpacked_event_t =
  ue_frameID :: u64
  ue_channelID :: u32
  ue_tacID :: u16
  ue_t1Coarse :: u16
  ue_t2Coarse :: u16
  ue_qCoarse :: u16
  ue_t1Fine :: u16
  ue_t2Fine :: u16
  ue_qFine :: u16

definition unpack_event :: "SHM_RAW \<Rightarrow> u64 \<Rightarrow> nat \<Rightarrow> nat \<Rightarrow> fault + unpacked_event_t" where
  "unpack_event s frameID index j =
     rbind (shm_get getChannelID s index j) (\<lambda>channelID.
     rbind (shm_get getTacID s index j) (\<lambda>tacID.
     rbind (shm_get getT1Coarse s index j) (\<lambda>t1Coarse.
     rbind (shm_get getT2Coarse s index j) (\<lambda>t2Coarse.
     rbind (shm_get getQCoarse s index j) (\<lambda>qCoarse.
     rbind (shm_get getT1Fine s index j) (\<lambda>t1Fine.
     rbind (shm_get getT2Fine s index j) (\<lambda>t2Fine.
     rbind (shm_get getQFine s index j) (\<lambda>qFine.
     Inr \<lparr>ue_frameID = frameID, ue_channelID = channelID, ue_tacID = tacID,
          ue_t1Coarse = t1Coarse, ue_t2Coarse = t2Coarse, ue_qCoarse = qCoarse,
          ue_t1Fine = t1Fine, ue_t2Fine = t2Fine, ue_qFine = qFine\<rparr>))))))))"

text \<open>
  The loop variable \<open>ii\<close> is an \<open>int\<close>; \<open>ii % shm_raw_size\<close> is computed in 64 bit unsigned
  arithmetic, and the ring size is a power of two, so a negative \<open>ii\<close> wraps like \<open>mod\<close>.
\<close>

definition ring_index :: "SHM_RAW \<Rightarrow> int \<Rightarrow> nat" where
  "ring_index s ii = nat (ii mod int (getSizeInFrames s))"

text \<open>First pass: the loop that sizes the buffer; \<open>total_events\<close> is an \<open>int\<close> and must not overflow.\<close>

fun count_events :: "SHM_RAW \<Rightarrow> int list \<Rightarrow> nat \<Rightarrow> fault + nat" where
  "count_events s [] acc = Inr acc"
| "count_events s (ii # iis) acc =
     rbind (shm_getNEvents s (ring_index s ii)) (\<lambda>n.
     if acc + n < 2 ^ 31 then count_events s iis (acc + n) else Inl Unspecified)"

text \<open>
  Second pass: \<open>out\<close> is the part of the buffer written so far, its length the position of \<open>p\<close>;
  a store past the \<open>sz\<close> elements that were allocated is out of bounds.
\<close>

definition store :: "nat \<Rightarrow> 'a list \<Rightarrow> 'a \<Rightarrow> fault + 'a list" where
  "store sz out e = (if length out < sz then Inr (out @ [e]) else Inl OutOfBounds)"

fun fill_frame ::
  "SHM_RAW \<Rightarrow> nat \<Rightarrow> u64 \<Rightarrow> nat \<Rightarrow> nat list \<Rightarrow> unpacked_event_t list \<Rightarrow> fault + unpacked_event_t list"
where
  "fill_frame s sz frameID index [] out = Inr out"
| "fill_frame s sz frameID index (j # js) out =
     rbind (unpack_event s frameID index j) (\<lambda>e.
     rbind (store sz out e) (\<lambda>out. fill_frame s sz frameID index js out))"

fun fill_events ::
  "SHM_RAW \<Rightarrow> nat \<Rightarrow> int list \<Rightarrow> unpacked_event_t list \<Rightarrow> fault + unpacked_event_t list"
where
  "fill_events s sz [] out = Inr out"
| "fill_events s sz (ii # iis) out =
     (let index = ring_index s ii in
      rbind (shm_getFrameID s index) (\<lambda>frameID.
      rbind (shm_getNEvents s index) (\<lambda>n_events.
      rbind (fill_frame s sz frameID index [0..<n_events] out) (\<lambda>out.
      fill_events s sz iis out))))"

definition events_as_bytes :: "SHM_RAW \<Rightarrow> int \<Rightarrow> int \<Rightarrow> fault + unpacked_event_t list" where
  "events_as_bytes s start end =
     rbind (count_events s [start..end - 1] 0) (\<lambda>total_events.
     fill_events s total_events [start..end - 1] [])"

section \<open>What the export returns\<close>

text \<open>A frame whose event count fits its array, as the acquisition writes them.\<close>

definition events_in_frame :: "RawDataFrame \<Rightarrow> bool" where
  "events_in_frame f \<longleftrightarrow> wf_frame f \<and> 2 + 2 * getNEvents f \<le> MaxRawDataFrameSize"

definition decode_event :: "RawDataFrame \<Rightarrow> nat \<Rightarrow> RawEventWord" where
  "decode_event f j = RawEventWord (assemble (data f ! (2 + 2 * j)) (data f ! (3 + 2 * j)))"

definition unpacked :: "RawDataFrame \<Rightarrow> nat \<Rightarrow> unpacked_event_t" where
  "unpacked f j =
     (let e = decode_event f j in
      \<lparr>ue_frameID = getFrameID f, ue_channelID = getChannelID e, ue_tacID = getTacID e,
       ue_t1Coarse = getT1Coarse e, ue_t2Coarse = getT2Coarse e, ue_qCoarse = getQCoarse e,
       ue_t1Fine = getT1Fine e, ue_t2Fine = getT2Fine e, ue_qFine = getQFine e\<rparr>)"

definition frame_events :: "RawDataFrame \<Rightarrow> unpacked_event_t list" where
  "frame_events f = map (unpacked f) [0..<getNEvents f]"

lemma getEventWord_ok:
  "wf_frame f \<Longrightarrow> 2 + 2 * j + 1 < MaxRawDataFrameSize \<Longrightarrow> getEventWord f j = Inr (decode_event f j)"
  by (simp add: getEventWord_def decode_event_def wf_frame_def idx_def numeral_eq_Suc)

lemma ring_index_bound: "ring_index s ii < MaxRawDataFrameQueueSize"
  by (simp add: ring_index_def getSizeInFrames_def MaxRawDataFrameQueueSize_def nat_less_iff)

lemma getRawDataFrame_ring:
  "wf_shm s \<Longrightarrow> getRawDataFrame s (ring_index s ii) = Inr (shm s ! ring_index s ii)"
  by (simp add: getRawDataFrame_def wf_shm_def ring_index_bound)

lemma unpack_event_ok:
  assumes "getRawDataFrame s i = Inr f" "events_in_frame f" "j < getNEvents f"
  shows "unpack_event s (getFrameID f) i j = Inr (unpacked f j)"
proof -
  have "getEventWord f j = Inr (decode_event f j)"
    using assms(2,3) by (intro getEventWord_ok) (auto simp: events_in_frame_def)
  with assms(1) show ?thesis
    by (simp add: unpack_event_def shm_get_def getRawEventWord_def unpacked_def Let_def)
qed

lemma fill_frame_ok:
  assumes "getRawDataFrame s i = Inr f" "events_in_frame f" "\<forall>j \<in> set js. j < getNEvents f"
    "length out + length js \<le> sz"
  shows "fill_frame s sz (getFrameID f) i js out = Inr (out @ map (unpacked f) js)"
  using assms by (induction js arbitrary: out) (simp_all add: unpack_event_ok store_def)

lemma count_events_ok:
  assumes "wf_shm s" "n + sum_list (map (\<lambda>ii. getNEvents (shm s ! ring_index s ii)) iis) < 2 ^ 31"
  shows "count_events s iis n =
     Inr (n + sum_list (map (\<lambda>ii. getNEvents (shm s ! ring_index s ii)) iis))"
  using assms
  by (induction iis arbitrary: n) (simp_all add: shm_getNEvents_def getRawDataFrame_ring)

lemma range_events_bound:
  assumes "\<forall>ii \<in> set iis. events_in_frame (shm s ! ring_index s ii)"
  shows "sum_list (map (\<lambda>ii. getNEvents (shm s ! ring_index s ii)) iis) \<le> 1023 * length iis"
  using assms by (induction iis) (auto simp: events_in_frame_def MaxRawDataFrameSize_def)

lemma fill_events_ok:
  assumes "wf_shm s" "\<forall>ii \<in> set iis. events_in_frame (shm s ! ring_index s ii)"
    "length out + sum_list (map (\<lambda>ii. getNEvents (shm s ! ring_index s ii)) iis) \<le> sz"
  shows "fill_events s sz iis out =
     Inr (out @ concat (map (\<lambda>ii. frame_events (shm s ! ring_index s ii)) iis))"
  using assms
proof (induction iis arbitrary: out)
  case (Cons ii iis)
  let ?f = "shm s ! ring_index s ii"
  have "fill_frame s sz (getFrameID ?f) (ring_index s ii) [0..<getNEvents ?f] out =
      Inr (out @ frame_events ?f)"
    using Cons.prems unfolding frame_events_def
    by (intro fill_frame_ok getRawDataFrame_ring) auto
  moreover have "length (frame_events ?f) = getNEvents ?f"
    by (simp add: frame_events_def)
  ultimately show ?case
    using Cons.IH [of "out @ frame_events ?f"] Cons.prems
    by (simp add: Let_def shm_getFrameID_def shm_getNEvents_def getRawDataFrame_ring)
qed simp


definition example_frame :: RawDataFrame where
  "example_frame = \<lparr>data = [7, 2, 0x0008000000000000, 0x123] @ replicate 2044 0\<rparr>"

definition example_shm :: SHM_RAW where
  "example_shm = \<lparr>shm = replicate MaxRawDataFrameQueueSize example_frame\<rparr>"

lemma example_ring: "shm example_shm ! ring_index example_shm ii = example_frame"
  using ring_index_bound [of example_shm ii] by (simp add: example_shm_def)

lemma example_events: "events_in_frame example_frame"
  by (simp add: events_in_frame_def example_frame_def wf_frame_def MaxRawDataFrameSize_def getNEvents_def)


end
