(* ===== verification/Fp.thy ===== *)
theory Fp
  imports Prelude Complex_Main
begin

text \<open>
  The arithmetic of the C++ types \<open>float\<close> and \<open>double\<close>: IEEE 754 binary32 and binary64 with
  rounding to nearest, ties to even. A finite value is a sign, a mantissa (not negative) and an exponent
  and stands for \<open>\<plusminus> m * 2 ^ e\<close>; every operation computes its exact result and rounds it once, so
  all of them are executable. Not-a-number values are one value (no code of the repository
  looks at a payload). The lemmas say when an operation is exact: the scaling of an unrounded
  result does not matter, integers below \<open>2 ^ prec\<close> are represented, and comparison, sum and
  difference of represented integers are those of the integers.
\<close>

section \<open>Formats and values\<close>

datatype fmt = F32 | F64

datatype fp = NaN | Inf bool | Fin bool int int

primrec prec :: "fmt \<Rightarrow> int" where
  "prec F32 = 24"
| "prec F64 = 53"

primrec emin :: "fmt \<Rightarrow> int" where
  "emin F32 = -149"
| "emin F64 = -1074"

primrec emax :: "fmt \<Rightarrow> int" where
  "emax F32 = 104"
| "emax F64 = 971"

fun fval :: "fp \<Rightarrow> real" where
  "fval (Fin s m e) = (if s then - 1 else 1) * real_of_int m * 2 powr (real_of_int e)"
| "fval _ = 0"

fun is_finite :: "fp \<Rightarrow> bool" where
  "is_finite (Fin _ _ _) = True"
| "is_finite _ = False"

section \<open>Rounding\<close>

function bitlen :: "int \<Rightarrow> int" where
  "bitlen n = (if n \<le> 0 then 0 else 1 + bitlen (n div 2))"
  by pat_completeness auto
termination
  by (relation "measure nat") auto

declare bitlen.simps [simp del]

text \<open>
  \<open>round_fp f s m e\<close> is \<open>\<plusminus> m * 2 ^ e\<close> rounded to format \<open>f\<close>: \<open>x\<close> is the exponent of the last place
  of the result, subnormal results included.
\<close>

definition last_place :: "fmt \<Rightarrow> int \<Rightarrow> int \<Rightarrow> int" where
  "last_place f m e = max (emin f) (e + bitlen m - prec f)"

definition round_mant :: "int \<Rightarrow> nat \<Rightarrow> int" where
  "round_mant m k =
     (let q = m div 2 ^ k; r = m mod 2 ^ k
      in if 2 * r > 2 ^ k \<or> (2 * r = 2 ^ k \<and> odd q) then q + 1 else q)"

definition finish_fp :: "fmt \<Rightarrow> bool \<Rightarrow> int \<Rightarrow> int \<Rightarrow> fp" where
  "finish_fp f s q x =
     (let (q, x) = (if q = 2 ^ nat (prec f) then (2 ^ nat (prec f - 1), x + 1) else (q, x))
      in if x > emax f then Inf s else Fin s q x)"

definition round_fp :: "fmt \<Rightarrow> bool \<Rightarrow> int \<Rightarrow> int \<Rightarrow> fp" where
  "round_fp f s m e =
     (if m = 0 then Fin s 0 (emin f)
      else let x = last_place f m e
           in if x \<le> e then finish_fp f s (m * 2 ^ nat (e - x)) x
              else finish_fp f s (round_mant m (nat (x - e))) x)"

section \<open>Operations\<close>

definition signed :: "bool \<Rightarrow> int \<Rightarrow> int" where
  "signed s m = (if s then - m else m)"

definition fp_of_int :: "fmt \<Rightarrow> int \<Rightarrow> fp" where
  "fp_of_int f i = round_fp f (i < 0) \<bar>i\<bar> 0"

fun fp_neg :: "fp \<Rightarrow> fp" where
  "fp_neg NaN = NaN"
| "fp_neg (Inf s) = Inf (\<not> s)"
| "fp_neg (Fin s m e) = Fin (\<not> s) m e"

fun fp_abs :: "fp \<Rightarrow> fp" where
  "fp_abs NaN = NaN"
| "fp_abs (Inf s) = Inf False"
| "fp_abs (Fin s m e) = Fin False m e"

text \<open>The two mantissas with their signs, brought to the common exponent.\<close>

definition align :: "bool \<Rightarrow> int \<Rightarrow> int \<Rightarrow> int \<Rightarrow> int" where
  "align s m e x = signed s m * 2 ^ nat (e - x)"

fun fp_add :: "fmt \<Rightarrow> fp \<Rightarrow> fp \<Rightarrow> fp" where
  "fp_add f NaN _ = NaN"
| "fp_add f _ NaN = NaN"
| "fp_add f (Inf s) (Inf t) = (if s = t then Inf s else NaN)"
| "fp_add f (Inf s) (Fin _ _ _) = Inf s"
| "fp_add f (Fin _ _ _) (Inf t) = Inf t"
| "fp_add f (Fin s m e) (Fin t n d) =
     (let x = min e d; v = align s m e x + align t n d x
      in if v = 0 then Fin (s \<and> t) 0 (emin f) else round_fp f (v < 0) \<bar>v\<bar> x)"

definition fp_sub :: "fmt \<Rightarrow> fp \<Rightarrow> fp \<Rightarrow> fp" where
  "fp_sub f a b = fp_add f a (fp_neg b)"

fun fp_mul :: "fmt \<Rightarrow> fp \<Rightarrow> fp \<Rightarrow> fp" where
  "fp_mul f NaN _ = NaN"
| "fp_mul f _ NaN = NaN"
| "fp_mul f (Inf s) (Inf t) = Inf (s \<noteq> t)"
| "fp_mul f (Inf s) (Fin t n _) = (if n = 0 then NaN else Inf (s \<noteq> t))"
| "fp_mul f (Fin s m _) (Inf t) = (if m = 0 then NaN else Inf (s \<noteq> t))"
| "fp_mul f (Fin s m e) (Fin t n d) = round_fp f (s \<noteq> t) (m * n) (e + d)"

text \<open>
  Quotient and square root compute two more bits than the format holds and one bit that records
  whether anything was left over.
\<close>

fun fp_div :: "fmt \<Rightarrow> fp \<Rightarrow> fp \<Rightarrow> fp" where
  "fp_div f NaN _ = NaN"
| "fp_div f _ NaN = NaN"
| "fp_div f (Inf s) (Inf t) = NaN"
| "fp_div f (Inf s) (Fin t n _) = Inf (s \<noteq> t)"
| "fp_div f (Fin s m _) (Inf t) = Fin (s \<noteq> t) 0 (emin f)"
| "fp_div f (Fin s m e) (Fin t n d) =
     (if n = 0 then (if m = 0 then NaN else Inf (s \<noteq> t))
      else let k = prec f + 2 + bitlen n; a = m * 2 ^ nat k
           in round_fp f (s \<noteq> t) (2 * (a div n) + (if a mod n = 0 then 0 else 1)) (e - d - k - 1))"

function isqrt :: "int \<Rightarrow> int" where
  "isqrt n =
     (if n \<le> 0 then 0
      else let r = 2 * isqrt (n div 4) in if (r + 1) * (r + 1) \<le> n then r + 1 else r)"
  by pat_completeness auto
termination
  by (relation "measure nat") auto

declare isqrt.simps [simp del]

fun fp_sqrt :: "fmt \<Rightarrow> fp \<Rightarrow> fp" where
  "fp_sqrt f NaN = NaN"
| "fp_sqrt f (Inf s) = (if s then NaN else Inf False)"
| "fp_sqrt f (Fin s m e) =
     (if m = 0 then Fin s 0 (emin f)
      else if s then NaN
      else let k = 2 * (prec f + 2) + (if even e then 0 else 1); a = m * 2 ^ nat k; r = isqrt a
           in round_fp f False (2 * r + (if r * r = a then 0 else 1)) ((e - k) div 2 - 1))"

fun fp_lt :: "fp \<Rightarrow> fp \<Rightarrow> bool" where
  "fp_lt NaN _ = False"
| "fp_lt _ NaN = False"
| "fp_lt (Inf s) (Inf t) = (s \<and> \<not> t)"
| "fp_lt (Inf s) (Fin _ _ _) = s"
| "fp_lt (Fin _ _ _) (Inf t) = (\<not> t)"
| "fp_lt (Fin s m e) (Fin t n d) = (let x = min e d in align s m e x < align t n d x)"

fun fp_eq :: "fp \<Rightarrow> fp \<Rightarrow> bool" where
  "fp_eq NaN _ = False"
| "fp_eq _ NaN = False"
| "fp_eq (Inf s) (Inf t) = (s = t)"
| "fp_eq (Inf s) (Fin _ _ _) = False"
| "fp_eq (Fin _ _ _) (Inf t) = False"
| "fp_eq (Fin s m e) (Fin t n d) = (let x = min e d in align s m e x = align t n d x)"

definition fp_gt :: "fp \<Rightarrow> fp \<Rightarrow> bool" where
  "fp_gt a b = fp_lt b a"

definition fp_le :: "fp \<Rightarrow> fp \<Rightarrow> bool" where
  "fp_le a b \<longleftrightarrow> fp_lt a b \<or> fp_eq a b"

text \<open>Conversion between the formats, and to an integer: truncation, which needs a finite value.\<close>

fun fp_convert :: "fmt \<Rightarrow> fp \<Rightarrow> fp" where
  "fp_convert f (Fin s m e) = round_fp f s m e"
| "fp_convert f a = a"

fun fp_trunc :: "fp \<Rightarrow> int option" where
  "fp_trunc (Fin s m e) = Some (signed s (if 0 \<le> e then m * 2 ^ nat e else m div 2 ^ nat (- e)))"
| "fp_trunc _ = None"

text \<open>A conversion to a signed type of \<open>n\<close> bits is defined when the truncated value fits it.\<close>

definition fp_to_signed :: "nat \<Rightarrow> fp \<Rightarrow> fault + int" where
  "fp_to_signed n a =
     (case fp_trunc a of
        None \<Rightarrow> Inl Unspecified
      | Some i \<Rightarrow> if - (2 ^ (n - 1)) \<le> i \<and> i < 2 ^ (n - 1) then Inr i else Inl Unspecified)"

section \<open>Exact operations and the order\<close>

lemma bitlen_nonneg [simp]: "0 \<le> bitlen n"
  by (induction n rule: bitlen.induct) (subst bitlen.simps, auto)

lemma bitlen_bounds: "0 < n \<Longrightarrow> 0 < bitlen n \<and> 2 ^ nat (bitlen n - 1) \<le> n \<and> n < 2 ^ nat (bitlen n)"
proof (induction n rule: bitlen.induct)
  case (1 n)
  have b: "bitlen n = 1 + bitlen (n div 2)" using 1(2) by (subst bitlen.simps) simp
  show ?case
  proof (cases "n = 1")
    case True
    then show ?thesis using b by (simp add: bitlen.simps)
  next
    case False
    with 1 have IH: "0 < bitlen (n div 2)" "2 ^ nat (bitlen (n div 2) - 1) \<le> n div 2"
      "n div 2 < 2 ^ nat (bitlen (n div 2))" by auto
    define k where "k = nat (bitlen (n div 2) - 1)"
    have e: "nat (bitlen (n div 2)) = Suc k" "nat (bitlen n) = Suc (Suc k)" "nat (bitlen n - 1) = Suc k"
      using IH(1) b by (auto simp: k_def)
    have "2 ^ k \<le> n div 2" "n div 2 < 2 ^ Suc k" using IH(2,3) e k_def by simp_all
    moreover have "2 * (n div 2) \<le> n" "n < 2 * (n div 2) + 2" by presburger+
    ultimately have "2 ^ Suc k \<le> n" "n < 2 ^ Suc (Suc k)" by auto
    then show ?thesis unfolding e using IH(1) b by simp
  qed
qed

lemma bitlen_scale: "0 < m \<Longrightarrow> bitlen (m * 2 ^ k) = bitlen m + int k"
proof (induction k)
  case (Suc k)
  have p: "0 < m * 2 ^ k" using Suc.prems by simp
  have d: "m * 2 ^ Suc k = 2 * (m * 2 ^ k)" by simp
  have "bitlen (2 * (m * 2 ^ k)) = 1 + bitlen (m * 2 ^ k)"
    using p by (subst bitlen.simps) simp
  with Suc show ?case unfolding d by simp
qed simp

lemma bitlen_le: "m < 2 ^ k \<Longrightarrow> bitlen m \<le> int k"
proof (cases "0 < m")
  case True
  assume "m < 2 ^ k"
  with bitlen_bounds [OF True] have "(2::int) ^ nat (bitlen m - 1) < 2 ^ k" by linarith
  then have "nat (bitlen m - 1) < k" by (simp add: power_strict_increasing_iff)
  then show ?thesis by linarith
qed (simp add: bitlen.simps)

lemma prec_pos: "1 < prec f" "emin f < 0" "0 < emax f" "emin f + prec f < 0" "prec f \<le> emax f"
  by (cases f; simp)+

lemma last_place_scale: "0 < m \<Longrightarrow> last_place f (m * 2 ^ k) (e - int k) = last_place f m e"
  by (simp add: last_place_def bitlen_scale)

lemma round_mant_exact: "round_mant (m * 2 ^ k) k = m"
  by (simp add: round_mant_def Let_def)

lemma round_mant_scale: "round_mant (m * 2 ^ k) (j + k) = round_mant m j"
proof -
  let ?c = "(2::int) ^ k"
  have c: "0 < ?c" by simp
  have q: "m * ?c div (2 ^ j * ?c) = m div 2 ^ j" by (rule div_mult_mult2) simp
  have r: "m * ?c mod (2 ^ j * ?c) = m mod 2 ^ j * ?c" by (rule mod_mult_mult2)
  have gt: "2 * (x * ?c) > y * ?c \<longleftrightarrow> 2 * x > y" and eq: "2 * (x * ?c) = y * ?c \<longleftrightarrow> 2 * x = y" for x y
    using c by (metis mult.assoc mult_less_cancel_right_pos, metis mult.assoc mult_right_cancel less_irrefl)
  show ?thesis unfolding round_mant_def Let_def power_add q r gt eq ..
qed

lemma round_scale:
  assumes "0 \<le> m"
  shows "round_fp f s (m * 2 ^ k) (e - int k) = round_fp f s m e"
proof (cases "m = 0")
  case False
  with assms have m: "0 < m" by simp
  let ?x = "last_place f m e"
  consider (lo) "?x \<le> e - int k" | (mid) "e - int k < ?x" "?x \<le> e" | (hi) "e < ?x" by linarith
  then show ?thesis
  proof cases
    case lo
    then have "nat (e - ?x) = k + nat (e - int k - ?x)" by linarith
    with lo m show ?thesis
      by (simp add: round_fp_def Let_def last_place_scale power_add mult.assoc)
  next
    case mid
    define j where "j = nat (?x - (e - int k))"
    have k: "k = nat (e - ?x) + j" using mid by (simp add: j_def)
    have "round_mant (m * 2 ^ k) j = m * 2 ^ nat (e - ?x)"
      using round_mant_exact [of "m * 2 ^ nat (e - ?x)" j] k by (simp add: power_add mult.assoc)
    with mid m show ?thesis
      by (simp add: round_fp_def Let_def last_place_scale j_def)
  next
    case hi
    then have "nat (?x - (e - int k)) = nat (?x - e) + k" by linarith
    with hi m show ?thesis
      by (simp add: round_fp_def Let_def last_place_scale round_mant_scale)
  qed
qed (simp add: round_fp_def)

text \<open>Integers below \<open>2 ^ prec\<close> are represented exactly.\<close>

definition fits_fmt :: "fmt \<Rightarrow> int \<Rightarrow> bool" where
  "fits_fmt f i \<longleftrightarrow> \<bar>i\<bar> < 2 ^ nat (prec f)"

lemma fp_of_int_exact:
  assumes "fits_fmt f i"
  obtains k where "fp_of_int f i = Fin (i < 0) (\<bar>i\<bar> * 2 ^ k) (- int k)"
proof (cases "i = 0")
  case True
  then show ?thesis using that [of "nat (- emin f)"] prec_pos(2) [of f]
    by (simp add: fp_of_int_def round_fp_def)
next
  case False
  let ?m = "\<bar>i\<bar>"
  have b: "bitlen ?m \<le> prec f" using bitlen_le [of ?m "nat (prec f)"] assms prec_pos(1) [of f] by (simp add: fits_fmt_def)
  let ?x = "last_place f ?m 0"
  have x: "?x \<le> 0" using b prec_pos(2) [of f] by (simp add: last_place_def)
  have xe: "?x < emax f" using x prec_pos(3) [of f] by simp
  have xl: "- ?x \<le> prec f - bitlen ?m" by (simp add: last_place_def)
  have "?m * 2 ^ nat (- ?x) < 2 ^ nat (bitlen ?m) * 2 ^ nat (- ?x)"
    using bitlen_bounds [of ?m] False by simp
  also have "\<dots> = 2 ^ (nat (bitlen ?m) + nat (- ?x))" by (simp only: power_add)
  also have "\<dots> \<le> 2 ^ nat (prec f)"
    using xl x bitlen_nonneg [of ?m] by (intro power_increasing) linarith+
  finally have "?m * 2 ^ nat (- ?x) \<noteq> 2 ^ nat (prec f)" by simp
  then have "fp_of_int f i = Fin (i < 0) (?m * 2 ^ nat (- ?x)) ?x"
    using False x xe by (simp add: fp_of_int_def round_fp_def Let_def finish_fp_def)
  then show ?thesis using that [of "nat (- ?x)"] x by simp
qed

lemma align_int:
  "x \<le> - int k \<Longrightarrow> align (i < 0) (\<bar>i\<bar> * 2 ^ k) (- int k) x = i * 2 ^ nat (- x)"
proof -
  assume "x \<le> - int k"
  then have "nat (- x) = k + nat (- int k - x)" by linarith
  then show ?thesis by (simp add: align_def signed_def power_add)
qed

lemma fp_add_int:
  assumes "fits_fmt f a" "fits_fmt f b"
  shows "fp_add f (fp_of_int f a) (fp_of_int f b) = fp_of_int f (a + b)"
proof -
  obtain k where k: "fp_of_int f a = Fin (a < 0) (\<bar>a\<bar> * 2 ^ k) (- int k)" by (rule fp_of_int_exact [OF assms(1)])
  obtain j where j: "fp_of_int f b = Fin (b < 0) (\<bar>b\<bar> * 2 ^ j) (- int j)" by (rule fp_of_int_exact [OF assms(2)])
  let ?x = "min (- int k) (- int j)"
  define n where "n = nat (- ?x)"
  have x: "?x = 0 - int n" by (auto simp: n_def)
  have v: "align (a < 0) (\<bar>a\<bar> * 2 ^ k) (- int k) ?x + align (b < 0) (\<bar>b\<bar> * 2 ^ j) (- int j) ?x = (a + b) * 2 ^ n"
    by (simp add: align_int n_def algebra_simps)
  have "fp_add f (fp_of_int f a) (fp_of_int f b) =
      (if (a + b) * 2 ^ n = 0 then Fin (a < 0 \<and> b < 0) 0 (emin f)
       else round_fp f ((a + b) * 2 ^ n < 0) \<bar>(a + b) * 2 ^ n\<bar> ?x)"
    unfolding k j fp_add.simps Let_def v ..
  also have "\<dots> = (if (a + b) * 2 ^ n = 0 then Fin (a < 0 \<and> b < 0) 0 (emin f)
       else round_fp f ((a + b) * 2 ^ n < 0) \<bar>(a + b) * 2 ^ n\<bar> (0 - int n))"
    unfolding x ..
  also have "\<dots> = fp_of_int f (a + b)"
  proof (cases "a + b = 0")
    case True
    then show ?thesis by (auto simp: fp_of_int_def round_fp_def)
  next
    case False
    have "round_fp f (a + b < 0) (\<bar>a + b\<bar> * 2 ^ n) (0 - int n) = round_fp f (a + b < 0) \<bar>a + b\<bar> 0"
      by (rule round_scale) simp
    with False show ?thesis by (simp add: fp_of_int_def abs_mult mult_less_0_iff)
  qed
  finally show ?thesis .
qed

lemma fp_neg_of_int: "fp_neg (fp_of_int f i) = (if i = 0 then Fin True 0 (emin f) else fp_of_int f (- i))"
  by (auto simp: fp_of_int_def round_fp_def finish_fp_def Let_def)

lemma fp_lt_int:
  assumes "fits_fmt f a" "fits_fmt f b"
  shows "fp_lt (fp_of_int f a) (fp_of_int f b) \<longleftrightarrow> a < b"
proof -
  obtain k where k: "fp_of_int f a = Fin (a < 0) (\<bar>a\<bar> * 2 ^ k) (- int k)" by (rule fp_of_int_exact [OF assms(1)])
  obtain j where j: "fp_of_int f b = Fin (b < 0) (\<bar>b\<bar> * 2 ^ j) (- int j)" by (rule fp_of_int_exact [OF assms(2)])
  show ?thesis unfolding k j fp_lt.simps Let_def by (simp add: align_int)
qed

lemma fp_trunc_int:
  assumes "fits_fmt f i" shows "fp_trunc (fp_of_int f i) = Some i"
proof -
  obtain k where k: "fp_of_int f i = Fin (i < 0) (\<bar>i\<bar> * 2 ^ k) (- int k)" by (rule fp_of_int_exact [OF assms(1)])
  have "nat (1 + int n) = Suc n" for n by linarith
  then show ?thesis unfolding k by (cases k) (auto simp: signed_def add.commute)
qed

lemma align_pos: "x \<le> e \<Longrightarrow> align s m e x = align s m e e * 2 ^ nat (e - x)"
  by (simp add: align_def)

lemma align_lt:
  assumes "x \<le> min e d"
  shows "align s m e x < align t n d x \<longleftrightarrow> fp_lt (Fin s m e) (Fin t n d)"
proof -
  let ?y = "min e d"
  have "nat (e - x) = nat (e - ?y) + nat (?y - x)" "nat (d - x) = nat (d - ?y) + nat (?y - x)"
    using assms by linarith+
  then have "align s m e x = align s m e ?y * 2 ^ nat (?y - x)" "align t n d x = align t n d ?y * 2 ^ nat (?y - x)"
    by (simp_all add: align_def power_add)
  then show ?thesis by (simp add: Let_def)
qed

lemma fp_lt_irrefl [simp]: "\<not> fp_lt a a"
  by (cases a) (auto simp: Let_def)

lemma fp_lt_trans: "fp_lt a b \<Longrightarrow> fp_lt b c \<Longrightarrow> fp_lt a c"
proof -
  assume ab: "fp_lt a b" and bc: "fp_lt b c"
  show ?thesis
  proof (cases "\<exists>s m e t n d u l g. a = Fin s m e \<and> b = Fin t n d \<and> c = Fin u l g")
    case True
    then obtain s m e t n d u l g where v: "a = Fin s m e" "b = Fin t n d" "c = Fin u l g" by blast
    let ?x = "min e (min d g)"
    have "align s m e ?x < align t n d ?x" "align t n d ?x < align u l g ?x"
      using ab bc unfolding v by (auto simp only: align_lt min.cobounded1 min.cobounded2 min.coboundedI2 min.assoc min.left_commute)
    then have "align s m e ?x < align u l g ?x" by simp
    moreover have "?x \<le> min e g" by simp
    ultimately show ?thesis unfolding v using align_lt by blast
  next
    case False
    with ab bc show ?thesis by (cases a; cases b; cases c) auto
  qed
qed

lemma fp_lt_asym: "fp_lt a b \<Longrightarrow> \<not> fp_lt b a"
  using fp_lt_trans fp_lt_irrefl by blast

lemma fp_abs_int: "fp_abs (fp_of_int f i) = fp_of_int f \<bar>i\<bar>"
  by (simp add: fp_of_int_def round_fp_def finish_fp_def Let_def split: if_splits prod.splits)

lemma fp_eq_int:
  assumes "fits_fmt f a" "fits_fmt f b"
  shows "fp_eq (fp_of_int f a) (fp_of_int f b) \<longleftrightarrow> a = b"
proof -
  obtain k where k: "fp_of_int f a = Fin (a < 0) (\<bar>a\<bar> * 2 ^ k) (- int k)" by (rule fp_of_int_exact [OF assms(1)])
  obtain j where j: "fp_of_int f b = Fin (b < 0) (\<bar>b\<bar> * 2 ^ j) (- int j)" by (rule fp_of_int_exact [OF assms(2)])
  show ?thesis unfolding k j fp_eq.simps Let_def by (simp add: align_int)
qed

lemma fp_le_int: "fits_fmt f a \<Longrightarrow> fits_fmt f b \<Longrightarrow> fp_le (fp_of_int f a) (fp_of_int f b) \<longleftrightarrow> a \<le> b"
  by (auto simp: fp_le_def fp_lt_int fp_eq_int)

lemma fp_gt_int: "fits_fmt f a \<Longrightarrow> fits_fmt f b \<Longrightarrow> fp_gt (fp_of_int f a) (fp_of_int f b) \<longleftrightarrow> b < a"
  by (simp add: fp_gt_def fp_lt_int)

lemma fits_fmt_neg [simp]: "fits_fmt f (- i) = fits_fmt f i"
  by (simp add: fits_fmt_def)

lemma fp_sub_int:
  assumes "fits_fmt f a" "fits_fmt f b"
  shows "fp_sub f (fp_of_int f a) (fp_of_int f b) = fp_of_int f (a - b)"
proof (cases "b = 0")
  case False
  with assms show ?thesis
    using fp_add_int [of f a "- b"] by (simp add: fp_sub_def fp_neg_of_int)
next
  case True
  obtain k where k: "fp_of_int f a = Fin (a < 0) (\<bar>a\<bar> * 2 ^ k) (- int k)" by (rule fp_of_int_exact [OF assms(1)])
  let ?x = "min (- int k) (emin f)"
  define n where "n = nat (- ?x)"
  have x: "?x = 0 - int n" by (auto simp: n_def)
  have v: "align (a < 0) (\<bar>a\<bar> * 2 ^ k) (- int k) ?x + align True 0 (emin f) ?x = a * 2 ^ n"
    by (simp add: align_int n_def) (simp add: align_def signed_def)
  have "fp_sub f (fp_of_int f a) (fp_of_int f b) =
      (if a * 2 ^ n = 0 then Fin (a < 0) 0 (emin f) else round_fp f (a * 2 ^ n < 0) \<bar>a * 2 ^ n\<bar> ?x)"
    using True unfolding fp_sub_def fp_neg_of_int k by (simp only: if_True fp_add.simps Let_def v simp_thms)
  also have "\<dots> = (if a * 2 ^ n = 0 then Fin (a < 0) 0 (emin f) else round_fp f (a * 2 ^ n < 0) \<bar>a * 2 ^ n\<bar> (0 - int n))"
    unfolding x ..
  also have "\<dots> = fp_of_int f a"
  proof (cases "a = 0")
    case False
    have "round_fp f (a < 0) (\<bar>a\<bar> * 2 ^ n) (0 - int n) = round_fp f (a < 0) \<bar>a\<bar> 0" by (rule round_scale) simp
    with False show ?thesis by (simp add: fp_of_int_def abs_mult mult_less_0_iff)
  qed (simp add: fp_of_int_def round_fp_def)
  finally show ?thesis using True by simp
qed

end
