(* ===== verification/Event_Buffer.thy ===== *)
theory Event_Buffer
  imports Fp
begin

text \<open>
  The event types of base/Event.hpp, the growing buffers of base/EventBuffer.hpp that carry them
  between processing stages, the null sink of base/EventSourceSink.hpp and the shared counters of
  base/Instrumentation.cpp. A buffer is its memory block (of which the constructor initialises
  nothing), its capacity and the number of slots in use. The interface \<open>event_sequence\<close> states what
  the stages rely on: the slots in use form a sequence that grows at its end.
  A pointer to a record of a previous buffer is modelled by the record it points to, since nothing
  writes to a buffer that has been handed on; \<open>None\<close> is the null pointer.
\<close>

section \<open>Events\<close>

record RawHit =
  rh_valid :: bool
  rh_time :: int
  rh_timeEnd :: int
  rh_timeEndQ :: int
  rh_prevEventFlags :: u16
  rh_prevEventTime :: int
  rh_channelID :: u32
  rh_t1fine :: u16
  rh_t2fine :: u16
  rh_qfine :: u16
  rh_tacID :: u16

record Hit =
  h_valid :: bool
  h_raw :: "RawHit option"
  h_time :: fp
  h_timeEnd :: fp
  h_energy :: fp
  h_qT1 :: fp
  h_qT2 :: fp
  h_region :: int
  h_xi :: int
  h_yi :: int
  h_x :: fp
  h_y :: fp
  h_z :: fp

definition GammaPhoton_maxHits :: nat where
  "GammaPhoton_maxHits = 256"

record GammaPhoton =
  g_valid :: bool
  g_time :: fp
  g_energy :: fp
  g_region :: int
  g_x :: fp
  g_y :: fp
  g_z :: fp
  g_nHits :: int
  g_hits :: "Hit option list"

definition Coincidence_maxPhotons :: nat where
  "Coincidence_maxPhotons = 2"

record Coincidence =
  c_valid :: bool
  c_time :: fp
  c_nPhotons :: int
  c_photons :: "GammaPhoton option list"

text \<open>The arrays inside the events have their declared lengths.\<close>

definition wf_photon :: "GammaPhoton \<Rightarrow> bool" where
  "wf_photon g \<longleftrightarrow> length (g_hits g) = GammaPhoton_maxHits"

definition wf_coincidence :: "Coincidence \<Rightarrow> bool" where
  "wf_coincidence c \<longleftrightarrow> length (c_photons c) = Coincidence_maxPhotons"

section \<open>Shared counters\<close>

definition atomicIncrement :: "u32 \<Rightarrow> u32" where
  "atomicIncrement v = v + 1"

definition atomicAdd :: "u32 \<Rightarrow> u32 \<Rightarrow> u32" where
  "atomicAdd v increment = v + increment"

section \<open>Buffers\<close>

record 'e EventBuffer =
  bufferTMin :: int
  bufferTMax :: int
  buf :: "nat \<Rightarrow> 'e"
  capacity :: nat
  used :: nat

definition getTMin :: "'e EventBuffer \<Rightarrow> int" where
  "getTMin b = bufferTMin b"

definition getTMax :: "'e EventBuffer \<Rightarrow> int" where
  "getTMax b = bufferTMax b"

definition setTMax :: "'e EventBuffer \<Rightarrow> int \<Rightarrow> 'e EventBuffer" where
  "setTMax b t = b\<lparr>bufferTMax := t\<rparr>"

definition round_capacity :: "u32 \<Rightarrow> u32" where
  "round_capacity initialCapacity = (initialCapacity div 1024 + 1) * 1024"

text \<open>
  \<open>junk\<close> and \<open>junk_tmax\<close> are what the allocated memory happens to hold; the constructors do not set
  the upper time limit.
\<close>

definition newEventBuffer :: "(nat \<Rightarrow> 'e) \<Rightarrow> int \<Rightarrow> u32 \<Rightarrow> int \<Rightarrow> 'e EventBuffer" where
  "newEventBuffer junk junk_tmax initialCapacity tMin =
     \<lparr>bufferTMin = tMin, bufferTMax = junk_tmax, buf = junk,
      capacity = unat (round_capacity initialCapacity), used = 0\<rparr>"

definition newChildBuffer ::
  "(nat \<Rightarrow> 'e) \<Rightarrow> int \<Rightarrow> u32 \<Rightarrow> 'p EventBuffer \<Rightarrow> 'e EventBuffer" where
  "newChildBuffer junk junk_tmax initialCapacity parent =
     newEventBuffer junk junk_tmax initialCapacity (getTMin parent)"

definition reserve :: "'e EventBuffer \<Rightarrow> u32 \<Rightarrow> 'e EventBuffer" where
  "reserve b newCapacity =
     (if unat newCapacity \<le> capacity b then b else b\<lparr>capacity := unat newCapacity\<rparr>)"

text \<open>
  \<open>getWriteSlot\<close> makes room and returns a reference to the slot after the last one in use;
  \<open>slot\<close> reads through that reference and \<open>write_slot\<close> assigns through it.
\<close>

definition getWriteSlot :: "'e EventBuffer \<Rightarrow> 'e EventBuffer" where
  "getWriteSlot b =
     (if used b \<ge> capacity b
      then b\<lparr>capacity := capacity b + (capacity b div 10240 + 1) * 1024\<rparr> else b)"

definition slot :: "'e EventBuffer \<Rightarrow> fault + 'e" where
  "slot b = (if used b < capacity b then Inr (buf b (used b)) else Inl OutOfBounds)"

definition write_slot :: "'e EventBuffer \<Rightarrow> 'e \<Rightarrow> fault + 'e EventBuffer" where
  "write_slot b e =
     (if used b < capacity b then Inr (b\<lparr>buf := (buf b)(used b := e)\<rparr>) else Inl OutOfBounds)"

definition pushWriteSlot :: "'e EventBuffer \<Rightarrow> 'e EventBuffer" where
  "pushWriteSlot b = b\<lparr>used := used b + 1\<rparr>"

definition push :: "'e EventBuffer \<Rightarrow> 'e \<Rightarrow> fault + 'e EventBuffer" where
  "push b e = rbind (write_slot (getWriteSlot b) e) (\<lambda>b. Inr (pushWriteSlot b))"

definition getSize :: "'e EventBuffer \<Rightarrow> nat" where
  "getSize b = used b"

definition get :: "'e EventBuffer \<Rightarrow> nat \<Rightarrow> fault + 'e" where
  "get b index = (if index < capacity b then Inr (buf b index) else Inl OutOfBounds)"

text \<open>\<open>getSize() - 1\<close> wraps to the largest index when the buffer is empty.\<close>

definition getLast :: "'e EventBuffer \<Rightarrow> fault + 'e" where
  "getLast b = get b (if getSize b = 0 then 2 ^ 64 - 1 else getSize b - 1)"

section \<open>The sequence a buffer holds\<close>

definition wf_buffer :: "'e EventBuffer \<Rightarrow> bool" where
  "wf_buffer b \<longleftrightarrow> used b \<le> capacity b"

definition contents :: "'e EventBuffer \<Rightarrow> 'e list" where
  "contents b = map (buf b) [0..<used b]"

text \<open>
  The interface the processing stages use: \<open>inv\<close> is what every operation keeps and \<open>view\<close> the
  sequence of events of a buffer.
\<close>

locale event_sequence =
  fixes inv :: "'b \<Rightarrow> bool" and view :: "'b \<Rightarrow> 'e list"
    and push_op :: "'b \<Rightarrow> 'e \<Rightarrow> fault + 'b" and get_op :: "'b \<Rightarrow> nat \<Rightarrow> fault + 'e"
    and size_op :: "'b \<Rightarrow> nat"
  assumes push_ok: "inv b \<Longrightarrow> \<exists>b'. push_op b e = Inr b' \<and> inv b' \<and> view b' = view b @ [e]"
    and get_ok: "inv b \<Longrightarrow> i < length (view b) \<Longrightarrow> get_op b i = Inr (view b ! i)"
    and size_ok: "size_op b = length (view b)"
begin

fun push_list :: "'b \<Rightarrow> 'e list \<Rightarrow> fault + 'b" where
  "push_list b [] = Inr b"
| "push_list b (e # es) = rbind (push_op b e) (\<lambda>b. push_list b es)"

lemma push_list_ok: "inv b \<Longrightarrow> \<exists>b'. push_list b es = Inr b' \<and> inv b' \<and> view b' = view b @ es"
proof (induction es arbitrary: b)
  case (Cons e es)
  from push_ok [OF Cons.prems, of e] obtain b1
    where b1: "push_op b e = Inr b1" "inv b1" "view b1 = view b @ [e]" by blast
  from Cons.IH [OF b1(2)] b1 show ?case by fastforce
qed simp

lemma get_push_list:
  assumes "inv b" "push_list b es = Inr b'" "i < length es"
  shows "get_op b' (size_op b + i) = Inr (es ! i)"
  using push_list_ok [OF assms(1), of es] assms by (auto simp: size_ok get_ok nth_append)

end

lemma write_slot_ok:
  assumes "wf_buffer b"
  shows "\<exists>b'. write_slot (getWriteSlot b) e = Inr b' \<and> wf_buffer (pushWriteSlot b') \<and> wf_buffer b'
     \<and> used b' = used b \<and> bufferTMin b' = bufferTMin b
     \<and> contents b' = contents b \<and> contents (pushWriteSlot b') = contents b @ [e]"
  using assms by (auto simp: write_slot_def getWriteSlot_def wf_buffer_def pushWriteSlot_def contents_def)

lemma slot_ok: "wf_buffer b \<Longrightarrow> \<exists>e. slot (getWriteSlot b) = Inr e"
  by (auto simp: slot_def getWriteSlot_def wf_buffer_def)

lemma getWriteSlot_keeps [simp]:
  "used (getWriteSlot b) = used b" "bufferTMin (getWriteSlot b) = bufferTMin b"
  "contents (getWriteSlot b) = contents b" "buf (getWriteSlot b) = buf b"
  by (auto simp: getWriteSlot_def contents_def)

lemma push_law:
  "wf_buffer b \<Longrightarrow> \<exists>b'. push b e = Inr b' \<and> wf_buffer b' \<and> contents b' = contents b @ [e]"
  using write_slot_ok [of b e] by (auto simp: push_def)

interpretation eb: event_sequence wf_buffer contents push get getSize
proof (unfold_locales, goal_cases)
  case (1 b e)
  then show ?case by (rule push_law)
qed (auto simp: get_def contents_def wf_buffer_def getSize_def)

lemma new_wf [simp]:
  "wf_buffer (newEventBuffer junk tm n t)" "contents (newEventBuffer junk tm n t) = []"
  "wf_buffer (newChildBuffer junk tm n p)" "contents (newChildBuffer junk tm n p) = []"
  by (simp_all add: newChildBuffer_def newEventBuffer_def wf_buffer_def contents_def)

lemma getSize_contents: "getSize b = length (contents b)"
  by (rule eb.size_ok)

lemma get_contents: "wf_buffer b \<Longrightarrow> i < getSize b \<Longrightarrow> get b i = Inr (contents b ! i)"
  by (simp add: eb.get_ok getSize_contents)

text \<open>Every increase leaves room for at least one more event, and for a thousand at first.\<close>

lemma capacity_after_slot: "used (getWriteSlot b) < capacity (getWriteSlot b) \<or> used b > capacity b"
  by (auto simp: getWriteSlot_def)

lemma round_capacity_bound:
  assumes "unat n + 1024 < 2 ^ 32"
  shows "unat n < unat (round_capacity n)" and "unat (round_capacity n) \<le> unat n + 1024"
proof -
  let ?m = "(unat n div 1024 + 1) * 1024"
  have n: "?m \<le> unat n + 1024" "unat n < ?m" by simp_all
  have "unat (n div 1024) = unat n div 1024" by (simp add: unat_div)
  then have "unat (round_capacity n) = ?m"
    using n assms by (simp add: round_capacity_def unat_word_ariths unat_div del: distrib_right_numeral)
  with n show "unat n < unat (round_capacity n)" and "unat (round_capacity n) \<le> unat n + 1024" by auto
qed

fun push_events :: "'e EventBuffer \<Rightarrow> 'e list \<Rightarrow> fault + 'e EventBuffer" where
  "push_events b [] = Inr b"
| "push_events b (e # es) = rbind (push b e) (\<lambda>b. push_events b es)"

lemma push_events_eq: "push_events b es = eb.push_list b es"
  by (induction es arbitrary: b) simp_all

lemma push_events_ok:
  "wf_buffer b \<Longrightarrow> \<exists>b'. push_events b es = Inr b' \<and> wf_buffer b' \<and> contents b' = contents b @ es"
  using eb.push_list_ok by (simp add: push_events_eq)

lemma push_events_tmin: "push_events b es = Inr b' \<Longrightarrow> getTMin b' = getTMin b"
proof (induction es arbitrary: b)
  case (Cons e es)
  then obtain b1 where "push b e = Inr b1" "push_events b1 es = Inr b'" by (auto simp: rbind_Inr_iff)
  with Cons.IH show ?case
    by (auto simp: push_def write_slot_def getWriteSlot_def pushWriteSlot_def getTMin_def split: if_splits)
qed simp

text \<open>
  C12: Writing events into a fresh buffer, whatever its requested capacity and whatever its memory
  held before, never leaves the allocated block, and reading slot \<open>i\<close> back gives the \<open>i\<close>-th event
  that was pushed; the size is the number of pushes and the lower time limit is kept.
\<close>

theorem buffer_sequence:
  "\<exists>b. push_events (newEventBuffer junk tmax n tMin) es = Inr b \<and> getSize b = length es
     \<and> getTMin b = tMin \<and> map (get b) [0..<getSize b] = map Inr es"
proof -
  let ?b = "newEventBuffer junk tmax n tMin"
  obtain b where b: "push_events ?b es = Inr b" "wf_buffer b" "contents b = es"
    using push_events_ok [OF new_wf(1), of junk tmax n tMin es] by auto
  moreover have "getTMin b = tMin"
    using push_events_tmin [OF b(1)] by (simp add: getTMin_def newEventBuffer_def)
  moreover have "map (get b) [0..<getSize b] = map Inr (contents b)"
    by (rule nth_equalityI) (simp_all add: get_contents b(2) getSize_contents)
  ultimately show ?thesis by (auto simp: getSize_contents)
qed

section \<open>The null sink\<close>

text \<open>\<open>NullSink\<close> keeps the last buffer alive and drops the one before it.\<close>

record 'e NullSink =
  lastBuffer :: "'e EventBuffer option"

definition newNullSink :: "'e NullSink" where
  "newNullSink = \<lparr>lastBuffer = None\<rparr>"

definition null_pushT0 :: "'e NullSink \<Rightarrow> fp \<Rightarrow> 'e NullSink" where
  "null_pushT0 s t0 = s"

definition null_pushEvents :: "'e NullSink \<Rightarrow> 'e EventBuffer \<Rightarrow> 'e NullSink" where
  "null_pushEvents s b = s\<lparr>lastBuffer := Some b\<rparr>"

definition null_finish :: "'e NullSink \<Rightarrow> 'e NullSink" where
  "null_finish s = s"

end
