(* ===== verification/Scanf.thy ===== *)
theory Scanf
  imports Fp "HOL-Library.Char_ord"
begin

text \<open>
  The part of the C library's formatted input and output that the programs use: \<open>scanf\<close> directives
  (white space, literal characters, \<open>%d\<close>, \<open>%u\<close> and their long variants, \<open>%f\<close>, \<open>%s\<close>, \<open>%c\<close>, \<open>%[...]\<close> and
  assignment suppression) interpreted over a string, and the output of integers and of \<open>%f\<close>. A file being read
  is the string of its remaining characters. A number that does not fit its destination, a
  hexadecimal floating point number and a payload after \<open>nan\<close> are \<open>Unspecified\<close>. The lemmas show that an integer that was printed is read back.
\<close>

section \<open>Characters\<close>

definition isspace :: "char \<Rightarrow> bool" where
  "isspace c \<longleftrightarrow> c \<in> {CHR '' '', CHR 0x09, CHR 0x0A, CHR 0x0B, CHR 0x0C, CHR 0x0D}"

definition isdigit :: "char \<Rightarrow> bool" where
  "isdigit c \<longleftrightarrow> 48 \<le> (of_char c :: nat) \<and> (of_char c :: nat) \<le> 57"

definition tolower :: "char \<Rightarrow> char" where
  "tolower c = (if 65 \<le> (of_char c :: nat) \<and> (of_char c :: nat) \<le> 90 then char_of (of_char c + 32 :: nat) else c)"

definition toupper :: "char \<Rightarrow> char" where
  "toupper c = (if 97 \<le> (of_char c :: nat) \<and> (of_char c :: nat) \<le> 122 then char_of (of_char c - 32 :: nat) else c)"

definition digit_value :: "char \<Rightarrow> int" where
  "digit_value c = int (of_char c) - 48"

definition NL :: char where "NL = CHR 0x0A"
definition TAB :: char where "TAB = CHR 0x09"

text \<open>The characters of a C string: those before the first null character.\<close>

definition c_str :: "string \<Rightarrow> string" where
  "c_str s = takeWhile (\<lambda>c. c \<noteq> CHR 0x00) s"

definition skip_ws :: "string \<Rightarrow> string" where
  "skip_ws s = dropWhile isspace s"

section \<open>Numbers\<close>

definition decimal :: "string \<Rightarrow> int" where
  "decimal ds = foldl (\<lambda>v c. 10 * v + digit_value c) 0 ds"

fun scan_sign :: "string \<Rightarrow> bool \<times> string" where
  "scan_sign [] = (False, [])"
| "scan_sign (c # s) =
     (if c = CHR ''-'' then (True, s) else if c = CHR ''+'' then (False, s) else (False, c # s))"

definition scan_int :: "string \<Rightarrow> (int \<times> string) option" where
  "scan_int s =
     (let (neg, s) = scan_sign (skip_ws s); ds = takeWhile isdigit s; rest = dropWhile isdigit s
      in if ds = [] then None else Some (if neg then - decimal ds else decimal ds, rest))"

text \<open>\<open>\<plusminus> m * 10 ^ x\<close> rounded to a format.\<close>

definition fp_of_decimal :: "fmt \<Rightarrow> bool \<Rightarrow> int \<Rightarrow> int \<Rightarrow> fp" where
  "fp_of_decimal f s m x =
     (if 0 \<le> x then round_fp f s (m * 10 ^ nat x) 0 else fp_div f (Fin s m 0) (Fin False (10 ^ nat (- x)) 0))"

definition common_prefix :: "string \<Rightarrow> string \<Rightarrow> nat" where
  "common_prefix w s = length (takeWhile (\<lambda>(a, b). a = tolower b) (zip w s))"

text \<open>The exponent part: \<open>None\<close> when an exponent letter is not followed by a number.\<close>

definition scan_exponent :: "string \<Rightarrow> (int \<times> string) option" where
  "scan_exponent s =
     (case s of
        [] \<Rightarrow> Some (0, s)
      | c # s' \<Rightarrow>
          if tolower c = CHR ''e''
          then (let (neg, t) = scan_sign s'; ds = takeWhile isdigit t
                in if ds = [] then None else Some (if neg then - decimal ds else decimal ds, dropWhile isdigit t))
          else Some (0, s))"

definition scan_decimal :: "fmt \<Rightarrow> bool \<Rightarrow> string \<Rightarrow> (fp \<times> string) option" where
  "scan_decimal f neg s =
     (let ds = takeWhile isdigit s; s1 = dropWhile isdigit s;
          (fs, s2) = (case s1 of [] \<Rightarrow> ([], [])
                      | c # t \<Rightarrow> if c = CHR ''.'' then (takeWhile isdigit t, dropWhile isdigit t) else ([], s1))
      in if ds @ fs = [] then None
         else map_option (\<lambda>(x, rest). (fp_of_decimal f neg (decimal (ds @ fs)) (x - int (length fs)), rest))
                (scan_exponent s2))"

definition scan_float :: "fmt \<Rightarrow> string \<Rightarrow> fault + (fp \<times> string) option" where
  "scan_float f s =
     (let (neg, s) = scan_sign (skip_ws s) in
      if common_prefix ''infinity'' s > 0
      then (let n = common_prefix ''infinity'' s
            in Inr (if n = 3 \<or> n = 8 then Some (Inf neg, drop n s) else None))
      else if common_prefix ''nan'' s > 0
      then (if common_prefix ''nan('' s = 4 then Inl Unspecified
            else Inr (if common_prefix ''nan'' s = 3 then Some (NaN, drop 3 s) else None))
      else if common_prefix ''0x'' s = 2 then Inl Unspecified
      else Inr (scan_decimal f neg s))"

section \<open>Directives\<close>

datatype arg = AInt int | AFloat fp | AStr string | AChar char

text \<open>\<open>DInt b\<close> and \<open>DUInt b\<close> store into a signed and an unsigned integer of \<open>b\<close> bits.\<close>

datatype directive = WS | Lit char | DInt nat | DUInt nat | DFloat | DStr | DChar
  | DSet "char \<Rightarrow> bool" | Skip directive

definition fit_signed :: "nat \<Rightarrow> int \<Rightarrow> fault + int" where
  "fit_signed b v = (if - (2 ^ (b - 1)) \<le> v \<and> v < 2 ^ (b - 1) then Inr v else Inl Unspecified)"

definition fit_unsigned :: "nat \<Rightarrow> int \<Rightarrow> fault + int" where
  "fit_unsigned b v = (if \<bar>v\<bar> < 2 ^ b then Inr (v mod 2 ^ b) else Inl Unspecified)"

text \<open>One conversion: \<open>None\<close> when the input does not match it.\<close>

fun scan_conv :: "directive \<Rightarrow> string \<Rightarrow> fault + (arg list \<times> string) option" where
  "scan_conv WS s = Inr (Some ([], skip_ws s))"
| "scan_conv (Lit c) s = Inr (case s of [] \<Rightarrow> None | d # t \<Rightarrow> if d = c then Some ([], t) else None)"
| "scan_conv (DInt b) s =
     (case scan_int s of None \<Rightarrow> Inr None
      | Some (v, t) \<Rightarrow> rbind (fit_signed b v) (\<lambda>v. Inr (Some ([AInt v], t))))"
| "scan_conv (DUInt b) s =
     (case scan_int s of None \<Rightarrow> Inr None
      | Some (v, t) \<Rightarrow> rbind (fit_unsigned b v) (\<lambda>v. Inr (Some ([AInt v], t))))"
| "scan_conv DFloat s = rbind (scan_float F32 s) (\<lambda>r. Inr (map_option (\<lambda>(v, t). ([AFloat v], t)) r))"
| "scan_conv DStr s =
     (let t = skip_ws s; w = takeWhile (\<lambda>c. \<not> isspace c) t
      in Inr (if w = [] then None else Some ([AStr w], drop (length w) t)))"
| "scan_conv DChar s = Inr (case s of [] \<Rightarrow> None | c # t \<Rightarrow> Some ([AChar c], t))"
| "scan_conv (DSet p) s =
     (let w = takeWhile p s in Inr (if w = [] then None else Some ([AStr w], drop (length w) s)))"
| "scan_conv (Skip d) s = rbind (scan_conv d s) (\<lambda>r. Inr (map_option (\<lambda>(_, t). ([], t)) r))"

text \<open>
  The directives in turn up to the first that does not match. The number of values assigned is
  the length of the result (the library's end-of-file result also differs from every count the
  programs compare with).
\<close>

fun scanf :: "directive list \<Rightarrow> string \<Rightarrow> fault + arg list \<times> string" where
  "scanf [] s = Inr ([], s)"
| "scanf (d # ds) s =
     rbind (scan_conv d s) (\<lambda>r.
     case r of
       None \<Rightarrow> Inr ([], s)
     | Some (as, t) \<Rightarrow> rbind (scanf ds t) (\<lambda>(bs, u). Inr (as @ bs, u)))"

definition sscanf :: "directive list \<Rightarrow> string \<Rightarrow> fault + arg list" where
  "sscanf ds s = rbind (scanf ds (c_str s)) (\<lambda>(as, _). Inr as)"

text \<open>\<open>fscanf(f, "%[^\n]\n", line) == 1\<close> into an array of \<open>sz\<close> characters: the rest of a line, then all white space.\<close>

definition read_line :: "nat \<Rightarrow> string \<Rightarrow> fault + (string \<times> string) option" where
  "read_line sz f =
     (let line = takeWhile (\<lambda>c. c \<noteq> NL) f
      in if line = [] then Inr None
         else if length line < sz then Inr (Some (line, skip_ws (drop (length line) f)))
         else Inl OutOfBounds)"

section \<open>Output\<close>

function show_nat :: "nat \<Rightarrow> string" where
  "show_nat n = (if n < 10 then [char_of (48 + n)] else show_nat (n div 10) @ [char_of (48 + n mod 10)])"
  by pat_completeness auto
termination
  by (relation "measure id") auto

declare show_nat.simps [simp del]

definition show_int :: "int \<Rightarrow> string" where
  "show_int i = (if i < 0 then CHR ''-'' # show_nat (nat (- i)) else show_nat (nat i))"

text \<open>\<open>%f\<close>: six digits after the point, rounded to nearest even.\<close>

definition show_fixed :: "fp \<Rightarrow> string" where
  "show_fixed a =
     (case a of
        NaN \<Rightarrow> ''nan''
      | Inf s \<Rightarrow> (if s then ''-inf'' else ''inf'')
      | Fin s m e \<Rightarrow>
          (let n = m * 10 ^ 6;
               q = (if 0 \<le> e then n * 2 ^ nat e else round_mant n (nat (- e)));
               fd = show_nat (nat (q mod 10 ^ 6))
           in (if s then ''-'' else '''') @ show_nat (nat (q div 10 ^ 6)) @ ''.''
              @ replicate (6 - length fd) (CHR ''0'') @ fd))"

section \<open>Reading back what was printed\<close>

lemma digit_char [simp]: "d < 10 \<Longrightarrow> isdigit (char_of (48 + d))" "d < 10 \<Longrightarrow> digit_value (char_of (48 + d)) = int d"
  by (simp_all add: isdigit_def digit_value_def of_char_of)

lemma isdigit_sep [simp]: "\<not> isdigit TAB" "\<not> isdigit NL" "\<not> isdigit CHR '' ''" "\<not> isdigit CHR ''-''" "\<not> isdigit CHR ''.''"
  by (simp_all add: isdigit_def TAB_def NL_def)

lemma isspace_digit: "isdigit c \<Longrightarrow> \<not> isspace c"
  by (auto simp: isdigit_def isspace_def)

lemma decimal_append [simp]: "decimal (ds @ [c]) = 10 * decimal ds + digit_value c"
  by (simp add: decimal_def)

lemma decimal_Nil [simp]: "decimal [] = 0"
  by (simp add: decimal_def)

lemma show_nat_digits: "list_all isdigit (show_nat n)"
  by (induction n rule: show_nat.induct) (subst show_nat.simps, simp)

lemma show_nat_decimal: "decimal (show_nat n) = int n"
proof (induction n rule: show_nat.induct)
  case (1 n)
  show ?case
  proof (cases "n < 10")
    case True
    then show ?thesis by (subst show_nat.simps) (simp add: decimal_def)
  next
    case False
    have "10 * int (n div 10) + int (n mod 10) = int n" by presburger
    with 1 False show ?thesis by (subst show_nat.simps) simp
  qed
qed

lemma show_nat_nonempty [simp]: "show_nat n \<noteq> []"
  by (subst show_nat.simps) simp

lemma digits_span:
  assumes "list_all isdigit ds" "rest = [] \<or> \<not> isdigit (hd rest)"
  shows "takeWhile isdigit (ds @ rest) = ds" "dropWhile isdigit (ds @ rest) = rest"
  using assms by (auto simp: takeWhile_append dropWhile_append list_all_iff takeWhile_eq_Nil_iff dropWhile_eq_self_iff)

lemma scan_sign_digits: "list_all isdigit ds \<Longrightarrow> ds \<noteq> [] \<Longrightarrow> scan_sign (ds @ rest) = (False, ds @ rest)"
  by (cases ds) (auto simp: isdigit_def)

lemma skip_ws_digits: "list_all isdigit ds \<Longrightarrow> ds \<noteq> [] \<Longrightarrow> skip_ws (ds @ rest) = ds @ rest"
  by (cases ds) (auto simp: skip_ws_def isspace_digit)

lemma scan_int_show:
  assumes "rest = [] \<or> \<not> isdigit (hd rest)"
  shows "scan_int (show_int i @ rest) = Some (i, rest)"
proof (cases "i < 0")
  case True
  have "skip_ws (show_int i @ rest) = show_int i @ rest"
    using True by (simp add: show_int_def skip_ws_def isspace_def)
  with True show ?thesis
    by (simp add: scan_int_def show_int_def digits_span [OF show_nat_digits assms] show_nat_decimal)
next
  case False
  then show ?thesis
    by (simp add: scan_int_def show_int_def digits_span [OF show_nat_digits assms] show_nat_decimal
        skip_ws_digits scan_sign_digits show_nat_digits)
qed

lemma skip_ws_show_int [simp]: "skip_ws (show_int i @ rest) = show_int i @ rest"
proof (cases "i < 0")
  case True
  then show ?thesis by (simp add: show_int_def skip_ws_def isspace_def)
next
  case False
  then show ?thesis by (simp add: show_int_def skip_ws_digits show_nat_digits)
qed

lemma scan_int_ws: "isspace c \<Longrightarrow> scan_int (c # s) = scan_int s"
  by (simp add: scan_int_def skip_ws_def)

lemma skip_ws_Cons [simp]: "isspace c \<Longrightarrow> skip_ws (c # s) = skip_ws s"
  by (simp add: skip_ws_def)

lemma isspace_sep [simp]: "isspace TAB" "isspace NL" "isspace CHR '' ''"
  by (simp_all add: isspace_def TAB_def NL_def)

text \<open>Lines are read in order, the final newline being optional.\<close>

lemma read_line_length: "read_line sz f = Inr (Some (line, rest)) \<Longrightarrow> length rest < length f"
proof -
  assume a: "read_line sz f = Inr (Some (line, rest))"
  then have l: "line = takeWhile (\<lambda>c. c \<noteq> NL) f" "line \<noteq> []" and r: "rest = skip_ws (drop (length line) f)"
    by (auto simp: read_line_def Let_def split: if_splits)
  have "length rest \<le> length f - length line"
    unfolding r skip_ws_def using length_dropWhile_le [of isspace "drop (length line) f"] by simp
  moreover have "0 < length line" using l(2) by simp
  moreover have "length line \<le> length f" unfolding l(1) by (rule length_takeWhile_le)
  ultimately show ?thesis by linarith
qed

text \<open>The loop over the lines of a file: it ends at the end or at an empty first line.\<close>

function for_lines :: "nat \<Rightarrow> (string \<Rightarrow> 's \<Rightarrow> fault + 's) \<Rightarrow> string \<Rightarrow> 's \<Rightarrow> fault + 's" where
  "for_lines sz step f s =
     (case read_line sz f of
        Inl e \<Rightarrow> Inl e
      | Inr None \<Rightarrow> Inr s
      | Inr (Some (line, rest)) \<Rightarrow>
          (case step line s of Inl e \<Rightarrow> Inl e | Inr s' \<Rightarrow> for_lines sz step rest s'))"
  by pat_completeness auto
termination
  by (relation "measure (\<lambda>(sz, step, f, s). length f)") (auto dest: read_line_length)

declare for_lines.simps [simp del]

lemma for_lines_inv:
  "for_lines sz step f s = Inr s' \<Longrightarrow> P s \<Longrightarrow>
   (\<And>line s s'. NL \<notin> set line \<Longrightarrow> P s \<Longrightarrow> step line s = Inr s' \<Longrightarrow> P s') \<Longrightarrow> P s'"
proof (induction sz step f s rule: for_lines.induct)
  case (1 sz step f s)
  show ?case
  proof (cases "read_line sz f")
    case (Inr r)
    show ?thesis
    proof (cases r)
      case None
      with 1 Inr show ?thesis by (simp add: for_lines.simps [of sz step f])
    next
      case (Some lr)
      then obtain line rest where lr: "r = Some (line, rest)" by (cases lr) auto
      then have n: "NL \<notin> set line" using Inr by (auto simp: read_line_def Let_def split: if_splits dest: set_takeWhileD)
      obtain s1 where s1: "step line s = Inr s1" "for_lines sz step rest s1 = Inr s'"
        using 1(2) Inr lr by (auto simp: for_lines.simps [of sz step f] split: sum.splits)
      from 1(4) [OF n 1(3) s1(1)] have "P s1" .
      with 1(1) [OF Inr lr refl s1(1) s1(2)] 1(4) show ?thesis by blast
    qed
  qed (use 1 in \<open>simp add: for_lines.simps [of sz step f]\<close>)
qed

definition text_line :: "nat \<Rightarrow> string \<Rightarrow> bool" where
  "text_line sz l \<longleftrightarrow> l \<noteq> [] \<and> \<not> isspace (hd l) \<and> NL \<notin> set l \<and> length l < sz"

definition unlines :: "string list \<Rightarrow> string" where
  "unlines ls = concat (map (\<lambda>l. l @ [NL]) ls)"

lemma skip_ws_unlines: "\<forall>l \<in> set ls. text_line sz l \<Longrightarrow> skip_ws (unlines ls) = unlines ls"
proof (cases ls)
  case (Cons l ks)
  assume "\<forall>l \<in> set ls. text_line sz l"
  with Cons obtain c cs where "l = c # cs" "\<not> isspace c" by (cases l) (auto simp: text_line_def)
  with Cons show ?thesis by (simp add: skip_ws_def unlines_def)
qed (simp add: skip_ws_def unlines_def)

lemma read_line_unlines:
  assumes "\<forall>l \<in> set (l # ls). text_line sz l"
  shows "read_line sz (unlines (l # ls)) = Inr (Some (l, unlines ls))"
proof -
  have l: "NL \<notin> set l" "l \<noteq> []" "length l < sz" using assms by (auto simp: text_line_def)
  have "takeWhile (\<lambda>c. c \<noteq> NL) (unlines (l # ls)) = l"
    using l(1) by (auto simp: unlines_def takeWhile_append takeWhile_eq_Nil_iff)
  moreover have "skip_ws (NL # unlines ls) = unlines ls"
    using skip_ws_unlines [of ls sz] assms by simp
  ultimately show ?thesis using l by (simp add: read_line_def) (simp add: unlines_def)
qed

lemma for_lines_unlines:
  "\<forall>l \<in> set ls. text_line sz l \<Longrightarrow> for_lines sz step (unlines ls) s = rfold step ls s"
proof (induction ls arbitrary: s)
  case Nil
  then show ?case by (simp add: for_lines.simps read_line_def unlines_def)
next
  case (Cons l ls)
  then show ?case
    using read_line_unlines [OF Cons.prems]
    by (subst for_lines.simps) (auto split: sum.splits)
qed

section \<open>Input is consumed\<close>

lemma scan_sign_length: "scan_sign s = (n, t) \<Longrightarrow> length t \<le> length s"
  by (cases s) (auto split: if_splits)

lemma skip_ws_length [simp]: "length (skip_ws s) \<le> length s"
  by (simp add: skip_ws_def length_dropWhile_le)

lemma take_drop_length: "length (takeWhile p s) + length (dropWhile p s) = length s"
  by (metis length_append takeWhile_dropWhile_id)

lemma scan_int_length: "scan_int s = Some (v, t) \<Longrightarrow> length t < length s"
proof -
  assume a: "scan_int s = Some (v, t)"
  obtain n u where u: "scan_sign (skip_ws s) = (n, u)" by fastforce
  have t: "t = dropWhile isdigit u" "takeWhile isdigit u \<noteq> []"
    using a u by (auto simp: scan_int_def Let_def split: if_splits)
  have "length t < length u" using take_drop_length [of isdigit u] t by (cases "takeWhile isdigit u") auto
  with scan_sign_length [OF u] skip_ws_length [of s] show ?thesis by linarith
qed

lemma scan_exponent_length: "scan_exponent s = Some (x, t) \<Longrightarrow> length t \<le> length s"
proof -
  assume a: "scan_exponent s = Some (x, t)"
  show ?thesis
  proof (cases s)
    case (Cons c s')
    obtain n u where u: "scan_sign s' = (n, u)" by fastforce
    have "length (dropWhile isdigit u) \<le> length u" by (rule length_dropWhile_le)
    then show ?thesis using a Cons u scan_sign_length [OF u]
      by (auto simp: scan_exponent_def Let_def split: if_splits)
  qed (use a in \<open>simp add: scan_exponent_def\<close>)
qed

lemma scan_decimal_length: "scan_decimal f n s = Some (v, t) \<Longrightarrow> length t < length s"
proof -
  assume a: "scan_decimal f n s = Some (v, t)"
  define ds s1 where "ds = takeWhile isdigit s" and "s1 = dropWhile isdigit s"
  obtain fs s2 where p: "(case s1 of [] \<Rightarrow> ([], [])
      | c # t \<Rightarrow> if c = CHR ''.'' then (takeWhile isdigit t, dropWhile isdigit t) else ([], s1)) = (fs, s2)" by fastforce
  have l: "length s = length ds + length s1" using take_drop_length [of isdigit s] by (simp add: ds_def s1_def)
  have "length fs + length s2 \<le> length s1"
    using p take_drop_length [of isdigit "tl s1"] by (cases s1) (auto split: if_splits)
  moreover have ne: "ds @ fs \<noteq> []" and e: "\<exists>x. scan_exponent s2 = Some (x, t)"
    using a p unfolding scan_decimal_def Let_def ds_def [symmetric] s1_def [symmetric] by (auto split: if_splits)
  moreover have "0 < length ds + length fs" using ne by (cases ds) auto
  moreover have "length t \<le> length s2" using e scan_exponent_length by blast
  ultimately show ?thesis using l by linarith
qed

lemma scan_float_length: "scan_float f s = Inr (Some (v, t)) \<Longrightarrow> length t < length s"
proof -
  assume a: "scan_float f s = Inr (Some (v, t))"
  obtain n u where u: "scan_sign (skip_ws s) = (n, u)" by fastforce
  have c: "common_prefix w u \<le> length u" for w
    unfolding common_prefix_def by (rule order.trans [OF length_takeWhile_le]) simp
  have "length t < length u"
    using a u c [of "''infinity''"] c [of "''nan''"] scan_decimal_length [of f n u v t]
    by (auto simp: scan_float_def Let_def split: if_splits)
  with scan_sign_length [OF u] skip_ws_length [of s] show ?thesis by linarith
qed

lemma scan_conv_length: "scan_conv d s = Inr (Some (as, t)) \<Longrightarrow> length t + length as \<le> length s"
proof (induction d arbitrary: as t)
  case (Lit c)
  then show ?case by (auto split: list.splits if_splits)
next
  case (DInt b)
  then show ?case using scan_int_length [of s] by (fastforce split: option.splits elim!: rbind_E)
next
  case (DUInt b)
  then show ?case using scan_int_length [of s] by (fastforce split: option.splits elim!: rbind_E)
next
  case DFloat
  then show ?case using scan_float_length [of F32 s] by (fastforce elim!: rbind_E)
next
  case DStr
  let ?w = "takeWhile (\<lambda>c. \<not> isspace c) (skip_ws s)"
  have d: "?w \<noteq> []" "as = [AStr ?w]" "t = drop (length ?w) (skip_ws s)"
    using DStr by (auto simp: Let_def split: if_splits)
  have "0 < length ?w" using d(1) by simp
  moreover have "length ?w \<le> length (skip_ws s)" by (rule length_takeWhile_le)
  ultimately have "length t + 1 \<le> length s" unfolding d(3) length_drop using skip_ws_length [of s] by linarith
  then show ?case using d(2) by simp
next
  case DChar
  then show ?case by (auto split: list.splits)
next
  case (DSet p)
  let ?w = "takeWhile p s"
  have d: "?w \<noteq> []" "as = [AStr ?w]" "t = drop (length ?w) s"
    using DSet by (auto simp: Let_def split: if_splits)
  have "0 < length ?w" using d(1) by simp
  moreover have "length ?w \<le> length s" by (rule length_takeWhile_le)
  ultimately have "length t + 1 \<le> length s" unfolding d(3) length_drop by linarith
  then show ?case using d(2) by simp
next
  case (Skip d)
  then show ?case by (force elim!: rbind_E)
qed simp

lemma scanf_length: "scanf ds s = Inr (as, t) \<Longrightarrow> length t + length as \<le> length s"
proof (induction ds arbitrary: s as)
  case (Cons d ds)
  then obtain r where r: "scan_conv d s = Inr r" by (auto elim!: rbind_E)
  show ?case
  proof (cases r)
    case None
    with Cons r show ?thesis by simp
  next
    case (Some p)
    then obtain bs u where p: "r = Some (bs, u)" by (cases p) auto
    then obtain cs where "scanf ds u = Inr (cs, t)" "as = bs @ cs" using Cons.prems r by (auto elim!: rbind_E)
    with Cons.IH [of u cs] scan_conv_length [of d s bs u] r p show ?thesis by simp
  qed
qed simp

text \<open>\<open>while(fscanf(f, fmt, ...) == n)\<close>: the values of the successive records.\<close>

function scan_records :: "directive list \<Rightarrow> nat \<Rightarrow> string \<Rightarrow> fault + arg list list" where
  "scan_records fmt n f =
     (case scanf fmt f of
        Inl e \<Rightarrow> Inl e
      | Inr (as, rest) \<Rightarrow>
          (if n = 0 \<or> length as \<noteq> n then Inr []
           else rbind (scan_records fmt n rest) (\<lambda>rs. Inr (as # rs))))"
  by pat_completeness auto
termination
proof (relation "measure (\<lambda>(fmt, n, f). length f)", goal_cases)
  case (2 fmt n f p as rest)
  then show ?case using scanf_length [of fmt f as rest] by simp
qed simp

declare scan_records.simps [simp del]

end
