(* ===== verification/Config_Text.thy ===== *)
theory Config_Text
  imports Scanf
begin

text \<open>
  The text side of base/SystemConfig.cpp: the functions of other libraries it calls (boost
  regular expressions and string replacement, iniparser, libgen, the environment and the file
  system) as the fields of the record \<open>externals\<close>, and the normalisation of a line of a
  configuration file. \<open>regex_laws\<close> states what the five substitutions of \<open>normalizeLine\<close> do; the
  theorem says what a normalised line is.
\<close>

section \<open>External functions\<close>

record externals =
  regex_replace :: "string \<Rightarrow> string \<Rightarrow> string \<Rightarrow> string"
  ireplace_all :: "string \<Rightarrow> string \<Rightarrow> string \<Rightarrow> string"
  getenv_home :: "string option"
  dirname :: "string \<Rightarrow> string"
  fopen :: "string \<Rightarrow> string option"
  ini_getstring :: "string \<Rightarrow> string \<Rightarrow> string option"
  ini_getint :: "string \<Rightarrow> string \<Rightarrow> int \<Rightarrow> int"
  ini_getdouble :: "string \<Rightarrow> string \<Rightarrow> fp \<Rightarrow> fp"

definition PATH_MAX :: nat where
  "PATH_MAX = 4096"

section \<open>Line normalisation\<close>

definition CR :: char where "CR = CHR 0x0D"
definition BS :: char where "BS = CHR 0x5C"

definition re_comment :: string where "re_comment = BS # ''s*#.*''"
definition re_leading :: string where "re_leading = CHR ''^'' # BS # ''s+''"
definition re_trailing :: string where "re_trailing = BS # ''s+$''"
definition re_space :: string where "re_space = BS # ''s+''"

definition normalizeLine :: "externals \<Rightarrow> string \<Rightarrow> string" where
  "normalizeLine E line =
     (let s = c_str line;
          s = regex_replace E s [CR] '''';
          s = regex_replace E s re_comment '''';
          s = regex_replace E s re_leading '''';
          s = regex_replace E s re_trailing '''';
          s = regex_replace E s re_space [TAB]
      in s)"

text \<open>What the patterns match: a comment with the white space before it, a white space run.\<close>

definition rstrip :: "string \<Rightarrow> string" where
  "rstrip s = rev (dropWhile isspace (rev s))"

definition strip_comment :: "string \<Rightarrow> string" where
  "strip_comment s = (if CHR ''#'' \<in> set s then rstrip (takeWhile (\<lambda>c. c \<noteq> CHR ''#'') s) else s)"

function squeeze :: "string \<Rightarrow> string" where
  "squeeze [] = []"
| "squeeze (c # s) = (if isspace c then TAB # squeeze (dropWhile isspace s) else c # squeeze s)"
  by pat_completeness auto
termination
  by (relation "measure length") (auto simp: le_imp_less_Suc length_dropWhile_le)

definition regex_laws :: "externals \<Rightarrow> bool" where
  "regex_laws E \<longleftrightarrow> (\<forall>s. NL \<notin> set s \<longrightarrow>
     regex_replace E s [CR] '''' = filter (\<lambda>c. c \<noteq> CR) s \<and>
     regex_replace E s re_comment '''' = strip_comment s \<and>
     regex_replace E s re_leading '''' = dropWhile isspace s \<and>
     regex_replace E s re_trailing '''' = rstrip s \<and>
     regex_replace E s re_space [TAB] = squeeze s)"

function words_of :: "string \<Rightarrow> string list" where
  "words_of s =
     (let t = dropWhile isspace s
      in if t = [] then []
         else takeWhile (\<lambda>c. \<not> isspace c) t # words_of (dropWhile (\<lambda>c. \<not> isspace c) t))"
  by pat_completeness auto
termination
proof (relation "measure length", goal_cases)
  case (2 s t)
  then have "\<not> isspace (hd t)" using hd_dropWhile [of isspace s] by simp
  moreover from 2(2) obtain c u where "t = c # u" by (meson neq_Nil_conv)
  ultimately have t: "t = c # u" "\<not> isspace c" using 2 by simp_all
  have "length (dropWhile (\<lambda>c. \<not> isspace c) t) < length t"
    using t length_dropWhile_le [of "\<lambda>c. \<not> isspace c" u] by simp
  with 2 show ?case using length_dropWhile_le [of isspace s] by simp
qed simp

declare words_of.simps [simp del]

fun join_tab :: "string list \<Rightarrow> string" where
  "join_tab [] = []"
| "join_tab [w] = w"
| "join_tab (w # ws) = w @ TAB # join_tab ws"

lemma rstrip_Nil [simp]: "rstrip [] = []"
  by (simp add: rstrip_def)

lemma rstrip_append: "rstrip (xs @ ys) = (if rstrip ys = [] then rstrip xs else xs @ rstrip ys)"
  by (auto simp: rstrip_def dropWhile_append)

lemma rstrip_Nil_iff: "rstrip s = [] \<longleftrightarrow> list_all isspace s"
  by (auto simp: rstrip_def list_all_iff)

lemma rstrip_word: "list_all (\<lambda>c. \<not> isspace c) w \<Longrightarrow> rstrip w = w"
  by (cases w rule: rev_cases) (auto simp: rstrip_def)

lemma rstrip_rstrip [simp]: "rstrip (rstrip s) = rstrip s"
  by (simp add: rstrip_def dropWhile_idem)

lemma dropWhile_rstrip: "dropWhile isspace (rstrip s) = rstrip (dropWhile isspace s)"
proof (induction s)
  case (Cons c s)
  have c: "rstrip (c # s) = (if rstrip s = [] then rstrip [c] else c # rstrip s)"
    using rstrip_append [of "[c]" s] by simp
  show ?case
  proof (cases "isspace c")
    case True
    moreover have "rstrip [c] = []" using True by (simp add: rstrip_def)
    ultimately show ?thesis using Cons.IH c by auto
  next
    case False
    then have "rstrip [c] = [c]" by (simp add: rstrip_def)
    with False c have "dropWhile isspace (rstrip (c # s)) = rstrip (c # s)" by auto
    with False show ?thesis by simp
  qed
qed simp

lemma squeeze_word: "list_all (\<lambda>c. \<not> isspace c) w \<Longrightarrow> squeeze (w @ s) = w @ squeeze s"
  by (induction w) auto

lemma words_rstrip: "words_of (rstrip s) = words_of s"
proof (induction s rule: words_of.induct)
  case (1 s)
  define t where "t = dropWhile isspace s"
  let ?ns = "\<lambda>c. \<not> isspace c"
  have dt: "dropWhile isspace (rstrip s) = rstrip t" by (simp add: dropWhile_rstrip t_def)
  show ?case
  proof (cases "t = []")
    case True
    then show ?thesis unfolding words_of.simps [of "rstrip s"] words_of.simps [of s] dt
      by (simp add: t_def [symmetric])
  next
    case False
    define w r where "w = takeWhile ?ns t" and "r = dropWhile ?ns t"
    have wr: "t = w @ r" by (simp add: w_def r_def)
    have "\<not> isspace (hd t)" using False hd_dropWhile t_def by blast
    then have w: "w \<noteq> []" "list_all ?ns w" using False by (cases t) (auto simp: w_def list_all_iff dest: set_takeWhileD)
    have rs: "rstrip t = w @ rstrip r" using w by (simp add: wr rstrip_append rstrip_word)
    have r0: "r = [] \<or> isspace (hd r)" using hd_dropWhile [of ?ns t] r_def by blast
    have rr: "rstrip r = [] \<or> isspace (hd (rstrip r))"
    proof (cases "rstrip r = []")
      case False
      then obtain c u where r: "r = c # u" by (cases r) auto
      have "rstrip r = (if rstrip u = [] then rstrip [c] else c # rstrip u)" using rstrip_append [of "[c]" u] r by simp
      with False r0 r show ?thesis by (auto simp: rstrip_def)
    qed simp
    have "takeWhile ?ns (w @ rstrip r) = w" "dropWhile ?ns (w @ rstrip r) = rstrip r"
      using w rr by (auto simp: takeWhile_append dropWhile_append list_all_iff takeWhile_eq_Nil_iff dropWhile_eq_self_iff)
    moreover have "words_of (rstrip r) = words_of r" using 1 False by (simp add: t_def r_def)
    ultimately have "words_of (rstrip s) = w # words_of r"
      using w rs by (subst words_of.simps) (simp add: dt)
    moreover have "words_of s = w # words_of r"
      using False by (subst words_of.simps) (simp add: t_def [symmetric] w_def r_def)
    ultimately show ?thesis by simp
  qed
qed

lemma squeeze_words: "squeeze (rstrip (dropWhile isspace s)) = join_tab (words_of s)"
proof (induction s rule: words_of.induct)
  case (1 s)
  define t where "t = dropWhile isspace s"
  let ?ns = "\<lambda>c. \<not> isspace c"
  show ?case
  proof (cases "t = []")
    case True
    then show ?thesis unfolding words_of.simps [of s] by (simp add: t_def [symmetric])
  next
    case False
    define w r where "w = takeWhile ?ns t" and "r = dropWhile ?ns t"
    have wr: "t = w @ r" by (simp add: w_def r_def)
    have w: "list_all ?ns w" by (auto simp: w_def list_all_iff dest: set_takeWhileD)
    have IH: "squeeze (rstrip (dropWhile isspace r)) = join_tab (words_of r)"
      using 1 False by (simp add: t_def r_def)
    have ws: "words_of s = w # words_of r"
      using False by (subst words_of.simps) (simp add: t_def [symmetric] w_def r_def)
    show ?thesis
    proof (cases "rstrip r = []")
      case True
      then have "dropWhile isspace r = []" by (simp add: rstrip_Nil_iff list_all_iff)
      then have "words_of r = []" by (subst words_of.simps) simp
      with True show ?thesis
        using squeeze_word [OF w, of "[]"] by (simp add: ws t_def [symmetric] wr rstrip_append rstrip_word w)
    next
      case False
      then obtain c u where r: "r = c # u" by (cases r) auto
      then have c: "isspace c" using hd_dropWhile [of ?ns t] r_def by (metis list.discI list.sel(1))
      have n: "dropWhile isspace r \<noteq> []" using False by (auto simp: rstrip_Nil_iff list_all_iff)
      then have "words_of r \<noteq> []" by (subst words_of.simps) (simp add: Let_def)
      then have j: "join_tab (w # words_of r) = w @ TAB # join_tab (words_of r)" by (cases "words_of r") auto
      have u: "rstrip u \<noteq> []" using n r c by (auto simp: rstrip_Nil_iff list_all_iff)
      then have "rstrip r = c # rstrip u" using rstrip_append [of "[c]" u] r by simp
      then have "squeeze (rstrip r) = TAB # squeeze (rstrip (dropWhile isspace r))"
        using c r by (simp add: dropWhile_rstrip)
      then show ?thesis
        using False squeeze_word [OF w] by (simp add: ws j t_def [symmetric] wr rstrip_append IH)
    qed
  qed
qed

lemma set_rstrip: "set (rstrip s) \<subseteq> set s"
  by (metis rstrip_def set_dropWhileD set_rev subsetI)

lemma NL_normal:
  assumes "NL \<notin> set s"
  shows "NL \<notin> set (strip_comment s)" "NL \<notin> set (dropWhile isspace s)" "NL \<notin> set (rstrip s)"
  using assms set_rstrip [of "takeWhile (\<lambda>c. c \<noteq> CHR ''#'') s"] set_rstrip [of s]
  by (auto simp: strip_comment_def dest: set_dropWhileD set_takeWhileD)

lemma words_strip_comment: "words_of (strip_comment s) = words_of (takeWhile (\<lambda>c. c \<noteq> CHR ''#'') s)"
proof (cases "CHR ''#'' \<in> set s")
  case False
  then have "takeWhile (\<lambda>c. c \<noteq> CHR ''#'') s = s"
    by (intro takeWhile_eq_all_conv [THEN iffD2] ballI notI) simp
  with False show ?thesis by (simp only: strip_comment_def if_False)
qed (simp add: strip_comment_def words_rstrip)

text \<open>The normal form of a line: its words before the comment, separated by single tabs.\<close>

definition line_words :: "string \<Rightarrow> string list" where
  "line_words line = words_of (takeWhile (\<lambda>c. c \<noteq> CHR ''#'') (filter (\<lambda>c. c \<noteq> CR) (c_str line)))"

text \<open>
  C14: The five substitutions turn every line into its words before the first comment character,
  without carriage returns, separated by single tab characters.
\<close>

theorem normalizeLine_words:
  assumes "regex_laws E" "NL \<notin> set line"
  shows "normalizeLine E line = join_tab (line_words line)"
proof -
  let ?u = "filter (\<lambda>c. c \<noteq> CR) (c_str line)" and ?v = "strip_comment (filter (\<lambda>c. c \<noteq> CR) (c_str line))"
  have n: "NL \<notin> set (c_str line)" using assms(2) by (auto simp: c_str_def dest: set_takeWhileD)
  then have u: "NL \<notin> set ?u" by simp
  note law = assms(1) [unfolded regex_laws_def, rule_format]
  have "normalizeLine E line = squeeze (rstrip (dropWhile isspace ?v))"
    unfolding normalizeLine_def Let_def using law [OF n] law [OF u] law [OF NL_normal(1) [OF u]] law [OF NL_normal(2) [OF NL_normal(1) [OF u]]]
      law [OF NL_normal(3) [OF NL_normal(2) [OF NL_normal(1) [OF u]]]]
    by (simp only:)
  also have "\<dots> = join_tab (words_of ?v)" by (rule squeeze_words)
  also have "words_of ?v = line_words line" by (simp only: words_strip_comment line_words_def)
  finally show ?thesis .
qed

definition std_externals :: externals where
  "std_externals =
     \<lparr>regex_replace = (\<lambda>s p r.
        if p = [CR] then filter (\<lambda>c. c \<noteq> CR) s else if p = re_comment then strip_comment s
        else if p = re_leading then dropWhile isspace s else if p = re_trailing then rstrip s
        else squeeze s),
      ireplace_all = (\<lambda>s p r. s), getenv_home = Some ''/home'', dirname = (\<lambda>s. ''.''),
      fopen = (\<lambda>s. None), ini_getstring = (\<lambda>f k. None), ini_getint = (\<lambda>f k d. d),
      ini_getdouble = (\<lambda>f k d. d)\<rparr>"

lemma std_regex_laws: "regex_laws std_externals"
  by (simp add: regex_laws_def std_externals_def CR_def BS_def re_comment_def re_leading_def
      re_trailing_def re_space_def)

theorem normalizeLine_witness:
  "normalizeLine std_externals ''  3   a1  # note'' = [CHR ''3'', TAB, CHR ''a'', CHR ''1'']"
proof -
  have "line_words ''  3   a1  # note'' = [''3'', ''a1'']" by code_simp
  then show ?thesis
    using normalizeLine_words [OF std_regex_laws, of "''  3   a1  # note''"] by (simp add: NL_def)
qed

end
