(* ===== verification/System_Config.thy ===== *)
theory System_Config
  imports Config_Text
begin

text \<open>
  The class \<open>SystemConfig\<close> of base/SystemConfig.cpp: the two level table of channel
  configurations, the trigger region maps, the loaders of the calibration and map files and the
  reading of the configuration file. The lemmas show that the table behaves as one map from channel
  identifiers whose default is never written, what the calibration loader leaves in it, and that
  the trigger maps are symmetric and exclude each other.
\<close>

section \<open>Data\<close>

record TacConfig =
  tac_t0 :: fp
  tac_a0 :: fp
  tac_a1 :: fp
  tac_a2 :: fp

record QacConfig =
  qac_p0 :: fp
  qac_p1 :: fp
  qac_p2 :: fp
  qac_p3 :: fp
  qac_p4 :: fp
  qac_p5 :: fp
  qac_p6 :: fp
  qac_p7 :: fp
  qac_p8 :: fp
  qac_p9 :: fp

record EnergyConfig =
  en_p0 :: fp
  en_p1 :: fp
  en_p2 :: fp
  en_p3 :: fp

record ChannelConfig =
  cc_x :: fp
  cc_y :: fp
  cc_z :: fp
  cc_xi :: int
  cc_yi :: int
  cc_triggerRegion :: int
  cc_t0 :: fp
  cc_tac_T :: "TacConfig list"
  cc_tac_E :: "TacConfig list"
  cc_qac_Q :: "QacConfig list"
  cc_eCal :: "EnergyConfig list"

definition wf_channel :: "ChannelConfig \<Rightarrow> bool" where
  "wf_channel c \<longleftrightarrow> length (cc_tac_T c) = 8 \<and> length (cc_tac_E c) = 8 \<and> length (cc_qac_Q c) = 8
     \<and> length (cc_eCal c) = 8"

definition MAX_TRIGGER_REGIONS :: nat where
  "MAX_TRIGGER_REGIONS = 4096"

definition LOAD_TDC_CALIBRATION :: u64 where "LOAD_TDC_CALIBRATION = 2"
definition LOAD_QDC_CALIBRATION :: u64 where "LOAD_QDC_CALIBRATION = 4"
definition LOAD_MAPPING :: u64 where "LOAD_MAPPING = 16"
definition LOAD_ALL :: u64 where "LOAD_ALL = -1"

text \<open>The trigger maps have \<open>MAX_TRIGGER_REGIONS\<^sup>2\<close> cells.\<close>

record SystemConfig =
  sw_trigger_group_max_hits :: int
  sw_trigger_group_min_energy :: fp
  sw_trigger_group_max_energy :: fp
  sw_trigger_group_max_distance :: fp
  sw_trigger_group_time_window :: fp
  sw_trigger_coincidence_time_window :: fp
  hasTDCCalibration :: bool
  hasQDCCalibration :: bool
  hasEnergyCalibration :: bool
  hasXYZ :: bool
  channelConfig :: "ChannelConfig list option list"
  nullChannelConfig :: ChannelConfig
  coincidenceTriggerMap :: "nat \<Rightarrow> bool"
  multihitTriggerMap :: "nat \<Rightarrow> bool"

section \<open>Construction\<close>

definition zero32 :: fp where
  "zero32 = Fin False 0 (emin F32)"

definition zero_tac :: TacConfig where
  "zero_tac = \<lparr>tac_t0 = zero32, tac_a0 = zero32, tac_a1 = zero32, tac_a2 = zero32\<rparr>"

definition zero_qac :: QacConfig where
  "zero_qac = \<lparr>qac_p0 = zero32, qac_p1 = zero32, qac_p2 = zero32, qac_p3 = zero32, qac_p4 = zero32,
     qac_p5 = zero32, qac_p6 = zero32, qac_p7 = zero32, qac_p8 = zero32, qac_p9 = zero32\<rparr>"

definition zero_energy :: EnergyConfig where
  "zero_energy = \<lparr>en_p0 = zero32, en_p1 = zero32, en_p2 = zero32, en_p3 = zero32\<rparr>"

text \<open>
  The body of the initialisation loop; the loop runs for \<open>n\<close> from 0 to 3, so the last four entries
  of each array of \<open>nullChannelConfig\<close> keep what the memory held.
\<close>

definition init_null :: "nat \<Rightarrow> ChannelConfig \<Rightarrow> ChannelConfig" where
  "init_null n c =
     c\<lparr>cc_tac_T := (cc_tac_T c)[n := zero_tac], cc_tac_E := (cc_tac_E c)[n := zero_tac],
       cc_qac_Q := (cc_qac_Q c)[n := zero_qac], cc_eCal := (cc_eCal c)[n := zero_energy],
       cc_x := zero32, cc_y := zero32, cc_z := zero32, cc_xi := 0, cc_yi := 0,
       cc_triggerRegion := -1, cc_t0 := zero32\<rparr>"

text \<open>\<open>junk\<close> is the memory the object is constructed in.\<close>

definition newSystemConfig :: "SystemConfig \<Rightarrow> SystemConfig" where
  "newSystemConfig junk =
     junk\<lparr>hasTDCCalibration := False, hasQDCCalibration := False, hasXYZ := False,
       channelConfig := replicate PATH_MAX None,
       nullChannelConfig := fold init_null [0..<4] (nullChannelConfig junk),
       coincidenceTriggerMap := (\<lambda>_. False), multihitTriggerMap := (\<lambda>_. False)\<rparr>"

definition useTDCCalibration :: "SystemConfig \<Rightarrow> bool" where
  "useTDCCalibration s = hasTDCCalibration s"

definition useQDCCalibration :: "SystemConfig \<Rightarrow> bool" where
  "useQDCCalibration s = hasQDCCalibration s"

definition useEnergyCalibration :: "SystemConfig \<Rightarrow> bool" where
  "useEnergyCalibration s = hasEnergyCalibration s"

definition useXYZ :: "SystemConfig \<Rightarrow> bool" where
  "useXYZ s = hasXYZ s"

section \<open>The channel table\<close>

definition indexH :: "u32 \<Rightarrow> nat" where
  "indexH channelID = unat (channelID div 4096)"

definition indexL :: "u32 \<Rightarrow> nat" where
  "indexL channelID = unat (channelID mod 4096)"

definition getChannelConfig :: "SystemConfig \<Rightarrow> u32 \<Rightarrow> fault + ChannelConfig" where
  "getChannelConfig s channelID =
     rbind (idx (channelConfig s) (indexH channelID)) (\<lambda>ptr.
     case ptr of None \<Rightarrow> Inr (nullChannelConfig s) | Some p \<Rightarrow> idx p (indexL channelID))"

text \<open>Assignment through the reference that \<open>getChannelConfig\<close> returns.\<close>

definition setChannelConfig :: "SystemConfig \<Rightarrow> u32 \<Rightarrow> ChannelConfig \<Rightarrow> fault + SystemConfig" where
  "setChannelConfig s channelID c =
     rbind (idx (channelConfig s) (indexH channelID)) (\<lambda>ptr.
     case ptr of
       None \<Rightarrow> Inr (s\<lparr>nullChannelConfig := c\<rparr>)
     | Some p \<Rightarrow>
         (if indexL channelID < length p
          then Inr (s\<lparr>channelConfig := (channelConfig s)[indexH channelID := Some (p[indexL channelID := c])]\<rparr>)
          else Inl OutOfBounds))"

definition touchChannelConfig :: "SystemConfig \<Rightarrow> u32 \<Rightarrow> fault + SystemConfig" where
  "touchChannelConfig s channelID =
     rbind (idx (channelConfig s) (indexH channelID)) (\<lambda>ptr.
     case ptr of
       None \<Rightarrow> Inr (s\<lparr>channelConfig := (channelConfig s)[indexH channelID :=
                     Some (replicate 4096 (nullChannelConfig s))]\<rparr>)
     | Some p \<Rightarrow> Inr s)"

definition MAKE_GID :: "u64 \<Rightarrow> u64 \<Rightarrow> u64 \<Rightarrow> u64 \<Rightarrow> u32" where
  "MAKE_GID portID slaveID chipID channelID =
     (let gChannelID = 0;
          gChannelID = gChannelID OR channelID;
          gChannelID = gChannelID OR push_bit 5 chipID;
          gChannelID = gChannelID OR push_bit 11 slaveID;
          gChannelID = gChannelID OR push_bit 16 portID
      in ucast gChannelID)"

text \<open>The index \<open>r1 * MAX_TRIGGER_REGIONS + r2\<close> is computed in 32 bit unsigned arithmetic.\<close>

definition region_index :: "int \<Rightarrow> int \<Rightarrow> nat" where
  "region_index r1 r2 = unat (word_of_int r1 * of_nat MAX_TRIGGER_REGIONS + word_of_int r2 :: u32)"

definition read_map :: "(nat \<Rightarrow> bool) \<Rightarrow> nat \<Rightarrow> fault + bool" where
  "read_map m i = (if i < MAX_TRIGGER_REGIONS * MAX_TRIGGER_REGIONS then Inr (m i) else Inl OutOfBounds)"

definition isCoincidenceAllowed :: "SystemConfig \<Rightarrow> int \<Rightarrow> int \<Rightarrow> fault + bool" where
  "isCoincidenceAllowed s r1 r2 = read_map (coincidenceTriggerMap s) (region_index r1 r2)"

definition isMultiHitAllowed :: "SystemConfig \<Rightarrow> int \<Rightarrow> int \<Rightarrow> fault + bool" where
  "isMultiHitAllowed s r1 r2 = read_map (multihitTriggerMap s) (region_index r1 r2)"

section \<open>Loaders\<close>

fun arg_int :: "arg \<Rightarrow> int" where
  "arg_int (AInt i) = i"
| "arg_int _ = 0"

fun arg_float :: "arg \<Rightarrow> fp" where
  "arg_float (AFloat f) = f"
| "arg_float _ = NaN"

fun arg_char :: "arg \<Rightarrow> char" where
  "arg_char (AChar c) = c"
| "arg_char _ = CHR 0x00"

text \<open>
  A file that cannot be opened ends the program; otherwise the loader runs over its lines, each
  normalised first and skipped when nothing is left. \<open>sz\<close> is the size of the line buffer.
\<close>

definition load_lines ::
  "externals \<Rightarrow> nat \<Rightarrow> (string \<Rightarrow> 's \<Rightarrow> fault + 's) \<Rightarrow> string \<Rightarrow> 's \<Rightarrow> fault + 's" where
  "load_lines E sz step fn s =
     (case fopen E fn of
        None \<Rightarrow> Inl (Exit 1)
      | Some f \<Rightarrow> for_lines sz (\<lambda>line s.
          let line = normalizeLine E line in if line = [] then Inr s else step line s) f s)"

definition tdc_format :: "directive list" where
  "tdc_format = [DInt 32, WS, DUInt 32, WS, DUInt 32, WS, DUInt 32, WS, DUInt 32, WS, DChar, WS,
     DFloat, WS, DFloat, WS, DFloat, WS, DFloat]"

definition gid_of_args :: "arg list \<Rightarrow> u32" where
  "gid_of_args as =
     MAKE_GID (ucast (word_of_int (arg_int (as ! 0)) :: u32)) (ucast (word_of_int (arg_int (as ! 1)) :: u32))
       (ucast (word_of_int (arg_int (as ! 2)) :: u32)) (ucast (word_of_int (arg_int (as ! 3)) :: u32))"

text \<open>The change of one array entry; the index comes from the file.\<close>

definition set_entry :: "'a list \<Rightarrow> nat \<Rightarrow> 'a \<Rightarrow> fault + 'a list" where
  "set_entry xs i x = (if i < length xs then Inr (xs[i := x]) else Inl OutOfBounds)"

definition modifyChannel ::
  "u32 \<Rightarrow> (ChannelConfig \<Rightarrow> fault + ChannelConfig) \<Rightarrow> SystemConfig \<Rightarrow> fault + SystemConfig" where
  "modifyChannel gid f s =
     rbind (touchChannelConfig s gid) (\<lambda>s.
     rbind (getChannelConfig s gid) (\<lambda>c.
     rbind (f c) (\<lambda>c. setChannelConfig s gid c)))"

definition set_tac :: "bool \<Rightarrow> nat \<Rightarrow> TacConfig \<Rightarrow> ChannelConfig \<Rightarrow> fault + ChannelConfig" where
  "set_tac T n v c =
     (if T then rbind (set_entry (cc_tac_T c) n v) (\<lambda>xs. Inr (c\<lparr>cc_tac_T := xs\<rparr>))
      else rbind (set_entry (cc_tac_E c) n v) (\<lambda>xs. Inr (c\<lparr>cc_tac_E := xs\<rparr>)))"

definition tdc_line :: "string \<Rightarrow> SystemConfig \<Rightarrow> fault + SystemConfig" where
  "tdc_line line s =
     rbind (sscanf tdc_format line) (\<lambda>as.
     if length as \<noteq> 10 then Inr s
     else modifyChannel (gid_of_args as)
            (set_tac (arg_char (as ! 5) = CHR ''1'') (nat (arg_int (as ! 4)))
              \<lparr>tac_t0 = arg_float (as ! 6), tac_a0 = arg_float (as ! 7), tac_a1 = arg_float (as ! 8),
               tac_a2 = arg_float (as ! 9)\<rparr>) s)"

definition loadTDCCalibration :: "externals \<Rightarrow> string \<Rightarrow> SystemConfig \<Rightarrow> fault + SystemConfig" where
  "loadTDCCalibration E fn s = load_lines E PATH_MAX tdc_line fn s"

definition qdc_format :: "directive list" where
  "qdc_format = [DInt 32, WS, DUInt 32, WS, DUInt 32, WS, DUInt 32, WS, DUInt 32, WS, DInt 32, WS,
     DFloat, WS, DFloat, WS, DFloat, WS, DFloat, WS, DFloat, WS, DFloat, WS, DFloat, WS, DFloat, WS,
     DFloat, WS, DFloat]"

definition set_qac :: "nat \<Rightarrow> QacConfig \<Rightarrow> ChannelConfig \<Rightarrow> fault + ChannelConfig" where
  "set_qac n v c = rbind (set_entry (cc_qac_Q c) n v) (\<lambda>xs. Inr (c\<lparr>cc_qac_Q := xs\<rparr>))"

definition qdc_line :: "string \<Rightarrow> SystemConfig \<Rightarrow> fault + SystemConfig" where
  "qdc_line line s =
     rbind (sscanf qdc_format line) (\<lambda>as.
     if length as \<noteq> 16 then Inr s
     else modifyChannel (gid_of_args as)
            (set_qac (nat (arg_int (as ! 4)))
              \<lparr>qac_p0 = arg_float (as ! 6), qac_p1 = arg_float (as ! 7), qac_p2 = arg_float (as ! 8),
               qac_p3 = arg_float (as ! 9), qac_p4 = arg_float (as ! 10), qac_p5 = arg_float (as ! 11),
               qac_p6 = arg_float (as ! 12), qac_p7 = arg_float (as ! 13), qac_p8 = arg_float (as ! 14),
               qac_p9 = arg_float (as ! 15)\<rparr>) s)"

definition loadQDCCalibration :: "externals \<Rightarrow> string \<Rightarrow> SystemConfig \<Rightarrow> fault + SystemConfig" where
  "loadQDCCalibration E fn s = load_lines E PATH_MAX qdc_line fn s"

definition energy_format :: "directive list" where
  "energy_format = [DInt 32, WS, DUInt 32, WS, DUInt 32, WS, DUInt 32, WS, DUInt 32, WS, WS,
     DFloat, WS, DFloat, WS, DFloat, WS, DFloat, WS]"

definition set_energy :: "nat \<Rightarrow> EnergyConfig \<Rightarrow> ChannelConfig \<Rightarrow> fault + ChannelConfig" where
  "set_energy n v c = rbind (set_entry (cc_eCal c) n v) (\<lambda>xs. Inr (c\<lparr>cc_eCal := xs\<rparr>))"

definition energy_line :: "string \<Rightarrow> SystemConfig \<Rightarrow> fault + SystemConfig" where
  "energy_line line s =
     rbind (sscanf energy_format line) (\<lambda>as.
     if length as \<noteq> 9 then Inr s
     else modifyChannel (gid_of_args as)
            (set_energy (nat (arg_int (as ! 4)))
              \<lparr>en_p0 = arg_float (as ! 5), en_p1 = arg_float (as ! 6), en_p2 = arg_float (as ! 7),
               en_p3 = arg_float (as ! 8)\<rparr>) s)"

definition loadEnergyCalibration :: "externals \<Rightarrow> string \<Rightarrow> SystemConfig \<Rightarrow> fault + SystemConfig" where
  "loadEnergyCalibration E fn s = load_lines E 1024 energy_line fn s"

definition map_format :: "directive list" where
  "map_format = [DUInt 32, WS, DUInt 32, WS, DUInt 32, WS, DUInt 32, WS, DInt 32, WS, DInt 32, WS,
     DInt 32, WS, DFloat, WS, DFloat, WS, DFloat, WS]"

definition map_line :: "string \<Rightarrow> SystemConfig \<Rightarrow> fault + SystemConfig" where
  "map_line line s =
     rbind (sscanf map_format line) (\<lambda>as.
     if length as \<noteq> 10 then Inr s
     else modifyChannel (gid_of_args as)
            (\<lambda>c. Inr (c\<lparr>cc_triggerRegion := arg_int (as ! 4), cc_xi := arg_int (as ! 5), cc_yi := arg_int (as ! 6),
               cc_x := arg_float (as ! 7), cc_y := arg_float (as ! 8), cc_z := arg_float (as ! 9)\<rparr>)) s)"

definition loadChannelMap :: "externals \<Rightarrow> string \<Rightarrow> SystemConfig \<Rightarrow> fault + SystemConfig" where
  "loadChannelMap E fn s = load_lines E PATH_MAX map_line fn s"

definition trigger_format :: "directive list" where
  "trigger_format = [DInt 32, WS, DInt 32, WS, DChar, WS]"

definition set_trigger :: "int \<Rightarrow> int \<Rightarrow> char \<Rightarrow> SystemConfig \<Rightarrow> SystemConfig" where
  "set_trigger r1 r2 c s =
     (let a = region_index r1 r2; b = region_index r2 r1
      in s\<lparr>coincidenceTriggerMap := (coincidenceTriggerMap s)(a := (c = CHR ''C''), b := (c = CHR ''C'')),
           multihitTriggerMap := (multihitTriggerMap s)(a := (c = CHR ''M''), b := (c = CHR ''M''))\<rparr>)"

text \<open>The comparison of a negative \<open>int\<close> with the unsigned bound comes after the test for \<open>< 0\<close>.\<close>

definition trigger_line :: "string \<Rightarrow> SystemConfig \<Rightarrow> fault + SystemConfig" where
  "trigger_line line s =
     rbind (sscanf trigger_format line) (\<lambda>as.
     if length as \<noteq> 3 then Inl (Exit 1)
     else
       let r1 = arg_int (as ! 0); r2 = arg_int (as ! 1); c = toupper (arg_char (as ! 2)) in
       if r1 < 0 \<or> r1 \<ge> int MAX_TRIGGER_REGIONS \<or> r2 < 0 \<or> r2 \<ge> int MAX_TRIGGER_REGIONS then Inl (Exit 1)
       else if c \<noteq> CHR ''M'' \<and> c \<noteq> CHR ''C'' then Inl (Exit 1)
       else Inr (set_trigger r1 r2 c s))"

definition loadTriggerMap :: "externals \<Rightarrow> string \<Rightarrow> SystemConfig \<Rightarrow> fault + SystemConfig" where
  "loadTriggerMap E fn s = load_lines E PATH_MAX trigger_line fn s"

section \<open>The configuration file\<close>

text \<open>
  \<open>replace_variables\<close>: a null \<open>HOME\<close> has no string value, and a result of \<open>PATH_MAX\<close> characters
  or more is copied without its terminator.
\<close>

definition replace_variables :: "externals \<Rightarrow> string \<Rightarrow> string \<Rightarrow> fault + string" where
  "replace_variables E entry cdir =
     (let tmp = entry;
          tmp = ireplace_all E tmp ''%PWD%'' ''.'';
          tmp = ireplace_all E tmp ''%CDIR%'' cdir
      in case getenv_home E of
           None \<Rightarrow> Inl Unspecified
         | Some home \<Rightarrow>
             (let tmp = ireplace_all E tmp ''%HOME%'' home
              in if length tmp < PATH_MAX then Inr tmp else Inl OutOfBounds))"

text \<open>\<open>sprintf(fn2, fn, att)\<close> with the file name as format: at most one conversion, of the attenuation.\<close>

fun sprintf_int :: "string \<Rightarrow> int option \<Rightarrow> fault + string" where
  "sprintf_int [] a = Inr []"
| "sprintf_int (c # s) a =
     (if c \<noteq> CHR ''%'' then rbind (sprintf_int s a) (\<lambda>t. Inr (c # t))
      else case s of
        [] \<Rightarrow> Inl Unspecified
      | d # u \<Rightarrow>
          (if d = CHR ''%'' then rbind (sprintf_int u a) (\<lambda>t. Inr (CHR ''%'' # t))
           else if d = CHR ''d'' then
             (case a of None \<Rightarrow> Inl Unspecified
              | Some i \<Rightarrow> rbind (sprintf_int u None) (\<lambda>t. Inr (show_int i @ t)))
           else Inl Unspecified))"

text \<open>An entry of the section \<open>main\<close> that must be present.\<close>

definition required_entry :: "externals \<Rightarrow> string \<Rightarrow> string \<Rightarrow> fault + string" where
  "required_entry E cfg key = (case ini_getstring E cfg key of None \<Rightarrow> Inl (Exit 1) | Some e \<Rightarrow> Inr e)"

definition load_tdc_section :: "externals \<Rightarrow> string \<Rightarrow> string \<Rightarrow> SystemConfig \<Rightarrow> fault + SystemConfig" where
  "load_tdc_section E cfg cdir s =
     rbind (required_entry E cfg ''main:tdc_calibration_table'') (\<lambda>entry.
     rbind (replace_variables E entry cdir) (\<lambda>fn.
     rbind (loadTDCCalibration E fn s) (\<lambda>s. Inr (s\<lparr>hasTDCCalibration := True\<rparr>))))"

definition load_qdc_section ::
  "externals \<Rightarrow> string \<Rightarrow> string \<Rightarrow> int \<Rightarrow> SystemConfig \<Rightarrow> fault + SystemConfig" where
  "load_qdc_section E cfg cdir att s =
     rbind (required_entry E cfg ''main:qdc_calibration_table'') (\<lambda>entry.
     rbind (replace_variables E entry cdir) (\<lambda>fn.
     rbind (sprintf_int fn (Some att)) (\<lambda>fn2.
     rbind (if length fn2 < PATH_MAX then Inr fn2 else Inl OutOfBounds) (\<lambda>fn2.
     rbind (loadQDCCalibration E fn2 s) (\<lambda>s.
     let s = s\<lparr>hasQDCCalibration := True\<rparr> in
     case ini_getstring E cfg ''main:energy_calibration_table'' of
       None \<Rightarrow> Inr s
     | Some entry \<Rightarrow>
         rbind (replace_variables E entry cdir) (\<lambda>fn.
         rbind (loadEnergyCalibration E fn s) (\<lambda>s. Inr (s\<lparr>hasEnergyCalibration := True\<rparr>))))))))"

definition load_mapping_section ::
  "externals \<Rightarrow> string \<Rightarrow> string \<Rightarrow> SystemConfig \<Rightarrow> fault + SystemConfig" where
  "load_mapping_section E cfg cdir s =
     rbind (required_entry E cfg ''main:channel_map'') (\<lambda>entry.
     rbind (replace_variables E entry cdir) (\<lambda>fn.
     rbind (loadChannelMap E fn s) (\<lambda>s.
     let s = s\<lparr>hasXYZ := True\<rparr> in
     rbind (required_entry E cfg ''main:trigger_map'') (\<lambda>entry.
     rbind (replace_variables E entry cdir) (\<lambda>fn.
     loadTriggerMap E fn s)))))"

definition load_trigger_parameters :: "externals \<Rightarrow> string \<Rightarrow> SystemConfig \<Rightarrow> SystemConfig" where
  "load_trigger_parameters E cfg s =
     (let d = (\<lambda>i. fp_of_int F64 i)
      in s\<lparr>sw_trigger_group_max_hits := ini_getint E cfg ''sw_trigger:group_max_hits'' 64,
           sw_trigger_group_min_energy :=
             fp_convert F32 (ini_getdouble E cfg ''sw_trigger:group_min_energy'' (d (- 1000000))),
           sw_trigger_group_max_energy :=
             fp_convert F32 (ini_getdouble E cfg ''sw_trigger:group_max_energy'' (d 1000000)),
           sw_trigger_group_max_distance :=
             fp_convert F32 (ini_getdouble E cfg ''sw_trigger:group_max_distance'' (d 100)),
           sw_trigger_group_time_window := ini_getdouble E cfg ''sw_trigger:group_time_window'' (d 20),
           sw_trigger_coincidence_time_window :=
             ini_getdouble E cfg ''sw_trigger:coincidence_time_window'' (d 2)\<rparr>)"

definition fromFile_mask :: "externals \<Rightarrow> SystemConfig \<Rightarrow> string \<Rightarrow> u64 \<Rightarrow> int \<Rightarrow> fault + SystemConfig" where
  "fromFile_mask E junk cfg msk att =
     (if length cfg \<ge> PATH_MAX then Inl OutOfBounds
      else
        let cdir = dirname E cfg;
            s = (newSystemConfig junk)\<lparr>hasTDCCalibration := False\<rparr> in
        rbind (if msk AND LOAD_TDC_CALIBRATION \<noteq> 0 then load_tdc_section E cfg cdir s else Inr s) (\<lambda>s.
        let s = s\<lparr>hasQDCCalibration := False, hasEnergyCalibration := False\<rparr> in
        rbind (if msk AND LOAD_QDC_CALIBRATION \<noteq> 0 then load_qdc_section E cfg cdir att s else Inr s) (\<lambda>s.
        let s = s\<lparr>hasXYZ := False\<rparr> in
        rbind (if msk AND LOAD_MAPPING \<noteq> 0 then load_mapping_section E cfg cdir s else Inr s) (\<lambda>s.
        Inr (load_trigger_parameters E cfg s)))))"

definition fromFile :: "externals \<Rightarrow> SystemConfig \<Rightarrow> string \<Rightarrow> fault + SystemConfig" where
  "fromFile E junk cfg = fromFile_mask E junk cfg LOAD_ALL 4"

section \<open>The table as a map\<close>

text \<open>
  The contract of a table with keys, whose entries are changed through the reference that a
  look-up returns: \<open>good\<close> is what every entry satisfies.
\<close>

locale keyed_table =
  fixes inv :: "'s \<Rightarrow> bool" and key_ok :: "'k \<Rightarrow> bool" and good :: "'v \<Rightarrow> bool"
    and lookup :: "'s \<Rightarrow> 'k \<Rightarrow> fault + 'v"
    and modify :: "'k \<Rightarrow> ('v \<Rightarrow> fault + 'v) \<Rightarrow> 's \<Rightarrow> fault + 's"
  assumes lookup_ok: "inv s \<Longrightarrow> key_ok k \<Longrightarrow> \<exists>v. lookup s k = Inr v \<and> good v"
    and modify_ok: "inv s \<Longrightarrow> key_ok k \<Longrightarrow> lookup s k = Inr v \<Longrightarrow> f v = Inr w \<Longrightarrow> good w \<Longrightarrow>
      \<exists>s'. modify k f s = Inr s' \<and> inv s' \<and> lookup s' k = Inr w \<and> (\<forall>j. j \<noteq> k \<longrightarrow> lookup s' j = lookup s j)"
begin

text \<open>A sequence of changes: every entry has the changes made under its own key, in order.\<close>

lemma modify_all:
  assumes "inv s" "\<forall>(k, g) \<in> set us. key_ok k \<and> (\<forall>v. good v \<longrightarrow> good (g v))" "key_ok j" "lookup s j = Inr v"
  shows "\<exists>s'. rfold (\<lambda>(k, g). modify k (\<lambda>v. Inr (g v))) us s = Inr s' \<and> inv s'
     \<and> lookup s' j = Inr (fold (\<lambda>(k, g) v. if k = j then g v else v) us v)"
  using assms
proof (induction us arbitrary: s v)
  case (Cons u us)
  obtain k g where u: "u = (k, g)" by (cases u)
  obtain w where w: "lookup s k = Inr w" "good w" using lookup_ok [OF Cons.prems(1), of k] Cons.prems(2) u by auto
  have gw: "good (g w)" using Cons.prems(2) w(2) u by auto
  from modify_ok [OF Cons.prems(1) _ w(1), of "\<lambda>v. Inr (g v)"] Cons.prems(2) gw u
  obtain s1 where s1: "modify k (\<lambda>v. Inr (g v)) s = Inr s1" "inv s1" "lookup s1 k = Inr (g w)"
    "\<forall>j. j \<noteq> k \<longrightarrow> lookup s1 j = lookup s j" by auto
  define v1 where "v1 = (if k = j then g v else v)"
  have "lookup s1 j = Inr v1" using s1(3,4) w Cons.prems(4) by (auto simp: v1_def)
  with Cons.IH [OF s1(2) _ Cons.prems(3), of v1] Cons.prems(2) obtain s2 where
    "rfold (\<lambda>(k, g). modify k (\<lambda>v. Inr (g v))) us s1 = Inr s2" "inv s2"
    "lookup s2 j = Inr (fold (\<lambda>(k, g) v. if k = j then g v else v) us v1)" by auto
  with s1(1) u show ?case by (auto simp: v1_def)
qed simp

end

definition wf_config :: "SystemConfig \<Rightarrow> bool" where
  "wf_config s \<longleftrightarrow> length (channelConfig s) = PATH_MAX \<and> wf_channel (nullChannelConfig s) \<and>
     (\<forall>p. Some p \<in> set (channelConfig s) \<longrightarrow> length p = 4096 \<and> (\<forall>c \<in> set p. wf_channel c))"

text \<open>The identifiers the table has room for.\<close>

definition gid_ok :: "u32 \<Rightarrow> bool" where
  "gid_ok gid \<longleftrightarrow> indexH gid < PATH_MAX"

lemma indexL_bound [simp]: "indexL gid < 4096"
  by (simp add: indexL_def unat_mod) 

lemma index_inj: "indexH a = indexH b \<Longrightarrow> indexL a = indexL b \<Longrightarrow> a = b"
proof -
  assume "indexH a = indexH b" "indexL a = indexL b"
  then have "unat a div 4096 = unat b div 4096" "unat a mod 4096 = unat b mod 4096"
    by (simp_all add: indexH_def indexL_def unat_div unat_mod)
  then have "unat a = unat b" by (metis div_mult_mod_eq)
  then show "a = b" by (simp only: word_unat_eq_iff)
qed

lemma getChannelConfig_ok:
  assumes "wf_config s" "gid_ok g" shows "\<exists>c. getChannelConfig s g = Inr c \<and> wf_channel c"
proof (cases "channelConfig s ! indexH g")
  case None
  with assms show ?thesis by (simp add: getChannelConfig_def wf_config_def gid_ok_def)
next
  case (Some p)
  with assms have "Some p \<in> set (channelConfig s)" by (metis gid_ok_def nth_mem wf_config_def)
  with assms Some show ?thesis by (auto simp: getChannelConfig_def wf_config_def gid_ok_def)
qed

lemma touch_law:
  assumes "wf_config s" "gid_ok gid"
  shows "\<exists>p s'. touchChannelConfig s gid = Inr s' \<and> wf_config s' \<and> channelConfig s' ! indexH gid = Some p
     \<and> nullChannelConfig s' = nullChannelConfig s \<and> (\<forall>g. getChannelConfig s' g = getChannelConfig s g)
     \<and> s' = s\<lparr>channelConfig := channelConfig s'\<rparr>"
proof (cases "channelConfig s ! indexH gid")
  case None
  let ?p = "replicate 4096 (nullChannelConfig s)" and ?h = "indexH gid"
  let ?s = "s\<lparr>channelConfig := (channelConfig s)[?h := Some ?p]\<rparr>"
  have h: "?h < length (channelConfig s)" using assms by (simp add: gid_ok_def wf_config_def)
  have "getChannelConfig ?s g = getChannelConfig s g" for g
    using None h by (auto simp: getChannelConfig_def idx_def nth_list_update split: option.splits)
  moreover have "wf_config ?s"
    using assms by (auto simp: wf_config_def dest!: set_update_subset_insert [THEN subsetD])
  moreover have "touchChannelConfig s gid = Inr ?s" using None h by (simp add: touchChannelConfig_def)
  ultimately show ?thesis using h by (intro exI [of _ ?p] exI [of _ ?s]) auto
next
  case (Some p)
  then have "touchChannelConfig s gid = Inr s" using assms by (simp add: touchChannelConfig_def gid_ok_def wf_config_def)
  with Some assms show ?thesis by auto
qed

lemma modify_law:
  assumes wf: "wf_config s" and gid: "gid_ok gid" and c: "getChannelConfig s gid = Inr c"
    and f: "f c = Inr d" and d: "wf_channel d"
  shows "\<exists>s'. modifyChannel gid f s = Inr s' \<and> wf_config s' \<and> getChannelConfig s' gid = Inr d
     \<and> (\<forall>j. j \<noteq> gid \<longrightarrow> getChannelConfig s' j = getChannelConfig s j)
     \<and> s' = s\<lparr>channelConfig := channelConfig s'\<rparr>"
proof -
  let ?h = "indexH gid" and ?l = "indexL gid"
  obtain p s1 where t: "touchChannelConfig s gid = Inr s1" "wf_config s1" "channelConfig s1 ! ?h = Some p"
    "\<forall>g. getChannelConfig s1 g = getChannelConfig s g" "s1 = s\<lparr>channelConfig := channelConfig s1\<rparr>"
    using touch_law [OF wf gid] by blast
  have h: "?h < length (channelConfig s1)" using t(2) gid by (simp add: wf_config_def gid_ok_def)
  then have "Some p \<in> set (channelConfig s1)" using t(3) by (metis nth_mem)
  then have p: "length p = 4096" "\<forall>c \<in> set p. wf_channel c" using t(2) by (auto simp: wf_config_def)
  let ?s = "s1\<lparr>channelConfig := (channelConfig s1)[?h := Some (p[?l := d])]\<rparr>"
  have "modifyChannel gid f s = Inr ?s"
    using t(1,3,4) c f h p by (simp add: modifyChannel_def setChannelConfig_def)
  moreover have "wf_config ?s"
    using t(2) p d by (auto simp: wf_config_def dest!: set_update_subset_insert [THEN subsetD])
  moreover have "getChannelConfig ?s gid = Inr d" using h p by (simp add: getChannelConfig_def)
  moreover have "getChannelConfig ?s j = getChannelConfig s j" if "j \<noteq> gid" for j
  proof (cases "indexH j = ?h")
    case True
    then have "indexL j \<noteq> ?l" using that index_inj by blast
    then have "getChannelConfig ?s j = getChannelConfig s1 j"
      using h t(3) True by (simp add: getChannelConfig_def idx_def)
    with t(4) show ?thesis by simp
  next
    case False
    then have "getChannelConfig ?s j = getChannelConfig s1 j"
      by (auto simp: getChannelConfig_def idx_def split: option.splits)
    with t(4) show ?thesis by simp
  qed
  moreover have "?s = s\<lparr>channelConfig := channelConfig ?s\<rparr>" by (subst t(5)) simp
  ultimately show ?thesis by blast
qed

interpretation ct: keyed_table wf_config gid_ok wf_channel getChannelConfig modifyChannel
proof (unfold_locales, goal_cases)
  case (1 s k) then show ?case by (rule getChannelConfig_ok)
next
  case (2 s k v f w) then show ?case using modify_law by blast
qed

section \<open>Trigger maps\<close>

definition in_region :: "int \<Rightarrow> bool" where
  "in_region r \<longleftrightarrow> 0 \<le> r \<and> r < int MAX_TRIGGER_REGIONS"

lemma region_index_eq: "in_region a \<Longrightarrow> in_region b \<Longrightarrow> int (region_index a b) = a * 4096 + b"
proof -
  assume ab: "in_region a" "in_region b"
  have "uint (word_of_int a * of_nat MAX_TRIGGER_REGIONS + word_of_int b :: u32) = a * 4096 + b"
    using ab by (simp add: in_region_def MAX_TRIGGER_REGIONS_def uint_word_ariths uint_word_of_int mod_pos_pos_trivial)
  then show ?thesis by (simp add: region_index_def)
qed

lemma region_index_iff:
  "in_region a \<Longrightarrow> in_region b \<Longrightarrow> in_region c \<Longrightarrow> in_region d \<Longrightarrow> region_index a b = region_index c d \<longleftrightarrow> a = c \<and> b = d"
proof -
  assume r: "in_region a" "in_region b" "in_region c" "in_region d"
  have "(a * 4096 + b) div 4096 = a" "(c * 4096 + d) div 4096 = c"
    using r by (simp_all add: in_region_def MAX_TRIGGER_REGIONS_def)
  then have "a * 4096 + b = c * 4096 + d \<longleftrightarrow> a = c \<and> b = d" by (metis add_left_cancel)
  then show ?thesis using region_index_eq [OF r(1,2)] region_index_eq [OF r(3,4)] by linarith
qed

lemma read_map_ok: "in_region a \<Longrightarrow> in_region b \<Longrightarrow> read_map m (region_index a b) = Inr (m (region_index a b))"
  using region_index_eq [of a b] by (auto simp: read_map_def in_region_def MAX_TRIGGER_REGIONS_def)

definition trigger_ok :: "SystemConfig \<Rightarrow> bool" where
  "trigger_ok s \<longleftrightarrow> (\<forall>a b. in_region a \<longrightarrow> in_region b \<longrightarrow>
     isCoincidenceAllowed s a b = isCoincidenceAllowed s b a \<and> isMultiHitAllowed s a b = isMultiHitAllowed s b a \<and>
     \<not> (isCoincidenceAllowed s a b = Inr True \<and> isMultiHitAllowed s a b = Inr True))"

lemma allowed_lookup: "in_region a \<Longrightarrow> in_region b \<Longrightarrow> isCoincidenceAllowed s a b = Inr (coincidenceTriggerMap s (region_index a b))"
  "in_region a \<Longrightarrow> in_region b \<Longrightarrow> isMultiHitAllowed s a b = Inr (multihitTriggerMap s (region_index a b))"
  by (simp_all only: isCoincidenceAllowed_def isMultiHitAllowed_def read_map_ok)
lemma set_trigger_maps:
 "coincidenceTriggerMap (set_trigger r1 r2 c s) i = (if i = region_index r1 r2 \<or> i = region_index r2 r1 then c = CHR ''C'' else coincidenceTriggerMap s i)"
 "multihitTriggerMap (set_trigger r1 r2 c s) i = (if i = region_index r1 r2 \<or> i = region_index r2 r1 then c = CHR ''M'' else multihitTriggerMap s i)"
 by (simp_all add: set_trigger_def Let_def)
lemma set_trigger_lookup:
  assumes "in_region a" "in_region b" "in_region r1" "in_region r2"
  shows "isCoincidenceAllowed (set_trigger r1 r2 c s) a b =
      (if (a, b) = (r1, r2) \<or> (a, b) = (r2, r1) then Inr (c = CHR ''C'') else isCoincidenceAllowed s a b)"
    and "isMultiHitAllowed (set_trigger r1 r2 c s) a b =
      (if (a, b) = (r1, r2) \<or> (a, b) = (r2, r1) then Inr (c = CHR ''M'') else isMultiHitAllowed s a b)"
   unfolding allowed_lookup [OF assms(1,2)] set_trigger_maps
      region_index_iff [OF assms(1,2,3,4)] region_index_iff [OF assms(1,2,4,3)] prod.inject
  by (auto simp only: split: if_splits)
lemma set_trigger_ok: "trigger_ok s \<Longrightarrow> in_region r1 \<Longrightarrow> in_region r2 \<Longrightarrow> trigger_ok (set_trigger r1 r2 c s)"
  unfolding trigger_ok_def by (auto simp: set_trigger_lookup)

lemma trigger_ok_cong:
  "coincidenceTriggerMap t = coincidenceTriggerMap s \<Longrightarrow> multihitTriggerMap t = multihitTriggerMap s \<Longrightarrow> trigger_ok t = trigger_ok s"
  by (simp add: trigger_ok_def isCoincidenceAllowed_def isMultiHitAllowed_def)

lemma trigger_line_set:
  assumes "trigger_line line s = Inr s'"
  shows "\<exists>r1 r2 c. in_region r1 \<and> in_region r2 \<and> c \<in> {CHR ''M'', CHR ''C''} \<and> s' = set_trigger r1 r2 c s"
proof -
  obtain as where "sscanf trigger_format line = Inr as" using assms by (auto simp: trigger_line_def rbind_Inr_iff)
  with assms show ?thesis
    by (intro exI [of _ "arg_int (as ! 0)"] exI [of _ "arg_int (as ! 1)"] exI [of _ "toupper (arg_char (as ! 2))"])
      (auto simp: trigger_line_def Let_def in_region_def split: if_splits)
qed

text \<open>
  After a line of the trigger map for the regions \<open>r1\<close> and \<open>r2\<close> has been accepted, both orders
  of the two regions have its type, in one of the two maps only, and every other pair of regions is as before.
\<close>

theorem trigger_line_effect:
  assumes "trigger_line line s = Inr s'" "in_region a" "in_region b"
  shows "\<exists>r1 r2 c. in_region r1 \<and> in_region r2 \<and> c \<in> {CHR ''M'', CHR ''C''} \<and>
     isCoincidenceAllowed s' a b =
       (if {a, b} = {r1, r2} then Inr (c = CHR ''C'') else isCoincidenceAllowed s a b) \<and>
     isMultiHitAllowed s' a b =
       (if {a, b} = {r1, r2} then Inr (c = CHR ''M'') else isMultiHitAllowed s a b)"
proof -
  obtain r1 r2 c where "in_region r1" "in_region r2" "c \<in> {CHR ''M'', CHR ''C''}" "s' = set_trigger r1 r2 c s"
    using trigger_line_set [OF assms(1)] by blast
  moreover have "{a, b} = {r1, r2} \<longleftrightarrow> (a, b) = (r1, r2) \<or> (a, b) = (r2, r1)" by (auto simp: doubleton_eq_iff)
  moreover note set_trigger_lookup [OF assms(2,3), of r1 r2 c s]
  ultimately show ?thesis
    by (intro exI [of _ r1] exI [of _ r2] exI [of _ c]) (simp only: simp_thms)
qed

section \<open>What a loaded configuration satisfies\<close>

text \<open>
  \<open>loaded n s\<close>: the table is well formed, unused identifiers still map to the initial null
  configuration \<open>n\<close>, and the trigger maps are symmetric and exclusive.
\<close>

definition loaded :: "ChannelConfig \<Rightarrow> SystemConfig \<Rightarrow> bool" where
  "loaded n s \<longleftrightarrow> wf_config s \<and> nullChannelConfig s = n \<and> trigger_ok s"

lemma loaded_modify:
  assumes "loaded n s" "modifyChannel gid f s = Inr s'" "\<And>c d. wf_channel c \<Longrightarrow> f c = Inr d \<Longrightarrow> wf_channel d"
  shows "loaded n s'"
proof -
  have wf: "wf_config s" using assms(1) by (simp add: loaded_def)
  have g: "gid_ok gid"
    using assms(2) wf by (auto simp: modifyChannel_def touchChannelConfig_def gid_ok_def wf_config_def rbind_Inr_iff idx_Inr_iff)
  obtain c where c: "getChannelConfig s gid = Inr c" "wf_channel c" using getChannelConfig_ok [OF wf g] by blast
  obtain s1 where "touchChannelConfig s gid = Inr s1" "\<forall>g. getChannelConfig s1 g = getChannelConfig s g"
    using touch_law [OF wf g] by blast
  then obtain d where d: "f c = Inr d" using assms(2) c by (auto simp: modifyChannel_def rbind_Inr_iff)
  obtain s2 where "modifyChannel gid f s = Inr s2" "wf_config s2" "s2 = s\<lparr>channelConfig := channelConfig s2\<rparr>"
    using modify_law [where f = f, OF wf g c(1) d assms(3) [OF c(2) d]] by blast
  then have s': "wf_config s'" "s' = s\<lparr>channelConfig := channelConfig s'\<rparr>" using assms(2) by auto
  have "nullChannelConfig s' = nullChannelConfig s" "trigger_ok s' = trigger_ok s"
    by (subst s'(2), simp) (rule trigger_ok_cong; subst s'(2); simp)
  with s'(1) assms(1) show ?thesis by (simp add: loaded_def)
qed

lemma set_entry_length: "set_entry xs i x = Inr ys \<Longrightarrow> length ys = length xs"
  by (auto simp: set_entry_def split: if_splits)

lemma setters_wf:
  "wf_channel c \<Longrightarrow> set_tac T n v c = Inr d \<Longrightarrow> wf_channel d"
  "wf_channel c \<Longrightarrow> set_qac n q c = Inr d \<Longrightarrow> wf_channel d"
  "wf_channel c \<Longrightarrow> set_energy n e c = Inr d \<Longrightarrow> wf_channel d"
  by (auto simp: set_tac_def set_qac_def set_energy_def wf_channel_def rbind_Inr_iff dest: set_entry_length split: if_splits)

lemma loaded_step:
  assumes "rbind r (\<lambda>as. if p as then Inr s else modifyChannel (g as) (f as) s) = Inr s'" "loaded n s"
    and "\<And>as c d. wf_channel c \<Longrightarrow> f as c = Inr d \<Longrightarrow> wf_channel d"
  shows "loaded n s'"
proof -
  obtain as where "(if p as then Inr s else modifyChannel (g as) (f as) s) = Inr s'" using assms(1) by (auto simp: rbind_Inr_iff)
  with loaded_modify [OF assms(2) _ assms(3)] assms(2) show ?thesis by (auto split: if_splits)
qed

lemma loaded_lines:
  "loaded n s \<Longrightarrow> tdc_line l s = Inr s' \<Longrightarrow> loaded n s'"
  "loaded n s \<Longrightarrow> qdc_line l s = Inr s' \<Longrightarrow> loaded n s'"
  "loaded n s \<Longrightarrow> energy_line l s = Inr s' \<Longrightarrow> loaded n s'"
  "loaded n s \<Longrightarrow> map_line l s = Inr s' \<Longrightarrow> loaded n s'"
  unfolding tdc_line_def qdc_line_def energy_line_def map_line_def
  by (erule loaded_step, assumption, erule (1) setters_wf)+ (erule loaded_step, assumption, auto simp: wf_channel_def)

lemma loaded_trigger_line: "loaded n s \<Longrightarrow> trigger_line l s = Inr s' \<Longrightarrow> loaded n s'"
  using trigger_line_set [of l s s'] set_trigger_ok [of s]
  by (auto simp: loaded_def set_trigger_def Let_def wf_config_def)

lemma loaded_load:
  assumes "load_lines E sz step fn s = Inr s'" "loaded n s" "\<And>l s s'. loaded n s \<Longrightarrow> step l s = Inr s' \<Longrightarrow> loaded n s'"
  shows "loaded n s'"
proof -
  obtain f where f: "fopen E fn = Some f" using assms(1) by (auto simp: load_lines_def split: option.splits)
  let ?step = "\<lambda>line s. let line = normalizeLine E line in if line = [] then Inr s else step line s"
  have "for_lines sz ?step f s = Inr s'" using assms(1) f by (simp add: load_lines_def)
  then show ?thesis
    by (rule for_lines_inv [where P = "loaded n"]) (use assms(2,3) in \<open>auto simp: Let_def split: if_splits\<close>)
qed

lemma loaded_flags [simp]:
  "loaded n (s\<lparr>hasTDCCalibration := b\<rparr>) = loaded n s" "loaded n (s\<lparr>hasQDCCalibration := b\<rparr>) = loaded n s"
  "loaded n (s\<lparr>hasEnergyCalibration := b\<rparr>) = loaded n s" "loaded n (s\<lparr>hasXYZ := b\<rparr>) = loaded n s"
  "loaded n (load_trigger_parameters E cfg s) = loaded n s"
  by (auto simp: loaded_def wf_config_def trigger_ok_def isCoincidenceAllowed_def isMultiHitAllowed_def
      load_trigger_parameters_def Let_def)

lemma loaded_files:
  "loaded n s \<Longrightarrow> loadTDCCalibration E fn s = Inr s' \<Longrightarrow> loaded n s'"
  "loaded n s \<Longrightarrow> loadQDCCalibration E fn s = Inr s' \<Longrightarrow> loaded n s'"
  "loaded n s \<Longrightarrow> loadEnergyCalibration E fn s = Inr s' \<Longrightarrow> loaded n s'"
  "loaded n s \<Longrightarrow> loadChannelMap E fn s = Inr s' \<Longrightarrow> loaded n s'"
  "loaded n s \<Longrightarrow> loadTriggerMap E fn s = Inr s' \<Longrightarrow> loaded n s'"
  unfolding loadTDCCalibration_def loadQDCCalibration_def loadEnergyCalibration_def loadChannelMap_def loadTriggerMap_def
  by (erule (1) loaded_load, erule (1) loaded_lines)+ (erule (1) loaded_load, erule (1) loaded_trigger_line)

lemma loaded_sections:
  "loaded n s \<Longrightarrow> load_tdc_section E cfg cdir s = Inr s' \<Longrightarrow> loaded n s'"
  "loaded n s \<Longrightarrow> load_qdc_section E cfg cdir att s = Inr s' \<Longrightarrow> loaded n s'"
  "loaded n s \<Longrightarrow> load_mapping_section E cfg cdir s = Inr s' \<Longrightarrow> loaded n s'"
proof -
  assume s: "loaded n s"
  show "load_tdc_section E cfg cdir s = Inr s' \<Longrightarrow> loaded n s'"
    unfolding load_tdc_section_def by (elim rbind_E) (auto dest: loaded_files(1) [OF s])
  show "load_mapping_section E cfg cdir s = Inr s' \<Longrightarrow> loaded n s'"
    unfolding load_mapping_section_def Let_def
    by (elim rbind_E) (drule loaded_files(4) [OF s], rule loaded_files(5), simp_all)
  show "loaded n s'" if "load_qdc_section E cfg cdir att s = Inr s'"
  proof -
    from that obtain s1 fn2 where l: "loadQDCCalibration E fn2 s = Inr s1" and
      r: "(case ini_getstring E cfg ''main:energy_calibration_table'' of
       None \<Rightarrow> Inr (s1\<lparr>hasQDCCalibration := True\<rparr>)
     | Some entry \<Rightarrow>
         rbind (replace_variables E entry cdir) (\<lambda>fn.
         rbind (loadEnergyCalibration E fn (s1\<lparr>hasQDCCalibration := True\<rparr>))
           (\<lambda>s. Inr (s\<lparr>hasEnergyCalibration := True\<rparr>)))) = Inr s'"
      unfolding load_qdc_section_def Let_def by (elim rbind_E) blast
    have "loaded n (s1\<lparr>hasQDCCalibration := True\<rparr>)" using loaded_files(2) [OF s l] by simp
    from loaded_files(3) [OF this] r this show ?thesis
      by (auto split: option.splits elim!: rbind_E)
  qed
qed

lemma init_null_wf: "wf_channel c \<Longrightarrow> wf_channel (init_null n c)"
  by (simp add: init_null_def wf_channel_def)

text \<open>Only the first four entries of each array of the null configuration are initialised.\<close>

lemma null_entries:
  assumes "wf_channel (nullChannelConfig junk)" "n < 8"
  shows "cc_tac_T (nullChannelConfig (newSystemConfig junk)) ! n =
      (if n < 4 then zero_tac else cc_tac_T (nullChannelConfig junk) ! n)"
proof -
  have "[0..<4] = [0, 1, 2, 3::nat]" by (simp add: upt_rec)
  then show ?thesis
    using assms by (auto simp: newSystemConfig_def init_null_def wf_channel_def nth_list_update)
qed

lemma loaded_new:
  assumes "wf_channel (nullChannelConfig junk)"
  shows "loaded (nullChannelConfig (newSystemConfig junk)) (newSystemConfig junk)"
proof -
  have "wf_channel (fold init_null ns c)" if "wf_channel c" for ns c
    using that by (induction ns arbitrary: c) (auto simp: init_null_wf)
  with assms show ?thesis
    by (auto simp: loaded_def wf_config_def newSystemConfig_def trigger_ok_def isCoincidenceAllowed_def
        isMultiHitAllowed_def read_map_ok)
qed

lemma loaded_bind:
  "rbind (if b then r else Inr u) k = Inr t \<Longrightarrow> loaded n u \<Longrightarrow> (\<And>v. r = Inr v \<Longrightarrow> loaded n v) \<Longrightarrow>
   \<exists>v. loaded n v \<and> k v = Inr t"
  by (auto elim!: rbind_E split: if_splits)

text \<open>
  C13: A configuration that is read from files without an error has a well-formed channel table, its
  null configuration is still the one the constructor made (no loader writes through it), and its two trigger maps are
  symmetric and never both allow a pair of regions.
\<close>

theorem fromFile_loaded:
  assumes "wf_channel (nullChannelConfig junk)" and "fromFile_mask E junk cfg msk att = Inr s"
  shows "loaded (nullChannelConfig (newSystemConfig junk)) s"
proof -
  let ?n = "nullChannelConfig (newSystemConfig junk)"
  have s0: "loaded ?n ((newSystemConfig junk)\<lparr>hasTDCCalibration := False\<rparr>)" using loaded_new [OF assms(1)] by simp
  note r0 = assms(2) [unfolded fromFile_mask_def Let_def]
  have "\<not> length cfg \<ge> PATH_MAX" using r0 by (auto split: if_splits)
  note r1 = r0 [unfolded if_not_P [OF this]]
  from loaded_bind [OF r1 s0] loaded_sections(1) [OF s0] obtain s1 where s1: "loaded ?n s1" and
    r2: "rbind (if msk AND LOAD_QDC_CALIBRATION \<noteq> 0 then load_qdc_section E cfg (dirname E cfg) att
          (s1\<lparr>hasQDCCalibration := False, hasEnergyCalibration := False\<rparr>)
          else Inr (s1\<lparr>hasQDCCalibration := False, hasEnergyCalibration := False\<rparr>)) (\<lambda>s.
        rbind (if msk AND LOAD_MAPPING \<noteq> 0 then load_mapping_section E cfg (dirname E cfg) (s\<lparr>hasXYZ := False\<rparr>)
          else Inr (s\<lparr>hasXYZ := False\<rparr>)) (\<lambda>s. Inr (load_trigger_parameters E cfg s))) = Inr s" by blast
  have q: "loaded ?n (s1\<lparr>hasQDCCalibration := False, hasEnergyCalibration := False\<rparr>)" using s1 by simp
  from loaded_bind [OF r2 q] loaded_sections(2) [OF q] obtain s2 where s2: "loaded ?n s2" and
    r3: "rbind (if msk AND LOAD_MAPPING \<noteq> 0 then load_mapping_section E cfg (dirname E cfg) (s2\<lparr>hasXYZ := False\<rparr>)
          else Inr (s2\<lparr>hasXYZ := False\<rparr>)) (\<lambda>s. Inr (load_trigger_parameters E cfg s)) = Inr s" by blast
  have x: "loaded ?n (s2\<lparr>hasXYZ := False\<rparr>)" using s2 by simp
  from loaded_bind [OF r3 x] loaded_sections(3) [OF x] show ?thesis by force
qed

text \<open>
  Changing the configuration of one channel of the table, as the loaders do, changes what is
  looked up for that identifier and for no other, allocates what it needs and leaves the null
  configuration alone.
\<close>

theorem channel_table_update:
  assumes "wf_config s" and "gid_ok gid" and "getChannelConfig s gid = Inr c" and "f c = Inr d" and "wf_channel d"
  shows "\<exists>s'. modifyChannel gid f s = Inr s' \<and> wf_config s' \<and> nullChannelConfig s' = nullChannelConfig s
     \<and> getChannelConfig s' = (getChannelConfig s)(gid := Inr d)"
proof -
  obtain s' where s': "modifyChannel gid f s = Inr s'" "wf_config s'" "getChannelConfig s' gid = Inr d"
    "\<forall>j. j \<noteq> gid \<longrightarrow> getChannelConfig s' j = getChannelConfig s j" "s' = s\<lparr>channelConfig := channelConfig s'\<rparr>"
    using modify_law [where f = f, OF assms] by blast
  have "nullChannelConfig s' = nullChannelConfig s" by (subst s'(5)) simp
  moreover have "getChannelConfig s' = (getChannelConfig s)(gid := Inr d)" using s'(3,4) by auto
  ultimately show ?thesis using s'(1,2) by blast
qed

section \<open>Examples\<close>

definition example_channel :: ChannelConfig where
  "example_channel = \<lparr>cc_x = zero32, cc_y = zero32, cc_z = zero32, cc_xi = 0, cc_yi = 0, cc_triggerRegion = 0,
     cc_t0 = zero32, cc_tac_T = replicate 8 zero_tac, cc_tac_E = replicate 8 zero_tac,
     cc_qac_Q = replicate 8 zero_qac, cc_eCal = replicate 8 zero_energy\<rparr>"

definition example_memory :: SystemConfig where
  "example_memory = \<lparr>sw_trigger_group_max_hits = 0, sw_trigger_group_min_energy = NaN,
     sw_trigger_group_max_energy = NaN, sw_trigger_group_max_distance = NaN, sw_trigger_group_time_window = NaN,
     sw_trigger_coincidence_time_window = NaN, hasTDCCalibration = True, hasQDCCalibration = True,
     hasEnergyCalibration = True, hasXYZ = True, channelConfig = [], nullChannelConfig = example_channel,
     coincidenceTriggerMap = (\<lambda>_. True), multihitTriggerMap = (\<lambda>_. True)\<rparr>"

lemma example_wf: "wf_channel (nullChannelConfig example_memory)"
  by (simp add: example_memory_def example_channel_def wf_channel_def)

definition example_externals :: externals where
  "example_externals = std_externals\<lparr>fopen := (\<lambda>fn. if fn = ''t'' then Some ''1 0 c'' else Some ''''),
     ini_getstring := (\<lambda>f k. Some (if k = ''main:trigger_map'' then ''t'' else ''x''))\<rparr>"

lemma example_empty: "load_lines example_externals sz step ''x'' s = Inr s"
  by (simp add: load_lines_def example_externals_def for_lines.simps read_line_def)

lemma example_replace: "length e < PATH_MAX \<Longrightarrow> replace_variables example_externals e d = Inr e"
  by (simp add: replace_variables_def example_externals_def std_externals_def)

lemma example_trigger_map: "load_lines example_externals PATH_MAX trigger_line ''t'' s = Inr (set_trigger 1 0 CHR ''C'' s)"
proof -
  have r: "read_line PATH_MAX ''1 0 c'' = Inr (Some (''1 0 c'', []))" "read_line PATH_MAX [] = Inr None"
    by (simp_all add: read_line_def PATH_MAX_def NL_def skip_ws_def)
  have "normalizeLine example_externals ''1 0 c'' = normalizeLine std_externals ''1 0 c''"
    by (simp add: normalizeLine_def example_externals_def)
  also have "\<dots> = [CHR ''1'', TAB, CHR ''0'', TAB, CHR ''c'']" by code_simp
  finally have n: "normalizeLine example_externals ''1 0 c'' = [CHR ''1'', TAB, CHR ''0'', TAB, CHR ''c'']" .
  have "sscanf trigger_format [CHR ''1'', TAB, CHR ''0'', TAB, CHR ''c''] = Inr [AInt 1, AInt 0, AChar CHR ''c'']" by code_simp
  moreover have "toupper CHR ''c'' = CHR ''C''" by code_simp
  ultimately have "trigger_line [CHR ''1'', TAB, CHR ''0'', TAB, CHR ''c''] s = Inr (set_trigger 1 0 CHR ''C'' s)"
    by (simp add: trigger_line_def MAX_TRIGGER_REGIONS_def)
  moreover have "fopen example_externals ''t'' = Some ''1 0 c''" by (simp add: example_externals_def)
  ultimately show ?thesis
    by (simp add: load_lines_def for_lines.simps [of _ _ "''1 0 c''"] for_lines.simps [of _ _ "[]"] r n Let_def)
qed

theorem fromFile_witness:
  "\<exists>s. fromFile_mask example_externals example_memory ''cfg'' LOAD_MAPPING 4 = Inr s
     \<and> isCoincidenceAllowed s 0 1 = Inr True \<and> loaded (nullChannelConfig (newSystemConfig example_memory)) s"
proof -
  let ?s = "load_trigger_parameters example_externals ''cfg''
     (set_trigger 1 0 CHR ''C'' ((newSystemConfig example_memory)\<lparr>hasTDCCalibration := False,
        hasQDCCalibration := False, hasEnergyCalibration := False, hasXYZ := False, hasXYZ := True\<rparr>))"
  have e: "required_entry example_externals cfg k = Inr (if k = ''main:trigger_map'' then ''t'' else ''x'')" for cfg k
    by (simp add: required_entry_def example_externals_def)
  have n: "length ''x'' < PATH_MAX" "length ''t'' < PATH_MAX" "length ''cfg'' < PATH_MAX" by (simp_all add: PATH_MAX_def)
  have f: "fromFile_mask example_externals example_memory ''cfg'' LOAD_MAPPING 4 = Inr ?s"
    using n(3) by (simp add: fromFile_mask_def LOAD_MAPPING_def LOAD_TDC_CALIBRATION_def LOAD_QDC_CALIBRATION_def Let_def
        load_mapping_section_def example_replace [OF n(1)] example_replace [OF n(2)] loadChannelMap_def
        loadTriggerMap_def example_empty example_trigger_map e)
  moreover have "isCoincidenceAllowed ?s 0 1 = Inr True"
    by (simp add: load_trigger_parameters_def Let_def isCoincidenceAllowed_def read_map_ok in_region_def
        MAX_TRIGGER_REGIONS_def set_trigger_maps)
  moreover note fromFile_loaded [OF example_wf f]
  ultimately show ?thesis by blast
qed

theorem channel_table_witness:
  "\<exists>s'. modifyChannel 5000 (\<lambda>c. Inr (c\<lparr>cc_triggerRegion := 7\<rparr>)) (newSystemConfig example_memory) = Inr s'
     \<and> getChannelConfig s' 5001 = getChannelConfig (newSystemConfig example_memory) 5001"
proof -
  let ?s = "newSystemConfig example_memory"
  have wf: "wf_config ?s" using loaded_new [OF example_wf] by (simp add: loaded_def)
  have g: "gid_ok 5000" by (simp add: gid_ok_def indexH_def PATH_MAX_def)
  obtain c where c: "getChannelConfig ?s 5000 = Inr c" "wf_channel c" using getChannelConfig_ok [OF wf g] by blast
  then have "wf_channel (c\<lparr>cc_triggerRegion := 7\<rparr>)" by (simp add: wf_channel_def)
  from channel_table_update [where f = "\<lambda>c. Inr (c\<lparr>cc_triggerRegion := 7\<rparr>)", OF wf g c(1) refl this]
  show ?thesis by auto
qed

theorem trigger_line_witness:
  "\<exists>s' r1 r2. trigger_line ''3 2 m'' (newSystemConfig example_memory) = Inr s' \<and> in_region r1 \<and> in_region r2 \<and>
     isMultiHitAllowed s' 2 3 = isMultiHitAllowed s' 3 2"
proof -
  have "sscanf trigger_format ''3 2 m'' = Inr [AInt 3, AInt 2, AChar CHR ''m'']" by code_simp
  moreover have "toupper CHR ''m'' = CHR ''M''" by code_simp
  ultimately obtain s' where s': "trigger_line ''3 2 m'' (newSystemConfig example_memory) = Inr s'"
    by (simp add: trigger_line_def MAX_TRIGGER_REGIONS_def)
  have r: "in_region 2" "in_region 3" by (simp_all add: in_region_def MAX_TRIGGER_REGIONS_def)
  have "trigger_ok s'"
    using loaded_trigger_line [OF loaded_new [OF example_wf] s'] by (simp add: loaded_def)
  with trigger_line_effect [OF s' r] s' r show ?thesis unfolding trigger_ok_def by blast
qed

end
