(* ===== verification/Coarse_Sorter.thy ===== *)
theory Coarse_Sorter
  imports Event_Buffer "HOL-Library.Multiset"
begin

text \<open>
  The first processing stage, base/CoarseSorter.cpp: the events of a buffer are copied in the order
  of their coarse time. The library's sort is a parameter: it may order equivalent entries
  as it likes, \<open>sort_contract\<close> is what it promises. The theorem shows that the stage never reads
  outside its input, loses and invents nothing, and that its output is ordered by coarse time and
  therefore by frame.
\<close>

record SortEntry =
  se_frameID :: int
  se_time :: int
  se_index :: nat

definition sort_less :: "SortEntry \<Rightarrow> SortEntry \<Rightarrow> bool" where
  "sort_less lhs rhs \<longleftrightarrow> se_frameID lhs < se_frameID rhs \<or> se_time lhs < se_time rhs"

definition make_entry :: "RawHit \<Rightarrow> nat \<Rightarrow> SortEntry" where
  "make_entry p i =
     (let T = 1; frameTime = 1024 * T
      in \<lparr>se_frameID = cdiv (rh_time p) frameTime, se_time = cdiv (rh_time p) (4 * T), se_index = i\<rparr>)"

definition push_entry :: "RawHit EventBuffer \<Rightarrow> nat \<Rightarrow> SortEntry list \<Rightarrow> fault + SortEntry list" where
  "push_entry inBuffer i sortList = rbind (get inBuffer i) (\<lambda>p. Inr (sortList @ [make_entry p i]))"

definition copy_entry ::
  "RawHit EventBuffer \<Rightarrow> SortEntry \<Rightarrow> RawHit EventBuffer \<times> u32 \<Rightarrow> fault + RawHit EventBuffer \<times> u32" where
  "copy_entry inBuffer e = (\<lambda>(outBuffer, lSingleRead).
     rbind (get inBuffer (se_index e)) (\<lambda>p.
     rbind (push outBuffer p) (\<lambda>outBuffer. Inr (outBuffer, lSingleRead + 1))))"

record CoarseSorter =
  nSingleRead :: u32

definition newCoarseSorter :: CoarseSorter where
  "newCoarseSorter = \<lparr>nSingleRead = 0\<rparr>"

text \<open>\<open>junk\<close> and \<open>jt\<close> are the memory of the new buffer.\<close>

definition sorter_handleEvents ::
  "((SortEntry \<Rightarrow> SortEntry \<Rightarrow> bool) \<Rightarrow> SortEntry list \<Rightarrow> SortEntry list) \<Rightarrow> (nat \<Rightarrow> RawHit) \<Rightarrow> int \<Rightarrow>
   CoarseSorter \<Rightarrow> RawHit EventBuffer \<Rightarrow> fault + CoarseSorter \<times> RawHit EventBuffer" where
  "sorter_handleEvents std_sort junk jt c inBuffer =
     (let N = of_nat (getSize inBuffer) :: u32;
          outBuffer = newChildBuffer junk jt N inBuffer
      in rbind (rfold (push_entry inBuffer) [0..<unat N] []) (\<lambda>sortList.
         rbind (rfold (copy_entry inBuffer) (std_sort sort_less sortList) (outBuffer, 0)) (\<lambda>(outBuffer, lSingleRead).
         Inr (c\<lparr>nSingleRead := atomicAdd (nSingleRead c) lSingleRead\<rparr>, outBuffer))))"

section \<open>The contract of the sort\<close>

definition strict_weak_on :: "'a set \<Rightarrow> ('a \<Rightarrow> 'a \<Rightarrow> bool) \<Rightarrow> bool" where
  "strict_weak_on A lt \<longleftrightarrow> (\<forall>x \<in> A. \<not> lt x x) \<and>
     (\<forall>x \<in> A. \<forall>y \<in> A. \<forall>z \<in> A. lt x y \<longrightarrow> lt y z \<longrightarrow> lt x z) \<and>
     (\<forall>x \<in> A. \<forall>y \<in> A. \<forall>z \<in> A. \<not> lt x y \<longrightarrow> \<not> lt y z \<longrightarrow> \<not> lt x z)"

definition sort_contract :: "(('a \<Rightarrow> 'a \<Rightarrow> bool) \<Rightarrow> 'a list \<Rightarrow> 'a list) \<Rightarrow> bool" where
  "sort_contract std_sort \<longleftrightarrow> (\<forall>lt xs. strict_weak_on (set xs) lt \<longrightarrow>
     mset (std_sort lt xs) = mset xs \<and> sorted_wrt (\<lambda>a b. \<not> lt b a) (std_sort lt xs))"

section \<open>Order of the output\<close>

lemma cdiv_pos: "0 < b \<Longrightarrow> cdiv a b = (if 0 \<le> a then a div b else - ((- a) div b))"
  by (cases "a = 0") (auto simp: cdiv_def sgn_if)

lemma cdiv_mono: "0 < b \<Longrightarrow> x \<le> y \<Longrightarrow> cdiv x b \<le> cdiv y b"
proof -
  assume b: "0 < b" and xy: "x \<le> y"
  consider "0 \<le> x" | "x < 0" "0 \<le> y" | "y < 0" using xy by linarith
  then show ?thesis
  proof cases
    case 1
    then show ?thesis using b xy by (simp add: cdiv_pos zdiv_mono1)
  next
    case 2
    then have "0 \<le> (- x) div b" "0 \<le> y div b" using b by (simp_all add: pos_imp_zdiv_nonneg_iff)
    then show ?thesis using b 2 by (simp add: cdiv_pos)
  next
    case 3
    then have "(- y) div b \<le> (- x) div b" using b xy by (intro zdiv_mono1) simp_all
    then show ?thesis using b xy 3 by (simp add: cdiv_pos)
  qed
qed

lemma cdiv_cdiv: "cdiv (cdiv x 4) 256 = cdiv x 1024"
proof (cases "0 \<le> x")
  case True
  then show ?thesis using zdiv_zmult2_eq [of 256 x 4] by (simp add: cdiv_pos)
next
  case False
  then have "0 \<le> (- x) div 4" by simp
  with False show ?thesis using zdiv_zmult2_eq [of 256 "- x" 4] by (auto simp: cdiv_pos)
qed

lemma sort_less_entries: "sort_less (make_entry p i) (make_entry q j) \<longleftrightarrow> cdiv (rh_time p) 4 < cdiv (rh_time q) 4"
proof -
  have "cdiv (rh_time p) 1024 < cdiv (rh_time q) 1024 \<longrightarrow> cdiv (rh_time p) 4 < cdiv (rh_time q) 4"
    using cdiv_mono [of 256 "cdiv (rh_time q) 4" "cdiv (rh_time p) 4"] by (auto simp: cdiv_cdiv not_less [symmetric])
  then show ?thesis by (auto simp: sort_less_def make_entry_def Let_def)
qed

definition entry_of :: "RawHit list \<Rightarrow> nat \<Rightarrow> SortEntry" where
  "entry_of ps i = make_entry (ps ! i) i"

lemma push_entries:
  assumes "wf_buffer b" "\<forall>i \<in> set is. i < getSize b"
  shows "rfold (push_entry b) is acc = Inr (acc @ map (entry_of (contents b)) is)"
  using assms
  by (induction "is" arbitrary: acc) (auto simp: push_entry_def get_contents entry_of_def)

lemma copy_entries:
  assumes "wf_buffer b" "\<forall>e \<in> set es. se_index e < getSize b" "wf_buffer out"
  shows "\<exists>out'. rfold (copy_entry b) es (out, n) = Inr (out', n + of_nat (length es)) \<and> wf_buffer out'
     \<and> contents out' = contents out @ map (\<lambda>e. contents b ! se_index e) es"
  using assms(2,3)
proof (induction es arbitrary: out n)
  case (Cons e es)
  from push_law [OF Cons.prems(2), of "contents b ! se_index e"] obtain out1
    where o: "push out (contents b ! se_index e) = Inr out1" "wf_buffer out1"
      "contents out1 = contents out @ [contents b ! se_index e]" by blast
  from Cons.IH [OF _ o(2), of "n + 1"] Cons.prems(1) o assms(1) show ?case
    by (auto simp: copy_entry_def get_contents add.assoc)
qed simp

lemma entries_weak: "strict_weak_on (entry_of ps ` A) sort_less"
  by (auto simp: strict_weak_on_def entry_of_def sort_less_entries)

text \<open>
  C3: For every input buffer of fewer than \<open>2 ^ 32\<close> events the sorter returns a buffer with exactly
  the events of its input, each as often as there, in nondecreasing order of the coarse time and
  hence of the frame, and adds their number to its counter.
\<close>

theorem coarse_sorter_sorts:
  assumes "sort_contract std_sort" and "wf_buffer b" and "getSize b < 2 ^ 32"
  shows "\<exists>c' out. sorter_handleEvents std_sort junk jt c b = Inr (c', out) \<and> wf_buffer out
     \<and> mset (contents out) = mset (contents b)
     \<and> sorted (map (\<lambda>p. cdiv (rh_time p) 4) (contents out))
     \<and> sorted (map (\<lambda>p. cdiv (rh_time p) 1024) (contents out))
     \<and> nSingleRead c' = nSingleRead c + of_nat (getSize b)"
proof -
  let ?ps = "contents b" and ?N = "getSize b"
  have n: "unat (of_nat ?N :: u32) = ?N" using assms(3) by (simp add: unat_of_nat_small)
  define es where "es = std_sort sort_less (map (entry_of ?ps) [0..<?N])"
  have "strict_weak_on (set (map (entry_of ?ps) [0..<?N])) sort_less"
    using entries_weak [of ?ps "set [0..<?N]"] by simp
  with assms(1) have m: "mset es = mset (map (entry_of ?ps) [0..<?N])"
    and s: "sorted_wrt (\<lambda>x y. \<not> sort_less y x) es" by (auto simp: sort_contract_def es_def)
  have set: "set es = entry_of ?ps ` {0..<?N}" using mset_eq_setD [OF m] by simp
  have ix: "se_index (entry_of ?ps i) = i" for i by (simp add: entry_of_def make_entry_def Let_def)
  obtain out where out: "rfold (copy_entry b) es (newChildBuffer junk jt (of_nat ?N) b, 0) =
      Inr (out, of_nat (length es))" "wf_buffer out" "contents out = map (\<lambda>e. ?ps ! se_index e) es"
    using copy_entries [OF assms(2), of es "newChildBuffer junk jt (of_nat ?N) b" 0] set ix by auto
  have l: "length es = ?N" using arg_cong [OF m, of size] by simp
  have "mset (contents out) = image_mset (\<lambda>e. ?ps ! se_index e) (mset (map (entry_of ?ps) [0..<?N]))"
    using m out(3) by simp
  also have "\<dots> = mset (map ((!) ?ps) [0..<?N])" by (simp add: image_mset.compositionality comp_def ix flip: mset_map)
  also have "map ((!) ?ps) [0..<?N] = ?ps" by (simp add: getSize_contents map_nth)
  finally have perm: "mset (contents out) = mset ?ps" .
  have "\<not> sort_less y x \<longleftrightarrow> cdiv (rh_time (?ps ! se_index x)) 4 \<le> cdiv (rh_time (?ps ! se_index y)) 4"
    if "x \<in> set es" "y \<in> set es" for x y
    using that by (auto simp: set entry_of_def sort_less_entries make_entry_def Let_def simp flip: not_less)
      (auto simp: sort_less_entries [unfolded make_entry_def Let_def, simplified])
  then have "sorted (map (\<lambda>e. cdiv (rh_time (?ps ! se_index e)) 4) es)"
    using s by (auto simp: sorted_map elim: sorted_wrt_mono_rel [rotated])
  then have t: "sorted (map (\<lambda>p. cdiv (rh_time p) 4) (contents out))" by (simp add: out(3) comp_def)
  then have "sorted (map (\<lambda>v. cdiv v 256) (map (\<lambda>p. cdiv (rh_time p) 4) (contents out)))"
    unfolding sorted_map map_map comp_def by (rule sorted_wrt_mono_rel [rotated]) (simp add: cdiv_mono)
  then have f: "sorted (map (\<lambda>p. cdiv (rh_time p) 1024) (contents out))" by (simp add: comp_def cdiv_cdiv)
  have "rfold (push_entry b) [0..<?N] [] = Inr (map (entry_of ?ps) [0..<?N])"
    using push_entries [OF assms(2), of "[0..<?N]" "[]"] by simp
  then have "sorter_handleEvents std_sort junk jt c b =
      Inr (c\<lparr>nSingleRead := atomicAdd (nSingleRead c) (of_nat ?N)\<rparr>, out)"
    using out(1) l by (simp add: sorter_handleEvents_def Let_def n flip: es_def)
  then show ?thesis using out(2) perm t f by (simp add: atomicAdd_def)
qed

section \<open>A sort that satisfies the contract\<close>

fun ins :: "('a \<Rightarrow> 'a \<Rightarrow> bool) \<Rightarrow> 'a \<Rightarrow> 'a list \<Rightarrow> 'a list" where
  "ins lt x [] = [x]"
| "ins lt x (y # ys) = (if lt y x then y # ins lt x ys else x # y # ys)"

definition ins_sort :: "('a \<Rightarrow> 'a \<Rightarrow> bool) \<Rightarrow> 'a list \<Rightarrow> 'a list" where
  "ins_sort lt xs = foldr (ins lt) xs []"

lemma mset_ins [simp]: "mset (ins lt x ys) = add_mset x (mset ys)"
  by (induction ys) auto

lemma set_ins [simp]: "set (ins lt x ys) = insert x (set ys)"
  by (induction ys) auto

lemma sorted_ins:
  "strict_weak_on A lt \<Longrightarrow> x \<in> A \<Longrightarrow> set ys \<subseteq> A \<Longrightarrow> sorted_wrt (\<lambda>a b. \<not> lt b a) ys \<Longrightarrow>
   sorted_wrt (\<lambda>a b. \<not> lt b a) (ins lt x ys)"
proof (induction ys)
  case (Cons y ys)
  have "\<not> lt x y" if "lt y x" using Cons.prems(1,2,3) that unfolding strict_weak_on_def by (meson list.set_intros(1) subsetD)
  moreover have "\<not> lt z x" if "\<not> lt y x" "z \<in> set ys" "\<not> lt z y" for z
    using Cons.prems(1,2,3) that unfolding strict_weak_on_def by (meson list.set_intros subsetD)
  ultimately show ?case using Cons by auto
qed simp

lemma ins_sort_contract: "sort_contract ins_sort"
proof -
  have "mset (ins_sort lt xs) = mset xs" for lt and xs :: "'a list"
    unfolding ins_sort_def by (induction xs) auto
  moreover have "set ys \<subseteq> set xs \<Longrightarrow> strict_weak_on (set xs) lt \<Longrightarrow> sorted_wrt (\<lambda>a b. \<not> lt b a) (ins_sort lt ys)" for lt and xs ys :: "'a list"
  proof (induction ys)
    case (Cons y ys)
    have "set (ins_sort lt ys) \<subseteq> set xs"
      using Cons.prems(1) \<open>\<And>lt xs. mset (ins_sort lt xs) = mset xs\<close> [THEN mset_eq_setD, of lt ys] by auto
    with Cons show ?case using sorted_ins [of "set xs" lt y "ins_sort lt ys"] by (simp add: ins_sort_def)
  qed (simp add: ins_sort_def)
  ultimately show ?thesis unfolding sort_contract_def by blast
qed

definition example_hit :: "int \<Rightarrow> RawHit" where
  "example_hit t = \<lparr>rh_valid = True, rh_time = t, rh_timeEnd = t + 9, rh_timeEndQ = t + 12, rh_prevEventFlags = 0,
     rh_prevEventTime = 0, rh_channelID = 3, rh_t1fine = 1, rh_t2fine = 2, rh_qfine = 3, rh_tacID = 0\<rparr>"

definition example_buffer :: "RawHit EventBuffer" where
  "example_buffer = \<lparr>bufferTMin = 0, bufferTMax = 2048, buf = (\<lambda>i. example_hit (5000 - 1000 * int i)),
     capacity = 1024, used = 3\<rparr>"

theorem coarse_sorter_witness:
  "\<exists>c' out. sorter_handleEvents ins_sort (\<lambda>_. example_hit 0) 0 newCoarseSorter example_buffer = Inr (c', out)
     \<and> sorted (map (\<lambda>p. cdiv (rh_time p) 4) (contents out)) \<and> nSingleRead c' = 3"
proof -
  have "wf_buffer example_buffer" "getSize example_buffer = 3"
    by (simp_all add: wf_buffer_def example_buffer_def getSize_def)
  with coarse_sorter_sorts [OF ins_sort_contract, of example_buffer "\<lambda>_. example_hit 0" 0 newCoarseSorter]
  show ?thesis by (auto simp: newCoarseSorter_def)
qed

end
