(* ===== verification/Process_Hit.thy ===== *)
theory Process_Hit
  imports Event_Buffer System_Config
begin

text \<open>
  The calibration stage, base/ProcessHit.cpp: raw hits become hits with a calibrated time, energy
  and position; a hit without valid data or without the calibration it needs is counted and dropped.
  Every floating point operation is written out in the precision the code has it in. The theorem
  says which hits pass and in which order, and what the counters count.
\<close>

record ProcessHit =
  nReceived :: u32
  nReceivedInvalid :: u32
  nTDCCalibrationMissing :: u32
  nQDCCalibrationMissing :: u32
  nXYZMissing :: u32
  nEnergyCalibrationMissing :: u32
  nSent :: u32

definition newProcessHit :: ProcessHit where
  "newProcessHit = \<lparr>nReceived = 0, nReceivedInvalid = 0, nTDCCalibrationMissing = 0,
     nQDCCalibrationMissing = 0, nXYZMissing = 0, nEnergyCalibrationMissing = 0, nSent = 0\<rparr>"

definition zero64 :: fp where
  "zero64 = Fin False 0 (emin F64)"

section \<open>One hit\<close>

text \<open>An event of the trigger's own channels.\<close>

definition trigger_hit :: "RawHit \<Rightarrow> Hit \<Rightarrow> Hit" where
  "trigger_hit inp out =
     (let out = out\<lparr>h_time := fp_of_int F64 (rh_time inp)\<rparr>;
          d = fp_mul F64 (fp_of_int F64 (int (unat (rh_t1fine inp)) - 27)) (fp_div F64 (fp_of_int F64 1) (fp_of_int F64 4));
          out = out\<lparr>h_time := fp_sub F64 (h_time out) d\<rparr>;
          out = out\<lparr>h_timeEnd := h_time out\<rparr>;
          out = out\<lparr>h_energy := fp_of_int F32 (if rh_t2fine inp = 28 then 1 else -1)\<rparr>;
          out = out\<lparr>h_region := -1\<rparr>;
          out = out\<lparr>h_x := zero32, h_y := zero32, h_z := zero32\<rparr>
      in out\<lparr>h_xi := 0, h_yi := 0\<rparr>)"

text \<open>The solution of the quadratic TDC model, in single precision.\<close>

definition tac_phase :: "TacConfig \<Rightarrow> u16 \<Rightarrow> fp" where
  "tac_phase t tfine =
     (let a0 = tac_a0 t; a1 = tac_a1 t; a2 = tac_a2 t;
          disc = fp_sub F32 (fp_mul F32 a1 a1)
            (fp_mul F32 (fp_mul F32 (fp_of_int F32 4) (fp_sub F32 a0 (fp_of_int F32 (int (unat tfine))))) a2)
      in fp_div F32 (fp_add F32 (fp_neg a1) (fp_sqrt F32 disc)) (fp_mul F32 (fp_of_int F32 2) a2))"

definition calibrated_time :: "int \<Rightarrow> fp \<Rightarrow> TacConfig \<Rightarrow> fp" where
  "calibrated_time t q c =
     fp_sub F64 (fp_sub F64 (fp_of_int F64 t) (fp_convert F64 q)) (fp_convert F64 (tac_t0 c))"

text \<open>\<open>p * ti * \<dots> * ti\<close> with \<open>n\<close> factors \<open>ti\<close>, and the sum of the ten terms, from left to right.\<close>

fun times_ti :: "fp \<Rightarrow> fp \<Rightarrow> nat \<Rightarrow> fp" where
  "times_ti p ti 0 = p"
| "times_ti p ti (Suc n) = fp_mul F32 (times_ti p ti n) ti"

definition pedestal :: "QacConfig \<Rightarrow> fp \<Rightarrow> fp" where
  "pedestal q ti =
     fp_add F32 (fp_add F32 (fp_add F32 (fp_add F32 (fp_add F32 (fp_add F32 (fp_add F32 (fp_add F32
       (fp_add F32 (qac_p0 q) (times_ti (qac_p1 q) ti 1)) (times_ti (qac_p2 q) ti 2))
       (times_ti (qac_p3 q) ti 3)) (times_ti (qac_p4 q) ti 4)) (times_ti (qac_p5 q) ti 5))
       (times_ti (qac_p6 q) ti 6)) (times_ti (qac_p7 q) ti 7)) (times_ti (qac_p8 q) ti 8))
       (times_ti (qac_p9 q) ti 9)"

text \<open>Conversion of an \<open>int\<close> to \<open>short\<close>.\<close>

definition to_short :: "int \<Rightarrow> int" where
  "to_short i = sint (word_of_int i :: u16)"

definition apply_tdc :: "bool \<Rightarrow> TacConfig \<Rightarrow> TacConfig \<Rightarrow> RawHit \<Rightarrow> Hit \<times> u8 \<Rightarrow> Hit \<times> u8" where
  "apply_tdc useTDC ct ce inp = (\<lambda>(out, eventFlags).
     let out = out\<lparr>h_time := fp_of_int F64 (rh_time inp)\<rparr>;
         (out, eventFlags) =
           (if useTDC then
              let q_T1 = tac_phase ct (rh_t1fine inp);
                  out = out\<lparr>h_time := calibrated_time (rh_time inp) q_T1 ct, h_qT1 := q_T1\<rparr>
              in (out, if fp_eq (tac_a1 ct) zero32 then eventFlags OR 2 else eventFlags)
            else (out, eventFlags));
         out = out\<lparr>h_timeEnd := fp_of_int F64 (rh_timeEnd inp)\<rparr>;
         (out, eventFlags) =
           (if useTDC then
              let q_T2 = tac_phase ce (rh_t2fine inp);
                  out = out\<lparr>h_timeEnd := calibrated_time (rh_timeEnd inp) q_T2 ce, h_qT2 := q_T2\<rparr>
              in (out, if fp_eq (tac_a1 ce) zero32 then eventFlags OR 2 else eventFlags)
            else (out, eventFlags))
     in (out\<lparr>h_energy := fp_convert F32 (fp_sub F64 (h_timeEnd out) (h_time out))\<rparr>, eventFlags))"

definition apply_qdc :: "bool \<Rightarrow> QacConfig \<Rightarrow> RawHit \<Rightarrow> Hit \<times> u8 \<Rightarrow> Hit \<times> u8" where
  "apply_qdc useQDC cq inp = (\<lambda>(out, eventFlags).
     let out = out\<lparr>h_energy := fp_of_int F32 (int (unat (rh_qfine inp)))\<rparr>
     in if useQDC then
          let ti = fp_convert F32 (fp_sub F64 (fp_of_int F64 (rh_timeEndQ inp)) (h_time out));
              out = out\<lparr>h_energy := fp_sub F32 (fp_of_int F32 (int (unat (rh_qfine inp)))) (pedestal cq ti)\<rparr>
          in (out, if fp_eq (qac_p1 cq) zero32 then eventFlags OR 4 else eventFlags)
        else (out, eventFlags))"

definition apply_xyz :: "bool \<Rightarrow> ChannelConfig \<Rightarrow> Hit \<times> u8 \<Rightarrow> Hit \<times> u8" where
  "apply_xyz with_xyz cc = (\<lambda>(out, eventFlags).
     let out = out\<lparr>h_region := -1, h_x := zero32, h_y := zero32, h_z := zero32, h_xi := 0, h_yi := 0\<rparr>
     in if with_xyz then
          (out\<lparr>h_region := to_short (cc_triggerRegion cc), h_x := cc_x cc, h_y := cc_y cc, h_z := cc_z cc,
               h_xi := to_short (cc_xi cc), h_yi := to_short (cc_yi cc)\<rparr>,
           if cc_triggerRegion cc = -1 then eventFlags OR 8 else eventFlags)
        else (out, eventFlags))"

text \<open>The body of the loop up to the counters; the energy calibration entry is looked up and not used.\<close>

definition is_trigger_hit :: "int \<Rightarrow> RawHit \<Rightarrow> bool" where
  "is_trigger_hit triggerID inp \<longleftrightarrow> drop_bit 11 (rh_channelID inp) = word_of_int triggerID"

definition process_one :: "SystemConfig \<Rightarrow> int \<Rightarrow> RawHit \<Rightarrow> Hit \<Rightarrow> fault + Hit \<times> u8" where
  "process_one s triggerID inp out =
     (let out = out\<lparr>h_raw := Some inp\<rparr>; eventFlags = (if rh_valid inp then 0 else 1)
      in if is_trigger_hit triggerID inp then Inr (trigger_hit inp out, eventFlags)
         else
           rbind (getChannelConfig s (rh_channelID inp)) (\<lambda>cc.
           rbind (idx (cc_tac_T cc) (unat (rh_tacID inp))) (\<lambda>ct.
           rbind (idx (cc_tac_E cc) (unat (rh_tacID inp))) (\<lambda>ce.
           rbind (idx (cc_qac_Q cc) (unat (rh_tacID inp))) (\<lambda>cq.
           rbind (idx (cc_eCal cc) (unat (rh_tacID inp))) (\<lambda>cen.
           Inr (apply_xyz (useXYZ s) cc (apply_qdc (useQDCCalibration s) cq inp
                 (apply_tdc (useTDCCalibration s) ct ce inp (out, eventFlags))))))))))"

section \<open>A buffer of hits\<close>

text \<open>The counters of one call, in the order of the members of the class.\<close>

definition count_flags :: "u8 \<Rightarrow> ProcessHit \<Rightarrow> ProcessHit" where
  "count_flags eventFlags l =
     (let l = l\<lparr>nReceived := nReceived l + 1\<rparr>;
          l = (if eventFlags AND 0x1 \<noteq> 0 then l\<lparr>nReceivedInvalid := nReceivedInvalid l + 1\<rparr> else l);
          l = (if eventFlags AND 0x2 \<noteq> 0 then l\<lparr>nTDCCalibrationMissing := nTDCCalibrationMissing l + 1\<rparr> else l);
          l = (if eventFlags AND 0x4 \<noteq> 0 then l\<lparr>nQDCCalibrationMissing := nQDCCalibrationMissing l + 1\<rparr> else l);
          l = (if eventFlags AND 0x8 \<noteq> 0 then l\<lparr>nXYZMissing := nXYZMissing l + 1\<rparr> else l);
          l = (if eventFlags AND 0x16 \<noteq> 0 then l\<lparr>nEnergyCalibrationMissing := nEnergyCalibrationMissing l + 1\<rparr> else l)
      in l)"

definition process_index ::
  "SystemConfig \<Rightarrow> int \<Rightarrow> RawHit EventBuffer \<Rightarrow> nat \<Rightarrow> Hit EventBuffer \<times> ProcessHit \<Rightarrow>
   fault + Hit EventBuffer \<times> ProcessHit" where
  "process_index s triggerID inBuffer i = (\<lambda>(outBuffer, l).
     rbind (get inBuffer i) (\<lambda>inp.
     let outBuffer = getWriteSlot outBuffer in
     rbind (slot outBuffer) (\<lambda>out.
     rbind (process_one s triggerID inp out) (\<lambda>(out, eventFlags).
     let l = count_flags eventFlags l in
     if eventFlags = 0 then
       rbind (write_slot outBuffer (out\<lparr>h_valid := True\<rparr>)) (\<lambda>outBuffer.
       Inr (pushWriteSlot outBuffer, l\<lparr>nSent := nSent l + 1\<rparr>))
     else rbind (write_slot outBuffer out) (\<lambda>outBuffer. Inr (outBuffer, l))))))"

definition add_counters :: "ProcessHit \<Rightarrow> ProcessHit \<Rightarrow> ProcessHit" where
  "add_counters c l =
     \<lparr>nReceived = atomicAdd (nReceived c) (nReceived l),
      nReceivedInvalid = atomicAdd (nReceivedInvalid c) (nReceivedInvalid l),
      nTDCCalibrationMissing = atomicAdd (nTDCCalibrationMissing c) (nTDCCalibrationMissing l),
      nQDCCalibrationMissing = atomicAdd (nQDCCalibrationMissing c) (nQDCCalibrationMissing l),
      nXYZMissing = atomicAdd (nXYZMissing c) (nXYZMissing l),
      nEnergyCalibrationMissing = atomicAdd (nEnergyCalibrationMissing c) (nEnergyCalibrationMissing l),
      nSent = atomicAdd (nSent c) (nSent l)\<rparr>"

text \<open>The loop variable is an \<open>int\<close>; with more than \<open>2 ^ 31\<close> events it would overflow.\<close>

definition process_handleEvents ::
  "(nat \<Rightarrow> Hit) \<Rightarrow> int \<Rightarrow> SystemConfig \<Rightarrow> int \<Rightarrow> ProcessHit \<Rightarrow> RawHit EventBuffer \<Rightarrow>
   fault + ProcessHit \<times> Hit EventBuffer" where
  "process_handleEvents junk jt s triggerID c inBuffer =
     (let N = of_nat (getSize inBuffer) :: u32;
          outBuffer = newChildBuffer junk jt N inBuffer
      in if unat N > 2 ^ 31 then Inl Unspecified
         else rbind (rfold (process_index s triggerID inBuffer) [0..<unat N] (outBuffer, newProcessHit)) (\<lambda>(outBuffer, l).
              Inr (add_counters c l, outBuffer)))"

section \<open>Which hits pass\<close>

text \<open>What is missing for a hit: the configuration \<open>cc\<close> is that of its channel.\<close>

definition tdc_missing :: "SystemConfig \<Rightarrow> ChannelConfig \<Rightarrow> nat \<Rightarrow> bool" where
  "tdc_missing s cc n \<longleftrightarrow> useTDCCalibration s \<and>
     (fp_eq (tac_a1 (cc_tac_T cc ! n)) zero32 \<or> fp_eq (tac_a1 (cc_tac_E cc ! n)) zero32)"

definition qdc_missing :: "SystemConfig \<Rightarrow> ChannelConfig \<Rightarrow> nat \<Rightarrow> bool" where
  "qdc_missing s cc n \<longleftrightarrow> useQDCCalibration s \<and> fp_eq (qac_p1 (cc_qac_Q cc ! n)) zero32"

definition xyz_missing :: "SystemConfig \<Rightarrow> ChannelConfig \<Rightarrow> bool" where
  "xyz_missing s cc \<longleftrightarrow> useXYZ s \<and> cc_triggerRegion cc = -1"

definition channel_of :: "SystemConfig \<Rightarrow> RawHit \<Rightarrow> ChannelConfig" where
  "channel_of s r = projr (getChannelConfig s (rh_channelID r))"

definition lacks_tdc :: "SystemConfig \<Rightarrow> int \<Rightarrow> RawHit \<Rightarrow> bool" where
  "lacks_tdc s t r \<longleftrightarrow> \<not> is_trigger_hit t r \<and> tdc_missing s (channel_of s r) (unat (rh_tacID r))"

definition lacks_qdc :: "SystemConfig \<Rightarrow> int \<Rightarrow> RawHit \<Rightarrow> bool" where
  "lacks_qdc s t r \<longleftrightarrow> \<not> is_trigger_hit t r \<and> qdc_missing s (channel_of s r) (unat (rh_tacID r))"

definition lacks_xyz :: "SystemConfig \<Rightarrow> int \<Rightarrow> RawHit \<Rightarrow> bool" where
  "lacks_xyz s t r \<longleftrightarrow> \<not> is_trigger_hit t r \<and> xyz_missing s (channel_of s r)"

definition passes :: "SystemConfig \<Rightarrow> int \<Rightarrow> RawHit \<Rightarrow> bool" where
  "passes s t r \<longleftrightarrow> rh_valid r \<and> \<not> lacks_tdc s t r \<and> \<not> lacks_qdc s t r \<and> \<not> lacks_xyz s t r"

definition flags_of :: "SystemConfig \<Rightarrow> int \<Rightarrow> RawHit \<Rightarrow> u8" where
  "flags_of s t r = (if rh_valid r then 0 else 1) OR (if lacks_tdc s t r then 2 else 0)
     OR (if lacks_qdc s t r then 4 else 0) OR (if lacks_xyz s t r then 8 else 0)"

definition addressable :: "RawHit \<Rightarrow> bool" where
  "addressable r \<longleftrightarrow> gid_ok (rh_channelID r) \<and> unat (rh_tacID r) < 8"

lemma process_one_flags:
  assumes "wf_config s" "addressable r"
  shows "\<exists>out'. process_one s t r out = Inr (out', flags_of s t r) \<and> h_raw out' = Some r"
proof (cases "is_trigger_hit t r")
  case True
  then show ?thesis
    by (simp add: process_one_def trigger_hit_def Let_def flags_of_def lacks_tdc_def lacks_qdc_def lacks_xyz_def)
next
  case False
  obtain cc where cc: "getChannelConfig s (rh_channelID r) = Inr cc" "wf_channel cc"
    using getChannelConfig_ok [OF assms(1)] assms(2) by (auto simp: addressable_def)
  then have c: "channel_of s r = cc" by (simp add: channel_of_def)
  have i: "unat (rh_tacID r) < 8" using assms(2) by (simp add: addressable_def)
  show ?thesis
    using False cc i
    by (simp add: process_one_def wf_channel_def Let_def)
      (simp add: apply_xyz_def apply_qdc_def apply_tdc_def Let_def flags_of_def lacks_tdc_def
        lacks_qdc_def lacks_xyz_def c tdc_missing_def qdc_missing_def xyz_missing_def)
qed

lemma flags_zero: "flags_of s t r = 0 \<longleftrightarrow> passes s t r"
  by (auto simp: flags_of_def passes_def)

text \<open>The number of events for which a condition holds, as a 32 bit counter.\<close>

definition count32 :: "('a \<Rightarrow> bool) \<Rightarrow> 'a list \<Rightarrow> u32" where
  "count32 p xs = of_nat (length (filter p xs))"

lemma count32_simps [simp]:
  "count32 p [] = 0" "count32 p (x # xs) = (if p x then 1 else 0) + count32 p xs"
  "count32 p (xs @ ys) = count32 p xs + count32 p ys"
  by (simp_all add: count32_def)

definition counters_of :: "SystemConfig \<Rightarrow> int \<Rightarrow> RawHit list \<Rightarrow> ProcessHit" where
  "counters_of s t rs =
     \<lparr>nReceived = of_nat (length rs), nReceivedInvalid = count32 (\<lambda>r. \<not> rh_valid r) rs,
      nTDCCalibrationMissing = count32 (lacks_tdc s t) rs, nQDCCalibrationMissing = count32 (lacks_qdc s t) rs,
      nXYZMissing = count32 (lacks_xyz s t) rs,
      nEnergyCalibrationMissing = count32 (\<lambda>r. lacks_tdc s t r \<or> lacks_qdc s t r) rs,
      nSent = count32 (passes s t) rs\<rparr>"

lemma flag_bits:
  "flags_of s t r AND 1 \<noteq> 0 \<longleftrightarrow> \<not> rh_valid r" "flags_of s t r AND 2 \<noteq> 0 \<longleftrightarrow> lacks_tdc s t r"
  "flags_of s t r AND 4 \<noteq> 0 \<longleftrightarrow> lacks_qdc s t r" "flags_of s t r AND 8 \<noteq> 0 \<longleftrightarrow> lacks_xyz s t r"
  "flags_of s t r AND 0x16 \<noteq> 0 \<longleftrightarrow> lacks_tdc s t r \<or> lacks_qdc s t r"
  unfolding flags_of_def
  by (cases "rh_valid r"; cases "lacks_tdc s t r"; cases "lacks_qdc s t r"; cases "lacks_xyz s t r"; simp)+

lemma count_flags_of:
  "count_flags (flags_of s t r) (counters_of s t rs) = (counters_of s t (rs @ [r]))\<lparr>nSent := nSent (counters_of s t rs)\<rparr>"
  unfolding count_flags_def Let_def flag_bits by (simp add: counters_of_def)

lemma counters_sent: "nSent (counters_of s t rs) = count32 (passes s t) rs"
  by (simp add: counters_of_def)

lemma counters_append:
  "(counters_of s t (rs @ [r]))\<lparr>nSent := count32 (passes s t) rs + (if passes s t r then 1 else 0)\<rparr> = counters_of s t (rs @ [r])"
  by (simp add: counters_of_def)

lemma process_index_step:
  assumes "wf_config s" "wf_buffer b" "i < getSize b" "addressable (contents b ! i)" "wf_buffer out"
  shows "\<exists>out'. process_index s t b i (out, counters_of s t rs) =
       Inr (out', counters_of s t (rs @ [contents b ! i])) \<and> wf_buffer out' \<and>
     map h_raw (contents out') = map h_raw (contents out) @
       (if passes s t (contents b ! i) then [Some (contents b ! i)] else []) \<and>
     (list_all h_valid (contents out) \<longrightarrow> list_all h_valid (contents out'))"
proof -
  let ?r = "contents b ! i"
  obtain o0 where o0: "slot (getWriteSlot out) = Inr o0" using slot_ok [OF assms(5)] by blast
  obtain o1 where o1: "process_one s t ?r o0 = Inr (o1, flags_of s t ?r)" "h_raw o1 = Some ?r"
    using process_one_flags [OF assms(1,4)] by blast
  note c = count_flags_of [of s t ?r rs] counters_sent [of s t rs] counters_append [of s t rs ?r]
  show ?thesis
  proof (cases "passes s t ?r")
    case True
    obtain out' where "write_slot (getWriteSlot out) (o1\<lparr>h_valid := True\<rparr>) = Inr out'"
      "wf_buffer (pushWriteSlot out')" "contents (pushWriteSlot out') = contents out @ [o1\<lparr>h_valid := True\<rparr>]"
      using write_slot_ok [OF assms(5)] by blast
    with True o0 o1 c show ?thesis
      by (simp add: process_index_def get_contents [OF assms(2,3)] flags_zero Let_def)
  next
    case False
    obtain out' where "write_slot (getWriteSlot out) o1 = Inr out'" "wf_buffer out'" "contents out' = contents out"
      using write_slot_ok [OF assms(5)] by blast
    with False o0 o1 c show ?thesis
      by (simp add: process_index_def get_contents [OF assms(2,3)] flags_zero Let_def)
  qed
qed

lemma process_indices:
  assumes "wf_config s" "wf_buffer b" "list_all addressable (contents b)" "n \<le> getSize b" "wf_buffer out" "contents out = []"
  shows "\<exists>out'. rfold (process_index s t b) [0..<n] (out, counters_of s t []) =
       Inr (out', counters_of s t (take n (contents b))) \<and> wf_buffer out' \<and>
     map h_raw (contents out') = map Some (filter (passes s t) (take n (contents b))) \<and> list_all h_valid (contents out')"
  using assms(4)
proof (induction n)
  case 0
  with assms(5,6) show ?case by simp
next
  case (Suc n)
  then obtain o1 where o1: "rfold (process_index s t b) [0..<n] (out, counters_of s t []) =
       Inr (o1, counters_of s t (take n (contents b)))" "wf_buffer o1"
     "map h_raw (contents o1) = map Some (filter (passes s t) (take n (contents b)))" "list_all h_valid (contents o1)"
    by auto
  have n: "n < getSize b" "n < length (contents b)" using Suc.prems by (simp_all add: getSize_contents)
  then have a: "addressable (contents b ! n)" using assms(3) by (simp add: list_all_length)
  show ?case
    using process_index_step [OF assms(1,2) n(1) a o1(2), of t "take n (contents b)"] o1 n(2)
    by (auto simp: rfold_append take_Suc_conv_app_nth)
qed

text \<open>
  C2: For a well-formed configuration and a buffer of hits whose channels and TACs the tables can
  address, the stage never reads outside an array; exactly the hits that are valid and have all
  the calibration and position data the configuration asks for are passed on, in their order, marked
  valid and with a reference to their raw hit; the counters count the hits by reason. (The counter for the
  energy calibration counts the hits that lack a TDC or a QDC calibration.)
\<close>

theorem process_hit_passes:
  assumes "wf_config s" and "wf_buffer b" and "list_all addressable (contents b)" and "getSize b \<le> 2 ^ 31"
  shows "\<exists>out. process_handleEvents junk jt s t c b = Inr (add_counters c (counters_of s t (contents b)), out)
     \<and> wf_buffer out \<and> list_all h_valid (contents out)
     \<and> map h_raw (contents out) = map Some (filter (passes s t) (contents b))"
proof -
  have n: "unat (of_nat (getSize b) :: u32) = getSize b" using assms(4) by (simp add: unat_of_nat_small)
  have z: "counters_of s t [] = newProcessHit" by (simp add: counters_of_def newProcessHit_def)
  let ?o = "newChildBuffer junk jt (of_nat (getSize b)) b"
  have w: "wf_buffer ?o" "contents ?o = []" by simp_all
  obtain out where out: "rfold (process_index s t b) [0..<getSize b] (?o, newProcessHit) =
       Inr (out, counters_of s t (contents b))" "wf_buffer out"
     "map h_raw (contents out) = map Some (filter (passes s t) (contents b))" "list_all h_valid (contents out)"
    using process_indices [OF assms(1-3) order.refl w, of t] by (auto simp: z getSize_contents)
  then show ?thesis using assms(4) by (simp add: process_handleEvents_def Let_def n)
qed

definition example_raw :: "bool \<Rightarrow> u32 \<Rightarrow> RawHit" where
  "example_raw v ch = \<lparr>rh_valid = v, rh_time = 100, rh_timeEnd = 120, rh_timeEndQ = 125, rh_prevEventFlags = 0,
     rh_prevEventTime = 0, rh_channelID = ch, rh_t1fine = 30, rh_t2fine = 28, rh_qfine = 3, rh_tacID = 2\<rparr>"

definition example_raw_buffer :: "RawHit EventBuffer" where
  "example_raw_buffer = \<lparr>bufferTMin = 0, bufferTMax = 2048, buf = (\<lambda>i. example_raw (i \<noteq> 1) (of_nat i)),
     capacity = 1024, used = 3\<rparr>"

theorem process_hit_witness:
  "\<exists>out. process_handleEvents (\<lambda>_. undefined) 0 (newSystemConfig example_memory) 9 newProcessHit example_raw_buffer =
       Inr (add_counters newProcessHit (counters_of (newSystemConfig example_memory) 9 (contents example_raw_buffer)), out)
     \<and> map h_raw (contents out) = [Some (example_raw True 0), Some (example_raw True 2)]"
proof -
  let ?s = "newSystemConfig example_memory"
  have s: "wf_config ?s" using loaded_new [OF example_wf] by (simp add: loaded_def)
  have c: "contents example_raw_buffer = [example_raw True 0, example_raw False 1, example_raw True 2]"
    by (simp add: contents_def example_raw_buffer_def upt_rec)
  have b: "wf_buffer example_raw_buffer" "getSize example_raw_buffer \<le> 2 ^ 31"
    by (simp_all add: wf_buffer_def example_raw_buffer_def getSize_def)
  have a: "list_all addressable (contents example_raw_buffer)"
    by (simp add: c addressable_def example_raw_def gid_ok_def indexH_def PATH_MAX_def)
  have f: "useTDCCalibration ?s = False" "useQDCCalibration ?s = False" "useXYZ ?s = False"
    by (simp_all add: useTDCCalibration_def useQDCCalibration_def useXYZ_def newSystemConfig_def)
  have "passes ?s 9 = rh_valid"
    by (simp add: fun_eq_iff passes_def lacks_tdc_def lacks_qdc_def lacks_xyz_def tdc_missing_def
        qdc_missing_def xyz_missing_def f)
  then show ?thesis
    using process_hit_passes [OF s b(1) a b(2), of "\<lambda>_. undefined" 0 9 newProcessHit]
    by (auto simp: c example_raw_def)
qed

end
