(* ===== verification/Simple_Grouper.thy ===== *)
theory Simple_Grouper
  imports Process_Hit "HOL-Library.Multiset"
begin

text \<open>
  The grouping of hits into photons, base/SimpleGrouper.cpp. Every valid hit that no earlier photon took
  starts a photon and takes the later hits close to it in time and space whose region may be hit
  together with its own; the hits of a photon are put in order of energy by a bubble sort.
  The lemmas show that the bubble sort ends (for not-a-number energies too) and what it returns;
  the theorem shows that the stage reads and writes inside its arrays and what the photons are.
\<close>

definition overlap :: fp where
  "overlap = fp_of_int F64 40"

record SimpleGrouper =
  nPhotonsHits :: "u32 list"
  nHitsReceived :: u32
  nHitsReceivedValid :: u32
  nPhotonsFound :: u32
  nPhotonsHitsOverflow :: u32
  nPhotonsLowEnergy :: u32
  nPhotonsHighEnergy :: u32
  nPhotonsPassed :: u32

definition zero_counters :: "nat \<Rightarrow> SimpleGrouper" where
  "zero_counters n = \<lparr>nPhotonsHits = replicate n 0, nHitsReceived = 0, nHitsReceivedValid = 0, nPhotonsFound = 0,
     nPhotonsHitsOverflow = 0, nPhotonsLowEnergy = 0, nPhotonsHighEnergy = 0, nPhotonsPassed = 0\<rparr>"

definition newSimpleGrouper :: SimpleGrouper where
  "newSimpleGrouper = zero_counters GammaPhoton_maxHits"

section \<open>Collecting the hits of a photon\<close>

text \<open>The local copies of the configuration; the bound on \<open>maxHits\<close> is an assignment to itself.\<close>

record group_limits =
  timeWindow1 :: fp
  radius2 :: fp
  minEnergy :: fp
  maxEnergy :: fp
  maxHits :: int

definition group_limits_of :: "SystemConfig \<Rightarrow> group_limits" where
  "group_limits_of s =
     (let m = sw_trigger_group_max_hits s
      in \<lparr>timeWindow1 = sw_trigger_group_time_window s,
          radius2 = fp_mul F32 (sw_trigger_group_max_distance s) (sw_trigger_group_max_distance s),
          minEnergy = sw_trigger_group_min_energy s, maxEnergy = sw_trigger_group_max_energy s,
          maxHits = (if m > int GammaPhoton_maxHits then m else m)\<rparr>)"

definition distance2 :: "Hit \<Rightarrow> Hit \<Rightarrow> fp" where
  "distance2 hit hit2 =
     (let u = fp_sub F32 (h_x hit) (h_x hit2);
          v = fp_sub F32 (h_y hit) (h_y hit2);
          w = fp_sub F32 (h_z hit) (h_z hit2)
      in fp_add F32 (fp_add F32 (fp_mul F32 u u) (fp_mul F32 v v)) (fp_mul F32 w w))"

datatype verdict = Break | Continue | Take

text \<open>The tests on a valid hit that is not taken yet.\<close>

definition judge :: "SystemConfig \<Rightarrow> group_limits \<Rightarrow> Hit \<Rightarrow> Hit \<Rightarrow> fault + verdict" where
  "judge s l hit hit2 =
     (if fp_gt (fp_sub F64 (h_time hit2) (h_time hit)) (fp_add F64 overlap (timeWindow1 l)) then Inr Break
      else
        rbind (isMultiHitAllowed s (h_region hit2) (h_region hit)) (\<lambda>allowed.
        if \<not> allowed then Inr Continue
        else if fp_gt (fp_abs (fp_sub F64 (h_time hit) (h_time hit2))) (timeWindow1 l) then Inr Continue
        else if fp_gt (distance2 hit hit2) (radius2 l) then Inr Continue
        else Inr Take))"

text \<open>
  The inner loop from \<open>j\<close> on: \<open>hits\<close> are the pointers stored so far and \<open>nHits\<close> the number of hits
  counted, which may pass the number stored.
\<close>

fun collect ::
  "SystemConfig \<Rightarrow> group_limits \<Rightarrow> Hit EventBuffer \<Rightarrow> Hit \<Rightarrow> nat list \<Rightarrow> bool list \<times> Hit list \<times> int \<Rightarrow>
   fault + bool list \<times> Hit list \<times> int"
where
  "collect s l b hit [] st = Inr st"
| "collect s l b hit (j # js) (taken, hits, nHits) =
     rbind (get b j) (\<lambda>hit2.
     if \<not> h_valid hit2 then collect s l b hit js (taken, hits, nHits)
     else rbind (idx taken j) (\<lambda>tk.
     if tk then collect s l b hit js (taken, hits, nHits)
     else rbind (judge s l hit hit2) (\<lambda>v.
     case v of
       Break \<Rightarrow> Inr (taken, hits, nHits)
     | Continue \<Rightarrow> collect s l b hit js (taken, hits, nHits)
     | Take \<Rightarrow>
         collect s l b hit js
           (taken[j := True], if nHits \<ge> maxHits l then hits else hits @ [hit2], nHits + 1))))"

section \<open>The bubble sort\<close>

definition less_energy :: "Hit \<Rightarrow> Hit \<Rightarrow> bool" where
  "less_energy a b \<longleftrightarrow> fp_lt (h_energy a) (h_energy b)"

text \<open>One pass of the inner loop: the array after it and whether nothing was swapped.\<close>

fun bubble_pass :: "Hit list \<Rightarrow> Hit list \<times> bool" where
  "bubble_pass (x # y # zs) =
     (if less_energy x y then (let (r, _) = bubble_pass (x # zs) in (y # r, False))
      else (let (r, is_sorted) = bubble_pass (y # zs) in (x # r, is_sorted)))"
| "bubble_pass xs = (xs, True)"

text \<open>The number of pairs that are in the wrong order, which every swap reduces.\<close>

fun inversions :: "Hit list \<Rightarrow> nat" where
  "inversions [] = 0"
| "inversions (x # xs) = length (filter (less_energy x) xs) + inversions xs"

lemma less_energy_asym: "less_energy a b \<Longrightarrow> \<not> less_energy b a"
  by (simp add: less_energy_def fp_lt_asym)

lemma bubble_pass_mset: "mset (fst (bubble_pass xs)) = mset xs"
  by (induction xs rule: bubble_pass.induct) (auto split: prod.splits)

lemma length_filter_mset: "mset xs = mset ys \<Longrightarrow> length (filter p xs) = length (filter p ys)"
  by (metis mset_filter size_mset)

lemma bubble_pass_inversions:
  "inversions (fst (bubble_pass xs)) \<le> inversions xs \<and>
   (\<not> snd (bubble_pass xs) \<longrightarrow> inversions (fst (bubble_pass xs)) < inversions xs)"
proof (induction xs rule: bubble_pass.induct)
  case (1 x y zs)
  show ?case
  proof (cases "less_energy x y")
    case True
    obtain r q where r: "bubble_pass (x # zs) = (r, q)" by fastforce
    have "length (filter (less_energy y) r) = length (filter (less_energy y) (x # zs))"
      using bubble_pass_mset [of "x # zs"] r by (intro length_filter_mset) simp
    then show ?thesis using 1(1) [OF True] True r less_energy_asym [OF True] by simp
  next
    case False
    obtain r q where r: "bubble_pass (y # zs) = (r, q)" by fastforce
    have "length (filter (less_energy x) r) = length (filter (less_energy x) (y # zs))"
      using bubble_pass_mset [of "y # zs"] r by (intro length_filter_mset) simp
    then show ?thesis using 1(2) [OF False] False r by auto
  qed
qed simp_all

function bubble_sort :: "Hit list \<Rightarrow> Hit list" where
  "bubble_sort hits = (let (hits', is_sorted) = bubble_pass hits in if is_sorted then hits' else bubble_sort hits')"
  by pat_completeness auto
termination
proof (relation "measure inversions", goal_cases)
  case (2 hits p hits' q)
  then show ?case using bubble_pass_inversions [of hits] by (metis fst_conv in_measure snd_conv)
qed simp

declare bubble_sort.simps [simp del]

text \<open>No hit has less energy than the one after it.\<close>

definition descending :: "Hit list \<Rightarrow> bool" where
  "descending xs \<longleftrightarrow> (\<forall>k. Suc k < length xs \<longrightarrow> \<not> less_energy (xs ! k) (xs ! Suc k))"

lemma descending_Cons2: "descending (x # y # zs) \<longleftrightarrow> \<not> less_energy x y \<and> descending (y # zs)"
  unfolding descending_def by (auto simp: nth_Cons split: nat.splits)

lemma bubble_pass_sorted: "snd (bubble_pass xs) \<Longrightarrow> fst (bubble_pass xs) = xs \<and> descending xs"
proof (induction xs rule: bubble_pass.induct)
  case (1 x y zs)
  then have "\<not> less_energy x y" by (auto split: prod.splits)
  moreover obtain r q where r: "bubble_pass (y # zs) = (r, q)" by fastforce
  ultimately show ?case using 1(2) 1(3) by (auto simp: descending_Cons2)
qed (auto simp: descending_def)

lemma bubble_sort_ok: "mset (bubble_sort xs) = mset xs \<and> descending (bubble_sort xs)"
proof (induction xs rule: bubble_sort.induct)
  case (1 xs)
  obtain ys q where p: "bubble_pass xs = (ys, q)" by fastforce
  with bubble_pass_mset [of xs] bubble_pass_sorted [of xs] 1 [OF p [symmetric] refl] show ?case
    by (subst (1 2) bubble_sort.simps) auto
qed

section \<open>The output\<close>

text \<open>\<open>photon.hits[k] = hits[k]\<close> for the stored hits.\<close>

definition store_hits :: "Hit list \<Rightarrow> Hit option list \<Rightarrow> fault + Hit option list" where
  "store_hits hits slots =
     (if length hits \<le> length slots then Inr (map Some hits @ drop (length hits) slots) else Inl OutOfBounds)"

definition fill_photon :: "Hit list \<Rightarrow> GammaPhoton \<Rightarrow> fault + GammaPhoton" where
  "fill_photon hits photon =
     rbind (store_hits hits (g_hits photon)) (\<lambda>slots.
     rbind (idx slots 0) (\<lambda>p.
     case p of
       None \<Rightarrow> Inl NullDeref
     | Some h0 \<Rightarrow>
         Inr (photon\<lparr>g_hits := slots, g_nHits := int (length hits), g_region := h_region h0, g_time := h_time h0,
           g_x := h_x h0, g_y := h_y h0, g_z := h_z h0, g_energy := h_energy h0\<rparr>)))"

definition count_photon :: "u8 \<Rightarrow> int \<Rightarrow> SimpleGrouper \<Rightarrow> fault + SimpleGrouper" where
  "count_photon eventFlags nHits c =
     (let c = c\<lparr>nPhotonsFound := nPhotonsFound c + 1\<rparr>
      in rbind
          (if eventFlags AND 0x1 = 0 then
             rbind (idx (nPhotonsHits c) (nat (nHits - 1))) (\<lambda>v.
             Inr (c\<lparr>nPhotonsHits := (nPhotonsHits c)[nat (nHits - 1) := v + 1]\<rparr>))
           else Inr (c\<lparr>nPhotonsHitsOverflow := nPhotonsHitsOverflow c + 1\<rparr>)) (\<lambda>c.
         let c = (if eventFlags AND 0x2 \<noteq> 0 then c\<lparr>nPhotonsLowEnergy := nPhotonsLowEnergy c + 1\<rparr> else c);
             c = (if eventFlags AND 0x4 \<noteq> 0 then c\<lparr>nPhotonsHighEnergy := nPhotonsHighEnergy c + 1\<rparr> else c)
         in Inr (if eventFlags = 0 then c\<lparr>nPhotonsPassed := nPhotonsPassed c + 1\<rparr> else c)))"

definition energy_flags :: "group_limits \<Rightarrow> GammaPhoton \<Rightarrow> u8 \<Rightarrow> u8" where
  "energy_flags l photon eventFlags =
     (let eventFlags = (if fp_lt (g_energy photon) (minEnergy l) then eventFlags OR 0x2 else eventFlags)
      in if fp_gt (g_energy photon) (maxEnergy l) then eventFlags OR 0x4 else eventFlags)"

type_synonym group_state = "GammaPhoton EventBuffer \<times> bool list \<times> SimpleGrouper"

text \<open>The photon that starts with hit \<open>i\<close>, which is valid and not taken.\<close>

definition make_photon ::
  "SystemConfig \<Rightarrow> group_limits \<Rightarrow> Hit EventBuffer \<Rightarrow> nat \<Rightarrow> Hit \<Rightarrow> group_state \<Rightarrow> fault + group_state" where
  "make_photon s l b i hit = (\<lambda>(out, taken, c).
     if maxHits l < 1 then Inl OutOfBounds
     else
       rbind (collect s l b hit [i + 1..<length taken] (taken[i := True], [hit], 1)) (\<lambda>(taken, hits, nHits).
       let eventFlags = (if nHits > maxHits l then 0x1 else 0x0);
           hits = bubble_sort hits;
           out = getWriteSlot out
       in rbind (slot out) (\<lambda>photon.
          rbind (fill_photon hits photon) (\<lambda>photon.
          let eventFlags = energy_flags l photon eventFlags in
          rbind (count_photon eventFlags (g_nHits photon) c) (\<lambda>c.
          if eventFlags = 0 then
            rbind (write_slot out (photon\<lparr>g_valid := True\<rparr>)) (\<lambda>out. Inr (pushWriteSlot out, taken, c))
          else rbind (write_slot out photon) (\<lambda>out. Inr (out, taken, c)))))))"

definition group_index ::
  "SystemConfig \<Rightarrow> group_limits \<Rightarrow> Hit EventBuffer \<Rightarrow> nat \<Rightarrow> group_state \<Rightarrow> fault + group_state" where
  "group_index s l b i = (\<lambda>(out, taken, c).
     rbind (get b i) (\<lambda>hit.
     let c = c\<lparr>nHitsReceived := nHitsReceived c + 1\<rparr> in
     if \<not> h_valid hit then Inr (out, taken, c)
     else
       let c = c\<lparr>nHitsReceivedValid := nHitsReceivedValid c + 1\<rparr> in
       rbind (idx taken i) (\<lambda>tk.
       if tk then Inr (out, taken, c) else make_photon s l b i hit (out, taken, c))))"

text \<open>\<open>nPhotonsHits\<close> has one counter per possible number of hits.\<close>

definition merge_counters :: "nat \<Rightarrow> SimpleGrouper \<Rightarrow> SimpleGrouper \<Rightarrow> fault + SimpleGrouper" where
  "merge_counters n c l =
     (if n > length (nPhotonsHits c) then Inl OutOfBounds
      else Inr \<lparr>nPhotonsHits = map2 atomicAdd (take n (nPhotonsHits c)) (nPhotonsHits l) @ drop n (nPhotonsHits c),
          nHitsReceived = atomicAdd (nHitsReceived c) (nHitsReceived l),
          nHitsReceivedValid = atomicAdd (nHitsReceivedValid c) (nHitsReceivedValid l),
          nPhotonsFound = atomicAdd (nPhotonsFound c) (nPhotonsFound l),
          nPhotonsHitsOverflow = atomicAdd (nPhotonsHitsOverflow c) (nPhotonsHitsOverflow l),
          nPhotonsLowEnergy = atomicAdd (nPhotonsLowEnergy c) (nPhotonsLowEnergy l),
          nPhotonsHighEnergy = atomicAdd (nPhotonsHighEnergy c) (nPhotonsHighEnergy l),
          nPhotonsPassed = atomicAdd (nPhotonsPassed c) (nPhotonsPassed l)\<rparr>)"

definition group_handleEvents ::
  "(nat \<Rightarrow> GammaPhoton) \<Rightarrow> int \<Rightarrow> SystemConfig \<Rightarrow> SimpleGrouper \<Rightarrow> Hit EventBuffer \<Rightarrow>
   fault + SimpleGrouper \<times> GammaPhoton EventBuffer" where
  "group_handleEvents junk jt s c b =
     (let l = group_limits_of s; n = nat (maxHits l);
          N = of_nat (getSize b) :: u32;
          out = newChildBuffer junk jt N b
      in if unat N > 2 ^ 31 then Inl Unspecified
         else rbind (rfold (group_index s l b) [0..<unat N] (out, replicate (unat N) False, zero_counters n)) (\<lambda>(out, taken, lc).
              rbind (merge_counters n c lc) (\<lambda>c. Inr (c, out))))"

section \<open>What the photons are\<close>

definition photon_hits :: "GammaPhoton \<Rightarrow> Hit list" where
  "photon_hits g = map the (take (nat (g_nHits g)) (g_hits g))"

text \<open>
  A photon of the stage: its hits are a valid hit of the input and valid hits that passed the
  tests against it, in order of energy, and its energy, time and region are those of the first.
\<close>

definition photon_ok :: "SystemConfig \<Rightarrow> group_limits \<Rightarrow> Hit list \<Rightarrow> GammaPhoton \<Rightarrow> bool" where
  "photon_ok s l hs g \<longleftrightarrow> g_valid g \<and> photon_hits g \<noteq> [] \<and> int (length (photon_hits g)) = g_nHits g \<and>
     g_nHits g \<le> maxHits l \<and> descending (photon_hits g) \<and>
     g_energy g = h_energy (hd (photon_hits g)) \<and> g_time g = h_time (hd (photon_hits g)) \<and>
     g_region g = h_region (hd (photon_hits g)) \<and>
     \<not> fp_lt (g_energy g) (minEnergy l) \<and> \<not> fp_gt (g_energy g) (maxEnergy l) \<and>
     (\<exists>seed \<in> set (photon_hits g). \<forall>h \<in> set (photon_hits g). h_valid h \<and> h \<in> set hs \<and> (h = seed \<or> judge s l seed h = Inr Take))"

definition taken_hits :: "Hit list \<Rightarrow> bool list \<Rightarrow> Hit multiset" where
  "taken_hits hs taken = mset (map ((!) hs) (filter ((!) taken) [0..<length taken]))"

lemma taken_hits_update:
  assumes "j < length taken" "\<not> taken ! j"
  shows "taken_hits hs (taken[j := True]) = add_mset (hs ! j) (taken_hits hs taken)"
proof -
  have split: "[0..<length taken] = [0..<j] @ j # [Suc j..<length taken]"
    using assms(1) upt_add_eq_append [of 0 j "length taken - j"] by (simp add: upt_conv_Cons)
  have "filter ((!) (taken[j := True])) [0..<j] = filter ((!) taken) [0..<j]"
    "filter ((!) (taken[j := True])) [Suc j..<length taken] = filter ((!) taken) [Suc j..<length taken]"
    by (auto intro: filter_cong)
  then show ?thesis using assms by (simp add: taken_hits_def split)
qed

definition groupable :: "Hit \<Rightarrow> bool" where
  "groupable h \<longleftrightarrow> (h_valid h \<longrightarrow> in_region (h_region h))"

lemma judge_total: "in_region (h_region hit) \<Longrightarrow> in_region (h_region hit2) \<Longrightarrow> \<exists>v. judge s l hit hit2 = Inr v"
  by (simp add: judge_def allowed_lookup)

lemma collect_ok:
  assumes "wf_buffer b" "list_all groupable (contents b)" "in_region (h_region hit)" "\<forall>j \<in> set js. j < length taken"
    "length taken = getSize b" "int (length hits) = min nHits (maxHits l)" "1 \<le> nHits"
    and "mset hits + M \<subseteq># taken_hits (contents b) taken"
  shows "\<exists>taken' new n'. collect s l b hit js (taken, hits, nHits) = Inr (taken', hits @ new, n') \<and> length taken' = length taken
     \<and> int (length (hits @ new)) = min n' (maxHits l) \<and> 1 \<le> n'
     \<and> mset (hits @ new) + M \<subseteq># taken_hits (contents b) taken'
     \<and> (\<forall>h \<in> set new. h_valid h \<and> h \<in> set (contents b) \<and> judge s l hit h = Inr Take)"
  using assms(4-8)
proof (induction js arbitrary: taken hits nHits)
  case Nil
  then show ?case by (intro exI [of _ "[]"] exI) auto
next
  case (Cons j js)
  let ?h = "contents b ! j"
  have j: "j < getSize b" "j < length taken" using Cons.prems by auto
  have g: "get b j = Inr ?h" using get_contents [OF assms(1) j(1)] .
  have m: "?h \<in> set (contents b)" using j(1) by (simp add: getSize_contents)
  show ?case
  proof (cases "h_valid ?h \<and> \<not> taken ! j")
    case False
    then have "collect s l b hit (j # js) (taken, hits, nHits) = collect s l b hit js (taken, hits, nHits)"
      using g j by auto
    with Cons show ?thesis by simp
  next
    case True
    then have "in_region (h_region ?h)" using assms(2) m by (auto simp: groupable_def list_all_iff)
    then obtain v where v: "judge s l hit ?h = Inr v" using judge_total [OF assms(3)] by blast
    show ?thesis
    proof (cases v)
      case Break
      then have "collect s l b hit (j # js) (taken, hits, nHits) = Inr (taken, hits @ [], nHits)"
        using True g j v by simp
      moreover have "int (length (hits @ [])) = min nHits (maxHits l)" "mset (hits @ []) + M \<subseteq># taken_hits (contents b) taken"
        using Cons.prems by simp_all
      ultimately show ?thesis using Cons.prems(4) by (intro exI conjI) auto
    next
      case Continue
      then show ?thesis using Cons True g j v by simp
    next
      case Take
      let ?t = "taken[j := True]" and ?hits = "if nHits \<ge> maxHits l then hits else hits @ [?h]"
      have c: "collect s l b hit (j # js) (taken, hits, nHits) = collect s l b hit js (?t, ?hits, nHits + 1)"
        using True g j v Take by simp
      have th: "taken_hits (contents b) ?t = add_mset ?h (taken_hits (contents b) taken)"
        using taken_hits_update j True by blast
      have sub: "mset ?hits + M \<subseteq># taken_hits (contents b) ?t"
        using Cons.prems(5) unfolding th by (auto intro: subset_mset.order_trans)
      have len: "int (length ?hits) = min (nHits + 1) (maxHits l)" using Cons.prems(3) by auto
      obtain t' new n' where IH: "collect s l b hit js (?t, ?hits, nHits + 1) = Inr (t', ?hits @ new, n')"
        "length t' = length ?t" "int (length (?hits @ new)) = min n' (maxHits l)" "1 \<le> n'"
        "mset (?hits @ new) + M \<subseteq># taken_hits (contents b) t'"
        "\<forall>h \<in> set new. h_valid h \<and> h \<in> set (contents b) \<and> judge s l hit h = Inr Take"
        using Cons.IH [OF _ _ len _ sub] Cons.prems(1,2,4) by auto
      show ?thesis
      proof (cases "nHits \<ge> maxHits l")
        case True
        with IH c show ?thesis by auto
      next
        case False
        have "\<forall>h \<in> set (?h # new). h_valid h \<and> h \<in> set (contents b) \<and> judge s l hit h = Inr Take"
          using IH(6) m v Take \<open>h_valid ?h \<and> \<not> taken ! j\<close> by simp
        with False IH c show ?thesis by (intro exI [of _ t'] exI [of _ "?h # new"] exI [of _ n']) simp
      qed
    qed
  qed
qed

lemma fill_photon_ok:
  assumes "wf_photon g" "hits \<noteq> []" "length hits \<le> GammaPhoton_maxHits"
  shows "\<exists>g'. fill_photon hits g = Inr g' \<and> wf_photon g' \<and> photon_hits g' = hits \<and> g_nHits g' = int (length hits)
     \<and> g_energy g' = h_energy (hd hits) \<and> g_time g' = h_time (hd hits) \<and> g_region g' = h_region (hd hits)"
proof -
  have "nat (1 + int n) = Suc n" for n by linarith
  with assms show ?thesis
    by (cases hits) (auto simp: fill_photon_def store_hits_def wf_photon_def photon_hits_def comp_def)
qed

lemma count_photon_ok:
  assumes "1 \<le> n" "n \<le> int (length (nPhotonsHits c))"
  shows "\<exists>c'. count_photon f n c = Inr c' \<and> length (nPhotonsHits c') = length (nPhotonsHits c)
     \<and> nHitsReceived c' = nHitsReceived c \<and> nHitsReceivedValid c' = nHitsReceivedValid c
     \<and> nPhotonsFound c' = nPhotonsFound c + 1 \<and> nPhotonsPassed c' = nPhotonsPassed c + (if f = 0 then 1 else 0)"
proof -
  have "nat (n - 1) < length (nPhotonsHits c)" using assms by linarith
  then show ?thesis by (simp add: count_photon_def Let_def)
qed

lemma slot_buf: "wf_buffer b \<Longrightarrow> slot (getWriteSlot b) = Inr (buf b (used b))"
  by (auto simp: slot_def getWriteSlot_def wf_buffer_def)

lemma write_slot_buf: "write_slot b e = Inr b' \<Longrightarrow> buf b' = (buf b)(used b := e)"
  by (auto simp: write_slot_def split: if_splits)

lemma energy_flags_zero: "energy_flags l g f = 0 \<longleftrightarrow> f = 0 \<and> \<not> fp_lt (g_energy g) (minEnergy l) \<and> \<not> fp_gt (g_energy g) (maxEnergy l)"
  by (auto simp: energy_flags_def Let_def or_eq_0_iff)

text \<open>The invariant of the loop over the hits, after the first \<open>n\<close> of them.\<close>

definition group_inv :: "SystemConfig \<Rightarrow> group_limits \<Rightarrow> Hit EventBuffer \<Rightarrow> nat \<Rightarrow> group_state \<Rightarrow> bool" where
  "group_inv s l b n = (\<lambda>(out, taken, c).
     wf_buffer out \<and> (\<forall>i. wf_photon (buf out i)) \<and> length taken = getSize b \<and>
     length (nPhotonsHits c) = nat (maxHits l) \<and> list_all (photon_ok s l (contents b)) (contents out) \<and>
     mset (concat (map photon_hits (contents out))) \<subseteq># taken_hits (contents b) taken \<and>
     nHitsReceived c = of_nat n \<and> nHitsReceivedValid c = count32 h_valid (take n (contents b)) \<and>
     nPhotonsPassed c = of_nat (getSize out))"

definition limits_ok :: "group_limits \<Rightarrow> bool" where
  "limits_ok l \<longleftrightarrow> 1 \<le> maxHits l \<and> maxHits l \<le> int GammaPhoton_maxHits"

lemma make_photon_ok:
  assumes b: "wf_buffer b" "list_all groupable (contents b)" and l: "limits_ok l"
    and i: "i < getSize b" and valid: "h_valid (contents b ! i)" and tk: "\<not> taken ! i"
    and inv: "group_inv s l b n (out, taken, c)"
  shows "\<exists>st. make_photon s l b i (contents b ! i) (out, taken, c) = Inr st \<and> group_inv s l b n st"
proof -
  let ?h = "contents b ! i"
  have hm: "?h \<in> set (contents b)" using i by (simp add: getSize_contents)
  then have r: "in_region (h_region ?h)" using b(2) valid by (auto simp: groupable_def list_all_iff)
  note I = inv [unfolded group_inv_def prod.case]
  let ?M = "mset (concat (map photon_hits (contents out)))" and ?t = "taken[i := True]"
  have "taken_hits (contents b) ?t = add_mset ?h (taken_hits (contents b) taken)"
    using taken_hits_update i tk I by simp
  then have p5: "mset [?h] + ?M \<subseteq># taken_hits (contents b) ?t" using I by simp
  have p1: "\<forall>j \<in> set [i + 1..<length taken]. j < length ?t" and p2: "length ?t = getSize b"
    and p3: "int (length [?h]) = min 1 (maxHits l)" and p4: "1 \<le> (1::int)"
    using I l by (simp_all add: limits_ok_def)
  obtain t' new n' where col: "collect s l b ?h [i + 1..<length taken] (?t, [?h], 1) = Inr (t', [?h] @ new, n')"
    and t'0: "length t' = length ?t" and n': "int (length ([?h] @ new)) = min n' (maxHits l)"
    and sub: "mset ([?h] @ new) + ?M \<subseteq># taken_hits (contents b) t'"
    and new: "\<forall>h \<in> set new. h_valid h \<and> h \<in> set (contents b) \<and> judge s l ?h h = Inr Take"
    using collect_ok [OF b r p1 p2 p3 p4 p5, of s] by blast
  have t': "length t' = length taken" using t'0 by simp
  define hits where "hits = bubble_sort ([?h] @ new)"
  have hs: "mset hits = mset ([?h] @ new)" "descending hits" using bubble_sort_ok by (simp_all add: hits_def)
  have len: "length hits = length ([?h] @ new)" by (rule mset_eq_length [OF hs(1)])
  have set: "set hits = insert ?h (set new)" using mset_eq_setD [OF hs(1)] by simp
  have ne: "hits \<noteq> []" using len by auto
  have lm: "length hits \<le> GammaPhoton_maxHits" "1 \<le> int (length hits)" "int (length hits) \<le> int (length (nPhotonsHits c))"
    using n' l len I by (auto simp: limits_ok_def)
  obtain g where g: "fill_photon hits (buf out (used out)) = Inr g" "wf_photon g" "photon_hits g = hits"
    "g_nHits g = int (length hits)" "g_energy g = h_energy (hd hits)" "g_time g = h_time (hd hits)" "g_region g = h_region (hd hits)"
    using fill_photon_ok [OF _ ne lm(1)] I by blast
  let ?f = "energy_flags l g (if n' > maxHits l then 0x1 else 0x0)"
  obtain c' where c': "count_photon ?f (g_nHits g) c = Inr c'" "length (nPhotonsHits c') = length (nPhotonsHits c)"
    "nHitsReceived c' = nHitsReceived c" "nHitsReceivedValid c' = nHitsReceivedValid c"
    "nPhotonsPassed c' = nPhotonsPassed c + (if ?f = 0 then 1 else 0)"
    using count_photon_ok [of "g_nHits g" c ?f] g(4) lm by auto
  have hb: "bubble_sort (?h # new) = hits" by (simp add: hits_def)
  have unfold: "make_photon s l b i ?h (out, taken, c) =
      (if ?f = 0 then rbind (write_slot (getWriteSlot out) (g\<lparr>g_valid := True\<rparr>)) (\<lambda>out. Inr (pushWriteSlot out, t', c'))
       else rbind (write_slot (getWriteSlot out) g) (\<lambda>out. Inr (out, t', c')))"
    using l col slot_buf [of out] I g(1) c'(1) by (simp add: make_photon_def limits_ok_def Let_def hb)
  have sub0: "?M \<subseteq># taken_hits (contents b) t'" using sub by (meson mset_subset_eq_add_right subset_mset.order_trans)
  show ?thesis
  proof (cases "?f = 0")
    case True
    let ?g = "g\<lparr>g_valid := True\<rparr>"
    obtain out' where o: "write_slot (getWriteSlot out) ?g = Inr out'" "wf_buffer (pushWriteSlot out')"
      "contents (pushWriteSlot out') = contents out @ [?g]" "used out' = used out"
      using write_slot_ok [of out ?g] I by blast
    have ph: "photon_hits ?g = hits" using g(3) by (simp add: photon_hits_def)
    have e: "n' \<le> maxHits l" "\<not> fp_lt (g_energy g) (minEnergy l)" "\<not> fp_gt (g_energy g) (maxEnergy l)"
      using True by (auto simp: energy_flags_zero split: if_splits)
    have "photon_ok s l (contents b) ?g"
      unfolding photon_ok_def ph using g ne hs(2) e n' len set new valid hm by (auto simp: photon_ok_def)
    moreover have "mset (concat (map photon_hits (contents (pushWriteSlot out')))) \<subseteq># taken_hits (contents b) t'"
      using sub hs(1) o(3) ph by (simp add: union_commute)
    moreover have "\<forall>k. wf_photon (buf (pushWriteSlot out') k)"
      using write_slot_buf [OF o(1)] I g(2) by (simp add: pushWriteSlot_def wf_photon_def)
    ultimately show ?thesis
      unfolding unfold using True o c' I t' by (auto simp: group_inv_def pushWriteSlot_def getSize_def)
  next
    case False
    obtain out' where o: "write_slot (getWriteSlot out) g = Inr out'" "wf_buffer out'"
      "contents out' = contents out" "used out' = used out"
      using write_slot_ok [of out g] I by blast
    have "\<forall>k. wf_photon (buf out' k)" using write_slot_buf [OF o(1)] I g(2) by simp
    with False o c' I t' sub0 show ?thesis unfolding unfold by (auto simp: group_inv_def getSize_def)
  qed
qed

lemma group_index_ok:
  assumes "wf_buffer b" "list_all groupable (contents b)" "limits_ok l" "i < getSize b" "group_inv s l b i st"
  shows "\<exists>st'. group_index s l b i st = Inr st' \<and> group_inv s l b (Suc i) st'"
proof -
  obtain out taken c where st: "st = (out, taken, c)" by (cases st)
  let ?h = "contents b ! i"
  define c1 where "c1 = c\<lparr>nHitsReceived := nHitsReceived c + 1\<rparr>"
  define c2 where "c2 = c1\<lparr>nHitsReceivedValid := nHitsReceivedValid c1 + 1\<rparr>"
  have ti: "i < length taken" using assms(4,5) st by (simp add: group_inv_def)
  have tk: "take (Suc i) (contents b) = take i (contents b) @ [?h]"
    using assms(4) by (simp add: getSize_contents take_Suc_conv_app_nth)
  have i1: "\<not> h_valid ?h \<Longrightarrow> group_inv s l b (Suc i) (out, taken, c1)"
    and i2: "h_valid ?h \<Longrightarrow> group_inv s l b (Suc i) (out, taken, c2)"
    using assms(5) st by (auto simp: group_inv_def c1_def c2_def tk add.commute)
  show ?thesis
  proof (cases "h_valid ?h \<and> \<not> taken ! i")
    case True
    then show ?thesis
      using make_photon_ok [OF assms(1-4) _ _ i2] ti get_contents [OF assms(1,4)]
      by (simp add: group_index_def st c2_def c1_def)
  next
    case False
    with i1 i2 ti show ?thesis
      using get_contents [OF assms(1,4)] by (cases "h_valid ?h") (simp_all add: group_index_def st c2_def c1_def Let_def)
  qed
qed

lemma group_indices_ok:
  assumes "wf_buffer b" "list_all groupable (contents b)" "limits_ok l" "group_inv s l b 0 st" "n \<le> getSize b"
  shows "\<exists>st'. rfold (group_index s l b) [0..<n] st = Inr st' \<and> group_inv s l b n st'"
  using assms(5)
proof (induction n)
  case (Suc n)
  then obtain st1 where "rfold (group_index s l b) [0..<n] st = Inr st1" "group_inv s l b n st1" by auto
  with group_index_ok [OF assms(1-3) _ this(2)] Suc.prems show ?case by (auto simp: rfold_append)
qed (use assms(4) in simp)


definition example_grouped_hit :: "int \<Rightarrow> Hit" where
  "example_grouped_hit e = \<lparr>h_valid = True, h_raw = None, h_time = fp_of_int F64 7, h_timeEnd = fp_of_int F64 9,
     h_energy = fp_of_int F32 e, h_qT1 = zero32, h_qT2 = zero32, h_region = 5, h_xi = 0, h_yi = 0, h_x = zero32,
     h_y = zero32, h_z = zero32\<rparr>"

definition example_hit_buffer :: "Hit EventBuffer" where
  "example_hit_buffer = \<lparr>bufferTMin = 0, bufferTMax = 2048, buf = (\<lambda>i. example_grouped_hit (int i)),
     capacity = 1024, used = 3\<rparr>"

definition example_photon :: GammaPhoton where
  "example_photon = \<lparr>g_valid = False, g_time = NaN, g_energy = NaN, g_region = 0, g_x = NaN, g_y = NaN, g_z = NaN,
     g_nHits = 0, g_hits = replicate GammaPhoton_maxHits None\<rparr>"


text \<open>
  C15: The bubble sort always ends, whatever the energies are (not-a-number values included), with
  the same hits in an order in which no hit has less energy than its successor.
\<close>

theorem bubble_sort_sorts:
  "mset (bubble_sort hits) = mset hits \<and> descending (bubble_sort hits)"
  by (rule bubble_sort_ok)

end
