(* ===== verification/Coincidence_Grouper.thy ===== *)
theory Coincidence_Grouper
  imports Simple_Grouper
begin

text \<open>
  The search for coincidences, base/CoincidenceGrouper.cpp: every pair of photons of a buffer that lies
  within the time window and whose regions are allowed becomes a coincidence. The time of the
  record is not assigned. The theorem says which pairs come out, in which order; the loop over the
  second photon stops early, which is harmless when the photons are sorted to within the overlap.
\<close>

record CoincidenceGrouper =
  nPrompts :: u32

definition newCoincidenceGrouper :: CoincidenceGrouper where
  "newCoincidenceGrouper = \<lparr>nPrompts = 0\<rparr>"

definition fill_coincidence :: "GammaPhoton \<Rightarrow> GammaPhoton \<Rightarrow> Coincidence \<Rightarrow> fault + Coincidence" where
  "fill_coincidence photon1 photon2 c =
     (let first1 = g_region photon1 > g_region photon2
      in if length (c_photons c) < 2 then Inl OutOfBounds
         else Inr (c\<lparr>c_nPhotons := 2,
           c_photons := (c_photons c)[0 := Some (if first1 then photon1 else photon2), 1 := Some (if first1 then photon2 else photon1)],
           c_valid := True\<rparr>))"

fun search_pairs ::
  "SystemConfig \<Rightarrow> GammaPhoton EventBuffer \<Rightarrow> GammaPhoton \<Rightarrow> nat list \<Rightarrow> Coincidence EventBuffer \<times> u32 \<Rightarrow>
   fault + Coincidence EventBuffer \<times> u32"
where
  "search_pairs s b photon1 [] st = Inr st"
| "search_pairs s b photon1 (j # js) (out, lPrompts) =
     rbind (get b j) (\<lambda>photon2.
     if fp_gt (fp_sub F64 (g_time photon2) (g_time photon1)) (fp_add F64 overlap (sw_trigger_coincidence_time_window s))
     then Inr (out, lPrompts)
     else
       rbind (isCoincidenceAllowed s (g_region photon1) (g_region photon2)) (\<lambda>allowed.
       if \<not> allowed then search_pairs s b photon1 js (out, lPrompts)
       else if fp_le (fp_abs (fp_sub F64 (g_time photon1) (g_time photon2))) (sw_trigger_coincidence_time_window s) then
         let out = getWriteSlot out in
         rbind (slot out) (\<lambda>c.
         rbind (fill_coincidence photon1 photon2 c) (\<lambda>c.
         rbind (write_slot out c) (\<lambda>out.
         search_pairs s b photon1 js (pushWriteSlot out, lPrompts + 1))))
       else search_pairs s b photon1 js (out, lPrompts)))"

definition coincidence_index ::
  "SystemConfig \<Rightarrow> GammaPhoton EventBuffer \<Rightarrow> nat \<Rightarrow> nat \<Rightarrow> Coincidence EventBuffer \<times> u32 \<Rightarrow>
   fault + Coincidence EventBuffer \<times> u32" where
  "coincidence_index s b N i st = rbind (get b i) (\<lambda>photon1. search_pairs s b photon1 [i + 1..<N] st)"

definition coincidence_handleEvents ::
  "(nat \<Rightarrow> Coincidence) \<Rightarrow> int \<Rightarrow> SystemConfig \<Rightarrow> CoincidenceGrouper \<Rightarrow> GammaPhoton EventBuffer \<Rightarrow>
   fault + CoincidenceGrouper \<times> Coincidence EventBuffer" where
  "coincidence_handleEvents junk jt s c b =
     (let N = of_nat (getSize b) :: u32; out = newChildBuffer junk jt N b
      in rbind (rfold (coincidence_index s b (unat N)) [0..<unat N] (out, 0)) (\<lambda>(out, lPrompts).
         Inr (c\<lparr>nPrompts := atomicAdd (nPrompts c) lPrompts\<rparr>, out)))"

section \<open>The pairs found\<close>

definition allowed_pair :: "SystemConfig \<Rightarrow> GammaPhoton \<Rightarrow> GammaPhoton \<Rightarrow> bool" where
  "allowed_pair s p q \<longleftrightarrow> isCoincidenceAllowed s (g_region p) (g_region q) = Inr True \<and>
     fp_le (fp_abs (fp_sub F64 (g_time p) (g_time q))) (sw_trigger_coincidence_time_window s)"

definition too_late :: "SystemConfig \<Rightarrow> GammaPhoton \<Rightarrow> GammaPhoton \<Rightarrow> bool" where
  "too_late s p q \<longleftrightarrow> fp_gt (fp_sub F64 (g_time q) (g_time p)) (fp_add F64 overlap (sw_trigger_coincidence_time_window s))"

definition ordered_pair :: "GammaPhoton \<Rightarrow> GammaPhoton \<Rightarrow> GammaPhoton list" where
  "ordered_pair p q = (if g_region p > g_region q then [p, q] else [q, p])"

text \<open>The partners of \<open>p\<close> among the later photons: the allowed ones before the first that is too late.\<close>

definition partners :: "SystemConfig \<Rightarrow> GammaPhoton \<Rightarrow> GammaPhoton list \<Rightarrow> GammaPhoton list" where
  "partners s p qs = filter (allowed_pair s p) (takeWhile (\<lambda>q. \<not> too_late s p q) qs)"

fun all_pairs :: "SystemConfig \<Rightarrow> GammaPhoton list \<Rightarrow> GammaPhoton list list" where
  "all_pairs s [] = []"
| "all_pairs s (p # ps) = map (ordered_pair p) (partners s p ps) @ all_pairs s ps"

definition region_ok :: "GammaPhoton \<Rightarrow> bool" where
  "region_ok g \<longleftrightarrow> in_region (g_region g)"

definition pair_of :: "Coincidence \<Rightarrow> GammaPhoton list" where
  "pair_of c = map the (take (nat (c_nPhotons c)) (c_photons c))"

definition coincidence_inv :: "Coincidence EventBuffer \<times> u32 \<Rightarrow> GammaPhoton list list \<Rightarrow> bool" where
  "coincidence_inv = (\<lambda>(out, n) ps. wf_buffer out \<and> (\<forall>i. wf_coincidence (buf out i)) \<and>
     map pair_of (contents out) = ps \<and> list_all c_valid (contents out) \<and> n = of_nat (length ps))"

lemma fill_coincidence_ok:
  assumes "wf_coincidence c"
  shows "\<exists>d. fill_coincidence p q c = Inr d \<and> wf_coincidence d \<and> c_valid d \<and> pair_of d = ordered_pair p q"
proof -
  obtain x y where "c_photons c = [x, y]"
    using assms by (auto simp: wf_coincidence_def Coincidence_maxPhotons_def length_Suc_conv numeral_eq_Suc)
  then show ?thesis
    by (simp add: fill_coincidence_def Let_def wf_coincidence_def Coincidence_maxPhotons_def pair_of_def ordered_pair_def)
qed

lemma search_pairs_ok:
  assumes "wf_buffer b" "list_all region_ok (contents b)" "region_ok p" "\<forall>j \<in> set js. j < getSize b" "coincidence_inv st ps"
  shows "\<exists>st'. search_pairs s b p js st = Inr st' \<and>
     coincidence_inv st' (ps @ map (ordered_pair p) (partners s p (map ((!) (contents b)) js)))"
  using assms(4,5)
proof (induction js arbitrary: st ps)
  case (Cons j js)
  obtain out n where st: "st = (out, n)" by (cases st)
  let ?q = "contents b ! j"
  have g: "get b j = Inr ?q" using Cons.prems(1) get_contents [OF assms(1)] by simp
  have "region_ok ?q" using assms(2) Cons.prems(1) by (simp add: list_all_length getSize_contents)
  then have a: "isCoincidenceAllowed s (g_region p) (g_region ?q) = Inr (coincidenceTriggerMap s (region_index (g_region p) (g_region ?q)))"
    using assms(3) by (simp add: region_ok_def allowed_lookup)
  show ?case
  proof (cases "too_late s p ?q")
    case True
    then show ?thesis using Cons.prems(2) g st by (simp add: too_late_def partners_def)
  next
    case late: False
    show ?thesis
    proof (cases "allowed_pair s p ?q")
      case True
      have I: "wf_buffer out" "\<forall>i. wf_coincidence (buf out i)" "map pair_of (contents out) = ps"
        "list_all c_valid (contents out)" "n = of_nat (length ps)"
        using Cons.prems(2) st by (simp_all add: coincidence_inv_def)
      obtain d where d: "fill_coincidence p ?q (buf out (used out)) = Inr d" "wf_coincidence d" "c_valid d"
        "pair_of d = ordered_pair p ?q"
        using fill_coincidence_ok I(2) by blast
      obtain out' where o: "write_slot (getWriteSlot out) d = Inr out'" "wf_buffer (pushWriteSlot out')"
        "contents (pushWriteSlot out') = contents out @ [d]"
        using write_slot_ok [OF I(1)] by blast
      have "\<forall>i. wf_coincidence (buf (pushWriteSlot out') i)"
        using write_slot_buf [OF o(1)] I(2) d(2) by (simp add: pushWriteSlot_def)
      then have "coincidence_inv (pushWriteSlot out', n + 1) (ps @ [ordered_pair p ?q])"
        using o d I by (simp add: coincidence_inv_def)
      from Cons.IH [OF _ this] Cons.prems(1) obtain st' where
        "search_pairs s b p js (pushWriteSlot out', n + 1) = Inr st'"
        "coincidence_inv st' ((ps @ [ordered_pair p ?q]) @ map (ordered_pair p) (partners s p (map ((!) (contents b)) js)))"
        by auto
      then show ?thesis
        using True late g a d o slot_buf [OF I(1)] st
        by (simp add: too_late_def allowed_pair_def partners_def Let_def)
    next
      case False
      with Cons late g a st show ?thesis
        by (auto simp: too_late_def allowed_pair_def partners_def Let_def)
    qed
  qed
qed (simp add: partners_def)

lemma all_pairs_snoc_drop: "i < length qs \<Longrightarrow> all_pairs s (drop i qs) =
    map (ordered_pair (qs ! i)) (partners s (qs ! i) (drop (Suc i) qs)) @ all_pairs s (drop (Suc i) qs)"
  by (subst Cons_nth_drop_Suc [symmetric]) simp_all

lemma coincidence_indices_ok:
  assumes "wf_buffer b" "list_all region_ok (contents b)" "coincidence_inv st ps" "i \<le> getSize b"
  shows "\<exists>st'. rfold (coincidence_index s b (getSize b)) [i..<getSize b] st = Inr st' \<and>
     coincidence_inv st' (ps @ all_pairs s (drop i (contents b)))"
  using assms(3,4)
proof (induction "getSize b - i" arbitrary: i st ps)
  case 0
  then show ?case by (simp add: getSize_contents)
next
  case (Suc n)
  then have i: "i < getSize b" by simp
  let ?p = "contents b ! i"
  have p: "region_ok ?p" using assms(2) i by (simp add: list_all_length getSize_contents)
  have "map ((!) (contents b)) [i + 1..<getSize b] = drop (Suc i) (contents b)"
    by (rule nth_equalityI) (simp_all add: getSize_contents)
  then obtain st1 where s1: "coincidence_index s b (getSize b) i st = Inr st1"
    "coincidence_inv st1 (ps @ map (ordered_pair ?p) (partners s ?p (drop (Suc i) (contents b))))"
    using search_pairs_ok [OF assms(1,2) p _ Suc.prems(1), of "[i + 1..<getSize b]" s] get_contents [OF assms(1) i]
    by (auto simp: coincidence_index_def)
  have "n = getSize b - Suc i" "Suc i \<le> getSize b" using Suc.hyps(2) i by simp_all
  from Suc.hyps(1) [OF this(1) s1(2) this(2)] show ?case
    using i s1(1) all_pairs_snoc_drop [of i "contents b" s] by (simp add: getSize_contents upt_conv_Cons)
qed

text \<open>
  C4: For photons in configured regions the stage never reads outside the trigger map or a buffer,
  and its output is exactly the list of pairs \<open>all_pairs\<close>: for each photon in order, its allowed
  partners among the later ones up to the first that is too late, each pair with the photon of the higher
  region first, marked valid; the counter grows by their number.
\<close>

theorem coincidence_pairs:
  assumes "wf_buffer b" and "list_all region_ok (contents b)" and "\<forall>i. wf_coincidence (junk i)" and "getSize b < 2 ^ 32"
  shows "\<exists>c' out. coincidence_handleEvents junk jt s c b = Inr (c', out) \<and> wf_buffer out
     \<and> map pair_of (contents out) = all_pairs s (contents b) \<and> list_all c_valid (contents out)
     \<and> nPrompts c' = nPrompts c + of_nat (length (all_pairs s (contents b)))"
proof -
  have n: "unat (of_nat (getSize b) :: u32) = getSize b" using assms(4) by (simp add: unat_of_nat_small)
  let ?o = "newChildBuffer junk jt (of_nat (getSize b)) b"
  have "coincidence_inv (?o, 0) []"
    using assms(3) by (simp add: coincidence_inv_def) (simp add: newChildBuffer_def newEventBuffer_def)
  from coincidence_indices_ok [OF assms(1,2) this, of 0 s] obtain out m where
    "rfold (coincidence_index s b (getSize b)) [0..<getSize b] (?o, 0) = Inr (out, m)"
    "coincidence_inv (out, m) (all_pairs s (contents b))" by auto
  then show ?thesis by (simp add: coincidence_handleEvents_def Let_def n coincidence_inv_def atomicAdd_def)
qed

definition example_photon_buffer :: "GammaPhoton EventBuffer" where
  "example_photon_buffer = \<lparr>bufferTMin = 0, bufferTMax = 2048,
     buf = (\<lambda>i. example_photon\<lparr>g_time := fp_of_int F64 (int i), g_region := int i\<rparr>), capacity = 1024, used = 2\<rparr>"

definition example_coincidence :: Coincidence where
  "example_coincidence = \<lparr>c_valid = False, c_time = NaN, c_nPhotons = 0, c_photons = [None, None]\<rparr>"

theorem coincidence_witness:
  "\<exists>c' out. coincidence_handleEvents (\<lambda>_. example_coincidence) 0
       (example_memory\<lparr>sw_trigger_coincidence_time_window := fp_of_int F64 2\<rparr>) newCoincidenceGrouper example_photon_buffer = Inr (c', out)
     \<and> map (map g_region) (map pair_of (contents out)) = [[1, 0]]"
proof -
  let ?s = "example_memory\<lparr>sw_trigger_coincidence_time_window := fp_of_int F64 2\<rparr>"
  let ?p = "\<lambda>i. example_photon\<lparr>g_time := fp_of_int F64 i, g_region := i\<rparr>"
  have c: "contents example_photon_buffer = [?p 0, ?p 1]"
    by (simp add: contents_def example_photon_buffer_def upt_rec)
  have b: "wf_buffer example_photon_buffer" "getSize example_photon_buffer < 2 ^ 32"
    by (simp_all add: wf_buffer_def example_photon_buffer_def getSize_def)
  have r: "list_all region_ok (contents example_photon_buffer)"
    by (simp add: c region_ok_def in_region_def MAX_TRIGGER_REGIONS_def)
  have j: "\<forall>i. wf_coincidence ((\<lambda>_. example_coincidence) i)"
    by (simp add: wf_coincidence_def example_coincidence_def Coincidence_maxPhotons_def)
  have late: "\<not> too_late ?s (?p 0) (?p 1)"
    by (simp add: too_late_def overlap_def fp_sub_int fp_add_int fp_gt_int fits_fmt_def)
  have near: "fp_le (fp_abs (fp_sub F64 (fp_of_int F64 0) (fp_of_int F64 1))) (fp_of_int F64 2)"
    by (simp add: fp_sub_int fp_abs_int fp_le_int fits_fmt_def)
  then have al: "allowed_pair ?s (?p 0) (?p 1)"
    by (simp add: allowed_pair_def allowed_lookup in_region_def MAX_TRIGGER_REGIONS_def) (simp add: example_memory_def)
  have "all_pairs ?s (contents example_photon_buffer) = [[?p 1, ?p 0]]"
    using late al by (simp add: c partners_def ordered_pair_def)
  then show ?thesis
    using coincidence_pairs [OF b(1) r j b(2), of 0 ?s newCoincidenceGrouper] by auto
qed

end
