(* ===== verification/Thread_Pool.thy ===== *)
theory Thread_Pool
  imports Prelude "HOL-Library.Multiset"
begin

text \<open>
  The thread pool, base/ThreadPool.cpp. The workers and the main thread, which alone queues jobs,
  waits for them and registers clients, interleave step by step. Everything that happens between taking
  and releasing a lock is one step; a condition variable is the set of threads that wait on it:
  \<open>pthread_cond_signal\<close> wakes one of them, \<open>pthread_cond_broadcast\<close> all, and a waiting thread may also
  wake up spuriously. The lists \<open>submitted\<close>, \<open>started\<close> and \<open>executed\<close> record the history of the jobs, which are numbered.
  The theorems: jobs run in the order they were queued, at most once, and are finished only after
  they ran; the queue keeps its bound; no wake-up is lost, so a main thread that waits never finds
  every thread of a running pool stuck.
\<close>

section \<open>States\<close>

text \<open>
  A worker is about to take the pool lock, waits for \<open>condJobQueued\<close>, runs the routine of a job, has
  run it and is about to mark it finished, or has returned.
\<close>

datatype worker = WLock | WWait | WRun nat | WSet nat | WExit

text \<open>
  The main thread is outside the pool, in \<open>queueJob\<close> (about to take the lock, or waiting for
  \<open>condJobStarted\<close>), in \<open>Job::wait\<close> (about to take the job's lock, or waiting for
  \<open>condJobFinished\<close>), or in \<open>clientDecrease\<close> (about to broadcast, or joining the workers).
\<close>

datatype main_thread = MIdle | MQueue nat | MWaitStarted nat | MJob nat | MWaitJob nat | MDie | MJoin

record pool =
  nClients :: nat
  workers :: "worker list"
  queue :: "nat list"
  maxWorkers :: nat
  maxQueueSize :: nat
  die :: bool
  main :: main_thread
  submitted :: "nat list"
  started :: "nat list"
  executed :: "nat list"
  finished :: "nat list"

text \<open>The comparison of \<open>maxWorkers\<close> with the \<open>int\<close> of processors is made on unsigned values.\<close>

definition newThreadPool :: "u32 \<Rightarrow> int \<Rightarrow> pool" where
  "newThreadPool mw nCPUs =
     (let mw = (if mw > word_of_int nCPUs then word_of_int nCPUs else mw);
          mq = mw div 4;
          mq = (if mq > 0 then mq else 1)
      in \<lparr>nClients = 0, workers = [], queue = [], maxWorkers = unat mw, maxQueueSize = unat mq, die = True,
          main = MIdle, submitted = [], started = [], executed = [], finished = []\<rparr>)"

definition isFull :: "pool \<Rightarrow> bool" where
  "isFull p \<longleftrightarrow> length (queue p) \<ge> maxQueueSize p"

definition isFinished :: "pool \<Rightarrow> nat \<Rightarrow> bool" where
  "isFinished p j \<longleftrightarrow> j \<in> set (finished p)"

definition clientIncrease :: "pool \<Rightarrow> pool" where
  "clientIncrease p =
     (let p = p\<lparr>nClients := nClients p + 1\<rparr>
      in if nClients p > 1 then p
         else p\<lparr>die := False, workers := workers p @ replicate (maxWorkers p) WLock\<rparr>)"

text \<open>The first part of \<open>clientDecrease\<close>, up to the broadcast.\<close>

definition clientDecrease :: "pool \<Rightarrow> pool" where
  "clientDecrease p =
     (let p = p\<lparr>nClients := if nClients p > 1 then nClients p - 1 else 0\<rparr>
      in if nClients p > 0 then p else p\<lparr>die := True, main := MDie\<rparr>)"

definition wake :: "worker \<Rightarrow> worker" where
  "wake w = (if w = WWait then WLock else w)"

section \<open>Steps\<close>

text \<open>
  \<open>enqueue\<close> and \<open>enqueue_wake\<close> are the queueing of a job when no worker waits and when the signal
  wakes worker \<open>i\<close>; \<open>block\<close> is the wait for room. \<open>take\<close> wakes the main thread if it waits for
  \<open>condJobStarted\<close>, \<open>set\<close> if it waits for the job.
\<close>

inductive pool_step :: "pool \<Rightarrow> pool \<Rightarrow> bool" where
  call_queue: "main p = MIdle \<Longrightarrow> j \<notin> set (submitted p) \<Longrightarrow> pool_step p (p\<lparr>main := MQueue j\<rparr>)"
| enqueue: "main p = MQueue j \<Longrightarrow> \<not> isFull p \<Longrightarrow> WWait \<notin> set (workers p) \<Longrightarrow>
    pool_step p (p\<lparr>main := MIdle, queue := queue p @ [j], submitted := submitted p @ [j]\<rparr>)"
| enqueue_wake: "main p = MQueue j \<Longrightarrow> \<not> isFull p \<Longrightarrow> i < length (workers p) \<Longrightarrow> workers p ! i = WWait \<Longrightarrow>
    pool_step p (p\<lparr>main := MIdle, queue := queue p @ [j], submitted := submitted p @ [j],
                   workers := (workers p)[i := WLock]\<rparr>)"
| block: "main p = MQueue j \<Longrightarrow> isFull p \<Longrightarrow> pool_step p (p\<lparr>main := MWaitStarted j\<rparr>)"
| call_wait: "main p = MIdle \<Longrightarrow> j \<in> set (submitted p) \<Longrightarrow> pool_step p (p\<lparr>main := MJob j\<rparr>)"
| wait_done: "main p = MJob j \<Longrightarrow> isFinished p j \<Longrightarrow> pool_step p (p\<lparr>main := MIdle\<rparr>)"
| wait_block: "main p = MJob j \<Longrightarrow> \<not> isFinished p j \<Longrightarrow> pool_step p (p\<lparr>main := MWaitJob j\<rparr>)"
| increase: "main p = MIdle \<Longrightarrow> pool_step p (clientIncrease p)"
| decrease: "main p = MIdle \<Longrightarrow> pool_step p (clientDecrease p)"
| broadcast: "main p = MDie \<Longrightarrow> pool_step p (p\<lparr>main := MJoin, workers := map wake (workers p)\<rparr>)"
| join: "main p = MJoin \<Longrightarrow> list_all (\<lambda>w. w = WExit) (workers p) \<Longrightarrow> pool_step p (p\<lparr>main := MIdle, workers := []\<rparr>)"
| sleep: "i < length (workers p) \<Longrightarrow> workers p ! i = WLock \<Longrightarrow> \<not> die p \<Longrightarrow> queue p = [] \<Longrightarrow>
    pool_step p (p\<lparr>workers := (workers p)[i := WWait]\<rparr>)"
| exit: "i < length (workers p) \<Longrightarrow> workers p ! i = WLock \<Longrightarrow> die p \<Longrightarrow>
    pool_step p (p\<lparr>workers := (workers p)[i := WExit]\<rparr>)"
| take: "i < length (workers p) \<Longrightarrow> workers p ! i = WLock \<Longrightarrow> \<not> die p \<Longrightarrow> queue p = j # q \<Longrightarrow>
    pool_step p (p\<lparr>workers := (workers p)[i := WRun j], queue := q, started := started p @ [j],
      main := (case main p of MWaitStarted k \<Rightarrow> MQueue k | m \<Rightarrow> m)\<rparr>)"
| run: "i < length (workers p) \<Longrightarrow> workers p ! i = WRun j \<Longrightarrow>
    pool_step p (p\<lparr>workers := (workers p)[i := WSet j], executed := executed p @ [j]\<rparr>)"
| set: "i < length (workers p) \<Longrightarrow> workers p ! i = WSet j \<Longrightarrow>
    pool_step p (p\<lparr>workers := (workers p)[i := WLock], finished := finished p @ [j],
      main := (if main p = MWaitJob j then MJob j else main p)\<rparr>)"

inductive spurious :: "pool \<Rightarrow> pool \<Rightarrow> bool" where
  worker_wakes: "i < length (workers p) \<Longrightarrow> workers p ! i = WWait \<Longrightarrow> spurious p (p\<lparr>workers := (workers p)[i := WLock]\<rparr>)"
| main_queue_wakes: "main p = MWaitStarted j \<Longrightarrow> spurious p (p\<lparr>main := MQueue j\<rparr>)"
| main_job_wakes: "main p = MWaitJob j \<Longrightarrow> spurious p (p\<lparr>main := MJob j\<rparr>)"

inductive reachable :: "pool \<Rightarrow> pool \<Rightarrow> bool" for p0 where
  start: "reachable p0 p0"
| step: "reachable p0 p \<Longrightarrow> pool_step p q \<Longrightarrow> reachable p0 q"
| spur: "reachable p0 p \<Longrightarrow> spurious p q \<Longrightarrow> reachable p0 q"

section \<open>Invariant\<close>

text \<open>The jobs the workers hold, and the numbers of workers in a state.\<close>

fun job_of :: "worker \<Rightarrow> nat list" where
  "job_of (WRun j) = [j]"
| "job_of (WSet j) = [j]"
| "job_of _ = []"

fun running :: "worker \<Rightarrow> nat list" where
  "running (WRun j) = [j]"
| "running _ = []"

fun unset :: "worker \<Rightarrow> nat list" where
  "unset (WSet j) = [j]"
| "unset _ = []"

definition held :: "(worker \<Rightarrow> nat list) \<Rightarrow> worker list \<Rightarrow> nat list" where
  "held f ws = concat (map f ws)"

definition n_locking :: "worker list \<Rightarrow> nat" where
  "n_locking ws = length (filter (\<lambda>w. w = WLock) ws)"

definition jobs_inv :: "pool \<Rightarrow> bool" where
  "jobs_inv p \<longleftrightarrow> mset (started p) = mset (executed p) + mset (held running (workers p)) \<and>
     mset (executed p) = mset (finished p) + mset (held unset (workers p))"

definition queue_inv :: "pool \<Rightarrow> bool" where
  "queue_inv p \<longleftrightarrow> 1 \<le> maxQueueSize p \<and> length (queue p) \<le> maxQueueSize p \<and>
     submitted p = started p @ queue p \<and> distinct (submitted p) \<and>
     (case main p of
        MQueue j \<Rightarrow> j \<notin> set (submitted p)
      | MWaitStarted j \<Rightarrow> j \<notin> set (submitted p) \<and> isFull p
      | MJob j \<Rightarrow> j \<in> set (submitted p)
      | MWaitJob j \<Rightarrow> j \<in> set (submitted p) \<and> j \<notin> set (finished p)
      | _ \<Rightarrow> True)"

text \<open>A worker that sleeps while jobs are queued has been outnumbered by workers that are awake.\<close>

definition sleep_inv :: "pool \<Rightarrow> bool" where
  "sleep_inv p \<longleftrightarrow> (\<not> die p \<and> WWait \<in> set (workers p) \<longrightarrow> length (queue p) \<le> n_locking (workers p))"

definition die_inv :: "pool \<Rightarrow> bool" where
  "die_inv p \<longleftrightarrow> (0 < nClients p \<longleftrightarrow> \<not> die p) \<and>
     (if die p then
        (if main p = MDie then True
         else WWait \<notin> set (workers p) \<and> (main p \<noteq> MJoin \<longrightarrow> workers p = []))
      else main p \<noteq> MDie \<and> main p \<noteq> MJoin \<and> length (workers p) = maxWorkers p \<and> WExit \<notin> set (workers p))"

lemma held_update:
  assumes "i < length ws"
  shows "mset (held f (ws[i := w])) + mset (f (ws ! i)) = mset (held f ws) + mset (f w)"
proof -
  have u: "ws[i := w] = take i ws @ w # drop (Suc i) ws" using assms by (simp add: upd_conv_take_nth_drop)
  have "mset (held f ws) = mset (held f (take i ws @ ws ! i # drop (Suc i) ws))"
    using id_take_nth_drop [OF assms] by simp
  then show ?thesis unfolding u by (simp add: held_def)
qed

lemma held_update': "i < length ws \<Longrightarrow> f (ws ! i) = [] \<Longrightarrow> mset (held f (ws[i := w])) = mset (held f ws) + mset (f w)"
  using held_update [of i ws f w] by simp

lemma n_locking_update:
  assumes "i < length ws"
  shows "n_locking (ws[i := w]) + (if ws ! i = WLock then 1 else 0) = n_locking ws + (if w = WLock then 1 else 0)"
proof -
  have u: "ws[i := w] = take i ws @ w # drop (Suc i) ws" using assms by (simp add: upd_conv_take_nth_drop)
  have "n_locking ws = n_locking (take i ws @ ws ! i # drop (Suc i) ws)"
    using id_take_nth_drop [OF assms] by simp
  then show ?thesis unfolding u by (simp add: n_locking_def)
qed

lemma held_wake: "held running (map wake ws) = held running ws" "held unset (map wake ws) = held unset ws"
proof -
  have "running (wake w) = running w" "unset (wake w) = unset w" for w by (auto simp: wake_def)
  then show "held running (map wake ws) = held running ws" "held unset (map wake ws) = held unset ws"
    by (simp_all add: held_def comp_def)
qed

lemma wake_no_wait: "WWait \<notin> set (map wake ws)"
  by (auto simp: wake_def)

lemma set_update_in: "w \<in> set (ws[i := v]) \<Longrightarrow> w \<in> set ws \<or> w = v"
  using set_update_subset_insert [of ws i v] by auto

lemma jobs_inv_cong:
  "jobs_inv p \<Longrightarrow> started q = started p \<Longrightarrow> executed q = executed p \<Longrightarrow> finished q = finished p \<Longrightarrow>
   mset (held running (workers q)) = mset (held running (workers p)) \<Longrightarrow>
   mset (held unset (workers q)) = mset (held unset (workers p)) \<Longrightarrow> jobs_inv q"
  by (simp add: jobs_inv_def)

lemma jobs_inv_fields [simp]:
  "jobs_inv (p\<lparr>main := m\<rparr>) = jobs_inv p" "jobs_inv (p\<lparr>queue := q\<rparr>) = jobs_inv p"
  "jobs_inv (p\<lparr>submitted := u\<rparr>) = jobs_inv p" "jobs_inv (p\<lparr>die := d\<rparr>) = jobs_inv p"
  "jobs_inv (p\<lparr>nClients := k\<rparr>) = jobs_inv p"
  by (simp_all add: jobs_inv_def)

lemma jobs_inv_update:
  assumes "jobs_inv p" "i < length (workers p)" "job_of (workers p ! i) = []" "job_of w = []"
  shows "jobs_inv (p\<lparr>workers := (workers p)[i := w]\<rparr>)"
proof -
  have "running (workers p ! i) = []" "unset (workers p ! i) = []" "running w = []" "unset w = []"
    using assms(3,4) by (cases "workers p ! i"; cases w; simp)+
  then show ?thesis
    using held_update' [OF assms(2), of running w] held_update' [OF assms(2), of unset w]
    by (intro jobs_inv_cong [OF assms(1)]) simp_all
qed

lemma in_set_update: "i < length ws \<Longrightarrow> ws ! i \<noteq> w \<Longrightarrow> v \<noteq> w \<Longrightarrow> w \<in> set (ws[i := v]) \<longleftrightarrow> w \<in> set ws"
  by (metis in_set_conv_nth length_list_update nth_list_update)

lemma queue_inv_step: "pool_step p q \<Longrightarrow> queue_inv p \<Longrightarrow> queue_inv q"
  by (induction rule: pool_step.induct)
    (auto simp: queue_inv_def isFull_def isFinished_def clientIncrease_def clientDecrease_def Let_def
      split: main_thread.splits)

lemma sleep_inv_step: "pool_step p q \<Longrightarrow> die_inv p \<Longrightarrow> sleep_inv p \<Longrightarrow> sleep_inv q"
proof (induction rule: pool_step.induct)
  case (enqueue_wake p j i)
  then have "n_locking ((workers p)[i := WLock]) = n_locking (workers p) + 1" "WWait \<in> set (workers p)"
    using n_locking_update [of i "workers p" WLock] nth_mem [of i "workers p"] by simp_all
  then show ?case using enqueue_wake(6) by (auto simp: sleep_inv_def)
next
  case (take i p j q)
  then have "n_locking (workers p) = n_locking ((workers p)[i := WRun j]) + 1"
    using n_locking_update [of i "workers p" "WRun j"] by simp
  then show ?case using take(3,4,6) by (auto simp: sleep_inv_def dest!: set_update_in)
next
  case (run i p j)
  then have "n_locking ((workers p)[i := WSet j]) = n_locking (workers p)"
    using n_locking_update [of i "workers p" "WSet j"] by simp
  then show ?case using run(4) by (auto simp: sleep_inv_def dest!: set_update_in)
next
  case (set i p j)
  then have "n_locking ((workers p)[i := WLock]) = n_locking (workers p) + 1"
    using n_locking_update [of i "workers p" WLock] by simp
  then show ?case using set(4) by (auto simp: sleep_inv_def dest!: set_update_in)
next
  case (increase p)
  then show ?case by (auto simp: sleep_inv_def die_inv_def clientIncrease_def Let_def)
next
  case (broadcast p)
  then show ?case using wake_no_wait [of "workers p"] by (simp add: sleep_inv_def)
qed (auto simp: sleep_inv_def clientDecrease_def Let_def)

lemma die_inv_step: "pool_step p q \<Longrightarrow> die_inv p \<Longrightarrow> die_inv q"
proof (induction rule: pool_step.induct)
  case (broadcast p)
  then show ?case using wake_no_wait [of "workers p"] by (auto simp: die_inv_def split: if_splits)
qed (auto simp: die_inv_def clientIncrease_def clientDecrease_def Let_def dest!: set_update_in
      split: if_splits main_thread.splits)

lemma jobs_inv_step: "pool_step p q \<Longrightarrow> die_inv p \<Longrightarrow> jobs_inv p \<Longrightarrow> jobs_inv q"
proof (induction rule: pool_step.induct)
  case (enqueue_wake p j i)
  then have "jobs_inv (p\<lparr>workers := (workers p)[i := WLock]\<rparr>)" by (intro jobs_inv_update) auto
  then show ?case by (simp add: jobs_inv_def)
next
  case (increase p)
  then show ?case by (auto simp: jobs_inv_def clientIncrease_def Let_def held_def)
next
  case (decrease p)
  then show ?case by (simp add: jobs_inv_def clientDecrease_def Let_def)
next
  case (broadcast p)
  then show ?case by (simp add: jobs_inv_def held_wake)
next
  case (join p)
  then have "held running (workers p) = []" "held unset (workers p) = []"
    by (auto simp: held_def list_all_iff concat_eq_Nil_conv)
  then show ?case using join by (simp add: jobs_inv_def held_def)
next
  case (sleep i p)
  then show ?case by (intro jobs_inv_update) auto
next
  case (exit i p)
  then show ?case by (intro jobs_inv_update) auto
next
  case (take i p j q)
  then have "mset (held running ((workers p)[i := WRun j])) = add_mset j (mset (held running (workers p)))"
    "mset (held unset ((workers p)[i := WRun j])) = mset (held unset (workers p))"
    using held_update' [of i "workers p" _ "WRun j"] by simp_all
  then show ?case using take by (simp add: jobs_inv_def)
next
  case (run i p j)
  then have "mset (held running (workers p)) = add_mset j (mset (held running ((workers p)[i := WSet j])))"
    "mset (held unset ((workers p)[i := WSet j])) = add_mset j (mset (held unset (workers p)))"
    using held_update [of i "workers p" running "WSet j"] held_update' [of i "workers p" unset "WSet j"] by simp_all
  then show ?case using run by (simp add: jobs_inv_def)
next
  case (set i p j)
  then have "mset (held running ((workers p)[i := WLock])) = mset (held running (workers p))"
    "mset (held unset (workers p)) = add_mset j (mset (held unset ((workers p)[i := WLock])))"
    using held_update' [of i "workers p" running "WLock"] held_update [of i "workers p" unset "WLock"] by simp_all
  then show ?case using set by (simp add: jobs_inv_def)
qed simp_all

definition pool_inv :: "pool \<Rightarrow> bool" where
  "pool_inv p \<longleftrightarrow> queue_inv p \<and> jobs_inv p \<and> sleep_inv p \<and> die_inv p"

lemma inv_spurious: "spurious p q \<Longrightarrow> pool_inv p \<Longrightarrow> pool_inv q"
proof (induction rule: spurious.induct)
  case (worker_wakes i p)
  then have "jobs_inv (p\<lparr>workers := (workers p)[i := WLock]\<rparr>)"
    by (intro jobs_inv_update) (auto simp: pool_inv_def)
  moreover have "queue_inv (p\<lparr>workers := (workers p)[i := WLock]\<rparr>)"
    using worker_wakes by (auto simp: pool_inv_def queue_inv_def isFull_def split: main_thread.splits)
  moreover have "n_locking ((workers p)[i := WLock]) = n_locking (workers p) + 1" "WWait \<in> set (workers p)"
    using worker_wakes(1,2) n_locking_update [of i "workers p" WLock] nth_mem [of i "workers p"] by simp_all
  then have "sleep_inv (p\<lparr>workers := (workers p)[i := WLock]\<rparr>)"
    using worker_wakes(3) by (auto simp: pool_inv_def sleep_inv_def)
  moreover have "die_inv (p\<lparr>workers := (workers p)[i := WLock]\<rparr>)"
    using worker_wakes by (auto simp: pool_inv_def die_inv_def dest!: set_update_in split: if_splits)
  ultimately show ?case by (simp add: pool_inv_def)
qed (auto simp: pool_inv_def queue_inv_def jobs_inv_def sleep_inv_def die_inv_def isFull_def split: if_splits)

lemma inv_step: "pool_step p q \<Longrightarrow> pool_inv p \<Longrightarrow> pool_inv q"
  using queue_inv_step [of p q] sleep_inv_step [of p q] die_inv_step [of p q] jobs_inv_step [of p q]
  by (simp add: pool_inv_def)

lemma inv_new: "pool_inv (newThreadPool mw n)"
proof -
  have "1 \<le> unat (if w > 0 then w else 1 :: u32)" for w :: u32
    by (simp add: unat_gt_0 Suc_leI word_neq_0_conv)
  then show ?thesis
    by (auto simp: newThreadPool_def Let_def pool_inv_def queue_inv_def jobs_inv_def sleep_inv_def die_inv_def held_def)
qed

lemma inv_reachable: "reachable (newThreadPool mw n) p \<Longrightarrow> pool_inv p"
  by (induction rule: reachable.induct)
    (auto intro: inv_new inv_spurious inv_step)

section \<open>Properties\<close>

text \<open>
  C6: In every reachable state of a pool the queue holds at most its maximum number of jobs, jobs
  were started in the order they were queued, no job was executed twice, and only executed jobs are
  marked finished.
\<close>

theorem pool_jobs_once_in_order:
  assumes "reachable (newThreadPool mw n) p"
  shows "length (queue p) \<le> maxQueueSize p \<and> submitted p = started p @ queue p \<and> distinct (executed p) \<and>
     set (executed p) \<subseteq> set (started p) \<and> set (finished p) \<subseteq> set (executed p)"
proof -
  have I: "queue_inv p" "jobs_inv p" using inv_reachable [OF assms] by (simp_all add: pool_inv_def)
  have "distinct (started p)" using I(1) by (auto simp: queue_inv_def)
  moreover have "mset (executed p) \<subseteq># mset (started p)" "mset (finished p) \<subseteq># mset (executed p)"
    using I(2) unfolding jobs_inv_def by (metis mset_subset_eq_add_left)+
  moreover have "distinct xs" if "mset xs \<subseteq># mset ys" "distinct ys" for xs ys :: "nat list"
    using that by (metis distinct_count_atmost_1 distinct_append mset_append mset_eq_imp_distinct_iff mset_subset_eq_exists_conv ex_mset)
  ultimately show ?thesis using I(1) set_mset_mono [of "mset (executed p)" "mset (started p)"]
      set_mset_mono [of "mset (finished p)" "mset (executed p)"]
    by (auto simp: queue_inv_def)
qed

lemma worker_can_step:
  assumes "i < length (workers p)" "workers p ! i \<noteq> WWait" "workers p ! i \<noteq> WExit"
  shows "\<exists>q. pool_step p q"
proof (cases "workers p ! i")
  case WLock
  then show ?thesis using assms(1) by (cases "die p"; cases "queue p") (blast intro: pool_step.intros)+
qed (use assms in \<open>auto intro: pool_step.intros\<close>)

lemma held_in:
  assumes "j \<in> set (held f ws)" obtains i where "i < length ws" "j \<in> set (f (ws ! i))"
  using assms by (auto simp: held_def in_set_conv_nth) (metis in_set_conv_nth)

text \<open>
  C7: A main thread that waits (for room in the queue, for a job, or for the workers to end) never
  waits in vain: in every reachable state of a pool with at least one worker per registration some thread can take a
  step that is not a spurious wake-up, as long as the pool is running or being shut down.
\<close>

theorem pool_never_stuck:
  assumes "reachable (newThreadPool mw n) p" and "0 < maxWorkers p" and "\<not> die p \<or> main p = MDie \<or> main p = MJoin"
  shows "\<exists>q. pool_step p q"
proof -
  have I: "queue_inv p" "jobs_inv p" "sleep_inv p" "die_inv p"
    using inv_reachable [OF assms(1)] by (simp_all add: pool_inv_def)
  show ?thesis
  proof (cases "\<exists>i < length (workers p). workers p ! i \<noteq> WWait \<and> workers p ! i \<noteq> WExit")
    case True
    then show ?thesis using worker_can_step by blast
  next
    case False
    then have stuck: "\<forall>w \<in> set (workers p). w = WWait \<or> w = WExit" by (auto simp: in_set_conv_nth)
    have lock: "n_locking (workers p) = 0" using stuck by (auto simp: n_locking_def filter_empty_conv)
    show ?thesis
    proof (cases "die p")
      case True
      then consider "main p = MDie" | "main p = MJoin" using assms(3) by blast
      then show ?thesis
      proof cases
        case 1 then show ?thesis by (blast intro: broadcast)
      next
        case 2
        then have "WWait \<notin> set (workers p)" using I(4) True by (simp add: die_inv_def)
        then have "list_all (\<lambda>w. w = WExit) (workers p)" using stuck by (auto simp: list_all_iff)
        with 2 show ?thesis by (blast intro: join)
      qed
    next
      case False
      then have w: "length (workers p) = maxWorkers p" "WExit \<notin> set (workers p)" using I(4) by (auto simp: die_inv_def)
      then have "workers p ! 0 = WWait" "0 < length (workers p)" using stuck assms(2) by (metis nth_mem)+
      then have "WWait \<in> set (workers p)" by (metis nth_mem)
      then have q: "queue p = []" using I(3) False lock by (simp add: sleep_inv_def)
      have r: "held running (workers p) = []" "held unset (workers p) = []"
        using stuck by (auto simp: held_def concat_eq_Nil_conv)
      then have "mset (started p) = mset (finished p)" using I(2) by (simp add: jobs_inv_def)
      then have all: "set (submitted p) \<subseteq> set (finished p)" using I(1) q by (auto simp: queue_inv_def dest: mset_eq_setD)
      show ?thesis
      proof (cases "main p")
        case MIdle then show ?thesis by (blast intro: increase)
      next
        case (MQueue j)
        then show ?thesis using enqueue_wake [OF MQueue] \<open>workers p ! 0 = WWait\<close> \<open>0 < length (workers p)\<close> I(1) q
          by (auto simp: isFull_def queue_inv_def)
      next
        case (MWaitStarted j) then show ?thesis using I(1) q by (auto simp: queue_inv_def isFull_def)
      next
        case (MJob j) then show ?thesis by (cases "isFinished p j") (blast intro: wait_done wait_block)+
      next
        case (MWaitJob j) then show ?thesis using I(1) all by (auto simp: queue_inv_def)
      qed (use I(4) False in \<open>auto simp: die_inv_def\<close>)
    qed
  qed
qed

definition example_pool :: pool where
  "example_pool = newThreadPool 8 2"

lemma example_reach: "reachable (newThreadPool 8 2) ((clientIncrease (newThreadPool 8 2))\<lparr>main := MQueue 7\<rparr>)"
proof -
  have "pool_step (newThreadPool 8 2) (clientIncrease (newThreadPool 8 2))"
    by (rule increase) (simp add: newThreadPool_def Let_def)
  then have r: "reachable (newThreadPool 8 2) (clientIncrease (newThreadPool 8 2))" by (blast intro: reachable.intros)
  have "pool_step (clientIncrease (newThreadPool 8 2)) ((clientIncrease (newThreadPool 8 2))\<lparr>main := MQueue 7\<rparr>)"
    by (rule call_queue) (simp_all add: newThreadPool_def clientIncrease_def Let_def)
  with r show ?thesis by (blast intro: reachable.intros)
qed

theorem pool_jobs_witness:
  "length (queue ((clientIncrease (newThreadPool 8 2))\<lparr>main := MQueue 7\<rparr>)) \<le> 1"
  using pool_jobs_once_in_order [OF example_reach]
  by (simp add: newThreadPool_def clientIncrease_def Let_def)

theorem pool_never_stuck_witness:
  "\<exists>q. pool_step ((clientIncrease (newThreadPool 8 2))\<lparr>main := MQueue 7\<rparr>) q"
  by (rule pool_never_stuck [OF example_reach]) (simp_all add: newThreadPool_def clientIncrease_def Let_def)

end
