(* ===== verification/Overlapped_Handler.thy ===== *)
theory Overlapped_Handler
  imports Event_Buffer
begin

text \<open>
  The overlapped processing stages, base/OverlappedEventHandler.tpp. A stage hands every buffer to the thread
  pool and keeps its workers in a queue; results leave at the front of that queue, when the front
  worker happens to be finished or when the stage is finished. Whether a worker is finished when the
  code asks is decided by the pool, so the answers are an argument of the operations. What a worker
  computes is the function \<open>handle\<close>; a worker is modelled by its input buffer, its output being
  \<open>handle\<close> of it (Thread\_Pool shows that waiting for a job ends after it ran once).

  The interface \<open>stream_stage\<close> states what a stage promises to the stage before it: every buffer
  given to it ends up, in order, in its output. A stage in front of a stage that keeps this contract keeps
  it too, so whole pipelines do.
\<close>

record ('i, 's) stage =
  workers :: "'i list"
  peakThreads :: nat
  stepProcessingNBlocks :: nat
  stepProcessingNInputEvents :: nat
  sink :: 's

definition newStage :: "'s \<Rightarrow> ('i, 's) stage" where
  "newStage s = \<lparr>workers = [], peakThreads = 0, stepProcessingNBlocks = 0, stepProcessingNInputEvents = 0, sink = s\<rparr>"

text \<open>\<open>spush\<close> is \<open>pushEvents\<close> of the sink, \<open>sz\<close> the number of events in a buffer.\<close>

definition extractWorker ::
  "('i \<Rightarrow> 'o) \<Rightarrow> ('i \<Rightarrow> nat) \<Rightarrow> ('s \<Rightarrow> 'o \<Rightarrow> 's) \<Rightarrow> ('i, 's) stage \<Rightarrow> ('i, 's) stage" where
  "extractWorker handle sz spush st =
     (case workers st of
        [] \<Rightarrow> st
      | b # bs \<Rightarrow> st\<lparr>workers := bs, sink := spush (sink st) (handle b),
          stepProcessingNInputEvents := stepProcessingNInputEvents st + sz b\<rparr>)"

text \<open>The loop of \<open>pushEvents\<close>: an answer is used up by every call of \<open>isFinished\<close>.\<close>

fun extract_finished ::
  "('i \<Rightarrow> 'o) \<Rightarrow> ('i \<Rightarrow> nat) \<Rightarrow> ('s \<Rightarrow> 'o \<Rightarrow> 's) \<Rightarrow> bool list \<Rightarrow> ('i, 's) stage \<Rightarrow> ('i, 's) stage" where
  "extract_finished handle sz spush [] st = st"
| "extract_finished handle sz spush (a # as) st =
     (if workers st \<noteq> [] \<and> a then extract_finished handle sz spush as (extractWorker handle sz spush st) else st)"

definition pushEvents ::
  "('i \<Rightarrow> 'o) \<Rightarrow> ('i \<Rightarrow> nat) \<Rightarrow> ('s \<Rightarrow> 'o \<Rightarrow> 's) \<Rightarrow> bool list \<Rightarrow> ('i, 's) stage \<Rightarrow> 'i option \<Rightarrow> ('i, 's) stage" where
  "pushEvents handle sz spush answers st buffer =
     (case buffer of
        None \<Rightarrow> st
      | Some b \<Rightarrow>
          let st = st\<lparr>stepProcessingNBlocks := stepProcessingNBlocks st + 1,
                peakThreads := max (length (workers st)) (peakThreads st)\<rparr>;
              st = st\<lparr>workers := workers st @ [b]\<rparr>
          in extract_finished handle sz spush answers st)"

function extract_all ::
  "('i \<Rightarrow> 'o) \<Rightarrow> ('i \<Rightarrow> nat) \<Rightarrow> ('s \<Rightarrow> 'o \<Rightarrow> 's) \<Rightarrow> ('i, 's) stage \<Rightarrow> ('i, 's) stage" where
  "extract_all handle sz spush st =
     (if workers st = [] then st else extract_all handle sz spush (extractWorker handle sz spush st))"
  by pat_completeness auto
termination
  by (relation "measure (\<lambda>(h, sz, sp, st). length (workers st))")
    (auto simp: extractWorker_def split: list.splits)

declare extract_all.simps [simp del]

definition finish ::
  "('i \<Rightarrow> 'o) \<Rightarrow> ('i \<Rightarrow> nat) \<Rightarrow> ('s \<Rightarrow> 'o \<Rightarrow> 's) \<Rightarrow> ('s \<Rightarrow> 's) \<Rightarrow> ('i, 's) stage \<Rightarrow> ('i, 's) stage" where
  "finish handle sz spush sfinish st =
     (let st = extract_all handle sz spush st in st\<lparr>sink := sfinish (sink st)\<rparr>)"

definition pushT0 :: "('s \<Rightarrow> fp \<Rightarrow> 's) \<Rightarrow> ('i, 's) stage \<Rightarrow> fp \<Rightarrow> ('i, 's) stage" where
  "pushT0 sT0 st t0 = st\<lparr>sink := sT0 (sink st) t0\<rparr>"

section \<open>The contract of a stage\<close>

text \<open>
  \<open>delivered s\<close> is what has left the end of the chain that starts with the stage \<open>s\<close>, \<open>eventual s\<close> what
  will have left it once it is finished; \<open>f\<close> is what the chain makes of one buffer. \<open>push_op\<close> takes
  whatever external answers it needs.
\<close>

locale stream_stage =
  fixes push_op :: "'a \<Rightarrow> 's \<Rightarrow> 'b \<Rightarrow> 's" and finish_op :: "'s \<Rightarrow> 's"
    and eventual :: "'s \<Rightarrow> 'o list" and delivered :: "'s \<Rightarrow> 'o list" and f :: "'b \<Rightarrow> 'o"
  assumes eventual_push: "eventual (push_op a s b) = eventual s @ [f b]"
    and eventual_finish: "eventual (finish_op s) = eventual s"
    and delivered_finish: "delivered (finish_op s) = eventual s"
    and delivered_prefix: "\<exists>rest. eventual s = delivered s @ rest"
begin

fun push_all :: "'s \<Rightarrow> ('a \<times> 'b) list \<Rightarrow> 's" where
  "push_all s [] = s"
| "push_all s ((a, b) # xs) = push_all (push_op a s b) xs"

lemma eventual_push_all: "eventual (push_all s xs) = eventual s @ map (f \<circ> snd) xs"
  by (induction xs arbitrary: s rule: push_all.induct) (auto simp: eventual_push)

lemma delivered_all: "delivered (finish_op (push_all s xs)) = eventual s @ map (f \<circ> snd) xs"
  by (simp add: delivered_finish eventual_push_all)

lemma delivered_partial: "\<exists>n. delivered (push_all s xs) = take n (eventual s @ map (f \<circ> snd) xs)"
proof -
  obtain r where "eventual (push_all s xs) = delivered (push_all s xs) @ r" using delivered_prefix by blast
  then show ?thesis unfolding eventual_push_all by (metis append_eq_conv_conj)
qed

text \<open>A stage in front of this one: \<open>d\<close> are the answers this one gets from outside.\<close>

lemma extract_eventual:
  fixes h :: "'i \<Rightarrow> 'b" and d :: 'a
  shows "eventual (sink (extractWorker h sz (push_op d) st)) @ map (f \<circ> h) (workers (extractWorker h sz (push_op d) st)) =
     eventual (sink st) @ map (f \<circ> h) (workers st)"
  by (auto simp: extractWorker_def eventual_push split: list.splits)

lemma extract_finished_eventual:
  fixes h :: "'i \<Rightarrow> 'b" and d :: 'a
  shows "eventual (sink (extract_finished h sz (push_op d) as st)) @ map (f \<circ> h) (workers (extract_finished h sz (push_op d) as st)) =
     eventual (sink st) @ map (f \<circ> h) (workers st)"
  by (induction as arbitrary: st) (simp_all add: extract_eventual)

lemma extract_all_eventual:
  fixes h :: "'i \<Rightarrow> 'b" and d :: 'a
  shows "workers (extract_all h sz (push_op d) st) = [] \<and>
     eventual (sink (extract_all h sz (push_op d) st)) = eventual (sink st) @ map (f \<circ> h) (workers st)"
proof (induction h sz "push_op d" st rule: extract_all.induct)
  case (1 h sz st)
  then show ?case
    using extract_eventual [of h sz d st] by (subst (1 2) extract_all.simps) auto
qed

end

text \<open>What the stage will have produced in the end, and what it has, in terms of its sink.\<close>

definition stage_eventual ::
  "('s \<Rightarrow> 'o list) \<Rightarrow> ('b \<Rightarrow> 'o) \<Rightarrow> ('i \<Rightarrow> 'b) \<Rightarrow> ('i, 's) stage \<Rightarrow> 'o list" where
  "stage_eventual ev f h st = ev (sink st) @ map (f \<circ> h) (workers st)"

definition stage_delivered :: "('s \<Rightarrow> 'o list) \<Rightarrow> ('i, 's) stage \<Rightarrow> 'o list" where
  "stage_delivered dl st = dl (sink st)"

text \<open>The pushing operation of a stage as the contract wants it: a buffer is never null there.\<close>

definition stage_push ::
  "('i \<Rightarrow> 'o) \<Rightarrow> ('i \<Rightarrow> nat) \<Rightarrow> ('a \<Rightarrow> 's \<Rightarrow> 'o \<Rightarrow> 's) \<Rightarrow> bool list \<times> 'a \<Rightarrow> ('i, 's) stage \<Rightarrow> 'i \<Rightarrow> ('i, 's) stage" where
  "stage_push h sz spush = (\<lambda>(as, d) st b. pushEvents h sz (spush d) as st (Some b))"

text \<open>\<open>finish\<close> asks nothing from outside; \<open>d0\<close> are the answers its sink gets meanwhile.\<close>

lemma stage_contract:
  assumes "stream_stage push_op finish_op eventual delivered f"
  shows "stream_stage (stage_push h sz push_op) (finish h sz (push_op d0) finish_op)
     (stage_eventual eventual f h) (stage_delivered delivered) (f \<circ> h)"
proof -
  note inner = assms
  note ex = stream_stage.extract_finished_eventual [OF inner] stream_stage.extract_all_eventual [OF inner]
    stream_stage.eventual_finish [OF inner] stream_stage.delivered_finish [OF inner]
  show ?thesis
  proof (unfold_locales, goal_cases)
    case (1 a s b)
    then show ?case
      by (auto simp: stage_eventual_def stage_push_def pushEvents_def Let_def ex split: prod.splits)
  next
    case (4 s)
    obtain r where "eventual (sink s) = delivered (sink s) @ r" using stream_stage.delivered_prefix [OF inner] by blast
    then show ?case by (simp add: stage_eventual_def stage_delivered_def)
  qed (auto simp: stage_eventual_def stage_delivered_def finish_def Let_def ex)
qed

section \<open>The end of a chain\<close>

text \<open>The null sink together with the history of the buffers it was given.\<close>

type_synonym 'b end_sink = "'b NullSink \<times> 'b EventBuffer list"

definition end_push :: "unit \<Rightarrow> 'b end_sink \<Rightarrow> 'b EventBuffer \<Rightarrow> 'b end_sink" where
  "end_push u s b = (null_pushEvents (fst s) b, snd s @ [b])"

definition end_finish :: "'b end_sink \<Rightarrow> 'b end_sink" where
  "end_finish s = (null_finish (fst s), snd s)"

interpretation null_end: stream_stage end_push end_finish snd snd "\<lambda>b. b"
  by unfold_locales (auto simp: end_push_def end_finish_def)

text \<open>One stage and two stages in front of the null sink, for any buffer functions.\<close>

lemmas one_stage = stage_contract [OF null_end.stream_stage_axioms]
lemmas two_stages = stage_contract [OF one_stage]

definition push_two ::
  "('i EventBuffer \<Rightarrow> 'm EventBuffer) \<Rightarrow> ('m EventBuffer \<Rightarrow> 'o EventBuffer) \<Rightarrow>
   bool list \<times> bool list \<times> unit \<Rightarrow> ('i EventBuffer, ('m EventBuffer, 'o end_sink) stage) stage \<Rightarrow> 'i EventBuffer \<Rightarrow>
   ('i EventBuffer, ('m EventBuffer, 'o end_sink) stage) stage" where
  "push_two h1 h2 = stage_push h1 getSize (stage_push h2 getSize end_push)"

definition finish_two ::
  "('i EventBuffer \<Rightarrow> 'm EventBuffer) \<Rightarrow> ('m EventBuffer \<Rightarrow> 'o EventBuffer) \<Rightarrow> bool list \<Rightarrow>
   ('i EventBuffer, ('m EventBuffer, 'o end_sink) stage) stage \<Rightarrow>
   ('i EventBuffer, ('m EventBuffer, 'o end_sink) stage) stage" where
  "finish_two h1 h2 as = finish h1 getSize (stage_push h2 getSize end_push (as, ())) (finish h2 getSize (end_push ()) end_finish)"

interpretation chain: stream_stage "push_two h1 h2" "finish_two h1 h2 as"
  "stage_eventual (stage_eventual snd (\<lambda>b. b) h2) ((\<lambda>b. b) \<circ> h2) h1" "stage_delivered (stage_delivered snd)"
  "((\<lambda>b. b) \<circ> h2) \<circ> h1"
  unfolding push_two_def finish_two_def by (rule two_stages)

text \<open>The calls of \<open>pushEvents\<close> on the first of two stages, each with the answers of the pool.\<close>

fun run_two ::
  "('i EventBuffer \<Rightarrow> 'm EventBuffer) \<Rightarrow> ('m EventBuffer \<Rightarrow> 'o EventBuffer) \<Rightarrow>
   ('i EventBuffer, ('m EventBuffer, 'o end_sink) stage) stage \<Rightarrow>
   ((bool list \<times> bool list \<times> unit) \<times> 'i EventBuffer) list \<Rightarrow> ('i EventBuffer, ('m EventBuffer, 'o end_sink) stage) stage" where
  "run_two h1 h2 st [] = st"
| "run_two h1 h2 st ((a, b) # xs) = run_two h1 h2 (push_two h1 h2 a st b) xs"

lemma run_two_eq: "run_two h1 h2 st xs = chain.push_all h1 h2 st xs"
  by (induction xs arbitrary: st rule: chain.push_all.induct) simp_all

definition two_new :: "('i EventBuffer, ('m EventBuffer, 'o end_sink) stage) stage" where
  "two_new = newStage (newStage (newNullSink, []))"

text \<open>
  C5: Whatever the thread pool answers to \<open>isFinished\<close>, and whenever, a chain of two stages in front of
  a sink delivers to the sink, once it is finished, exactly the results of the two stages for the
  buffers pushed, in the order in which they were pushed and none twice; before that it has delivered a prefix of this
  sequence.
\<close>

theorem stages_deliver_in_order:
  "snd (sink (sink (finish_two h1 h2 as (run_two h1 h2 two_new xs)))) = map (\<lambda>(a, b). h2 (h1 b)) xs \<and>
   (\<exists>n. snd (sink (sink (run_two h1 h2 two_new xs))) = take n (map (\<lambda>(a, b). h2 (h1 b)) xs))"
proof -
  have m: "map (((\<lambda>b. b) \<circ> h2 \<circ> h1) \<circ> snd) xs = map (\<lambda>(a, b). h2 (h1 b)) xs" by (auto simp: comp_def)
  have e: "stage_eventual (stage_eventual snd (\<lambda>b. b) h2) ((\<lambda>b. b) \<circ> h2) h1 two_new = []"
    by (simp add: stage_eventual_def two_new_def newStage_def)
  show ?thesis
    using chain.delivered_all [of h1 h2 as two_new xs] chain.delivered_partial [of h1 h2 two_new xs]
    unfolding run_two_eq m e by (simp add: stage_delivered_def)
qed

end
