(* ===== verification/Bytes.thy ===== *)
theory Bytes
  imports Prelude
begin

text \<open>
  The bytes of 64 bit words as the machine stores them, least significant byte first: files and
  sockets carry bytes, the programs read and write whole words.
\<close>

definition byte_of :: "u64 \<Rightarrow> nat \<Rightarrow> u8" where
  "byte_of w i = ucast (drop_bit (8 * i) w)"

definition le_bytes :: "u64 \<Rightarrow> u8 list" where
  "le_bytes w = map (byte_of w) [0..<8]"

fun of_le :: "u8 list \<Rightarrow> u64" where
  "of_le [] = 0"
| "of_le (b # bs) = ucast b OR push_bit 8 (of_le bs)"

function words_le :: "u8 list \<Rightarrow> u64 list" where
  "words_le bs = (if length bs < 8 then [] else of_le (take 8 bs) # words_le (drop 8 bs))"
  by pat_completeness auto
termination
  by (relation "measure length") auto

declare words_le.simps [simp del]

definition bytes_of :: "u64 list \<Rightarrow> u8 list" where
  "bytes_of ws = concat (map le_bytes ws)"

lemma bit_of_le: "bit (of_le bs) n \<longleftrightarrow> n < 64 \<and> n div 8 < length bs \<and> bit (bs ! (n div 8)) (n mod 8)"
proof (induction bs arbitrary: n)
  case (Cons b bs)
  show ?case
  proof (cases "n < 8")
    case True
    then show ?thesis by (auto simp: bit_simps)
  next
    case False
    then have d: "n div 8 = Suc ((n - 8) div 8)" "n mod 8 = (n - 8) mod 8" by (simp_all add: le_div_geq le_mod_geq)
    have "\<not> bit b n" using False bit_imp_le_length [of b n] by auto
    then show ?thesis using False Cons.IH [of "n - 8"] by (auto simp: bit_simps d)
  qed
qed simp

lemma length_le_bytes [simp]: "length (le_bytes w) = 8"
  by (simp add: le_bytes_def)

lemma of_le_bytes: "of_le (le_bytes w) = w"
proof (rule bit_eqI)
  fix n :: nat
  have "8 * (n div 8) + n mod 8 = n" by simp
  then show "bit (of_le (le_bytes w)) n = bit w n"
    using bit_imp_le_length [of w n]
    by (cases "n < 64") (auto simp: bit_of_le le_bytes_def byte_of_def bit_simps)
qed

lemma length_words_le: "length (words_le bs) = length bs div 8"
proof (induction bs rule: words_le.induct)
  case (1 bs)
  then show ?case by (subst words_le.simps) (auto simp: le_div_geq)
qed

lemma words_le_append: "words_le (le_bytes w @ bs) = w # words_le bs"
  by (subst words_le.simps) (simp add: of_le_bytes)

lemma words_le_bytes [simp]: "words_le (bytes_of ws) = ws"
  by (induction ws) (simp_all add: bytes_of_def words_le_append words_le.simps [of "[]"])

lemma length_bytes_of [simp]: "length (bytes_of ws) = 8 * length ws"
  by (induction ws) (simp_all add: bytes_of_def)

lemma bytes_of_append [simp]: "bytes_of (xs @ ys) = bytes_of xs @ bytes_of ys"
  by (simp add: bytes_of_def)

lemma bytes_of_take: "take (8 * n) (bytes_of ws) = bytes_of (take n ws)"
proof (induction ws arbitrary: n)
  case (Cons w ws)
  then show ?case by (cases n) (simp_all add: bytes_of_def)
qed (simp add: bytes_of_def)

lemma bytes_of_drop: "drop (8 * n) (bytes_of ws) = bytes_of (drop n ws)"
proof (induction ws arbitrary: n)
  case (Cons w ws)
  then show ?case by (cases n) (simp_all add: bytes_of_def)
qed (simp add: bytes_of_def)

end
