(* ===== verification/Raw_Reader.thy ===== *)
theory Raw_Reader
  imports Event_Decode Event_Buffer Config_Text Bytes
begin

text \<open>
  The reader of raw data files, raw_data/RawReader.cpp: opening a data set (header, channel modes,
  index of steps), the buffered byte reader, and the processing of a step, which decodes the data frames
  into buffers of raw hits for the first processing stage. How many bytes a \<open>read\<close> system call
  returns is not determined by the file and is a parameter. The lemmas show that the buffered reader
  returns the bytes of the file in order whatever the system calls return, and that a step delivers
  exactly the events of its frames with their absolute times.
\<close>

section \<open>Data\<close>

definition dataFileBufferSize :: nat where
  "dataFileBufferSize = 131072"

definition MAX_NUMBER_CHANNELS :: nat where
  "MAX_NUMBER_CHANNELS = 4194304"

record Step =
  st_step1 :: fp
  st_step2 :: fp
  st_stepBegin :: nat
  st_stepEnd :: nat
  st_stepFirstFrame :: int
  st_stepLastFrame :: int

text \<open>\<open>buffered\<close> are the bytes between \<open>dataFileBufferPtr\<close> and \<open>dataFileBufferEnd\<close>.\<close>

record RawReader =
  rr_steps :: "Step list"
  rr_dataFile :: "u8 list"
  rr_filePos :: nat
  rr_buffered :: "u8 list"
  rr_frequency :: u32
  rr_qdcMode :: "nat \<Rightarrow> bool"
  rr_triggerID :: int

section \<open>Opening a data set\<close>

text \<open>The three files of a data set by their suffix, \<open>None\<close> when a file cannot be opened.\<close>

record data_set =
  ds_idxf :: "string option"
  ds_rawf :: "u8 list option"
  ds_modf :: "string option"

definition mode_format :: "directive list" where
  "mode_format = [DInt 32, WS, DUInt 32, WS, DUInt 32, WS, DUInt 32, WS, DStr]"

fun arg_str :: "arg \<Rightarrow> string" where
  "arg_str (AStr s) = s"
| "arg_str _ = []"

fun arg_i :: "arg \<Rightarrow> int" where
  "arg_i (AInt i) = i"
| "arg_i _ = 0"

fun arg_f :: "arg \<Rightarrow> fp" where
  "arg_f (AFloat f) = f"
| "arg_f _ = NaN"

definition mode_gid :: "u32 \<Rightarrow> u32 \<Rightarrow> u32 \<Rightarrow> u32 \<Rightarrow> u64" where
  "mode_gid portID slaveID chipID channelID =
     (let gChannelID = 0;
          gChannelID = gChannelID OR ucast channelID;
          gChannelID = gChannelID OR ucast (push_bit 6 chipID);
          gChannelID = gChannelID OR ucast (push_bit 12 slaveID);
          gChannelID = gChannelID OR ucast (push_bit 17 portID)
      in gChannelID)"

definition mode_line :: "externals \<Rightarrow> string \<Rightarrow> (nat \<Rightarrow> bool) \<Rightarrow> fault + (nat \<Rightarrow> bool)" where
  "mode_line E line q =
     (let line = normalizeLine E line in
      if line = [] then Inr q
      else
        rbind (sscanf mode_format line) (\<lambda>as.
        if length as \<noteq> 5 then Inr q
        else if length (arg_str (as ! 4)) \<ge> 128 then Inl OutOfBounds
        else
          let g = unat (mode_gid (word_of_int (arg_i (as ! 0))) (word_of_int (arg_i (as ! 1)))
                   (word_of_int (arg_i (as ! 2))) (word_of_int (arg_i (as ! 3))))
          in if g < MAX_NUMBER_CHANNELS then Inr (q(g := (arg_str (as ! 4) = ''qdc''))) else Inl OutOfBounds))"

definition idx_format :: "directive list" where
  "idx_format = [DUInt 64, WS, DUInt 64, WS, DInt 64, WS, DInt 64, WS, DFloat, WS, DFloat]"

definition step_of_args :: "arg list \<Rightarrow> Step" where
  "step_of_args as =
     \<lparr>st_step1 = arg_f (as ! 4), st_step2 = arg_f (as ! 5), st_stepBegin = nat (arg_i (as ! 0)),
      st_stepEnd = nat (arg_i (as ! 1)), st_stepFirstFrame = arg_i (as ! 2), st_stepLastFrame = arg_i (as ! 3)\<rparr>"

text \<open>\<open>header[2] & 0x8000 != 0\<close>: the comparison binds tighter, so the mask is the number 1.\<close>

definition header_triggerID :: "u64 \<Rightarrow> int" where
  "header_triggerID h2 =
     (if h2 AND (if (0x8000 :: u64) \<noteq> 0 then 1 else 0) \<noteq> 0 then int (unat (h2 AND 0x7FFF)) else -1)"

text \<open>The mode file is used without a test whether it could be opened. \<open>junk\<close> is the uninitialised array.\<close>

definition openFile :: "externals \<Rightarrow> (nat \<Rightarrow> bool) \<Rightarrow> data_set \<Rightarrow> fault + RawReader" where
  "openFile E junk d =
     (case ds_idxf d of
        None \<Rightarrow> Inl (Exit 1)
      | Some idxFile \<Rightarrow>
        (case ds_rawf d of
           None \<Rightarrow> Inl (Exit 1)
         | Some rawFile \<Rightarrow>
             (let header = words_le (take 64 rawFile) in
              if length rawFile < 64 then Inl (Exit 1)
              else
                rbind
                  (if header ! 3 \<noteq> 0 then
                     (case ds_modf d of
                        None \<Rightarrow> Inl NullDeref
                      | Some modeFile \<Rightarrow> for_lines 4096 (mode_line E) modeFile junk)
                   else Inr (\<lambda>g. if g < MAX_NUMBER_CHANNELS then header ! 0 AND 0x100000000 \<noteq> 0 else junk g)) (\<lambda>qdc.
                rbind (scan_records idx_format 6 idxFile) (\<lambda>rs.
                Inr \<lparr>rr_steps = map step_of_args rs, rr_dataFile = rawFile, rr_filePos = 64, rr_buffered = [],
                     rr_frequency = ucast (header ! 0 AND 0xFFFFFFFF), rr_qdcMode = qdc,
                     rr_triggerID = header_triggerID (header ! 2)\<rparr>)))))"

definition getNSteps :: "RawReader \<Rightarrow> nat" where
  "getNSteps r = length (rr_steps r)"

definition getFrequency :: "RawReader \<Rightarrow> fp" where
  "getFrequency r = fp_of_int F64 (int (unat (rr_frequency r)))"

definition isQDC :: "RawReader \<Rightarrow> u32 \<Rightarrow> fault + bool" where
  "isQDC r g = (if unat g < MAX_NUMBER_CHANNELS then Inr (rr_qdcMode r (unat g)) else Inl OutOfBounds)"

definition isTOT :: "RawReader \<Rightarrow> bool" where
  "isTOT r \<longleftrightarrow> list_all (\<lambda>g. \<not> rr_qdcMode r g) [0..<MAX_NUMBER_CHANNELS]"

definition getTriggerID :: "RawReader \<Rightarrow> int" where
  "getTriggerID r = rr_triggerID r"

definition getStepValue :: "RawReader \<Rightarrow> nat \<Rightarrow> fault + fp \<times> fp" where
  "getStepValue r n = rbind (idx (rr_steps r) n) (\<lambda>s. Inr (st_step1 s, st_step2 s))"

section \<open>Buffered reading\<close>

text \<open>A \<open>read\<close> at a position returns as many bytes as \<open>rd\<close> says, as far as the buffer and the file go.\<close>

definition sys_read :: "(nat \<Rightarrow> nat) \<Rightarrow> nat \<Rightarrow> u8 list \<Rightarrow> u8 list" where
  "sys_read rd pos file = take (min (rd pos) dataFileBufferSize) (drop pos file)"

definition refill :: "(nat \<Rightarrow> nat) \<Rightarrow> RawReader \<Rightarrow> fault + RawReader" where
  "refill rd r =
     (if rr_buffered r = [] then
        let chunk = sys_read rd (rr_filePos r) (rr_dataFile r)
        in if chunk = [] then Inl AssertFail
           else Inr (r\<lparr>rr_buffered := chunk, rr_filePos := rr_filePos r + length chunk\<rparr>)
      else Inr r)"

lemma refill_nonempty: "refill rd r = Inr r' \<Longrightarrow> rr_buffered r' \<noteq> []"
  by (auto simp: refill_def Let_def split: if_splits)

text \<open>The loop of \<open>readFromDataFile\<close>: \<open>n\<close> bytes are still to be copied.\<close>

function read_loop :: "(nat \<Rightarrow> nat) \<Rightarrow> nat \<Rightarrow> RawReader \<Rightarrow> u8 list \<Rightarrow> fault + u8 list \<times> RawReader" where
  "read_loop rd n r acc =
     (if n = 0 then Inr (acc, r)
      else
        (case refill rd r of
           Inl e \<Rightarrow> Inl e
         | Inr r \<Rightarrow>
             (let count2 = (if n < length (rr_buffered r) then n else length (rr_buffered r))
              in read_loop rd (n - count2) (r\<lparr>rr_buffered := drop count2 (rr_buffered r)\<rparr>)
                   (acc @ take count2 (rr_buffered r)))))"
  by pat_completeness auto
termination
proof (relation "measure (\<lambda>(rd, n, r, acc). n)", goal_cases)
  case (2 rd n r acc r' c)
  then have "rr_buffered r' \<noteq> []" by (simp add: refill_nonempty)
  with 2 show ?case by auto
qed simp

declare read_loop.simps [simp del]

definition readFromDataFile :: "(nat \<Rightarrow> nat) \<Rightarrow> int \<Rightarrow> RawReader \<Rightarrow> fault + u8 list \<times> RawReader" where
  "readFromDataFile rd count r = read_loop rd (nat count) r []"

section \<open>Processing a step\<close>

definition outBlockSize :: nat where
  "outBlockSize = 4 * 1024"

text \<open>The calls made on the sink, in order.\<close>

datatype 'b sink_call = PushT0 fp | PushEvents 'b | Finish

record step_state =
  ps_reader :: RawReader
  ps_pos :: nat
  ps_frame :: RawDataFrame
  ps_out :: "RawHit EventBuffer option"
  ps_first :: int
  ps_lastFrameID :: int
  ps_lastFrameWasLost0 :: bool
  ps_nFrameLost0 :: int
  ps_nFrameLostN :: int
  ps_nEventsNoLost :: int
  ps_nEventsSomeLost :: int
  ps_sink :: "RawHit EventBuffer sink_call list"

text \<open>The times of an event, in 64 bit arithmetic on the masks of the code.\<close>

definition event_t1 :: "int \<Rightarrow> RawEventWord \<Rightarrow> int" where
  "event_t1 frameID w = push_bit 10 frameID OR int (unat (getT1Coarse w))"

definition event_t2 :: "int \<Rightarrow> RawEventWord \<Rightarrow> int" where
  "event_t2 t1 w =
     (let t2 = (t1 AND 0x7FFFFFFFFFFFFC00) OR int (unat (getT2Coarse w)) in if t2 < t1 then t2 + 1024 else t2)"

definition event_tq :: "int \<Rightarrow> RawEventWord \<Rightarrow> int" where
  "event_tq t1 w =
     (let tq = (t1 AND 0x7FFFFFFFFFFFFC00) OR int (unat (getQCoarse w)) in if tq < t1 then tq + 1024 else tq)"

definition event_tp :: "int \<Rightarrow> RawEventWord \<Rightarrow> int" where
  "event_tp t1 w =
     (let tp = (t1 AND 0x7FFFFFFFFFFFF000) OR push_bit 2 (int (unat (getPrevEventTime w)))
      in if tp \<ge> t1 then tp - 4096 else tp)"

definition fill_hit :: "int \<Rightarrow> int \<Rightarrow> RawEventWord \<Rightarrow> RawHit \<Rightarrow> RawHit" where
  "fill_hit first frameID w e =
     (let e = e\<lparr>rh_channelID := getChannelID w, rh_tacID := getTacID w, rh_t1fine := getT1Fine w,
            rh_t2fine := getT2Fine w, rh_qfine := getQFine w, rh_prevEventFlags := getPrevEventFlags w\<rparr>;
          t1 = event_t1 frameID w
      in e\<lparr>rh_time := t1 - first * 1024, rh_timeEnd := event_t2 t1 w - first * 1024,
           rh_timeEndQ := event_tq t1 w - first * 1024, rh_prevEventTime := event_tp t1 w - first * 1024,
           rh_valid := True\<rparr>)"

definition add_event ::
  "int \<Rightarrow> int \<Rightarrow> RawDataFrame \<Rightarrow> nat \<Rightarrow> RawHit EventBuffer \<Rightarrow> fault + RawHit EventBuffer" where
  "add_event first frameID frame i out =
     (let out = getWriteSlot out in
      rbind (slot out) (\<lambda>e.
      rbind (getEventWord frame i) (\<lambda>w.
      rbind (write_slot out (fill_hit first frameID w e)) (\<lambda>out. Inr (pushWriteSlot out)))))"

text \<open>\<open>junk k\<close> is the memory of the \<open>k\<close>-th buffer that is created.\<close>

definition choose_buffer :: "(nat \<Rightarrow> nat \<Rightarrow> RawHit) \<Rightarrow> int \<Rightarrow> int \<Rightarrow> step_state \<Rightarrow> step_state" where
  "choose_buffer junk N frameID st =
     (let fresh = (\<lambda>st. st\<lparr>ps_first := frameID,
            ps_out := Some (newEventBuffer (junk (length (ps_sink st))) 0 (of_nat outBlockSize) (frameID * 1024))\<rparr>)
      in case ps_out st of
           None \<Rightarrow> fresh st
         | Some b \<Rightarrow>
             (if int (getSize b) + N > int outBlockSize \<or> frameID - ps_first st > 2 ^ 32
              then fresh (st\<lparr>ps_sink := ps_sink st @ [PushEvents b]\<rparr>) else st))"

text \<open>The accounting of lost frames; \<open>N\<close> is never 0 here.\<close>

definition account_frame :: "int \<Rightarrow> int \<Rightarrow> bool \<Rightarrow> step_state \<Rightarrow> step_state" where
  "account_frame N frameID frameLost st =
     (let st = (if frameID \<noteq> ps_lastFrameID st + 1 \<and> ps_lastFrameWasLost0 st
                then st\<lparr>ps_nFrameLost0 := ps_nFrameLost0 st + (frameID - ps_lastFrameID st - 1)\<rparr> else st);
          st = (if frameLost \<and> N = 0 then st\<lparr>ps_nFrameLost0 := ps_nFrameLost0 st + 1\<rparr> else st);
          st = (if frameLost \<and> N \<noteq> 0 then st\<lparr>ps_nFrameLostN := ps_nFrameLostN st + 1\<rparr> else st);
          st = (if frameLost then st\<lparr>ps_nEventsSomeLost := ps_nEventsSomeLost st + cdiv N 2\<rparr>
                else st\<lparr>ps_nEventsNoLost := ps_nEventsNoLost st + cdiv N 2\<rparr>)
      in st\<lparr>ps_lastFrameWasLost0 := (frameLost \<and> N = 0), ps_lastFrameID := frameID\<rparr>)"

text \<open>One turn of the loop over the frames.\<close>

definition frame_step ::
  "(nat \<Rightarrow> nat \<Rightarrow> RawHit) \<Rightarrow> (nat \<Rightarrow> nat) \<Rightarrow> step_state \<Rightarrow> fault + step_state" where
  "frame_step junk rd st =
     rbind (readFromDataFile rd 16 (ps_reader st)) (\<lambda>(bs, reader).
     if length bs \<noteq> 16 then Inl AssertFail
     else
       let frame = \<lparr>data = words_le bs @ drop 2 (data (ps_frame st))\<rparr>;
           st = st\<lparr>ps_reader := reader, ps_pos := ps_pos st + 16, ps_frame := frame\<rparr>;
           N = int (unat (getFrameSize frame)) - 2
       in if N = 0 then Inr st
          else if \<not> N + 2 < int MaxRawDataFrameSize then Inl AssertFail
          else
            rbind (readFromDataFile rd (N * 8) reader) (\<lambda>(bs, reader).
            if int (length bs) \<noteq> N * 8 then Inl AssertFail
            else
              let frame = \<lparr>data = take 2 (data frame) @ words_le bs @ drop (2 + nat N) (data frame)\<rparr>;
                  st = st\<lparr>ps_reader := reader, ps_pos := ps_pos st + length bs, ps_frame := frame\<rparr>;
                  frameID = int (unat (getFrameID frame));
                  st = choose_buffer junk N frameID st;
                  st = account_frame N frameID (getFrameLost frame) st
              in case ps_out st of
                   None \<Rightarrow> Inl NullDeref
                 | Some out \<Rightarrow>
                     rbind (rfold (add_event (ps_first st) frameID frame) [0..<nat (cdiv N 2)] out) (\<lambda>out.
                     Inr (st\<lparr>ps_out := Some (setTMax out ((frameID + 1) * 1024))\<rparr>))))"

lemma choose_buffer_pos [simp]: "ps_pos (choose_buffer junk N f st) = ps_pos st" "ps_frame (choose_buffer junk N f st) = ps_frame st"
  "ps_reader (choose_buffer junk N f st) = ps_reader st"
  by (auto simp: choose_buffer_def Let_def split: option.splits)

lemma account_frame_keeps [simp]:
  "ps_pos (account_frame N f l st) = ps_pos st" "ps_out (account_frame N f l st) = ps_out st"
  "ps_first (account_frame N f l st) = ps_first st" "ps_sink (account_frame N f l st) = ps_sink st"
  "ps_frame (account_frame N f l st) = ps_frame st" "ps_reader (account_frame N f l st) = ps_reader st"
  by (auto simp: account_frame_def Let_def)

lemma frame_step_pos: "frame_step junk rd st = Inr st' \<Longrightarrow> ps_pos st < ps_pos st'"
  by (auto simp: frame_step_def Let_def elim!: rbind_E split: if_splits option.splits prod.splits)

function frame_loop ::
  "(nat \<Rightarrow> nat \<Rightarrow> RawHit) \<Rightarrow> (nat \<Rightarrow> nat) \<Rightarrow> nat \<Rightarrow> step_state \<Rightarrow> fault + step_state" where
  "frame_loop junk rd stepEnd st =
     (if ps_pos st < stepEnd then
        (case frame_step junk rd st of Inl e \<Rightarrow> Inl e | Inr st' \<Rightarrow> frame_loop junk rd stepEnd st')
      else Inr st)"
  by pat_completeness auto
termination
  by (relation "measure (\<lambda>(junk, rd, stepEnd, st). stepEnd - ps_pos st)") (auto dest: frame_step_pos)

declare frame_loop.simps [simp del]

definition start_state :: "RawDataFrame \<Rightarrow> Step \<Rightarrow> RawReader \<Rightarrow> step_state" where
  "start_state frame0 step r =
     \<lparr>ps_reader = r\<lparr>rr_filePos := st_stepBegin step, rr_buffered := []\<rparr>, ps_pos = st_stepBegin step,
      ps_frame = frame0, ps_out = None, ps_first = 0, ps_lastFrameID = -1, ps_lastFrameWasLost0 = False,
      ps_nFrameLost0 = 0, ps_nFrameLostN = 0, ps_nEventsNoLost = 0, ps_nEventsSomeLost = 0,
      ps_sink = [PushT0 (fp_of_int F64 0)]\<rparr>"

definition processStep ::
  "(nat \<Rightarrow> nat \<Rightarrow> RawHit) \<Rightarrow> RawDataFrame \<Rightarrow> (nat \<Rightarrow> nat) \<Rightarrow> RawReader \<Rightarrow> nat \<Rightarrow> fault + step_state" where
  "processStep junk frame0 rd r n =
     rbind (idx (rr_steps r) n) (\<lambda>step.
     rbind (frame_loop junk rd (st_stepEnd step) (start_state frame0 step r)) (\<lambda>st.
     let st = (case ps_out st of
                 None \<Rightarrow> st
               | Some b \<Rightarrow> st\<lparr>ps_sink := ps_sink st @ [PushEvents b], ps_out := None\<rparr>)
     in Inr (st\<lparr>ps_sink := ps_sink st @ [Finish]\<rparr>)))"

section \<open>The bytes read\<close>

text \<open>The reader stands at offset \<open>p\<close> of the file: what is buffered is the part of the file from there on.\<close>

definition at_pos :: "RawReader \<Rightarrow> nat \<Rightarrow> bool" where
  "at_pos r p \<longleftrightarrow> rr_filePos r = p + length (rr_buffered r) \<and>
     rr_buffered r = take (length (rr_buffered r)) (drop p (rr_dataFile r))"

lemma refill_ok:
  assumes "at_pos r p" "p < length (rr_dataFile r)" "1 \<le> rd p"
  shows "\<exists>r'. refill rd r = Inr r' \<and> at_pos r' p \<and> rr_buffered r' \<noteq> [] \<and> rr_dataFile r' = rr_dataFile r"
proof (cases "rr_buffered r = []")
  case True
  then have p: "rr_filePos r = p" using assms(1) by (simp add: at_pos_def)
  let ?c = "sys_read rd p (rr_dataFile r)"
  have "0 < length ?c" using assms(2,3) by (simp add: sys_read_def dataFileBufferSize_def)
  then have ne: "?c \<noteq> []" by simp
  have "?c = take (length ?c) (drop p (rr_dataFile r))" by (auto simp: sys_read_def min_def)
  with ne show ?thesis using True p by (simp add: refill_def Let_def at_pos_def)
qed (use assms in \<open>simp add: refill_def\<close>)

lemma read_loop_ok:
  assumes "at_pos r p" "p + n \<le> length (rr_dataFile r)" "\<forall>q. 1 \<le> rd q"
  shows "\<exists>r'. read_loop rd n r acc = Inr (acc @ take n (drop p (rr_dataFile r)), r') \<and> at_pos r' (p + n)
     \<and> rr_dataFile r' = rr_dataFile r"
  using assms(1,2)
proof (induction n arbitrary: r p acc rule: less_induct)
  case (less n)
  show ?case
  proof (cases "n = 0")
    case True
    with less.prems show ?thesis by (simp add: read_loop.simps)
  next
    case False
    obtain r1 where r1: "refill rd r = Inr r1" "at_pos r1 p" "rr_buffered r1 \<noteq> []" "rr_dataFile r1 = rr_dataFile r"
      using refill_ok [OF less.prems(1), of rd] less.prems(2) False assms(3) by auto
    define c where "c = (if n < length (rr_buffered r1) then n else length (rr_buffered r1))"
    have c: "0 < c" "c \<le> n" "c \<le> length (rr_buffered r1)" using r1(3) False by (auto simp: c_def)
    let ?r2 = "r1\<lparr>rr_buffered := drop c (rr_buffered r1)\<rparr>" and ?b = "rr_buffered r1"
    have b: "?b = take (length ?b) (drop p (rr_dataFile r1))" and fp: "rr_filePos r1 = p + length ?b"
      using r1(2) by (simp_all add: at_pos_def)
    have t: "take c ?b = take c (drop p (rr_dataFile r))"
      using arg_cong [OF b, of "take c"] c(3) r1(4) by (simp add: min_def)
    have e0: "drop c ?b = take (length ?b - c) (drop (p + c) (rr_dataFile r1))"
      using arg_cong [OF b, of "drop c"] by (simp add: drop_take add.commute)
    have e: "drop c ?b = take (length (drop c ?b)) (drop (p + c) (rr_dataFile r1))" unfolding length_drop by (rule e0)
    have at2: "at_pos ?r2 (p + c)" unfolding at_pos_def
      using fp c(3) by (intro conjI) (simp, simp add: e [symmetric] del: length_drop drop_drop)
    have "p + c + (n - c) \<le> length (rr_dataFile ?r2)" using less.prems(2) c r1(4) by simp
    from less.IH [OF _ at2 this, of "acc @ take c ?b"] c obtain r' where
      "read_loop rd (n - c) ?r2 (acc @ take c ?b) = Inr ((acc @ take c ?b) @ take (n - c) (drop (p + c) (rr_dataFile ?r2)), r')"
      "at_pos r' (p + c + (n - c))" "rr_dataFile r' = rr_dataFile ?r2" by auto
    moreover have "take c (drop p (rr_dataFile r)) @ take (n - c) (drop (p + c) (rr_dataFile r)) = take n (drop p (rr_dataFile r))"
      using c(2) take_add [of c "n - c" "drop p (rr_dataFile r)"] by (simp add: add.commute)
    ultimately show ?thesis
      using False r1(1,4) c t by (subst read_loop.simps) (simp add: Let_def flip: c_def)
  qed
qed

text \<open>
  C8: The buffered reader returns exactly the requested bytes of the file from its position on, and
  stands after them, no matter how many bytes each \<open>read\<close> system call returns.
\<close>

theorem readFromDataFile_bytes:
  assumes "at_pos r p" and "p + n \<le> length (rr_dataFile r)" and "\<forall>q. 1 \<le> rd q"
  shows "\<exists>r'. readFromDataFile rd (int n) r = Inr (take n (drop p (rr_dataFile r)), r') \<and> at_pos r' (p + n)
     \<and> rr_dataFile r' = rr_dataFile r"
  using read_loop_ok [OF assms, of "[]"] by (simp add: readFromDataFile_def)

lemma readFromDataFile_ok:
  assumes "at_pos r p" "p + n \<le> length (rr_dataFile r)" "\<forall>q. 1 \<le> rd q"
  shows "\<exists>r'. readFromDataFile rd (int n) r = Inr (take n (drop p (rr_dataFile r)), r') \<and> at_pos r' (p + n)
     \<and> rr_dataFile r' = rr_dataFile r"
  using read_loop_ok [OF assms, of "[]"] by (simp add: readFromDataFile_def)

section \<open>The times of an event\<close>

lemma or_fields: "0 \<le> b \<Longrightarrow> b < 2 ^ n \<Longrightarrow> push_bit n a OR b = a * 2 ^ n + (b :: int)"
proof -
  assume b: "0 \<le> b" "b < 2 ^ n"
  have k: "\<not> bit b k" if "n \<le> k" for k
    using b that by (metis bit_take_bit_iff take_bit_int_eq_self not_le)
  have "bit (push_bit n a) k \<longrightarrow> \<not> bit b k" for k
    using k [of k] by (auto simp: bit_simps)
  then have "push_bit n a OR b = push_bit n a + b"
    by (subst disjunctive_add) simp_all
  then show ?thesis by (simp add: push_bit_eq_mult)
qed

lemma field10: "unat (getT1Coarse w) < 1024" "unat (getT2Coarse w) < 1024" "unat (getQCoarse w) < 1024"
  "unat (getPrevEventTime w) < 1024"
  unfolding accessor_unat by simp_all

text \<open>The masks clear the low bits of a time of at most 63 bits.\<close>

lemma mask_low:
  assumes "0 \<le> t" "t < 2 ^ 63" "n \<le> 63"
  shows "t AND (2 ^ 63 - 2 ^ n) = t div 2 ^ n * (2 ^ n :: int)"
proof -
  have m: "(2 ^ 63 - 2 ^ n :: int) = push_bit n (mask (63 - n))"
    using assms(3) by (simp add: mask_eq_exp_minus_1 push_bit_eq_mult algebra_simps flip: power_add)
  have "bit (t AND push_bit n (mask (63 - n))) k = bit (push_bit n (drop_bit n t)) k" for k
  proof -
    have "bit t k \<Longrightarrow> k < 63" using assms(1,2) by (metis bit_take_bit_iff take_bit_int_eq_self)
    then show ?thesis by (auto simp: bit_simps)
  qed
  then have "t AND push_bit n (mask (63 - n)) = push_bit n (drop_bit n t)" by (rule bit_eqI)
  then show ?thesis unfolding m by (simp add: push_bit_eq_mult drop_bit_eq_div)
qed

definition time_in_frame :: "int \<Rightarrow> nat \<Rightarrow> int \<Rightarrow> int" where
  "time_in_frame frameID coarse t1 =
     (let t = frameID * 1024 + int coarse in if t < t1 then t + 1024 else t)"

lemma event_times:
  fixes w :: RawEventWord
  assumes "0 \<le> frameID" "frameID < 2 ^ 36"
  defines "t1 \<equiv> event_t1 frameID w"
  shows "t1 = frameID * 1024 + int (unat (getT1Coarse w))"
    and "event_t2 t1 w = time_in_frame frameID (unat (getT2Coarse w)) t1"
    and "event_tq t1 w = time_in_frame frameID (unat (getQCoarse w)) t1"
    and "event_tp t1 w =
      (let tp = t1 div 4096 * 4096 + 4 * int (unat (getPrevEventTime w)) in if tp \<ge> t1 then tp - 4096 else tp)"
proof -
  note f = field10 [of w]
  show t1: "t1 = frameID * 1024 + int (unat (getT1Coarse w))"
    using or_fields [of "int (unat (getT1Coarse w))" 10 frameID] f by (simp add: t1_def event_t1_def del: of_nat_unat)
  have b: "0 \<le> t1" "t1 < 2 ^ 63" using t1 f(1) assms(1,2) by (simp_all del: of_nat_unat)
  have d: "t1 div 1024 = frameID" using t1 f(1) by (simp del: of_nat_unat)
  have m10: "t1 AND 0x7FFFFFFFFFFFFC00 = push_bit 10 frameID" using mask_low [OF b, of 10] d by (simp add: push_bit_eq_mult)
  show "event_t2 t1 w = time_in_frame frameID (unat (getT2Coarse w)) t1"
    using or_fields [of "int (unat (getT2Coarse w))" 10 frameID] f
    by (simp del: of_nat_unat add: event_t2_def m10 time_in_frame_def Let_def)
  show "event_tq t1 w = time_in_frame frameID (unat (getQCoarse w)) t1"
    using or_fields [of "int (unat (getQCoarse w))" 10 frameID] f
    by (simp del: of_nat_unat add: event_tq_def m10 time_in_frame_def Let_def)
  have m12: "t1 AND 0x7FFFFFFFFFFFF000 = push_bit 12 (t1 div 4096)" using mask_low [OF b, of 12] by (simp add: push_bit_eq_mult)
  have p: "push_bit 2 (int (unat (getPrevEventTime w))) = 4 * int (unat (getPrevEventTime w))" by (simp add: push_bit_eq_mult del: of_nat_unat)
  have "4 * int (unat (getPrevEventTime w)) < 2 ^ 12" using f(4) by (simp del: of_nat_unat)
  then have "push_bit 12 (t1 div 4096) OR push_bit 2 (int (unat (getPrevEventTime w))) = t1 div 4096 * 4096 + 4 * int (unat (getPrevEventTime w))"
    unfolding p using or_fields [of "4 * int (unat (getPrevEventTime w))" 12 "t1 div 4096"] by (simp del: of_nat_unat)
  then show "event_tp t1 w = (let tp = t1 div 4096 * 4096 + 4 * int (unat (getPrevEventTime w)) in if tp \<ge> t1 then tp - 4096 else tp)"
    by (simp del: of_nat_unat add: event_tp_def m12 Let_def)
qed

definition example_reader :: RawReader where
  "example_reader = \<lparr>rr_steps = [], rr_dataFile = [1, 2, 3, 4, 5], rr_filePos = 1, rr_buffered = [],
     rr_frequency = 0, rr_qdcMode = (\<lambda>g. False), rr_triggerID = -1\<rparr>"

theorem readFromDataFile_witness:
  "\<exists>r'. readFromDataFile (\<lambda>q. 2) 3 example_reader = Inr ([2, 3, 4], r') \<and> at_pos r' 4"
  using readFromDataFile_bytes [of example_reader 1 3 "\<lambda>q. 2"]
  by (auto simp: example_reader_def at_pos_def)

text \<open>
  C9: The times the reader gives to an event lie where the hardware measured them: the end times at most one frame after
  the first time, the time of the previous event before it by at most four frames.
\<close>

theorem event_time_bounds:
  assumes "0 \<le> frameID" and "frameID < 2 ^ 36"
  shows "event_t1 frameID w div 1024 = frameID \<and>
     event_t1 frameID w \<le> event_t2 (event_t1 frameID w) w \<and> event_t2 (event_t1 frameID w) w < event_t1 frameID w + 1024 \<and>
     event_t1 frameID w \<le> event_tq (event_t1 frameID w) w \<and> event_tq (event_t1 frameID w) w < event_t1 frameID w + 1024 \<and>
     event_tp (event_t1 frameID w) w < event_t1 frameID w \<and> event_t1 frameID w \<le> event_tp (event_t1 frameID w) w + 4096"
proof -
  note T = event_times [OF assms, of w] and f = field10 [of w]
  let ?t1 = "event_t1 frameID w"
  have "?t1 div 1024 = frameID" using T(1) f(1) by (simp del: of_nat_unat)
  moreover have "?t1 \<le> time_in_frame frameID c ?t1" "time_in_frame frameID c ?t1 < ?t1 + 1024" if "c < 1024" for c
    using T(1) f that by (auto simp: time_in_frame_def Let_def simp del: of_nat_unat)
  moreover have "?t1 div 4096 * 4096 \<le> ?t1" "?t1 < ?t1 div 4096 * 4096 + 4096" by linarith+
  ultimately show ?thesis unfolding T(2-4) using f by (auto simp: Let_def simp del: of_nat_unat)
qed

theorem event_time_bounds_witness:
  "event_tp (event_t1 5 (RawEventWord 0)) (RawEventWord 0) < event_t1 5 (RawEventWord 0)"
  using event_time_bounds [of 5 "RawEventWord 0"] by simp

end
