(* ===== verification/Step_Decoding.thy ===== *)
theory Step_Decoding
  imports Raw_Reader Shm_Raw
begin

text \<open>
  What reading one step of a raw data file delivers: the step's part of the file as a sequence of frames, the
  events of the frames with their times counted from the start of the run, and the proof that
  \<open>processStep\<close> of theory \<open>Raw_Reader\<close> hands exactly these events to its sink.
\<close>

section \<open>What a step is decoded to\<close>

text \<open>A frame of the file: the words it occupies, as many as its header says, and fewer than a frame can have.\<close>

definition file_frame :: "u64 list \<Rightarrow> bool" where
  "file_frame ws \<longleftrightarrow> 2 \<le> length ws \<and> length ws < MaxRawDataFrameSize \<and> unat (getFrameSize \<lparr>data = ws\<rparr>) = length ws"

text \<open>In a frame as it is stored the number of events agrees with this size.\<close>

definition counted_frame :: "u64 list \<Rightarrow> bool" where
  "counted_frame ws \<longleftrightarrow> file_frame ws \<and> getNEvents \<lparr>data = ws\<rparr> = (length ws - 2) div 2"

text \<open>The hit of an event word with its times counted from the first frame of the run.\<close>

definition abs_hit :: "int \<Rightarrow> RawEventWord \<Rightarrow> RawHit" where
  "abs_hit frameID w =
     (let t1 = event_t1 frameID w in
      \<lparr>rh_valid = True, rh_time = t1, rh_timeEnd = event_t2 t1 w, rh_timeEndQ = event_tq t1 w,
       rh_prevEventFlags = getPrevEventFlags w, rh_prevEventTime = event_tp t1 w, rh_channelID = getChannelID w,
       rh_t1fine = getT1Fine w, rh_t2fine = getT2Fine w, rh_qfine = getQFine w, rh_tacID = getTacID w\<rparr>)"

definition shift_hit :: "int \<Rightarrow> RawHit \<Rightarrow> RawHit" where
  "shift_hit d h = h\<lparr>rh_time := rh_time h + d, rh_timeEnd := rh_timeEnd h + d, rh_timeEndQ := rh_timeEndQ h + d,
     rh_prevEventTime := rh_prevEventTime h + d\<rparr>"

definition abs_contents :: "RawHit EventBuffer \<Rightarrow> RawHit list" where
  "abs_contents b = map (shift_hit (getTMin b)) (contents b)"

definition word_at :: "u64 list \<Rightarrow> nat \<Rightarrow> RawEventWord" where
  "word_at ws i = RawEventWord (assemble (ws ! (2 + 2 * i)) (ws ! (3 + 2 * i)))"

definition frame_hits :: "u64 list \<Rightarrow> RawHit list" where
  "frame_hits ws = map (\<lambda>i. abs_hit (int (unat (getFrameID \<lparr>data = ws\<rparr>))) (word_at ws i)) [0..<(length ws - 2) div 2]"

lemma shift_fill: "shift_hit (first * 1024) (fill_hit first frameID w e) = abs_hit frameID w"
  by (simp add: shift_hit_def fill_hit_def abs_hit_def Let_def)

lemma add_event_ok:
  assumes "wf_buffer out" "getTMin out = first * 1024" "getEventWord frame i = Inr w"
  shows "\<exists>out'. add_event first frameID frame i out = Inr out' \<and> wf_buffer out' \<and> getTMin out' = first * 1024
     \<and> abs_contents out' = abs_contents out @ [abs_hit frameID w]"
proof -
  obtain e where e: "slot (getWriteSlot out) = Inr e" using slot_ok [OF assms(1)] by blast
  let ?h = "fill_hit first frameID w e"
  from write_slot_ok [OF assms(1), of ?h] obtain b where
    b: "write_slot (getWriteSlot out) ?h = Inr b" "wf_buffer (pushWriteSlot b)" "bufferTMin b = bufferTMin out"
      "contents (pushWriteSlot b) = contents out @ [?h]" by blast
  have "getTMin (pushWriteSlot b) = first * 1024" using assms(2) b(3) by (simp add: getTMin_def pushWriteSlot_def)
  then have "abs_contents (pushWriteSlot b) = abs_contents out @ [abs_hit frameID w]"
    using assms(2) b(4) by (simp add: abs_contents_def shift_fill)
  then show ?thesis using e b assms \<open>getTMin (pushWriteSlot b) = _\<close> by (simp add: add_event_def Let_def)
qed

lemma add_events_ok:
  assumes "wf_buffer out" "getTMin out = first * 1024" "\<And>i. i < n \<Longrightarrow> getEventWord frame i = Inr (w i)"
  shows "\<exists>out'. rfold (add_event first frameID frame) [0..<n] out = Inr out' \<and> wf_buffer out' \<and> getTMin out' = first * 1024
     \<and> abs_contents out' = abs_contents out @ map (\<lambda>i. abs_hit frameID (w i)) [0..<n]"
  using assms(3)
proof (induction n)
  case (Suc n)
  then obtain o1 where o1: "rfold (add_event first frameID frame) [0..<n] out = Inr o1" "wf_buffer o1" "getTMin o1 = first * 1024"
     "abs_contents o1 = abs_contents out @ map (\<lambda>i. abs_hit frameID (w i)) [0..<n]" by auto
  from add_event_ok [OF o1(2,3) Suc.prems [of n], of frameID] obtain o2 where
    "add_event first frameID frame n o1 = Inr o2" "wf_buffer o2" "getTMin o2 = first * 1024"
    "abs_contents o2 = abs_contents o1 @ [abs_hit frameID (w n)]" by auto
  with o1(1,4) show ?case by (simp add: rfold_append)
qed (use assms(1,2) in simp)

lemma abs_contents_setTMax [simp]: "abs_contents (setTMax b t) = abs_contents b" "wf_buffer (setTMax b t) = wf_buffer b"
  "getTMin (setTMax b t) = getTMin b" "getSize (setTMax b t) = getSize b"
  by (simp_all add: abs_contents_def setTMax_def getTMin_def contents_def wf_buffer_def getSize_def)

lemma length_abs_contents: "length (abs_contents b) = getSize b"
  by (simp add: abs_contents_def getSize_contents)

text \<open>What the sink has received and the open buffer holds, after the frames with the hits \<open>hits\<close>.\<close>

definition out_inv :: "RawHit list \<Rightarrow> step_state \<Rightarrow> bool" where
  "out_inv hits st \<longleftrightarrow>
     (\<exists>bs. ps_sink st = PushT0 (fp_of_int F64 0) # map PushEvents bs
       \<and> (\<forall>b \<in> set bs. wf_buffer b \<and> getSize b \<le> outBlockSize)
       \<and> (case ps_out st of
            None \<Rightarrow> bs = [] \<and> hits = []
          | Some b \<Rightarrow> wf_buffer b \<and> getSize b \<le> outBlockSize \<and> getTMin b = ps_first st * 1024
              \<and> concat (map abs_contents bs) @ abs_contents b = hits))"

lemma out_inv_fresh:
  fixes f :: int
  assumes "ps_sink st = PushT0 (fp_of_int F64 0) # map PushEvents bs" "\<forall>b \<in> set bs. wf_buffer b \<and> getSize b \<le> outBlockSize"
    "concat (map abs_contents bs) = hits"
  shows "out_inv hits (st\<lparr>ps_first := f, ps_out := Some (newEventBuffer j 0 (of_nat outBlockSize) (f * 1024))\<rparr>)"
  unfolding out_inv_def using assms
  by (intro exI [of _ bs]) (simp add: abs_contents_def getTMin_def getSize_contents, simp add: newEventBuffer_def)

lemma choose_buffer_ok:
  assumes "out_inv hits st" "N \<le> int outBlockSize"
  shows "\<exists>b. ps_out (choose_buffer junk N f st) = Some b \<and> int (getSize b) + N \<le> int outBlockSize
     \<and> out_inv hits (choose_buffer junk N f st)"
proof (cases "ps_out st")
  case None
  then have "ps_sink st = PushT0 (fp_of_int F64 0) # map PushEvents []" "hits = []" using assms(1) by (auto simp: out_inv_def)
  with out_inv_fresh [where st = st and bs = "[]" and hits = "[]" and f = f and j = "junk (length (ps_sink st))"] None assms(2) show ?thesis
    by (simp add: choose_buffer_def getSize_contents)
next
  case (Some b)
  show ?thesis
  proof (cases "int (getSize b) + N > int outBlockSize \<or> f - ps_first st > 2 ^ 32")
    case True
    from assms(1) Some obtain bs where bs: "ps_sink st = PushT0 (fp_of_int F64 0) # map PushEvents bs"
      "\<forall>b \<in> set bs. wf_buffer b \<and> getSize b \<le> outBlockSize" "wf_buffer b" "getSize b \<le> outBlockSize"
      "concat (map abs_contents bs) @ abs_contents b = hits" by (auto simp: out_inv_def)
    let ?st = "st\<lparr>ps_sink := ps_sink st @ [PushEvents b]\<rparr>"
    have "out_inv hits (?st\<lparr>ps_first := f, ps_out := Some (newEventBuffer (junk (length (ps_sink ?st))) 0 (of_nat outBlockSize) (f * 1024))\<rparr>)"
      by (rule out_inv_fresh [of _ "bs @ [b]"]) (use bs in auto)
    with Some True assms(2) show ?thesis by (simp add: choose_buffer_def Let_def getSize_contents)
  qed (use assms Some in \<open>auto simp: choose_buffer_def Let_def\<close>)
qed

definition step_inv :: "u8 list \<Rightarrow> nat \<Rightarrow> RawHit list \<Rightarrow> step_state \<Rightarrow> bool" where
  "step_inv file p hits st \<longleftrightarrow> at_pos (ps_reader st) p \<and> rr_dataFile (ps_reader st) = file \<and> ps_pos st = p
     \<and> wf_frame (ps_frame st) \<and> out_inv hits st \<and> ps_nEventsNoLost st + ps_nEventsSomeLost st = int (length hits)"

lemma account_frame_events:
  "ps_nEventsNoLost (account_frame N f l st) + ps_nEventsSomeLost (account_frame N f l st) =
     ps_nEventsNoLost st + ps_nEventsSomeLost st + cdiv N 2"
  by (auto simp: account_frame_def Let_def)

lemma choose_buffer_counts [simp]:
  "ps_nEventsNoLost (choose_buffer junk N f st) = ps_nEventsNoLost st"
  "ps_nEventsSomeLost (choose_buffer junk N f st) = ps_nEventsSomeLost st"
  by (auto simp: choose_buffer_def Let_def split: option.splits)

lemma out_inv_account [simp]: "out_inv hits (account_frame N f l st) = out_inv hits st"
  by (simp add: out_inv_def cong: option.case_cong)

lemma header_prefix:
  assumes "2 \<le> length ws"
  shows "getFrameSize \<lparr>data = ws @ us\<rparr> = getFrameSize \<lparr>data = ws\<rparr>" "getFrameID \<lparr>data = ws @ us\<rparr> = getFrameID \<lparr>data = ws\<rparr>"
    "getFrameSize \<lparr>data = take 2 ws @ us\<rparr> = getFrameSize \<lparr>data = ws\<rparr>"
  using assms by (cases ws; simp add: getFrameSize_def getFrameID_def)+

lemma event_of_words:
  assumes "length ws = n" "wf_frame \<lparr>data = ws @ us\<rparr>" "i < (n - 2) div 2"
  shows "getEventWord \<lparr>data = ws @ us\<rparr> i = Inr (word_at ws i)"
proof -
  have l: "2 + 2 * i + 1 < n" using assms(3) by linarith
  moreover have "n \<le> MaxRawDataFrameSize" using assms(1,2) by (auto simp: wf_frame_def)
  ultimately show ?thesis using assms(1,2) by (simp add: getEventWord_ok decode_event_def word_at_def nth_append)
qed

lemma cdiv_half: "cdiv (int n) 2 = int (n div 2)"
  by (cases "n = 0") (simp_all add: cdiv_def zdiv_int)

lemma frame_step_ok:
  assumes f: "file_frame ws" and fl: "file = pre @ bytes_of ws @ post" and rd: "\<forall>q. 1 \<le> rd q"
    and inv: "step_inv file (length pre) hits st"
  shows "\<exists>st'. frame_step junk rd st = Inr st' \<and> step_inv file (length pre + 8 * length ws) (hits @ frame_hits ws) st'"
proof -
  let ?p = "length pre" and ?n = "length ws"
  define m where "m = ?n - 2"
  have n: "2 \<le> ?n" "?n < MaxRawDataFrameSize" "unat (getFrameSize \<lparr>data = ws\<rparr>) = ?n" using f by (auto simp: file_frame_def)
  have i: "at_pos (ps_reader st) ?p" "rr_dataFile (ps_reader st) = file" "ps_pos st = ?p" "wf_frame (ps_frame st)"
    "out_inv hits st" "ps_nEventsNoLost st + ps_nEventsSomeLost st = int (length hits)" using inv by (auto simp: step_inv_def)
  have len: "length file = ?p + 8 * ?n + length post" using fl by simp
  have d1: "take 16 (drop ?p file) = bytes_of (take 2 ws)"
    using fl n(1) bytes_of_take [of 2 ws] by simp
  obtain r1 where r1: "readFromDataFile rd 16 (ps_reader st) = Inr (bytes_of (take 2 ws), r1)" "at_pos r1 (?p + 16)" "rr_dataFile r1 = file"
    using readFromDataFile_ok [OF i(1), of 16 rd] i(2) d1 rd len n(1) by auto
  define f1 where "f1 = \<lparr>data = take 2 ws @ drop 2 (data (ps_frame st))\<rparr>"
  define st1 where "st1 = st\<lparr>ps_reader := r1, ps_pos := ?p + 16, ps_frame := f1\<rparr>"
  have N: "int (unat (getFrameSize f1)) = int m + 2" using n header_prefix(3) [OF n(1)] by (simp add: f1_def m_def)
  have w1: "wf_frame f1" using i(4) n(1) by (simp add: wf_frame_def f1_def MaxRawDataFrameSize_def)
  have s1: "frame_step junk rd st = (if m = 0 then Inr st1 else frame_step junk rd st)"
    using r1 N n(1) i(3) by (simp del: of_nat_unat add: frame_step_def Let_def st1_def flip: f1_def)
  show ?thesis
  proof (cases "m = 0")
    case True
    then have "?n = 2" using n(1) by (simp add: m_def)
    then have "step_inv file (?p + 8 * ?n) (hits @ frame_hits ws) st1"
      using i r1 w1 by (simp add: step_inv_def st1_def frame_hits_def out_inv_def cong: option.case_cong)
    with s1 True show ?thesis by auto
  next
    case False
    have e2: "?p + 16 + 8 * m = ?p + 8 * ?n" using n(1) by (simp add: m_def)
    have d2: "take (8 * m) (drop (?p + 16) file) = bytes_of (drop 2 ws)"
      using fl n(1) bytes_of_drop [of 2 ws] by (simp add: m_def)
    obtain r2 where r2: "readFromDataFile rd (int (8 * m)) r1 = Inr (bytes_of (drop 2 ws), r2)" "at_pos r2 (?p + 8 * ?n)"
      "rr_dataFile r2 = file"
      using readFromDataFile_ok [OF r1(2), of "8 * m" rd, unfolded e2 r1(3) d2] rd len n(1) by (auto simp: m_def)
    define f2 where "f2 = \<lparr>data = ws @ drop ?n (data (ps_frame st))\<rparr>"
    have w2: "wf_frame f2" using i(4) n(2) by (simp add: wf_frame_def f2_def)
    have fd: "\<lparr>data = take 2 (data f1) @ drop 2 ws @ drop (2 + m) (data f1)\<rparr> = f2"
    proof -
      have "take 2 ws @ drop 2 ws @ x = ws @ x" for x by (metis append.assoc append_take_drop_id)
      moreover have "drop (2 + m) (data f1) = drop m (drop 2 (data (ps_frame st)))" using n(1) by (simp add: f1_def)
      moreover have "m + 2 = ?n" using n(1) by (simp add: m_def)
      then have "drop m (drop 2 (data (ps_frame st))) = drop ?n (data (ps_frame st))" by (simp only: drop_drop)
      ultimately show ?thesis using n(1) by (simp only: f2_def) (simp add: f1_def)
    qed
    define st2 where "st2 = st1\<lparr>ps_reader := r2, ps_pos := ?p + 8 * ?n, ps_frame := f2\<rparr>"
    define fid where "fid = int (unat (getFrameID f2))"
    define st3 where "st3 = choose_buffer junk (int m) fid st2"
    define st4 where "st4 = account_frame (int m) fid (getFrameLost f2) st3"
    have o2: "out_inv hits st2" using i(5) by (simp add: st2_def st1_def out_inv_def cong: option.case_cong)
    have "int m \<le> int outBlockSize" using n(2) by (simp add: m_def outBlockSize_def MaxRawDataFrameSize_def)
    from choose_buffer_ok [OF o2 this, of junk fid] obtain b where b: "ps_out st3 = Some b"
      "int (getSize b) + int m \<le> int outBlockSize" "out_inv hits st3" by (auto simp: st3_def)
    then obtain bs where bs: "ps_sink st3 = PushT0 (fp_of_int F64 0) # map PushEvents bs" "\<forall>b \<in> set bs. wf_buffer b \<and> getSize b \<le> outBlockSize"
      "wf_buffer b" "getTMin b = ps_first st3 * 1024" "concat (map abs_contents bs) @ abs_contents b = hits" by (auto simp: out_inv_def)
    have ev: "getEventWord f2 k = Inr (word_at ws k)" if "k < m div 2" for k
      using event_of_words [OF refl, of ws "drop ?n (data (ps_frame st))" k] w2 that by (simp add: f2_def m_def)
    from add_events_ok [OF bs(3,4) ev, of "m div 2" fid] obtain o4 where
      o4: "rfold (add_event (ps_first st3) fid f2) [0..<m div 2] b = Inr o4" "wf_buffer o4" "getTMin o4 = ps_first st3 * 1024"
      "abs_contents o4 = abs_contents b @ map (\<lambda>k. abs_hit fid (word_at ws k)) [0..<m div 2]" by auto
    define st5 where "st5 = st4\<lparr>ps_out := Some (setTMax o4 ((fid + 1) * 1024))\<rparr>"
    have fh: "map (\<lambda>k. abs_hit fid (word_at ws k)) [0..<m div 2] = frame_hits ws"
      using header_prefix(2) [OF n(1)] by (simp add: frame_hits_def fid_def f2_def m_def)
    have mb: "int m + 2 < int MaxRawDataFrameSize" using n(1,2) by (simp add: m_def)
    have nm: "length ws = m + 2" using n(1) by (simp add: m_def)
    have step: "frame_step junk rd st = Inr st5"
      using r1(1) r2(1) N mb nm False i(3) b(1) o4(1) fd
      unfolding frame_step_def st5_def st4_def st3_def st2_def st1_def fid_def
      by (simp del: of_nat_unat add: Let_def cdiv_half mult.commute add.assoc flip: f1_def)
    have sz: "getSize o4 \<le> outBlockSize"
      using arg_cong [OF o4(4), of length] b(2) by (simp add: length_abs_contents)
    have "out_inv (hits @ frame_hits ws) st5" unfolding out_inv_def
      using bs o4 fh sz by (intro exI [of _ bs]) (simp add: st5_def st4_def)
    moreover have "ps_nEventsNoLost st5 + ps_nEventsSomeLost st5 = int (length (hits @ frame_hits ws))"
      using i(6) account_frame_events [of "int m" fid "getFrameLost f2" st3]
      by (simp add: st5_def st4_def st3_def st2_def st1_def cdiv_half frame_hits_def m_def)
    ultimately have "step_inv file (?p + 8 * ?n) (hits @ frame_hits ws) st5"
      using r2 w2 by (simp add: step_inv_def st5_def st4_def st3_def st2_def)
    with step show ?thesis by blast
  qed
qed

lemma frame_loop_ok:
  assumes "\<forall>ws \<in> set fs. file_frame ws" "file = pre @ bytes_of (concat fs) @ post" "\<forall>q. 1 \<le> rd q"
    "step_inv file (length pre) hits st"
  shows "\<exists>st'. frame_loop junk rd (length pre + 8 * length (concat fs)) st = Inr st' \<and>
     step_inv file (length pre + 8 * length (concat fs)) (hits @ concat (map frame_hits fs)) st'"
  using assms
proof (induction fs arbitrary: pre hits st)
  case Nil
  then show ?case by (auto simp: step_inv_def frame_loop.simps)
next
  case (Cons ws fs)
  from Cons.prems(1,2) have "file_frame ws" "file = pre @ bytes_of ws @ (bytes_of (concat fs) @ post)" by simp_all
  from frame_step_ok [OF this Cons.prems(3,4), of junk] obtain st1 where
    st1: "frame_step junk rd st = Inr st1" "step_inv file (length pre + 8 * length ws) (hits @ frame_hits ws) st1" by blast
  let ?e = "length pre + 8 * length (concat (ws # fs))"
  have "ps_pos st = length pre" "0 < length ws" using Cons.prems(1,4) by (auto simp: step_inv_def file_frame_def)
  then have "frame_loop junk rd ?e st = frame_loop junk rd ?e st1" using st1(1) by (subst frame_loop.simps) simp
  moreover have "file = (pre @ bytes_of ws) @ bytes_of (concat fs) @ post" using Cons.prems(2) by simp
  note Cons.IH [OF _ this Cons.prems(3), of "hits @ frame_hits ws" st1]
  ultimately show ?case using st1(2) Cons.prems(1) by (simp add: algebra_simps)
qed

lemma processStep_ok:
  assumes "\<forall>ws \<in> set fs. file_frame ws" and "rr_dataFile r = pre @ bytes_of (concat fs) @ post"
    and "idx (rr_steps r) n = Inr step" and "st_stepBegin step = length pre"
    and "st_stepEnd step = length pre + 8 * length (concat fs)"
    and "wf_frame frame0" and "\<forall>q. 1 \<le> rd q"
  shows "\<exists>st bs. processStep junk frame0 rd r n = Inr st
     \<and> ps_sink st = PushT0 (fp_of_int F64 0) # map PushEvents bs @ [Finish]
     \<and> concat (map abs_contents bs) = concat (map frame_hits fs)
     \<and> (\<forall>b \<in> set bs. wf_buffer b \<and> getSize b \<le> outBlockSize)
     \<and> ps_nEventsNoLost st + ps_nEventsSomeLost st = int (length (concat (map frame_hits fs)))"
proof -
  let ?s0 = "start_state frame0 step r"
  have "step_inv (rr_dataFile r) (length pre) [] ?s0"
    using assms(4,6) by (simp add: step_inv_def start_state_def at_pos_def out_inv_def)
  from frame_loop_ok [OF assms(1,2,7) this, of junk] obtain st where
    st: "frame_loop junk rd (st_stepEnd step) ?s0 = Inr st"
      "out_inv (concat (map frame_hits fs)) st"
      "ps_nEventsNoLost st + ps_nEventsSomeLost st = int (length (concat (map frame_hits fs)))"
    unfolding assms(5) step_inv_def by auto
  from st(2) obtain bs where bs: "ps_sink st = PushT0 (fp_of_int F64 0) # map PushEvents bs"
    "\<forall>b \<in> set bs. wf_buffer b \<and> getSize b \<le> outBlockSize"
    "case ps_out st of None \<Rightarrow> bs = [] \<and> concat (map frame_hits fs) = []
     | Some b \<Rightarrow> wf_buffer b \<and> getSize b \<le> outBlockSize \<and> concat (map abs_contents bs) @ abs_contents b = concat (map frame_hits fs)"
    by (auto simp: out_inv_def split: option.splits)
  show ?thesis
  proof (cases "ps_out st")
    case None
    then have "processStep junk frame0 rd r n = Inr (st\<lparr>ps_sink := ps_sink st @ [Finish]\<rparr>)"
      using assms(3) st(1) by (simp add: processStep_def)
    moreover have "bs = []" "concat (map frame_hits fs) = []" using bs(3) None by simp_all
    ultimately show ?thesis using bs(1,2) st(3) by (intro exI [of _ bs] exI [of _ "st\<lparr>ps_sink := ps_sink st @ [Finish]\<rparr>"]) simp
  next
    case (Some b)
    let ?st = "st\<lparr>ps_sink := (ps_sink st @ [PushEvents b]) @ [Finish], ps_out := None\<rparr>"
    have "processStep junk frame0 rd r n = Inr ?st" using assms(3) st(1) Some by (simp add: processStep_def)
    moreover have "wf_buffer b" "getSize b \<le> outBlockSize" "concat (map abs_contents bs) @ abs_contents b = concat (map frame_hits fs)"
      using bs(3) Some by simp_all
    ultimately show ?thesis using bs(1,2) st(3) by (intro exI [of _ "bs @ [b]"] exI [of _ ?st]) auto
  qed
qed

text \<open>
  C19: Reading a step whose part of the file is a sequence of well-formed frames never fails an assertion, however the system
  splits the reads; the sink gets \<open>pushT0\<close>, then buffers of at most 4096 events, then \<open>finish\<close>, and the
  buffers hold, with their times counted from their own start, exactly the events of the frames in the order of the file.
\<close>

theorem reader_decodes:
  assumes "\<forall>ws \<in> set fs. file_frame ws" and "rr_dataFile r = pre @ bytes_of (concat fs) @ post"
    and "idx (rr_steps r) n = Inr step" and "st_stepBegin step = length pre"
    and "st_stepEnd step = length pre + 8 * length (concat fs)"
    and "wf_frame frame0" and "\<forall>q. 1 \<le> rd q"
  shows "\<exists>st bs. processStep junk frame0 rd r n = Inr st
     \<and> ps_sink st = PushT0 (fp_of_int F64 0) # map PushEvents bs @ [Finish]
     \<and> concat (map abs_contents bs) = concat (map frame_hits fs)
     \<and> (\<forall>b \<in> set bs. wf_buffer b \<and> getSize b \<le> outBlockSize)
     \<and> ps_nEventsNoLost st + ps_nEventsSomeLost st = int (length (concat (map frame_hits fs)))"
  using assms by (rule processStep_ok)

definition example_words :: "u64 list" where
  "example_words = [0x4000000007, 2, 0x0008000000000000, 0x123]"

definition example_step_reader :: RawReader where
  "example_step_reader = \<lparr>rr_steps = [\<lparr>st_step1 = NaN, st_step2 = NaN, st_stepBegin = 64, st_stepEnd = 96,
       st_stepFirstFrame = 0, st_stepLastFrame = 8\<rparr>],
     rr_dataFile = replicate 64 0 @ bytes_of example_words, rr_filePos = 64, rr_buffered = [],
     rr_frequency = 0, rr_qdcMode = (\<lambda>g. False), rr_triggerID = -1\<rparr>"

theorem reader_decodes_witness:
  "\<exists>st bs. processStep (\<lambda>_ _. abs_hit 0 (RawEventWord 0)) \<lparr>data = replicate 2048 0\<rparr> (\<lambda>q. q mod 5 + 1) example_step_reader 0 = Inr st
     \<and> concat (map abs_contents bs) = frame_hits example_words \<and> length (frame_hits example_words) = 1"
  using reader_decodes [of "[example_words]" example_step_reader "replicate 64 0" "[]" 0 _
      "\<lparr>data = replicate 2048 0\<rparr>" "\<lambda>q. q mod 5 + 1" "\<lambda>_ _. abs_hit 0 (RawEventWord 0)"]
  by (auto simp: example_step_reader_def example_words_def file_frame_def MaxRawDataFrameSize_def getFrameSize_def
      wf_frame_def idx_def frame_hits_def)

end
