(* ===== verification/Write_Raw.thy ===== *)
theory Write_Raw
  imports Step_Decoding "HOL-Library.Multiset"
begin

text \<open>
  The program that moves data frames from the shared memory ring to disk, raw_data/write_raw.cpp. It is told
  by block headers on its standard input which part of the ring to write, answers with the new read pointer, and keeps
  an index of the steps. The acquisition fills the ring in the meantime, so every
  block comes with the ring as it is when the block is processed. Writes to the
  files succeed: the exits after a failed write and the progress messages are left out.
\<close>

section \<open>Data\<close>

record CalibrationData =
  cd_eventWord :: RawEventWord
  cd_freq :: int

record BlockHeader =
  bh_step1 :: fp
  bh_step2 :: fp
  bh_wrPointer :: u32
  bh_rdPointer :: u32
  bh_endOfStep :: int

datatype FrameType = FRAME_TYPE_UNKNOWN | FRAME_TYPE_SOME_DATA | FRAME_TYPE_ZERO_DATA | FRAME_TYPE_SOME_LOST | FRAME_TYPE_ALL_LOST

text \<open>The command line; \<open>startTimeBits\<close> are the bits of the \<open>double\<close> start time.\<close>

record arguments =
  systemFrequency :: int
  acqMode :: string
  startTimeBits :: u64
  acqStdMode :: bool
  argTriggerID :: int

record writer =
  w_dataFile :: "u8 list"
  w_indexFile :: string
  w_calEventSet :: "RawEventWord multiset"
  w_stepEvents :: int
  w_stepMaxFrame :: int
  w_stepAllFrames :: int
  w_stepLostFramesN :: int
  w_stepLostFrames0 :: int
  w_minFrameID :: int
  w_maxFrameID :: int
  w_lastFrameID :: int
  w_stepFirstFrameID :: int
  w_stepStartOffset :: nat
  w_lastFrameType :: FrameType
  w_replies :: "u32 list"

section \<open>The file header\<close>

definition file_header :: "arguments \<Rightarrow> u64 list" where
  "file_header a =
     (let header = replicate 8 (0 :: u64);
          header = header[0 := header ! 0 OR ucast (word_of_int (systemFrequency a) :: u32)];
          header = header[0 := header ! 0 OR push_bit 32 (if acqMode a = ''qdc'' then 1 else 0)];
          header = header[1 := startTimeBits a];
          header = (if argTriggerID a \<noteq> -1 then header[2 := word_of_int (0x8000 + argTriggerID a)] else header);
          header = (if acqMode a = ''mixed'' then header[3 := 1] else header)
      in header)"

definition newWriter :: "arguments \<Rightarrow> writer" where
  "newWriter a =
     \<lparr>w_dataFile = bytes_of (file_header a), w_indexFile = [], w_calEventSet = {#}, w_stepEvents = 0, w_stepMaxFrame = 0,
      w_stepAllFrames = 0, w_stepLostFramesN = 0, w_stepLostFrames0 = 0, w_minFrameID = 0x7FFFFFFFFFFFFFFF,
      w_maxFrameID = 0, w_lastFrameID = -1, w_stepFirstFrameID = -1, w_stepStartOffset = 64,
      w_lastFrameType = FRAME_TYPE_UNKNOWN, w_replies = []\<rparr>"

section \<open>One frame of a block\<close>

text \<open>The header of an empty frame with the lost flag, written in place of the frames that were skipped.\<close>

definition lostFrameBuffer :: "int \<Rightarrow> u64 list" where
  "lostFrameBuffer lastFrameID = [push_bit 36 2 OR word_of_int (lastFrameID + 1), push_bit 16 1]"

definition write_words :: "u64 list \<Rightarrow> writer \<Rightarrow> writer" where
  "write_words ws w = w\<lparr>w_dataFile := w_dataFile w @ bytes_of ws\<rparr>"

definition account_skipped :: "bool \<Rightarrow> int \<Rightarrow> writer \<Rightarrow> writer" where
  "account_skipped std frameID w =
     (let w = (if w_stepFirstFrameID w = -1 then w\<lparr>w_stepFirstFrameID := frameID\<rparr> else w) in
      if frameID \<le> w_lastFrameID w then w
      else if 0 \<le> w_lastFrameID w \<and> frameID \<noteq> w_lastFrameID w + 1 then
        let skippedFrames = frameID - w_lastFrameID w - 1;
            w = w\<lparr>w_stepAllFrames := w_stepAllFrames w + skippedFrames, w_stepLostFrames0 := w_stepLostFrames0 w + skippedFrames\<rparr>;
            w = (if std then write_words (lostFrameBuffer (w_lastFrameID w)) w else w)
        in w\<lparr>w_lastFrameType := FRAME_TYPE_ALL_LOST\<rparr>
      else w)"

definition note_frame :: "int \<Rightarrow> writer \<Rightarrow> writer" where
  "note_frame frameID w =
     w\<lparr>w_lastFrameID := frameID,
       w_minFrameID := (if w_minFrameID w < frameID then w_minFrameID w else frameID),
       w_maxFrameID := (if w_maxFrameID w > frameID then w_maxFrameID w else frameID)\<rparr>"

definition frame_type :: "bool \<Rightarrow> nat \<Rightarrow> FrameType" where
  "frame_type frameLost nEvents =
     (if frameLost then (if nEvents = 0 then FRAME_TYPE_ZERO_DATA else FRAME_TYPE_SOME_DATA)
      else (if nEvents = 0 then FRAME_TYPE_ALL_LOST else FRAME_TYPE_SOME_LOST))"

definition insert_event :: "SHM_RAW \<Rightarrow> nat \<Rightarrow> nat \<Rightarrow> RawEventWord multiset \<Rightarrow> fault + RawEventWord multiset" where
  "insert_event ring index i m = rbind (getRawEventWord ring index i) (\<lambda>e. Inr (add_mset e m))"

definition account_frame_w :: "int \<Rightarrow> bool \<Rightarrow> writer \<Rightarrow> writer" where
  "account_frame_w nEvents frameLost w =
     (let w = w\<lparr>w_stepEvents := w_stepEvents w + nEvents,
               w_stepMaxFrame := (if w_stepMaxFrame w > nEvents then w_stepMaxFrame w else nEvents)\<rparr>;
          w = (if frameLost then
                 (if nEvents = 0 then w\<lparr>w_stepLostFrames0 := w_stepLostFrames0 w + 1\<rparr>
                  else w\<lparr>w_stepLostFramesN := w_stepLostFramesN w + 1\<rparr>)
               else w)
      in w\<lparr>w_stepAllFrames := w_stepAllFrames w + 1\<rparr>)"

text \<open>Two frames of the same kind in a row are not written, unless the block ends a step.\<close>

definition not_written :: "int \<Rightarrow> FrameType \<Rightarrow> FrameType \<Rightarrow> bool" where
  "not_written endOfStep lastFrameType frameType \<longleftrightarrow>
     (endOfStep = 0 \<and> lastFrameType = FRAME_TYPE_ZERO_DATA \<and> frameType = lastFrameType) \<or>
     (endOfStep = 0 \<and> lastFrameType = FRAME_TYPE_ALL_LOST \<and> frameType = lastFrameType)"

definition write_frame :: "bool \<Rightarrow> int \<Rightarrow> SHM_RAW \<Rightarrow> nat \<Rightarrow> writer \<Rightarrow> fault + writer" where
  "write_frame std endOfStep ring rdPointer w =
     (let index = rdPointer mod getSizeInFrames ring in
      rbind (shm_getFrameID ring index) (\<lambda>fid.
      let frameID = int (unat fid);
          w = note_frame frameID (account_skipped std frameID w)
      in rbind (getRawDataFrame ring index) (\<lambda>dataFrame.
         rbind (shm_getFrameSize ring index) (\<lambda>frameSize.
         rbind (shm_getNEvents ring index) (\<lambda>nEvents.
         rbind (shm_getFrameLost ring index) (\<lambda>frameLost.
         rbind (if \<not> std then rfold (insert_event ring index) [0..<nEvents] (w_calEventSet w) else Inr (w_calEventSet w)) (\<lambda>cal.
         let w = account_frame_w (int nEvents) frameLost (w\<lparr>w_calEventSet := cal\<rparr>);
             frameType = frame_type frameLost nEvents
         in if not_written endOfStep (w_lastFrameType w) frameType then Inr w
            else
              let w = w\<lparr>w_lastFrameType := frameType\<rparr> in
              if \<not> std then Inr w
              else if unat frameSize \<le> length (data dataFrame)
                   then Inr (write_words (take (unat frameSize) (data dataFrame)) w)
                   else Inl OutOfBounds)))))))"

section \<open>A block\<close>

text \<open>
  The values the read pointer takes: it counts twice around the ring, so that an empty ring and a full one
  differ. \<open>ring_pointers_loop\<close> below is the loop of the code.
\<close>

definition ring_pointers :: "nat \<Rightarrow> nat \<Rightarrow> nat \<Rightarrow> nat list" where
  "ring_pointers bs rdPointer wrPointer =
     map (\<lambda>i. (rdPointer + i) mod (2 * bs)) [0..<(wrPointer + 2 * bs - rdPointer) mod (2 * bs)]"

text \<open>\<open>pad\<close> is what the unnamed bytes at the end of a \<open>CalibrationData\<close> hold.\<close>

definition calibration_bytes :: "u8 list \<Rightarrow> CalibrationData \<Rightarrow> u8 list" where
  "calibration_bytes pad c =
     (let w = word (cd_eventWord c) in
      le_bytes (ucast w) @ le_bytes (ucast (drop_bit 64 w)) @ take 4 (le_bytes (word_of_int (cd_freq c))) @ pad)"

definition calibration_records :: "RawEventWord multiset \<Rightarrow> CalibrationData list" where
  "calibration_records m =
     map (\<lambda>e. \<lparr>cd_eventWord = e, cd_freq = int (count m e)\<rparr>) (remdups_adj (sorted_list_of_multiset m))"

definition write_calibration :: "u8 list \<Rightarrow> writer \<Rightarrow> writer" where
  "write_calibration pad w =
     w\<lparr>w_dataFile := w_dataFile w @ concat (map (calibration_bytes pad) (calibration_records (w_calEventSet w))),
       w_calEventSet := {#}\<rparr>"

definition index_line :: "nat \<Rightarrow> nat \<Rightarrow> int \<Rightarrow> int \<Rightarrow> fp \<Rightarrow> fp \<Rightarrow> string" where
  "index_line b e f l step1 step2 =
     show_int (int b) @ [TAB] @ show_int (int e) @ [TAB] @ show_int f @ [TAB] @ show_int l @ [TAB] @
     show_fixed step1 @ [TAB] @ show_fixed step2 @ [NL]"

definition end_step :: "u8 list \<Rightarrow> bool \<Rightarrow> BlockHeader \<Rightarrow> writer \<Rightarrow> writer" where
  "end_step pad std h w =
     (let w = (if \<not> std then write_calibration pad w else w);
          w = w\<lparr>w_indexFile := w_indexFile w @ index_line (w_stepStartOffset w) (length (w_dataFile w))
                 (w_stepFirstFrameID w) (w_lastFrameID w) (bh_step1 h) (bh_step2 h)\<rparr>
      in w\<lparr>w_stepStartOffset := length (w_dataFile w), w_stepAllFrames := 0, w_stepEvents := 0, w_stepMaxFrame := 0,
           w_stepLostFramesN := 0, w_stepLostFrames0 := 0, w_lastFrameID := -1, w_stepFirstFrameID := -1,
           w_lastFrameType := FRAME_TYPE_UNKNOWN\<rparr>)"

definition write_block :: "u8 list \<Rightarrow> bool \<Rightarrow> BlockHeader \<times> SHM_RAW \<Rightarrow> writer \<Rightarrow> fault + writer" where
  "write_block pad std b w =
     (case b of (h, ring) \<Rightarrow>
        let bs = getSizeInFrames ring;
            rdPointer = unat (bh_rdPointer h) mod (2 * bs);
            wrPointer = unat (bh_wrPointer h) mod (2 * bs)
        in rbind (rfold (write_frame std (bh_endOfStep h) ring) (ring_pointers bs rdPointer wrPointer) w) (\<lambda>w.
           let w = (if bh_endOfStep h \<noteq> 0 then end_step pad std h w else w)
           in Inr (w\<lparr>w_replies := w_replies w @ [of_nat wrPointer]\<rparr>)))"

definition write_raw :: "u8 list \<Rightarrow> arguments \<Rightarrow> (BlockHeader \<times> SHM_RAW) list \<Rightarrow> fault + writer" where
  "write_raw pad a blocks = rfold (write_block pad (acqStdMode a)) blocks (newWriter a)"

section \<open>The loop over the ring\<close>

lemma ring_pointers_loop:
  assumes "rd < 2 * bs" "wr < 2 * bs"
  shows "ring_pointers bs rd wr = (if rd = wr then [] else rd # ring_pointers bs ((rd + 1) mod (2 * bs)) wr)"
proof (cases "rd = wr")
  case False
  let ?B = "2 * bs" and ?n = "(wr + 2 * bs - rd) mod (2 * bs)"
  have n: "?n = Suc ((wr + ?B - (rd + 1) mod ?B) mod ?B)"
    using assms False by (cases "rd + 1 = ?B"; cases "rd < wr") (auto simp: mod_if)
  have "map (\<lambda>i. (rd + i) mod ?B) [0..<Suc m] = rd # map (\<lambda>i. ((rd + 1) mod ?B + i) mod ?B) [0..<m]" for m
    using assms by (simp add: map_upt_Suc mod_simps del: upt_Suc)
  with n False show ?thesis by (simp add: ring_pointers_def)
qed (simp add: ring_pointers_def)

section \<open>Frames written\<close>

definition frame_words :: "RawDataFrame \<Rightarrow> u64 list" where
  "frame_words f = take (unat (getFrameSize f)) (data f)"

text \<open>A frame as the acquisition stores it: the two counts of its header agree.\<close>

definition good_frame :: "RawDataFrame \<Rightarrow> bool" where
  "good_frame f \<longleftrightarrow> wf_frame f \<and> 2 \<le> unat (getFrameSize f) \<and> unat (getFrameSize f) < MaxRawDataFrameSize
     \<and> getNEvents f = (unat (getFrameSize f) - 2) div 2"

lemma good_frame_words:
  assumes "good_frame f"
  shows "counted_frame (frame_words f)" "length (frame_words f) = unat (getFrameSize f)"
    "getFrameID \<lparr>data = frame_words f\<rparr> = getFrameID f"
proof -
  let ?n = "unat (getFrameSize f)"
  have l: "length (data f) = MaxRawDataFrameSize" "2 \<le> ?n" "?n < MaxRawDataFrameSize"
    using assms by (simp_all add: good_frame_def wf_frame_def)
  then have h: "frame_words f ! 0 = data f ! 0" "frame_words f ! Suc 0 = data f ! Suc 0" by (simp_all add: frame_words_def)
  show len: "length (frame_words f) = ?n" using l(1,3) by (simp add: frame_words_def)
  show "getFrameID \<lparr>data = frame_words f\<rparr> = getFrameID f" by (simp add: getFrameID_def h)
  have "getFrameSize \<lparr>data = frame_words f\<rparr> = getFrameSize f" "getNEvents \<lparr>data = frame_words f\<rparr> = getNEvents f"
    by (simp_all add: getFrameSize_def getNEvents_def h)
  then show "counted_frame (frame_words f)" using len l assms by (simp add: counted_frame_def file_frame_def good_frame_def)
qed

lemma empty_frame_hits: "length ws \<le> 3 \<Longrightarrow> frame_hits ws = []"
  by (simp add: frame_hits_def)

lemma good_frame_empty: "good_frame f \<Longrightarrow> getNEvents f = 0 \<Longrightarrow> frame_hits (frame_words f) = []"
  by (rule empty_frame_hits) (auto simp: good_frame_words good_frame_def)

lemma drop_small: "unat (x :: u64) < 2 ^ n \<Longrightarrow> drop_bit n x = 0"
  by (metis div_less drop_bit_eq_div unat_drop_bit_eq unsigned_0 word_unat_eq_iff)

lemma lost_frame_ok:
  assumes "-1 \<le> l" "l + 1 < 2 ^ 36"
  shows "counted_frame (lostFrameBuffer l)" "frame_hits (lostFrameBuffer l) = []"
proof -
  let ?x = "word_of_int (l + 1) :: u64"
  have "uint (word_of_int k :: u64) = k" if "0 \<le> k" "k < 2 ^ 36" for k
    using that by (simp add: uint_word_of_int)
  from this [of "l + 1"] have "uint ?x = l + 1" using assms by simp
  then have "unat ?x < 2 ^ 36" unfolding unat_eq_nat_uint using assms by (simp add: nat_less_iff)
  then have "drop_bit 36 ?x = 0" by (rule drop_small)
  then have "getFrameSize \<lparr>data = lostFrameBuffer l\<rparr> = 2"
    by (simp add: getFrameSize_def lostFrameBuffer_def drop_bit_or)
  then show "counted_frame (lostFrameBuffer l)"
    by (simp add: counted_frame_def file_frame_def getNEvents_def lostFrameBuffer_def MaxRawDataFrameSize_def)
  show "frame_hits (lostFrameBuffer l) = []" by (rule empty_frame_hits) (simp add: lostFrameBuffer_def)
qed

text \<open>Between two states of a step only whole frames are appended to the file, holding the events \<open>hits\<close>.\<close>

definition appended :: "RawHit list \<Rightarrow> writer \<Rightarrow> writer \<Rightarrow> bool" where
  "appended hits w w' \<longleftrightarrow>
     (\<exists>fs. w_dataFile w' = w_dataFile w @ bytes_of (concat fs) \<and> (\<forall>ws \<in> set fs. counted_frame ws)
       \<and> concat (map frame_hits fs) = hits)
     \<and> w_indexFile w' = w_indexFile w \<and> w_stepStartOffset w' = w_stepStartOffset w \<and> w_replies w' = w_replies w"

lemma appended_refl: "w_dataFile w' = w_dataFile w \<Longrightarrow> w_indexFile w' = w_indexFile w \<Longrightarrow>
    w_stepStartOffset w' = w_stepStartOffset w \<Longrightarrow> w_replies w' = w_replies w \<Longrightarrow> appended [] w w'"
  unfolding appended_def by (intro conjI exI [of _ "[]"]) (simp_all add: bytes_of_def)

lemma appended_trans: "appended h1 w w1 \<Longrightarrow> appended h2 w1 w2 \<Longrightarrow> appended (h1 @ h2) w w2"
proof -
  assume "appended h1 w w1" "appended h2 w1 w2"
  then obtain f1 f2 where "w_dataFile w1 = w_dataFile w @ bytes_of (concat f1)" "\<forall>ws \<in> set f1. counted_frame ws"
    "concat (map frame_hits f1) = h1" "w_dataFile w2 = w_dataFile w1 @ bytes_of (concat f2)" "\<forall>ws \<in> set f2. counted_frame ws"
    "concat (map frame_hits f2) = h2" unfolding appended_def by blast
  moreover have "w_indexFile w2 = w_indexFile w" "w_stepStartOffset w2 = w_stepStartOffset w" "w_replies w2 = w_replies w"
    using \<open>appended h1 w w1\<close> \<open>appended h2 w1 w2\<close> by (simp_all add: appended_def)
  ultimately show ?thesis unfolding appended_def by (intro conjI exI [of _ "f1 @ f2"]) auto
qed

lemma appended_words:
  assumes "counted_frame ws" "frame_hits ws = hits" "w_dataFile w' = w_dataFile w @ bytes_of ws"
    "w_indexFile w' = w_indexFile w" "w_stepStartOffset w' = w_stepStartOffset w" "w_replies w' = w_replies w"
  shows "appended hits w w'"
  unfolding appended_def using assms by (intro conjI exI [of _ "[ws]"]) simp_all

definition ids_ok :: "writer \<Rightarrow> bool" where
  "ids_ok w \<longleftrightarrow> -1 \<le> w_lastFrameID w \<and> w_lastFrameID w < 2 ^ 36 \<and> -1 \<le> w_stepFirstFrameID w \<and> w_stepFirstFrameID w < 2 ^ 36"

lemma frameID_bound: "unat (getFrameID f) < 2 ^ 36"
proof -
  have "getFrameID f = take_bit 36 (data f ! 0)" by (simp add: getFrameID_def take_bit_eq_mask mask_eq_exp_minus_1)
  then show ?thesis using take_bit_nat_less_exp [of 36 "unat (data f ! 0)"] by (simp add: unsigned_take_bit_eq)
qed

lemma account_skipped_ok:
  assumes "ids_ok w" "0 \<le> fid" "fid < 2 ^ 36"
  shows "appended [] w (account_skipped True fid w)" "-1 \<le> w_stepFirstFrameID (account_skipped True fid w)"
    "w_stepFirstFrameID (account_skipped True fid w) < 2 ^ 36" "w_calEventSet (account_skipped True fid w) = w_calEventSet w"
proof -
  let ?w = "if w_stepFirstFrameID w = -1 then w\<lparr>w_stepFirstFrameID := fid\<rparr> else w"
  have a: "appended [] w ?w" by (auto intro: appended_refl)
  have "appended [] ?w (account_skipped True fid w)"
  proof (cases "fid \<le> w_lastFrameID w \<or> \<not> (0 \<le> w_lastFrameID w \<and> fid \<noteq> w_lastFrameID w + 1)")
    case True
    then show ?thesis by (auto simp: account_skipped_def Let_def intro: appended_refl)
  next
    case False
    then have "w_lastFrameID w + 1 < 2 ^ 36" "-1 \<le> w_lastFrameID w" using assms by auto
    from lost_frame_ok [OF this(2,1)] False show ?thesis
      by (intro appended_words) (auto simp: account_skipped_def Let_def write_words_def)
  qed
  from appended_trans [OF a this] show "appended [] w (account_skipped True fid w)" by simp
  show "-1 \<le> w_stepFirstFrameID (account_skipped True fid w)" "w_stepFirstFrameID (account_skipped True fid w) < 2 ^ 36"
    "w_calEventSet (account_skipped True fid w) = w_calEventSet w"
    using assms by (auto simp: account_skipped_def Let_def write_words_def ids_ok_def)
qed

lemma account_frame_w_keeps [simp]:
  "w_dataFile (account_frame_w n l w) = w_dataFile w" "w_indexFile (account_frame_w n l w) = w_indexFile w"
  "w_stepStartOffset (account_frame_w n l w) = w_stepStartOffset w" "w_replies (account_frame_w n l w) = w_replies w"
  "w_lastFrameID (account_frame_w n l w) = w_lastFrameID w" "w_lastFrameType (account_frame_w n l w) = w_lastFrameType w"
  "w_stepFirstFrameID (account_frame_w n l w) = w_stepFirstFrameID w" "w_calEventSet (account_frame_w n l w) = w_calEventSet w"
  by (auto simp: account_frame_w_def Let_def)

lemma not_written_empty: "not_written e t (frame_type l n) \<Longrightarrow> n = 0"
  by (auto simp: not_written_def frame_type_def split: if_splits)

lemma write_frame_ok:
  assumes ring: "wf_shm ring" and f: "f = shm ring ! (rd mod getSizeInFrames ring)" "good_frame f" and w: "ids_ok w"
  shows "\<exists>w'. write_frame True eos ring rd w = Inr w' \<and> ids_ok w' \<and> appended (frame_hits (frame_words f)) w w'
     \<and> w_calEventSet w' = w_calEventSet w"
proof -
  define i where "i = rd mod getSizeInFrames ring"
  have "i < length (shm ring)" using ring by (simp add: i_def wf_shm_def getSizeInFrames_def MaxRawDataFrameQueueSize_def)
  then have g: "getRawDataFrame ring i = Inr f" using f(1) by (simp add: getRawDataFrame_def i_def)
  define fid where "fid = int (unat (getFrameID f))"
  have fid: "0 \<le> fid" "fid < 2 ^ 36" using frameID_bound [of f] by (simp_all add: fid_def del: of_nat_unat)
  define w1 where "w1 = note_frame fid (account_skipped True fid w)"
  note sk = account_skipped_ok [OF w fid]
  have a1: "appended [] w w1" using sk(1) by (simp add: appended_def w1_def note_frame_def)
  define w2 where "w2 = account_frame_w (int (getNEvents f)) (getFrameLost f) w1"
  have a2: "appended [] w w2" "ids_ok w2" "w_calEventSet w2 = w_calEventSet w"
    using a1 sk fid by (simp_all add: appended_def w2_def w1_def ids_ok_def note_frame_def)
  define t where "t = frame_type (getFrameLost f) (getNEvents f)"
  let ?w3 = "write_words (frame_words f) (w2\<lparr>w_lastFrameType := t\<rparr>)"
  have len: "unat (getFrameSize f) \<le> length (data f)" using f(2) by (simp add: good_frame_def wf_frame_def)
  have lt: "w_lastFrameType w2 = w_lastFrameType w1" by (simp add: w2_def)
  have eq: "write_frame True eos ring rd w = Inr (if not_written eos (w_lastFrameType w1) t then w2 else ?w3)"
    using g len lt unfolding write_frame_def Let_def shm_getFrameID_def shm_getFrameSize_def shm_getNEvents_def shm_getFrameLost_def
    by (simp add: t_def frame_words_def flip: i_def fid_def w1_def w2_def del: of_nat_unat)
  show ?thesis
  proof (cases "not_written eos (w_lastFrameType w1) t")
    case True
    then have "getNEvents f = 0" unfolding t_def by (rule not_written_empty)
    with f(2) have "frame_hits (frame_words f) = []" by (rule good_frame_empty)
    with True eq a2 show ?thesis by simp
  next
    case False
    have "appended (frame_hits (frame_words f)) w2 ?w3"
      using good_frame_words(1) [OF f(2)] by (intro appended_words) (simp_all add: write_words_def)
    from appended_trans [OF a2(1) this] False eq a2(2,3) show ?thesis by (simp add: write_words_def ids_ok_def)
  qed
qed

section \<open>Blocks and steps\<close>

definition block_frames :: "BlockHeader \<times> SHM_RAW \<Rightarrow> RawDataFrame list" where
  "block_frames b =
     (case b of (h, ring) \<Rightarrow>
        let bs = getSizeInFrames ring
        in map (\<lambda>rd. shm ring ! (rd mod bs)) (ring_pointers bs (unat (bh_rdPointer h) mod (2 * bs)) (unat (bh_wrPointer h) mod (2 * bs))))"

definition block_hits :: "BlockHeader \<times> SHM_RAW \<Rightarrow> RawHit list" where
  "block_hits b = concat (map (\<lambda>f. frame_hits (frame_words f)) (block_frames b))"

definition good_block :: "BlockHeader \<times> SHM_RAW \<Rightarrow> bool" where
  "good_block b \<longleftrightarrow> wf_shm (snd b) \<and> list_all good_frame (block_frames b)"

text \<open>The events of the blocks, step by step; blocks after the last end of a step are in no step.\<close>

fun steps_of :: "RawHit list \<Rightarrow> (BlockHeader \<times> SHM_RAW) list \<Rightarrow> RawHit list list" where
  "steps_of cur [] = []"
| "steps_of cur (b # bs) =
     (if bh_endOfStep (fst b) \<noteq> 0 then (cur @ block_hits b) # steps_of [] bs else steps_of (cur @ block_hits b) bs)"

lemma write_frames_ok:
  assumes "wf_shm ring" "\<forall>rd \<in> set rds. good_frame (shm ring ! (rd mod getSizeInFrames ring))" "ids_ok w"
  shows "\<exists>w'. rfold (write_frame True eos ring) rds w = Inr w' \<and> ids_ok w'
     \<and> appended (concat (map (\<lambda>rd. frame_hits (frame_words (shm ring ! (rd mod getSizeInFrames ring)))) rds)) w w'"
  using assms(2,3)
proof (induction rds arbitrary: w)
  case Nil
  then show ?case by (auto intro: appended_refl)
next
  case (Cons rd rds)
  from Cons.prems have g: "good_frame (shm ring ! (rd mod getSizeInFrames ring))" by simp
  from write_frame_ok [OF assms(1) refl g Cons.prems(2), of eos] obtain w1 where
    w1: "write_frame True eos ring rd w = Inr w1" "ids_ok w1" "appended (frame_hits (frame_words (shm ring ! (rd mod getSizeInFrames ring)))) w w1"
    by blast
  with Cons.IH [OF _ w1(2)] Cons.prems(1) obtain w' where "rfold (write_frame True eos ring) rds w1 = Inr w'" "ids_ok w'"
    "appended (concat (map (\<lambda>rd. frame_hits (frame_words (shm ring ! (rd mod getSizeInFrames ring)))) rds)) w1 w'" by auto
  with w1(1) appended_trans [OF w1(3)] show ?case by simp
qed

text \<open>An entry of the index, and that it delimits frames of the file that hold given events.\<close>

record entry =
  en_begin :: nat
  en_end :: nat
  en_first :: int
  en_last :: int
  en_step1 :: fp
  en_step2 :: fp

definition entry_line :: "entry \<Rightarrow> string" where
  "entry_line e = index_line (en_begin e) (en_end e) (en_first e) (en_last e) (en_step1 e) (en_step2 e)"

definition delimits :: "u8 list \<Rightarrow> entry \<Rightarrow> RawHit list \<Rightarrow> bool" where
  "delimits file e hits \<longleftrightarrow>
     (\<exists>pre fs post. file = pre @ bytes_of (concat fs) @ post \<and> en_begin e = length pre
       \<and> en_end e = length pre + 8 * length (concat fs) \<and> (\<forall>ws \<in> set fs. counted_frame ws) \<and> concat (map frame_hits fs) = hits)
     \<and> -1 \<le> en_first e \<and> en_first e < 2 ^ 36 \<and> -1 \<le> en_last e \<and> en_last e < 2 ^ 36"

lemma delimits_append: "delimits file e hits \<Longrightarrow> delimits (file @ later) e hits"
  unfolding delimits_def by (metis append.assoc)

definition open_step :: "RawHit list \<Rightarrow> writer \<Rightarrow> bool" where
  "open_step cur w \<longleftrightarrow>
     (\<exists>pre fs. w_dataFile w = pre @ bytes_of (concat fs) \<and> w_stepStartOffset w = length pre \<and> 64 \<le> length pre
       \<and> (\<forall>ws \<in> set fs. counted_frame ws) \<and> concat (map frame_hits fs) = cur)"

definition steps_inv :: "u8 list \<Rightarrow> entry list \<Rightarrow> RawHit list list \<Rightarrow> RawHit list \<Rightarrow> writer \<Rightarrow> bool" where
  "steps_inv head es hs cur w \<longleftrightarrow> w_indexFile w = concat (map entry_line es)
     \<and> list_all2 (delimits (w_dataFile w)) es hs \<and> open_step cur w \<and> take 64 (w_dataFile w) = head \<and> ids_ok w"

lemma steps_inv_appended:
  assumes "steps_inv head es hs cur w" "appended hits w w'" "ids_ok w'"
  shows "steps_inv head es hs (cur @ hits) w'"
proof -
  obtain fs where fs: "w_dataFile w' = w_dataFile w @ bytes_of (concat fs)" "\<forall>ws \<in> set fs. counted_frame ws"
    "concat (map frame_hits fs) = hits" "w_indexFile w' = w_indexFile w" "w_stepStartOffset w' = w_stepStartOffset w"
    using assms(2) by (auto simp: appended_def)
  obtain pre gs where g: "w_dataFile w = pre @ bytes_of (concat gs)" "w_stepStartOffset w = length pre" "64 \<le> length pre"
    "\<forall>ws \<in> set gs. counted_frame ws" "concat (map frame_hits gs) = cur" using assms(1) by (auto simp: steps_inv_def open_step_def)
  have "open_step (cur @ hits) w'" unfolding open_step_def using fs g by (intro exI [of _ pre] exI [of _ "gs @ fs"]) auto
  moreover have "list_all2 (delimits (w_dataFile w')) es hs"
    using assms(1) fs(1) by (auto simp: steps_inv_def intro: list_all2_mono delimits_append)
  moreover have "take 64 (w_dataFile w') = head" using assms(1) fs(1) g by (simp add: steps_inv_def)
  ultimately show ?thesis using assms(1,3) fs(4) by (simp add: steps_inv_def)
qed

lemma end_step_ok:
  assumes "steps_inv head es hs cur w"
  shows "\<exists>e. steps_inv head (es @ [e]) (hs @ [cur]) [] (end_step pad True h w) \<and> en_step1 e = bh_step1 h \<and> en_step2 e = bh_step2 h"
proof -
  obtain pre gs where g: "w_dataFile w = pre @ bytes_of (concat gs)" "w_stepStartOffset w = length pre" "64 \<le> length pre"
    "\<forall>ws \<in> set gs. counted_frame ws" "concat (map frame_hits gs) = cur" using assms by (auto simp: steps_inv_def open_step_def)
  define e where "e = \<lparr>en_begin = length pre, en_end = length (w_dataFile w), en_first = w_stepFirstFrameID w,
     en_last = w_lastFrameID w, en_step1 = bh_step1 h, en_step2 = bh_step2 h\<rparr>"
  have "delimits (w_dataFile w) e cur" unfolding delimits_def
    using g assms by (intro conjI exI [of _ pre] exI [of _ gs] exI [of _ "[]"]) (simp_all add: e_def steps_inv_def ids_ok_def)
  moreover have "w_dataFile (end_step pad True h w) = w_dataFile w"
    "w_indexFile (end_step pad True h w) = w_indexFile w @ entry_line e"
    by (simp_all add: end_step_def Let_def entry_line_def e_def g(2))
  moreover have "open_step [] (end_step pad True h w)" unfolding open_step_def
    using g by (intro exI [of _ "w_dataFile w"] exI [of _ "[]"]) (simp add: end_step_def Let_def bytes_of_def)
  moreover have "ids_ok (end_step pad True h w)" by (simp add: ids_ok_def end_step_def Let_def)
  ultimately have "steps_inv head (es @ [e]) (hs @ [cur]) [] (end_step pad True h w)"
    using assms by (simp add: steps_inv_def list_all2_appendI)
  then show ?thesis by (intro exI [of _ e]) (simp add: e_def)
qed

lemma write_block_ok:
  assumes "good_block b" "steps_inv head es hs cur w"
  shows "\<exists>w'. write_block pad True b w = Inr w' \<and>
     (if bh_endOfStep (fst b) \<noteq> 0
      then \<exists>e. steps_inv head (es @ [e]) (hs @ [cur @ block_hits b]) [] w' \<and> en_step1 e = bh_step1 (fst b) \<and> en_step2 e = bh_step2 (fst b)
      else steps_inv head es hs (cur @ block_hits b) w')"
proof -
  obtain h ring where b: "b = (h, ring)" by (cases b)
  let ?bs = "getSizeInFrames ring"
  let ?ps = "ring_pointers ?bs (unat (bh_rdPointer h) mod (2 * ?bs)) (unat (bh_wrPointer h) mod (2 * ?bs))"
  have "wf_shm ring" "\<forall>rd \<in> set ?ps. good_frame (shm ring ! (rd mod ?bs))"
    using assms(1) b by (auto simp: good_block_def block_frames_def Let_def list_all_iff)
  moreover have "ids_ok w" using assms(2) by (simp add: steps_inv_def)
  ultimately obtain w1 where w1: "rfold (write_frame True (bh_endOfStep h) ring) ?ps w = Inr w1" "ids_ok w1"
    "appended (block_hits b) w w1"
    using write_frames_ok [of ring ?ps w "bh_endOfStep h"] b by (auto simp: block_hits_def block_frames_def Let_def comp_def)
  note inv = steps_inv_appended [OF assms(2) w1(3,2)]
  have reply: "steps_inv head es' hs' cur' (v\<lparr>w_replies := x\<rparr>) = steps_inv head es' hs' cur' v" for es' hs' cur' v x
    by (simp add: steps_inv_def open_step_def ids_ok_def)
  show ?thesis
    using w1(1) inv end_step_ok [OF inv, of pad h] b
    by (cases "bh_endOfStep h = 0") (auto simp: write_block_def Let_def reply)
qed

lemma write_blocks_ok:
  assumes "list_all good_block bs" "steps_inv head es hs cur w"
  shows "\<exists>w' es' cur'. rfold (write_block pad True) bs w = Inr w' \<and> steps_inv head (es @ es') (hs @ steps_of cur bs) cur' w'
     \<and> map (\<lambda>e. (en_step1 e, en_step2 e)) es' = map (\<lambda>(h, _). (bh_step1 h, bh_step2 h)) (filter (\<lambda>b. bh_endOfStep (fst b) \<noteq> 0) bs)"
  using assms
proof (induction bs arbitrary: es hs cur w)
  case Nil
  then show ?case by (intro exI [of _ w] exI [of _ "[]"] exI [of _ cur]) simp
next
  case (Cons b bs)
  from Cons.prems(1) have g: "good_block b" "list_all good_block bs" by simp_all
  from write_block_ok [OF g(1) Cons.prems(2), of pad] obtain w1 where w1: "write_block pad True b w = Inr w1"
    "if bh_endOfStep (fst b) \<noteq> 0
      then \<exists>e. steps_inv head (es @ [e]) (hs @ [cur @ block_hits b]) [] w1 \<and> en_step1 e = bh_step1 (fst b) \<and> en_step2 e = bh_step2 (fst b)
      else steps_inv head es hs (cur @ block_hits b) w1" by blast
  show ?case
  proof (cases "bh_endOfStep (fst b) \<noteq> 0")
    case True
    with w1(2) obtain e where e: "steps_inv head (es @ [e]) (hs @ [cur @ block_hits b]) [] w1"
      "en_step1 e = bh_step1 (fst b)" "en_step2 e = bh_step2 (fst b)" by auto
    from Cons.IH [OF g(2) e(1)] obtain w' es' cur' where "rfold (write_block pad True) bs w1 = Inr w'"
      "steps_inv head (es @ e # es') (hs @ (cur @ block_hits b) # steps_of [] bs) cur' w'"
      "map (\<lambda>e. (en_step1 e, en_step2 e)) es' = map (\<lambda>(h, _). (bh_step1 h, bh_step2 h)) (filter (\<lambda>b. bh_endOfStep (fst b) \<noteq> 0) bs)"
      by auto
    with True w1(1) e(2,3) show ?thesis
      by (intro exI [of _ w'] exI [of _ "e # es'"] exI [of _ cur']) (simp add: case_prod_beta)
  next
    case False
    with Cons.IH [OF g(2)] w1 show ?thesis by fastforce
  qed
qed

lemma length_file_header [simp]: "length (file_header a) = 8"
  by (simp add: file_header_def Let_def)

lemma write_raw_ok:
  assumes "acqStdMode a" "list_all good_block bs"
  shows "\<exists>w es cur. write_raw pad a bs = Inr w \<and> steps_inv (bytes_of (file_header a)) es (steps_of [] bs) cur w
     \<and> map (\<lambda>e. (en_step1 e, en_step2 e)) es = map (\<lambda>(h, _). (bh_step1 h, bh_step2 h)) (filter (\<lambda>b. bh_endOfStep (fst b) \<noteq> 0) bs)"
proof -
  have "steps_inv (bytes_of (file_header a)) [] [] [] (newWriter a)"
    by (simp add: steps_inv_def newWriter_def open_step_def ids_ok_def, intro exI [of _ "bytes_of (file_header a)"] exI [of _ "[]"])
      (simp add: bytes_of_def [of "[]"])
  from write_blocks_ok [OF assms(2) this, of pad] assms(1) show ?thesis by (simp add: write_raw_def)
qed

section \<open>Calibration mode\<close>

definition frame_event_words :: "RawDataFrame \<Rightarrow> RawEventWord multiset" where
  "frame_event_words f = mset (map (decode_event f) [0..<getNEvents f])"

definition block_event_words :: "BlockHeader \<times> SHM_RAW \<Rightarrow> RawEventWord multiset" where
  "block_event_words b = (\<Sum>f\<leftarrow>block_frames b. frame_event_words f)"

text \<open>The bags of event words of the steps that the blocks end.\<close>

fun step_words :: "RawEventWord multiset \<Rightarrow> (BlockHeader \<times> SHM_RAW) list \<Rightarrow> RawEventWord multiset list" where
  "step_words cur [] = []"
| "step_words cur (b # bs) =
     (if bh_endOfStep (fst b) \<noteq> 0 then (cur + block_event_words b) # step_words {#} bs
      else step_words (cur + block_event_words b) bs)"

lemma distinct_sorted_remdups_adj: "sorted xs \<Longrightarrow> distinct (remdups_adj (xs :: 'a::linorder list))"
proof (induction xs rule: remdups_adj.induct)
  case (3 x y xs)
  then have "x \<noteq> y \<Longrightarrow> x \<notin> set (y # xs)" by auto
  with 3 show ?case by auto
qed simp_all

lemma calibration_records_lossless:
  "(\<Sum>r\<leftarrow>calibration_records m. replicate_mset (nat (cd_freq r)) (cd_eventWord r)) = m"
  "sorted_wrt (<) (map cd_eventWord (calibration_records m))"
proof -
  let ?l = "sorted_list_of_multiset m"
  have d: "distinct (remdups_adj ?l)" by (rule distinct_sorted_remdups_adj) (simp add: sorted_sorted_list_of_multiset)
  have s: "set (remdups_adj ?l) = set_mset m" by simp
  have "(\<Sum>r\<leftarrow>calibration_records m. replicate_mset (nat (cd_freq r)) (cd_eventWord r)) =
      (\<Sum>e\<leftarrow>remdups_adj ?l. replicate_mset (count m e) e)"
    by (simp add: calibration_records_def comp_def)
  also have "\<dots> = (\<Sum>e\<in>set_mset m. replicate_mset (count m e) e)"
    using sum_list_distinct_conv_sum_set [OF d, of "\<lambda>e. replicate_mset (count m e) e"] s by simp
  also have "\<dots> = m"
    by (rule multiset_eqI) (simp add: count_sum sum.delta not_in_iff)
  finally show "(\<Sum>r\<leftarrow>calibration_records m. replicate_mset (nat (cd_freq r)) (cd_eventWord r)) = m" .
  have "map cd_eventWord (calibration_records m) = remdups_adj ?l"
    by (simp add: calibration_records_def comp_def)
  moreover have "sorted (remdups_adj ?l)" by (simp add: sorted_sorted_list_of_multiset)
  ultimately show "sorted_wrt (<) (map cd_eventWord (calibration_records m))"
    using d by (simp add: strict_sorted_iff)
qed

lemma insert_events:
  assumes "getRawDataFrame ring i = Inr f" "good_frame f" "n \<le> getNEvents f"
  shows "rfold (insert_event ring i) [0..<n] m = Inr (m + mset (map (decode_event f) [0..<n]))"
  using assms(3)
proof (induction n)
  case (Suc n)
  have "getEventWord f n = Inr (decode_event f n)"
    using assms(2) Suc.prems by (intro getEventWord_ok) (auto simp: good_frame_def)
  then have "insert_event ring i n v = Inr (add_mset (decode_event f n) v)" for v
    using assms(1) by (simp add: insert_event_def getRawEventWord_def)
  with Suc show ?case by (simp add: rfold_append)
qed simp

definition cal_appended :: "RawEventWord multiset \<Rightarrow> writer \<Rightarrow> writer \<Rightarrow> bool" where
  "cal_appended m w w' \<longleftrightarrow> w_dataFile w' = w_dataFile w \<and> w_calEventSet w' = w_calEventSet w + m
     \<and> w_indexFile w' = w_indexFile w \<and> w_stepStartOffset w' = w_stepStartOffset w \<and> (ids_ok w \<longrightarrow> ids_ok w')"

lemma write_frame_cal:
  assumes ring: "wf_shm ring" and f: "f = shm ring ! (rd mod getSizeInFrames ring)" "good_frame f"
  shows "\<exists>w'. write_frame False eos ring rd w = Inr w' \<and> cal_appended (frame_event_words f) w w'"
proof -
  define i where "i = rd mod getSizeInFrames ring"
  have "i < length (shm ring)" using ring by (simp add: i_def wf_shm_def getSizeInFrames_def MaxRawDataFrameQueueSize_def)
  then have g: "getRawDataFrame ring i = Inr f" using f(1) by (simp add: getRawDataFrame_def i_def)
  define fid where "fid = int (unat (getFrameID f))"
  have fid: "0 \<le> fid" "fid < 2 ^ 36" using frameID_bound [of f] by (simp_all add: fid_def del: of_nat_unat)
  define w1 where "w1 = note_frame fid (account_skipped False fid w)"
  have k: "w_dataFile w1 = w_dataFile w" "w_calEventSet w1 = w_calEventSet w" "w_indexFile w1 = w_indexFile w"
    "w_stepStartOffset w1 = w_stepStartOffset w" "ids_ok w \<longrightarrow> ids_ok w1"
    using fid by (auto simp: w1_def note_frame_def account_skipped_def Let_def ids_ok_def)
  define w2 where "w2 = account_frame_w (int (getNEvents f)) (getFrameLost f) (w1\<lparr>w_calEventSet := w_calEventSet w1 + frame_event_words f\<rparr>)"
  define t where "t = frame_type (getFrameLost f) (getNEvents f)"
  have ins: "rfold (insert_event ring i) [0..<getNEvents f] (w_calEventSet w1) = Inr (w_calEventSet w1 + frame_event_words f)"
    using insert_events [OF g f(2) order.refl] by (simp add: frame_event_words_def)
  have lt: "w_lastFrameType w2 = w_lastFrameType w1" by (simp add: w2_def)
  have "write_frame False eos ring rd w = Inr (if not_written eos (w_lastFrameType w1) t then w2 else w2\<lparr>w_lastFrameType := t\<rparr>)"
    using g lt ins unfolding write_frame_def Let_def shm_getFrameID_def shm_getFrameSize_def shm_getNEvents_def shm_getFrameLost_def
    by (simp add: t_def flip: i_def fid_def w1_def w2_def del: of_nat_unat)
  then show ?thesis using k by (auto simp: cal_appended_def w2_def ids_ok_def)
qed

lemma write_ring_cal:
  assumes "good_block (h, ring)"
  shows "\<exists>w'. rfold (write_frame False e ring) (ring_pointers (getSizeInFrames ring) (unat (bh_rdPointer h) mod (2 * getSizeInFrames ring))
       (unat (bh_wrPointer h) mod (2 * getSizeInFrames ring))) w = Inr w' \<and> cal_appended (block_event_words (h, ring)) w w'"
proof -
  let ?bs = "getSizeInFrames ring"
  let ?ps = "ring_pointers ?bs (unat (bh_rdPointer h) mod (2 * ?bs)) (unat (bh_wrPointer h) mod (2 * ?bs))"
  have ok: "wf_shm ring" "\<forall>rd \<in> set ?ps. good_frame (shm ring ! (rd mod ?bs))"
    using assms(1) by (auto simp: good_block_def block_frames_def Let_def list_all_iff)
  have "\<exists>w'. rfold (write_frame False e ring) ps w = Inr w' \<and>
      cal_appended (\<Sum>rd\<leftarrow>ps. frame_event_words (shm ring ! (rd mod ?bs))) w w'"
    if "\<forall>rd \<in> set ps. good_frame (shm ring ! (rd mod ?bs))" for ps
    using that
  proof (induction ps arbitrary: w)
    case (Cons rd ps)
    then have "good_frame (shm ring ! (rd mod ?bs))" by simp
    from write_frame_cal [OF ok(1) refl this, of e w] obtain w1 where w1: "write_frame False e ring rd w = Inr w1"
      "cal_appended (frame_event_words (shm ring ! (rd mod ?bs))) w w1" by blast
    with Cons.IH [of w1] Cons.prems show ?case by (auto simp: cal_appended_def add.assoc)
  qed (simp add: cal_appended_def)
  from this [OF ok(2)] show ?thesis by (auto simp: block_event_words_def block_frames_def Let_def comp_def)
qed

lemma write_block_cal:
  assumes "good_block b"
  shows "\<exists>w'. write_block pad False b w = Inr w' \<and> (ids_ok w \<longrightarrow> ids_ok w') \<and>
     (if bh_endOfStep (fst b) \<noteq> 0
      then w_dataFile w' = w_dataFile w @ concat (map (calibration_bytes pad) (calibration_records (w_calEventSet w + block_event_words b)))
        \<and> w_calEventSet w' = {#} \<and> w_stepStartOffset w' = length (w_dataFile w')
        \<and> (\<exists>f l. w_indexFile w' = w_indexFile w @ index_line (w_stepStartOffset w) (length (w_dataFile w')) f l (bh_step1 (fst b)) (bh_step2 (fst b))
            \<and> (ids_ok w \<longrightarrow> -1 \<le> f \<and> f < 2 ^ 36 \<and> -1 \<le> l \<and> l < 2 ^ 36))
      else cal_appended (block_event_words b) w w')"
proof -
  obtain h ring where b: "b = (h, ring)" by (cases b)
  from write_ring_cal [of h ring "bh_endOfStep h" w] assms b obtain w1 where
    w1: "rfold (write_frame False (bh_endOfStep h) ring) (ring_pointers (getSizeInFrames ring)
       (unat (bh_rdPointer h) mod (2 * getSizeInFrames ring)) (unat (bh_wrPointer h) mod (2 * getSizeInFrames ring))) w = Inr w1"
      "cal_appended (block_event_words b) w w1" by auto
  have ids: "ids_ok (v\<lparr>w_replies := x\<rparr>) = ids_ok v" "ids_ok w \<longrightarrow> ids_ok w1" for v x
    using w1(2) by (simp_all add: ids_ok_def cal_appended_def)
  show ?thesis
  proof (cases "bh_endOfStep h = 0")
    case True
    then show ?thesis using b w1 ids by (simp add: write_block_def Let_def) (simp add: cal_appended_def ids)
  next
    case False
    let ?w = "end_step pad False h w1"
    have "ids_ok ?w" by (simp add: ids_ok_def end_step_def Let_def)
    moreover have "w_dataFile ?w = w_dataFile w @ concat (map (calibration_bytes pad) (calibration_records (w_calEventSet w + block_event_words b)))"
      "w_calEventSet ?w = {#}" "w_stepStartOffset ?w = length (w_dataFile ?w)"
      "w_indexFile ?w = w_indexFile w @ index_line (w_stepStartOffset w) (length (w_dataFile ?w)) (w_stepFirstFrameID w1) (w_lastFrameID w1)
         (bh_step1 h) (bh_step2 h)"
      using w1(2) by (simp_all add: end_step_def write_calibration_def cal_appended_def Let_def)
    moreover have "ids_ok w \<longrightarrow> -1 \<le> w_stepFirstFrameID w1 \<and> w_stepFirstFrameID w1 < 2 ^ 36 \<and> -1 \<le> w_lastFrameID w1 \<and> w_lastFrameID w1 < 2 ^ 36"
      using ids(2) by (auto simp: ids_ok_def)
    ultimately show ?thesis using b w1(1) False by (auto simp: write_block_def Let_def ids)
  qed
qed

lemma write_blocks_cal:
  assumes "list_all good_block bs"
  shows "\<exists>w'. rfold (write_block pad False) bs w = Inr w' \<and> w_dataFile w' =
      w_dataFile w @ concat (map (calibration_bytes pad) (concat (map calibration_records (step_words (w_calEventSet w) bs))))"
  using assms
proof (induction bs arbitrary: w)
  case (Cons b bs)
  then have g: "good_block b" "list_all good_block bs" by simp_all
  from write_block_cal [OF g(1), of pad w] obtain w1 where w1: "write_block pad False b w = Inr w1"
    "if bh_endOfStep (fst b) \<noteq> 0
     then w_dataFile w1 = w_dataFile w @ concat (map (calibration_bytes pad) (calibration_records (w_calEventSet w + block_event_words b)))
       \<and> w_calEventSet w1 = {#}
     else cal_appended (block_event_words b) w w1" by (cases "bh_endOfStep (fst b) \<noteq> 0") auto
  from Cons.IH [OF g(2), of w1] w1 show ?case
    by (cases "bh_endOfStep (fst b) = 0") (auto simp: cal_appended_def)
qed simp


end
