(* ===== verification/Data_Set.thy ===== *)
theory Data_Set
  imports Write_Raw
begin

text \<open>
  From the ring to the analysis: what raw_data/write_raw.cpp writes is what raw_data/RawReader.cpp reads.
  The numbers of the index file survive being printed and scanned (the step values with the precision of
  their printed form), the header carries the frequency and the mode, the trigger identifier only when it is odd,
  and every step holds the events of its frames.
\<close>

section \<open>Reading the numbers back\<close>

text \<open>The value of a float after it has been printed with six digits after the point and read again.\<close>

definition micros :: "int \<Rightarrow> int \<Rightarrow> int" where
  "micros m e = (let n = m * 10 ^ 6 in if 0 \<le> e then n * 2 ^ nat e else round_mant n (nat (- e)))"

fun reread :: "fp \<Rightarrow> fp" where
  "reread (Fin s m e) = fp_of_decimal F32 s (micros m e) (-6)"
| "reread a = a"

fun printable :: "fp \<Rightarrow> bool" where
  "printable (Fin s m e) \<longleftrightarrow> 0 \<le> micros m e"
| "printable a \<longleftrightarrow> True"

lemma decimal_concat: "decimal (xs @ ys) = decimal xs * 10 ^ length ys + decimal ys"
  by (induction ys rule: rev_induct) (simp_all add: algebra_simps flip: append_assoc)

lemma decimal_zeros [simp]: "decimal (replicate n (CHR ''0'')) = 0"
  by (induction n) (simp_all add: decimal_def digit_value_def)

lemma length_show_nat: "n < 10 ^ k \<Longrightarrow> 0 < k \<Longrightarrow> length (show_nat n) \<le> k"
proof (induction k arbitrary: n)
  case (Suc k)
  show ?case
  proof (cases "n < 10")
    case False
    then have "0 < k" using Suc.prems by (cases k) auto
    moreover have "n div 10 < 10 ^ k" using Suc.prems(1) by (simp add: div_less_iff_less_mult mult.commute)
    ultimately have "length (show_nat (n div 10)) \<le> k" using Suc.IH by blast
    with False show ?thesis by (subst show_nat.simps) simp
  qed (subst show_nat.simps, simp)
qed simp

text \<open>The digits before and after the point of a number printed with \<open>%f\<close>.\<close>

definition int_digits :: "int \<Rightarrow> string" where
  "int_digits q = show_nat (nat (q div 10 ^ 6))"

definition frac_digits :: "int \<Rightarrow> string" where
  "frac_digits q = (let fd = show_nat (nat (q mod 10 ^ 6)) in replicate (6 - length fd) (CHR ''0'') @ fd)"

lemma show_fixed_Fin:
  "show_fixed (Fin s m e) = (if s then ''-'' else '''') @ int_digits (micros m e) @ ''.'' @ frac_digits (micros m e)"
  by (simp add: show_fixed_def micros_def int_digits_def frac_digits_def Let_def)

lemma frac_digits_props:
  assumes "0 \<le> q"
  shows "length (frac_digits q) = 6" "list_all isdigit (frac_digits q)" "decimal (frac_digits q) = q mod 10 ^ 6"
proof -
  let ?fd = "show_nat (nat (q mod 10 ^ 6))"
  have "length ?fd \<le> 6" by (rule length_show_nat) (simp_all add: nat_less_iff)
  then show "length (frac_digits q) = 6" by (simp add: frac_digits_def Let_def)
  show "list_all isdigit (frac_digits q)"
    using show_nat_digits [of "nat (q mod 10 ^ 6)"] by (auto simp: frac_digits_def Let_def list_all_iff isdigit_def)
  show "decimal (frac_digits q) = q mod 10 ^ 6"
    by (simp add: frac_digits_def Let_def decimal_concat show_nat_decimal)
qed

lemma int_digits_props:
  assumes "0 \<le> q"
  shows "list_all isdigit (int_digits q)" "int_digits q \<noteq> []" "decimal (int_digits q @ frac_digits q) = q"
  using frac_digits_props [OF assms] assms
  by (simp_all add: int_digits_def show_nat_digits decimal_concat show_nat_decimal pos_imp_zdiv_nonneg_iff)

lemma scan_decimal_digits:
  assumes "list_all isdigit ds" "ds \<noteq> []" "list_all isdigit fs" "\<not> isdigit c" "tolower c \<noteq> CHR ''e''"
  shows "scan_decimal f s (ds @ ''.'' @ fs @ c # rest) =
     Some (fp_of_decimal f s (decimal (ds @ fs)) (- int (length fs)), c # rest)"
proof -
  have d: "takeWhile isdigit (ds @ ''.'' @ fs @ c # rest) = ds" "dropWhile isdigit (ds @ ''.'' @ fs @ c # rest) = ''.'' @ fs @ c # rest"
    using digits_span [OF assms(1), of "''.'' @ fs @ c # rest"] by simp_all
  have g: "takeWhile isdigit (fs @ c # rest) = fs" "dropWhile isdigit (fs @ c # rest) = c # rest"
    using digits_span [OF assms(3), of "c # rest"] assms(4) by simp_all
  have x: "scan_exponent (c # rest) = Some (0, c # rest)" using assms(5) by (simp add: scan_exponent_def)
  show ?thesis unfolding scan_decimal_def Let_def d using assms(2) by (simp add: g x)
qed

text \<open>The separators after a number: they are neither digits nor letters.\<close>

definition num_end :: "char \<Rightarrow> bool" where
  "num_end c \<longleftrightarrow> c = TAB \<or> c = NL"

lemma num_end_simps:
  "num_end c \<Longrightarrow> \<not> isdigit c" "num_end c \<Longrightarrow> tolower c \<noteq> CHR ''e''" "num_end c \<Longrightarrow> tolower c = c" "num_end c \<Longrightarrow> isspace c"
  by (auto simp: num_end_def TAB_def NL_def isdigit_def tolower_def isspace_def)

lemma digit_prefix:
  assumes "list_all isdigit ds" "ds \<noteq> []"
  shows "common_prefix ''infinity'' (ds @ ''.'' @ t) = 0" "common_prefix ''nan'' (ds @ ''.'' @ t) = 0"
    "common_prefix ''0x'' (ds @ ''.'' @ t) \<noteq> 2" "skip_ws (ds @ ''.'' @ t) = ds @ ''.'' @ t" "scan_sign (ds @ ''.'' @ t) = (False, ds @ ''.'' @ t)"
proof -
  obtain d es where d: "ds = d # es" "isdigit d" using assms by (cases ds) auto
  have t: "tolower d = d" using d(2) by (auto simp: tolower_def isdigit_def)
  show "common_prefix ''infinity'' (ds @ ''.'' @ t) = 0" "common_prefix ''nan'' (ds @ ''.'' @ t) = 0"
    using d t by (auto simp: common_prefix_def isdigit_def)
  show "common_prefix ''0x'' (ds @ ''.'' @ t) \<noteq> 2"
  proof (cases es)
    case Nil
    then show ?thesis using d t by (simp add: common_prefix_def tolower_def)
  next
    case (Cons x xs)
    then have "isdigit x" using assms(1) d by simp
    then have "tolower x \<noteq> CHR ''x''" by (auto simp: tolower_def isdigit_def)
    then show ?thesis using d t Cons by (simp add: common_prefix_def)
  qed
  show "skip_ws (ds @ ''.'' @ t) = ds @ ''.'' @ t" "scan_sign (ds @ ''.'' @ t) = (False, ds @ ''.'' @ t)"
    using skip_ws_digits [OF assms] scan_sign_digits [OF assms] by simp_all
qed

lemma scan_float_digits:
  assumes "list_all isdigit ds" "ds \<noteq> []" "list_all isdigit fs" "num_end c"
  shows "scan_float f ((if s then ''-'' else '''') @ ds @ ''.'' @ fs @ c # rest) =
     Inr (Some (fp_of_decimal f s (decimal (ds @ fs)) (- int (length fs)), c # rest))"
proof -
  note p = digit_prefix [OF assms(1,2)] and x = scan_decimal_digits [OF assms(1-3) num_end_simps(1,2) [OF assms(4)]]
  have m: "skip_ws (CHR ''-'' # t) = CHR ''-'' # t" for t by (simp add: skip_ws_def isspace_def)
  show ?thesis
    using p(1,2,3,5) [of "fs @ c # rest"] p(4) [of "fs @ c # rest"] x [of f s rest]
    by (cases s) (simp_all add: scan_float_def Let_def m)
qed

lemma scan_float_show:
  assumes "printable a" "num_end c"
  shows "scan_float F32 (show_fixed a @ c # rest) = Inr (Some (reread a, c # rest))"
proof (cases a)
  case (Fin s m e)
  then have q: "0 \<le> micros m e" using assms(1) by simp
  from scan_float_digits [OF int_digits_props(1,2) [OF q] frac_digits_props(2) [OF q] assms(2), of F32 s rest]
  show ?thesis using int_digits_props(3) [OF q] frac_digits_props(1) [OF q] by (simp add: Fin show_fixed_Fin)
next
  case NaN
  have "common_prefix ''nan('' (''nan'' @ c # rest) = 3"
    using num_end_simps(3) [OF assms(2)] assms(2) by (auto simp: common_prefix_def tolower_def num_end_def TAB_def NL_def)
  then show ?thesis
    by (simp add: NaN show_fixed_def scan_float_def Let_def skip_ws_def isspace_def) (simp add: common_prefix_def tolower_def)
next
  case (Inf s)
  have "common_prefix ''infinity'' (''inf'' @ c # rest) = 3"
    using num_end_simps(3) [OF assms(2)] assms(2) by (auto simp: common_prefix_def tolower_def num_end_def TAB_def NL_def)
  then show ?thesis
    by (cases s) (simp_all add: Inf show_fixed_def scan_float_def Let_def skip_ws_def isspace_def)
qed

section \<open>The index file\<close>

definition entry_ok :: "entry \<Rightarrow> bool" where
  "entry_ok e \<longleftrightarrow> en_begin e < 2 ^ 64 \<and> en_end e < 2 ^ 64 \<and> \<bar>en_first e\<bar> < 2 ^ 63 \<and> \<bar>en_last e\<bar> < 2 ^ 63
     \<and> printable (en_step1 e) \<and> printable (en_step2 e)"

definition entry_args :: "entry \<Rightarrow> arg list" where
  "entry_args e = [AInt (int (en_begin e)), AInt (int (en_end e)), AInt (en_first e), AInt (en_last e),
     AFloat (reread (en_step1 e)), AFloat (reread (en_step2 e))]"

lemma skip_ws_show_fixed: "printable a \<Longrightarrow> skip_ws (show_fixed a @ t) = show_fixed a @ t"
proof (cases a)
  case (Fin s m e)
  assume "printable a"
  then have "0 \<le> micros m e" using Fin by simp
  from digit_prefix(4) [OF int_digits_props(1,2) [OF this], of "frac_digits (micros m e) @ t"] show ?thesis
    by (cases s) (simp_all add: Fin show_fixed_Fin skip_ws_def isspace_def)
qed (auto simp: show_fixed_def skip_ws_def isspace_def)

lemma scan_entry:
  assumes "entry_ok e" "p = [] \<or> p = [NL]"
  shows "scanf idx_format (p @ entry_line e @ rest) = Inr (entry_args e, NL # rest)"
proof -
  have p: "scan_int (p @ show_int i @ TAB # t) = Some (i, TAB # t)" for i t
    using assms(2) scan_int_show [of "TAB # t" i] by (auto simp: scan_int_ws)
  have i: "scan_int (show_int i @ TAB # t) = Some (i, TAB # t)" for i t
    using scan_int_show [of "TAB # t" i] by simp
  have f: "scan_float F32 (show_fixed a @ TAB # t) = Inr (Some (reread a, TAB # t))"
    "scan_float F32 (show_fixed a @ NL # t) = Inr (Some (reread a, NL # t))" if "printable a" for a t
    using scan_float_show [OF that, of TAB t] scan_float_show [OF that, of NL t] by (simp_all add: num_end_def)
  have e: "en_begin e < 2 ^ 64" "en_end e < 2 ^ 64" "\<bar>en_first e\<bar> < 2 ^ 63" "\<bar>en_last e\<bar> < 2 ^ 63"
    "printable (en_step1 e)" "printable (en_step2 e)" using assms(1) by (simp_all add: entry_ok_def)
  have u: "fit_unsigned 64 (int (en_begin e)) = Inr (int (en_begin e))" "fit_unsigned 64 (int (en_end e)) = Inr (int (en_end e))"
    "fit_signed 64 (en_first e) = Inr (en_first e)" "fit_signed 64 (en_last e) = Inr (en_last e)"
    using e by (auto simp: fit_unsigned_def fit_signed_def)
  show ?thesis
    unfolding idx_format_def entry_line_def index_line_def entry_args_def
    using p i f [OF e(5)] f [OF e(6)] u e by (simp add: skip_ws_show_fixed)
qed

lemma scan_entries:
  assumes "list_all entry_ok es" "p = [] \<or> p = [NL]"
  shows "scan_records idx_format 6 (p @ concat (map entry_line es)) = Inr (map entry_args es)"
  using assms
proof (induction es arbitrary: p)
  case Nil
  then have "scan_int p = None" by (auto simp: scan_int_def skip_ws_def isspace_def NL_def)
  then have "scanf idx_format p = Inr ([], p)" by (simp add: idx_format_def)
  then show ?case by (subst scan_records.simps) simp
next
  case (Cons e es)
  from Cons.prems(1) have "entry_ok e" "list_all entry_ok es" by simp_all
  note s = scan_entry [OF this(1) Cons.prems(2), of "concat (map entry_line es)"]
  have "length (entry_args e) = 6" by (simp add: entry_args_def)
  with s Cons.IH [OF \<open>list_all entry_ok es\<close>, of "[NL]"] show ?case by (subst scan_records.simps) simp
qed

definition entry_step :: "entry \<Rightarrow> Step" where
  "entry_step e = \<lparr>st_step1 = reread (en_step1 e), st_step2 = reread (en_step2 e), st_stepBegin = en_begin e,
     st_stepEnd = en_end e, st_stepFirstFrame = en_first e, st_stepLastFrame = en_last e\<rparr>"

lemma step_of_entry: "step_of_args (entry_args e) = entry_step e"
  by (simp add: step_of_args_def entry_args_def entry_step_def numeral_eq_Suc)

section \<open>Opening what was written\<close>

lemma header_fields:
  "file_header a ! 3 = (if acqMode a = ''mixed'' then 1 else 0)"
  "file_header a ! 2 = (if argTriggerID a \<noteq> -1 then word_of_int (0x8000 + argTriggerID a) else 0)"
  "file_header a ! 0 = ucast (word_of_int (systemFrequency a) :: u32) OR push_bit 32 (if acqMode a = ''qdc'' then 1 else 0)"
  by (simp_all add: file_header_def Let_def numeral_eq_Suc)

lemma header_frequency: "ucast (file_header a ! 0 AND 0xFFFFFFFF) = (word_of_int (systemFrequency a) :: u32)"
proof -
  have m: "(0xFFFFFFFF :: u64) = mask 32" by (simp add: mask_eq_exp_minus_1)
  show ?thesis unfolding header_fields m by (rule bit_eqI) (auto simp: bit_simps)
qed

lemma header_qdc: "file_header a ! 0 AND 0x100000000 \<noteq> 0 \<longleftrightarrow> acqMode a = ''qdc''"
proof -
  have "bit (push_bit 32 1 :: int) n \<longleftrightarrow> n = 32" for n by (auto simp: bit_push_bit_iff_int bit_1_iff simp del: push_bit_of_1)
  then have b: "bit (0x100000000 :: int) n \<longleftrightarrow> n = 32" for n by simp
  have "file_header a ! 0 AND 0x100000000 = (if acqMode a = ''qdc'' then 0x100000000 else 0)"
    unfolding header_fields by (rule bit_eqI) (auto simp: bit_simps b)
  then show ?thesis by simp
qed

lemma header_trigger:
  assumes "0 \<le> argTriggerID a" "argTriggerID a < 0x8000"
  shows "header_triggerID (file_header a ! 2) = (if odd (argTriggerID a) then argTriggerID a else -1)"
proof -
  let ?t = "argTriggerID a" and ?h = "word_of_int (0x8000 + argTriggerID a) :: u64"
  have h: "uint (word_of_int k :: u64) = k" if "0 \<le> k" "k < 2 ^ 16" for k using that by (simp add: uint_word_of_int)
  have u: "uint ?h = 0x8000 + ?t" using assms by (intro h) simp_all
  have "odd ?h \<longleftrightarrow> odd (0x8000 + ?t)" by (simp add: bit_word_of_int_iff flip: bit_0)
  then have "?h AND 1 \<noteq> 0 \<longleftrightarrow> odd ?t" by (simp add: and_one_eq flip: odd_iff_mod_2_eq_one)
  moreover have "uint (?h AND 0x7FFF) = uint ?h mod 2 ^ 15"
  proof -
    have m: "(0x7FFF :: u64) = mask 15" by (simp add: mask_eq_exp_minus_1)
    have "uint (x AND mask 15) = uint x mod 2 ^ 15" for x :: u64
      by (simp only: take_bit_eq_mask [symmetric] take_bit_eq_mod [symmetric] unsigned_take_bit_eq)
    then show ?thesis unfolding m .
  qed
  moreover have "(0x8000 + ?t) mod 2 ^ 15 = ?t" using assms by simp
  ultimately show ?thesis using u assms by (simp add: header_triggerID_def header_fields)
qed

lemma take_words: "take 64 (bytes_of (file_header a) @ bs) = bytes_of (file_header a)"
  by simp

lemma entries_ok:
  assumes "steps_inv head es hs cur w" "length (w_dataFile w) < 2 ^ 64" "\<forall>e \<in> set es. printable (en_step1 e) \<and> printable (en_step2 e)"
  shows "list_all entry_ok es"
proof -
  have "entry_ok e" if e: "e \<in> set es" for e
  proof -
    obtain h where "delimits (w_dataFile w) e h"
      using assms(1) e by (auto simp: steps_inv_def list_all2_conv_all_nth in_set_conv_nth)
    then have "en_begin e \<le> length (w_dataFile w)" "en_end e \<le> length (w_dataFile w)" "-1 \<le> en_first e" "en_first e < 2 ^ 36"
      "-1 \<le> en_last e" "en_last e < 2 ^ 36" by (auto simp: delimits_def)
    with assms(2,3) e show ?thesis by (auto simp: entry_ok_def)
  qed
  then show ?thesis by (simp add: list_all_iff)
qed

text \<open>The data set the writer leaves behind, without a file of channel modes.\<close>

definition written_set :: "writer \<Rightarrow> data_set" where
  "written_set w = \<lparr>ds_idxf = Some (w_indexFile w), ds_rawf = Some (w_dataFile w), ds_modf = None\<rparr>"

text \<open>Opening any set with an index of well-formed entries, and reading a step that the index delimits.\<close>

lemma open_index:
  assumes "list_all entry_ok es" "take 64 raw = bytes_of hdr" "length hdr = 8" "hdr ! 3 = 0"
  shows "openFile E junk \<lparr>ds_idxf = Some (concat (map entry_line es)), ds_rawf = Some raw, ds_modf = None\<rparr> = Inr
     \<lparr>rr_steps = map entry_step es, rr_dataFile = raw, rr_filePos = 64, rr_buffered = [], rr_frequency = ucast (hdr ! 0 AND 0xFFFFFFFF),
      rr_qdcMode = (\<lambda>g. if g < MAX_NUMBER_CHANNELS then hdr ! 0 AND 0x100000000 \<noteq> 0 else junk g),
      rr_triggerID = header_triggerID (hdr ! 2)\<rparr>"
proof -
  have "\<not> length raw < 64" using arg_cong [OF assms(2), of length] assms(3) by simp
  moreover have "words_le (take 64 raw) = hdr" using assms(2) by simp
  moreover have "scan_records idx_format 6 (concat (map entry_line es)) = Inr (map entry_args es)"
    using scan_entries [OF assms(1), of "[]"] by simp
  ultimately show ?thesis using assms(4) by (simp add: openFile_def comp_def step_of_entry)
qed

lemma delimited_step_read:
  assumes "delimits (rr_dataFile r) e hits" "idx (rr_steps r) k = Inr (entry_step e)" "wf_frame frame0" "\<forall>q. 1 \<le> rd q"
  shows "\<exists>st bufs. processStep junkb frame0 rd r k = Inr st \<and> ps_sink st = PushT0 (fp_of_int F64 0) # map PushEvents bufs @ [Finish]
     \<and> concat (map abs_contents bufs) = hits"
proof -
  obtain pre fs post where
    d: "rr_dataFile r = pre @ bytes_of (concat fs) @ post" "en_begin e = length pre"
      "en_end e = length pre + 8 * length (concat fs)" "\<forall>ws \<in> set fs. file_frame ws" "concat (map frame_hits fs) = hits"
    using assms(1) unfolding delimits_def counted_frame_def by blast
  have be: "st_stepBegin (entry_step e) = length pre" "st_stepEnd (entry_step e) = length pre + 8 * length (concat fs)"
    by (simp_all add: entry_step_def d(2,3))
  from processStep_ok [OF d(4,1) assms(2) be assms(3,4), of junkb] show ?thesis unfolding d(5) by blast
qed

lemma open_written:
  assumes "steps_inv (bytes_of (file_header a)) es hs cur w" "list_all entry_ok es" "acqMode a \<noteq> ''mixed''"
  shows "openFile E junk (written_set w) = Inr
     \<lparr>rr_steps = map entry_step es, rr_dataFile = w_dataFile w, rr_filePos = 64, rr_buffered = [],
      rr_frequency = word_of_int (systemFrequency a),
      rr_qdcMode = (\<lambda>g. if g < MAX_NUMBER_CHANNELS then acqMode a = ''qdc'' else junk g),
      rr_triggerID = header_triggerID (file_header a ! 2)\<rparr>"
proof -
  have i: "w_indexFile w = concat (map entry_line es)" and t: "take 64 (w_dataFile w) = bytes_of (file_header a)"
    using assms(1) by (simp_all add: steps_inv_def)
  have h: "length (file_header a) = 8" "file_header a ! 3 = 0" using assms(3) by (simp_all add: file_header_def Let_def header_fields(1))
  from open_index [OF assms(2) t h, of E junk] show ?thesis by (simp add: written_set_def i header_frequency header_qdc)
qed

lemma length_steps_of: "length (steps_of cur bs) = length (filter (\<lambda>b. bh_endOfStep (fst b) \<noteq> 0) bs)"
  by (induction bs arbitrary: cur) simp_all

lemma written_entries:
  assumes "acqStdMode a" "list_all good_block bs" "\<forall>(h, ring) \<in> set bs. printable (bh_step1 h) \<and> printable (bh_step2 h)"
    "write_raw pad a bs = Inr w" "length (w_dataFile w) < 2 ^ 64"
  obtains es cur where "steps_inv (bytes_of (file_header a)) es (steps_of [] bs) cur w" "list_all entry_ok es"
    "map (\<lambda>e. (en_step1 e, en_step2 e)) es = map (\<lambda>(h, _). (bh_step1 h, bh_step2 h)) (filter (\<lambda>b. bh_endOfStep (fst b) \<noteq> 0) bs)"
proof -
  from write_raw_ok [OF assms(1,2), of pad] assms(4) obtain es cur where
    inv: "steps_inv (bytes_of (file_header a)) es (steps_of [] bs) cur w" and
    vals: "map (\<lambda>e. (en_step1 e, en_step2 e)) es = map (\<lambda>(h, _). (bh_step1 h, bh_step2 h)) (filter (\<lambda>b. bh_endOfStep (fst b) \<noteq> 0) bs)"
    by auto
  have "\<forall>e \<in> set es. printable (en_step1 e) \<and> printable (en_step2 e)"
  proof
    fix e assume "e \<in> set es"
    then have "(en_step1 e, en_step2 e) \<in> set (map (\<lambda>(h, _). (bh_step1 h, bh_step2 h)) (filter (\<lambda>b. bh_endOfStep (fst b) \<noteq> 0) bs))"
      unfolding vals [symmetric] by force
    with assms(3) show "printable (en_step1 e) \<and> printable (en_step2 e)" by force
  qed
  from that [OF inv entries_ok [OF inv assms(5) this] vals] show thesis .
qed

text \<open>
  C16: What the acquisition left in the ring is what the analysis reads: for blocks of well-formed frames written in standard
  mode, opening the two files written finds one step for every block that ends one, with its step values as printed,
  and reading step \<open>k\<close> delivers exactly the events of the frames of that step in ring order, whichever empty
  frames were left out or written in place of lost ones, and whatever the system calls return.
\<close>

theorem written_steps_are_read:
  assumes "acqStdMode a" and "list_all good_block bs" and "acqMode a \<noteq> ''mixed''"
    and "\<forall>(h, ring) \<in> set bs. printable (bh_step1 h) \<and> printable (bh_step2 h)"
    and "write_raw pad a bs = Inr w" and "length (w_dataFile w) < 2 ^ 64"
    and "wf_frame frame0" and "\<forall>q. 1 \<le> rd q" and "k < length (steps_of [] bs)"
  shows "\<exists>r st bufs. openFile E junk (written_set w) = Inr r
     \<and> getNSteps r = length (steps_of [] bs) \<and> rr_frequency r = word_of_int (systemFrequency a)
     \<and> (let h = fst (filter (\<lambda>b. bh_endOfStep (fst b) \<noteq> 0) bs ! k)
        in getStepValue r k = Inr (reread (bh_step1 h), reread (bh_step2 h)))
     \<and> processStep junkb frame0 rd r k = Inr st
     \<and> ps_sink st = PushT0 (fp_of_int F64 0) # map PushEvents bufs @ [Finish]
     \<and> concat (map abs_contents bufs) = steps_of [] bs ! k"
proof -
  let ?ends = "filter (\<lambda>b. bh_endOfStep (fst b) \<noteq> 0) bs"
  obtain es cur where inv: "steps_inv (bytes_of (file_header a)) es (steps_of [] bs) cur w" and eok: "list_all entry_ok es" and
    vals: "map (\<lambda>e. (en_step1 e, en_step2 e)) es = map (\<lambda>(h, _). (bh_step1 h, bh_step2 h)) ?ends"
    using assms(1,2,4-6) by (rule written_entries)
  from open_written [OF inv eok assms(3)] obtain r where
    r: "openFile E junk (written_set w) = Inr r" "rr_steps r = map entry_step es" "rr_dataFile r = w_dataFile w"
      "rr_frequency r = word_of_int (systemFrequency a)" by simp
  have all: "list_all2 (delimits (w_dataFile w)) es (steps_of [] bs)" using inv by (simp add: steps_inv_def)
  then have len: "length es = length (steps_of [] bs)" by (rule list_all2_lengthD)
  with assms(9) have k: "k < length es" by simp
  then have n: "idx (rr_steps r) k = Inr (entry_step (es ! k))" by (simp add: r(2) idx_def)
  have v: "(en_step1 (es ! k), en_step2 (es ! k)) = (bh_step1 (fst (?ends ! k)), bh_step2 (fst (?ends ! k)))"
  proof -
    have "k < length ?ends" using assms(9) by (simp add: length_steps_of)
    then show ?thesis using arg_cong [OF vals, of "\<lambda>l. l ! k"] k by (simp add: case_prod_beta)
  qed
  have "delimits (rr_dataFile r) (es ! k) (steps_of [] bs ! k)" using list_all2_nthD [OF all k] by (simp add: r(3))
  from delimited_step_read [OF this n assms(7,8), of junkb] obtain st bufs where
    st: "processStep junkb frame0 rd r k = Inr st" "ps_sink st = PushT0 (fp_of_int F64 0) # map PushEvents bufs @ [Finish]"
      "concat (map abs_contents bufs) = steps_of [] bs ! k" by blast
  have "getStepValue r k = Inr (reread (en_step1 (es ! k)), reread (en_step2 (es ! k)))"
    using n by (simp add: getStepValue_def entry_step_def)
  moreover have "getNSteps r = length (steps_of [] bs)" by (simp add: getNSteps_def r(2) len)
  ultimately show ?thesis using r(1,4) st v by (intro exI conjI) (auto simp: Let_def)
qed

text \<open>
  The trigger identifier written to the header is read back only when it is odd; an even one is read as if
  there were none.
\<close>

theorem trigger_id_roundtrip:
  assumes "acqStdMode a" and "list_all good_block bs" and "acqMode a \<noteq> ''mixed''"
    and "\<forall>(h, ring) \<in> set bs. printable (bh_step1 h) \<and> printable (bh_step2 h)"
    and "write_raw pad a bs = Inr w" and "length (w_dataFile w) < 2 ^ 64" and "0 \<le> argTriggerID a" and "argTriggerID a < 0x8000"
  shows "\<exists>r. openFile E junk (written_set w) = Inr r \<and> getTriggerID r = (if odd (argTriggerID a) then argTriggerID a else -1)"
proof -
  obtain es cur where inv: "steps_inv (bytes_of (file_header a)) es (steps_of [] bs) cur w" and eok: "list_all entry_ok es"
    using assms(1,2,4-6) by (rule written_entries)
  from open_written [OF inv eok assms(3)] header_trigger [OF assms(7,8)]
  show ?thesis by (simp add: getTriggerID_def)
qed
section \<open>An example\<close>

definition example_ring_frame :: RawDataFrame where
  "example_ring_frame = \<lparr>data = example_words @ replicate 2044 0\<rparr>"

definition example_blocks :: "(BlockHeader \<times> SHM_RAW) list" where
  "example_blocks = [(\<lparr>bh_step1 = Fin False 1 0, bh_step2 = Fin False 0 0, bh_wrPointer = 1, bh_rdPointer = 0, bh_endOfStep = 1\<rparr>,
     \<lparr>shm = replicate MaxRawDataFrameQueueSize example_ring_frame\<rparr>)]"

definition example_arguments :: arguments where
  "example_arguments = \<lparr>systemFrequency = 160, acqMode = ''qdc'', startTimeBits = 0, acqStdMode = True, argTriggerID = 2\<rparr>"

lemma example_frame_facts:
  "good_frame example_ring_frame" "frame_words example_ring_frame = example_words" "length (frame_hits example_words) = 1"
  by (simp_all add: good_frame_def wf_frame_def example_ring_frame_def example_words_def MaxRawDataFrameSize_def
      getFrameSize_def getNEvents_def frame_words_def frame_hits_def)

lemma example_pointers: "ring_pointers 16384 0 (Suc 0) = [0]"
  by (simp add: ring_pointers_def)

lemma example_blocks_facts:
  "list_all good_block example_blocks" "steps_of [] example_blocks = [frame_hits example_words]"
  "\<forall>(h, ring) \<in> set example_blocks. printable (bh_step1 h) \<and> printable (bh_step2 h)"
proof -
  have m: "MaxRawDataFrameQueueSize = 16384" by (simp add: MaxRawDataFrameQueueSize_def)
  have f: "block_frames (hd example_blocks) = [example_ring_frame]"
    by (simp add: example_blocks_def block_frames_def getSizeInFrames_def m Let_def example_pointers)
  have "wf_shm (snd (hd example_blocks))"
    using example_frame_facts(1) by (simp add: example_blocks_def wf_shm_def good_frame_def)
  with f example_frame_facts(1) show "list_all good_block example_blocks"
    by (simp add: example_blocks_def good_block_def)
  show "steps_of [] example_blocks = [frame_hits example_words]"
    using f example_frame_facts(2) by (simp add: example_blocks_def block_hits_def)
  show "\<forall>(h, ring) \<in> set example_blocks. printable (bh_step1 h) \<and> printable (bh_step2 h)"
    by (simp add: example_blocks_def micros_def)
qed

lemma example_written_size: "\<exists>w. write_raw pad example_arguments example_blocks = Inr w \<and> length (w_dataFile w) \<le> 128"
proof -
  have m: "MaxRawDataFrameQueueSize = 16384" by (simp add: MaxRawDataFrameQueueSize_def)
  have g: "getFrameSize example_ring_frame = 4" "getFrameID example_ring_frame = 7" "length (data example_ring_frame) = 2048"
    by (simp_all add: example_ring_frame_def example_words_def getFrameSize_def getFrameID_def)
  have n: "not_written 1 t u = False" for t u by (simp add: not_written_def)
  have r: "getRawDataFrame \<lparr>shm = replicate 16384 example_ring_frame\<rparr> 0 = Inr example_ring_frame"
    by (simp add: getRawDataFrame_def idx_def)
  have w: "write_frame True 1 \<lparr>shm = replicate 16384 example_ring_frame\<rparr> 0 w =
      Inr (write_words (take 4 (data example_ring_frame)) ((account_frame_w (int (getNEvents example_ring_frame))
        (getFrameLost example_ring_frame) (note_frame 7 (account_skipped True 7 w)))
        \<lparr>w_lastFrameType := frame_type (getFrameLost example_ring_frame) (getNEvents example_ring_frame)\<rparr>))" for w
    by (simp add: write_frame_def Let_def getSizeInFrames_def m shm_getFrameID_def shm_getFrameSize_def shm_getNEvents_def
        shm_getFrameLost_def r g n)
  have b: "write_block pad True (hd example_blocks) w = Inr v \<Longrightarrow> length (w_dataFile v) \<le> length (w_dataFile w) + 64" for w v
    by (auto simp: example_blocks_def write_block_def getSizeInFrames_def m Let_def example_pointers w end_step_def
        write_words_def note_frame_def account_skipped_def lostFrameBuffer_def)
  obtain v where v: "write_raw pad example_arguments example_blocks = Inr v"
    using write_raw_ok [OF _ example_blocks_facts(1), of example_arguments pad] by (auto simp: example_arguments_def)
  then have "write_block pad True (hd example_blocks) (newWriter example_arguments) = Inr v"
    by (simp add: write_raw_def example_blocks_def example_arguments_def rbind_Inr_iff)
  from b [OF this] v show ?thesis by (simp add: newWriter_def)
qed

lemma example_written: "\<exists>w. write_raw pad example_arguments example_blocks = Inr w \<and> length (w_dataFile w) < 2 ^ 64"
proof -
  from example_written_size [of pad] obtain w where "write_raw pad example_arguments example_blocks = Inr w" "length (w_dataFile w) \<le> 128" by blast
  then show ?thesis by (intro exI [of _ w]) simp
qed

theorem written_steps_witness:
  "\<exists>w r st bufs. write_raw [] example_arguments example_blocks = Inr w
     \<and> openFile std_externals (\<lambda>_. False) (written_set w) = Inr r
     \<and> processStep (\<lambda>_ _. abs_hit 0 (RawEventWord 0)) \<lparr>data = replicate 2048 0\<rparr> (\<lambda>q. q mod 3 + 1) r 0 = Inr st
     \<and> concat (map abs_contents bufs) = frame_hits example_words \<and> length (frame_hits example_words) = 1"
proof -
  obtain w where w: "write_raw [] example_arguments example_blocks = Inr w" "length (w_dataFile w) < 2 ^ 64"
    using example_written by blast
  have a: "acqStdMode example_arguments" "acqMode example_arguments \<noteq> ''mixed''" "wf_frame \<lparr>data = replicate 2048 0\<rparr>"
    "\<forall>q :: nat. 1 \<le> q mod 3 + 1" "0 < length (steps_of [] example_blocks)"
    by (simp_all add: example_arguments_def wf_frame_def MaxRawDataFrameSize_def example_blocks_facts(2))
  from written_steps_are_read [OF a(1) example_blocks_facts(1) a(2) example_blocks_facts(3) w a(3-5),
      of std_externals "\<lambda>_. False" "\<lambda>_ _. abs_hit 0 (RawEventWord 0)"]
  show ?thesis using w(1) example_frame_facts(3) by (auto simp: example_blocks_facts(2))
qed

theorem trigger_id_witness:
  "\<exists>w r. write_raw [] example_arguments example_blocks = Inr w
     \<and> openFile std_externals (\<lambda>_. False) (written_set w) = Inr r \<and> argTriggerID example_arguments = 2 \<and> getTriggerID r = -1"
proof -
  obtain w where w: "write_raw [] example_arguments example_blocks = Inr w" "length (w_dataFile w) < 2 ^ 64"
    using example_written by blast
  have a: "acqStdMode example_arguments" "acqMode example_arguments \<noteq> ''mixed''" "argTriggerID example_arguments = 2"
    by (simp_all add: example_arguments_def)
  from trigger_id_roundtrip [OF a(1) example_blocks_facts(1) a(2) example_blocks_facts(3) w, of std_externals "\<lambda>_. False"] a(3) w(1)
  show ?thesis by auto
qed


end
