(* ===== verification/Frame_Server.thy ===== *)
theory Frame_Server
  imports Write_Raw
begin

text \<open>
  The acquisition daemon's frame servers: class \<open>FrameServer\<close> of daqd/FrameServer.cpp with the ring of frames, and
  the worker thread of daqd/DAQFrameServer.cpp that cuts the word stream of a card into frames and stores them in the ring.
  A turn of the worker is cut at its lock operations: reading up to the frame header and choosing a slot,
  filling the slot (without the lock), and moving the write pointer. Other threads may run between these phases.
\<close>

section \<open>The shared state\<close>

record FrameServer =
  dataFrameSharedMemory :: "RawDataFrame list"
  dataFrameWritePointer :: nat
  dataFrameReadPointer :: nat
  acquisitionMode :: int
  minimumFrameID :: u64
  die :: bool
  hasWorker :: bool
  idleTimeMode :: u32

abbreviation queueSize :: nat where
  "queueSize \<equiv> MaxRawDataFrameQueueSize"

text \<open>A new memory object is filled with zeros; \<open>idle0\<close> is the uninitialised member.\<close>

definition newFrameServer :: "u32 \<Rightarrow> FrameServer" where
  "newFrameServer idle0 =
     \<lparr>dataFrameSharedMemory = replicate queueSize \<lparr>data = replicate MaxRawDataFrameSize 0\<rparr>,
      dataFrameWritePointer = 0, dataFrameReadPointer = 0, acquisitionMode = 0, minimumFrameID = 0,
      die = True, hasWorker = False, idleTimeMode = idle0\<rparr>"

text \<open>The two critical sections of \<open>startAcquisition\<close>; in the pause between them the worker may act, which is \<open>between\<close>.\<close>

definition wipe_first :: "FrameServer \<Rightarrow> FrameServer" where
  "wipe_first s = s\<lparr>dataFrameWritePointer := 0, dataFrameReadPointer := 0, acquisitionMode := 0\<rparr>"

definition wipe_second :: "int \<Rightarrow> FrameServer \<Rightarrow> FrameServer" where
  "wipe_second mode s =
     s\<lparr>dataFrameWritePointer := 0, dataFrameReadPointer := 0, acquisitionMode := mode, minimumFrameID := 0\<rparr>"

definition startAcquisition :: "(FrameServer \<Rightarrow> FrameServer) \<Rightarrow> int \<Rightarrow> FrameServer \<Rightarrow> FrameServer" where
  "startAcquisition between mode s = wipe_second mode (between (wipe_first s))"

definition stopAcquisition :: "FrameServer \<Rightarrow> FrameServer" where
  "stopAcquisition s = s\<lparr>acquisitionMode := 0, dataFrameWritePointer := 0, dataFrameReadPointer := 0\<rparr>"

definition shmObjectPath :: string where
  "shmObjectPath = ''/daqd_shm''"

definition getDataFrameSharedMemoryName :: "FrameServer \<Rightarrow> string" where
  "getDataFrameSharedMemoryName s = shmObjectPath"

definition getDataFrameWritePointer :: "FrameServer \<Rightarrow> nat" where
  "getDataFrameWritePointer s = dataFrameWritePointer s mod (2 * queueSize)"

definition getDataFrameReadPointer :: "FrameServer \<Rightarrow> nat" where
  "getDataFrameReadPointer s = dataFrameReadPointer s mod (2 * queueSize)"

definition setDataFrameReadPointer :: "u32 \<Rightarrow> FrameServer \<Rightarrow> FrameServer" where
  "setDataFrameReadPointer ptr s = s\<lparr>dataFrameReadPointer := unat ptr mod (2 * queueSize)\<rparr>"

definition startWorker :: "FrameServer \<Rightarrow> FrameServer" where
  "startWorker s = (if hasWorker s then s else s\<lparr>die := False, hasWorker := True\<rparr>)"

definition stopWorker :: "FrameServer \<Rightarrow> FrameServer" where
  "stopWorker s = (let s = s\<lparr>die := True\<rparr> in if hasWorker s then s\<lparr>hasWorker := False\<rparr> else s)"

definition parseDataFrame :: "RawDataFrame \<Rightarrow> bool" where
  "parseDataFrame f =
     (let frameSize = drop_bit 36 (data f ! 0) AND 0x7FFF; nEvents = data f ! 1 AND 0xFFFF in frameSize = 2 + nEvents)"

definition fs_setSorter :: "u32 \<Rightarrow> int" where
  "fs_setSorter mode = -1"

definition fs_setCoincidenceTrigger :: "'t \<Rightarrow> int" where
  "fs_setCoincidenceTrigger config = -1"

text \<open>\<open>setIdleTimeCalculation\<close> has no return statement; its callers must not use the value.\<close>

definition setIdleTimeCalculation :: "u32 \<Rightarrow> FrameServer \<Rightarrow> FrameServer" where
  "setIdleTimeCalculation mode s = s\<lparr>idleTimeMode := mode\<rparr>"

definition fs_setGateEnable :: "u32 \<Rightarrow> int" where
  "fs_setGateEnable mode = -1"

definition setMinimumFrameID :: "u64 \<Rightarrow> FrameServer \<Rightarrow> int \<times> FrameServer" where
  "setMinimumFrameID frameID s = (0, s\<lparr>minimumFrameID := frameID\<rparr>)"

text \<open>The ring is full when the pointers differ only by a full turn.\<close>

definition ringFull :: "nat \<Rightarrow> nat \<Rightarrow> bool" where
  "ringFull writePointer readPointer \<longleftrightarrow>
     writePointer \<noteq> readPointer \<and> writePointer mod queueSize = readPointer mod queueSize"

section \<open>The worker of a card\<close>

definition IDLE_WORD :: u64 where "IDLE_WORD = 0xFFFFFFFFFFFFFFFF"
definition HEADER_WORD :: u64 where "HEADER_WORD = 0xFFFFFFFFFFFFFFF5"
definition TRAILER_WORD :: u64 where "TRAILER_WORD = 0xFFFFFFFFFFFFFFFA"

text \<open>
  \<open>getWords c n\<close> of a card returns the number of words or a negative number, the words stored, and the card afterwards.
\<close>

type_synonym 'c get_words = "'c \<Rightarrow> int \<Rightarrow> (int \<times> u64 list) \<times> 'c"

datatype phase = Hunting | Filling u64 u64 "nat option" | Committing "nat option"

record 'c daq =
  server :: FrameServer
  card :: 'c
  devNull :: RawDataFrame
  pc :: phase
  lastFrameWasBad :: bool
  skippedLoops :: int
  frameCount :: u64

text \<open>A slot is an index into the ring, or \<open>None\<close> for the frame that is thrown away.\<close>

definition again :: "int \<Rightarrow> bool \<Rightarrow> 'c daq \<Rightarrow> fault + 'c daq" where
  "again skipped bad d = Inr (d\<lparr>skippedLoops := skipped, lastFrameWasBad := bad, pc := Hunting\<rparr>)"

text \<open>From the frame header on: whether the frame is kept, and where.\<close>

definition choose_slot :: "u64 \<Rightarrow> u64 \<Rightarrow> 'c daq \<Rightarrow> fault + 'c daq" where
  "choose_slot h0 h1 d =
     (let frameSize = drop_bit 36 h0 AND 0x7FFF; nEvents = h1 AND 0xFFFF; frameLost = h1 AND 0x10000 \<noteq> 0 in
      if frameSize > of_nat queueSize then again 1000007 True d
      else
        let dropLostFrame = (nEvents = 0 \<and> frameLost \<and> frameCount d mod 128 \<noteq> 0);
            d = d\<lparr>frameCount := frameCount d + 1\<rparr>;
            s = server d;
            tgt = (if acquisitionMode s \<noteq> 0 \<and> \<not> dropLostFrame \<and>
                      \<not> ringFull (dataFrameWritePointer s) (dataFrameReadPointer s)
                    then Some (dataFrameWritePointer s mod queueSize) else None)
        in Inr (d\<lparr>pc := Filling h0 h1 tgt\<rparr>))"

text \<open>The first phase: from the top of the loop to the choice of the slot.\<close>

definition hunt :: "'c get_words \<Rightarrow> 'c daq \<Rightarrow> fault + 'c daq" where
  "hunt getWords d =
     (let d = (if skippedLoops d \<ge> 32 * 1024 then d\<lparr>skippedLoops := 0\<rparr> else d);
          frame = (\<lambda>d. let ((n, ws), c) = getWords (card d) 1; d = d\<lparr>card := c\<rparr> in
            if n \<noteq> 1 then again 1000002 False d
            else rbind (idx ws 0) (\<lambda>w.
              if w = IDLE_WORD then again (skippedLoops d + 1) False d
              else if w \<noteq> HEADER_WORD then again 1000003 True d
              else
                let ((n, ws), c) = getWords (card d) 2; d = d\<lparr>card := c, skippedLoops := 0\<rparr> in
                if n \<noteq> 2 then again 1000003 False d
                else rbind (idx ws 0) (\<lambda>h0. rbind (idx ws 1) (\<lambda>h1. choose_slot h0 h1 d))))
      in if lastFrameWasBad d then
           let ((n, ws), c) = getWords (card d) 1; d = d\<lparr>card := c\<rparr> in
           if n \<noteq> 1 then again 1000001 True d
           else rbind (idx ws 0) (\<lambda>w.
             if w \<noteq> IDLE_WORD then again (skippedLoops d + 1) True d
             else frame (d\<lparr>lastFrameWasBad := False\<rparr>))
         else frame d)"

text \<open>The words read for a frame overwrite its array from the third word on.\<close>

definition overwrite :: "u64 \<Rightarrow> u64 \<Rightarrow> u64 list \<Rightarrow> RawDataFrame \<Rightarrow> RawDataFrame" where
  "overwrite h0 h1 ws f = \<lparr>data = [h0, h1] @ ws @ drop (2 + length ws) (data f)\<rparr>"

definition slot_frame :: "nat option \<Rightarrow> 'c daq \<Rightarrow> RawDataFrame" where
  "slot_frame tgt d = (case tgt of None \<Rightarrow> devNull d | Some i \<Rightarrow> dataFrameSharedMemory (server d) ! i)"

definition put_frame :: "nat option \<Rightarrow> RawDataFrame \<Rightarrow> 'c daq \<Rightarrow> 'c daq" where
  "put_frame tgt f d =
     (case tgt of
        None \<Rightarrow> d\<lparr>devNull := f\<rparr>
      | Some i \<Rightarrow> d\<lparr>server := (server d)\<lparr>dataFrameSharedMemory := (dataFrameSharedMemory (server d))[i := f]\<rparr>\<rparr>)"

text \<open>The second phase: the rest of the frame, its trailer and the check of its header.\<close>

definition fill_slot :: "'c get_words \<Rightarrow> u64 \<Rightarrow> u64 \<Rightarrow> nat option \<Rightarrow> 'c daq \<Rightarrow> fault + 'c daq" where
  "fill_slot getWords h0 h1 tgt d =
     (let frameSize = int (unat (drop_bit 36 h0 AND 0x7FFF));
          ((n, ws), c) = getWords (card d) (frameSize - 2);
          f = overwrite h0 h1 ws (slot_frame tgt d);
          d = put_frame tgt f (d\<lparr>card := c\<rparr>)
      in if 2 + length ws > MaxRawDataFrameSize then Inl OutOfBounds
         else if n < 0 then again 1000004 True d
         else
           let ((n, ts), c) = getWords (card d) 1; d = d\<lparr>card := c\<rparr> in
           if n < 0 then again 1000005 True d
           else rbind (idx ts 0) (\<lambda>t.
             if t \<noteq> TRAILER_WORD then again 1000006 True d
             else if \<not> parseDataFrame f then again (skippedLoops d) (lastFrameWasBad d) d
             else Inr (d\<lparr>pc := Committing tgt\<rparr>)))"

definition commit_slot :: "nat option \<Rightarrow> 'c daq \<Rightarrow> 'c daq" where
  "commit_slot tgt d =
     (let s = server d;
          s = (if tgt \<noteq> None then s\<lparr>dataFrameWritePointer := (dataFrameWritePointer s + 1) mod (2 * queueSize)\<rparr> else s)
      in d\<lparr>server := s, pc := Hunting\<rparr>)"

text \<open>The next phase of the worker, as long as it is not told to end.\<close>

definition worker_phase :: "'c get_words \<Rightarrow> 'c daq \<Rightarrow> fault + 'c daq" where
  "worker_phase getWords d =
     (case pc d of
        Hunting \<Rightarrow> hunt getWords d
      | Filling h0 h1 tgt \<Rightarrow> fill_slot getWords h0 h1 tgt d
      | Committing tgt \<Rightarrow> Inr (commit_slot tgt d))"

definition newWorker :: "FrameServer \<Rightarrow> 'c \<Rightarrow> RawDataFrame \<Rightarrow> 'c daq" where
  "newWorker s c null =
     \<lparr>server = s, card = c, devNull = null, pc = Hunting, lastFrameWasBad = True, skippedLoops = 0, frameCount = 0\<rparr>"

section \<open>The ring as a queue\<close>

text \<open>The number of frames between the pointers, and those frames in order.\<close>

definition backlog :: "FrameServer \<Rightarrow> nat" where
  "backlog s = (dataFrameWritePointer s + 2 * queueSize - dataFrameReadPointer s) mod (2 * queueSize)"

definition visible :: "FrameServer \<Rightarrow> RawDataFrame list" where
  "visible s = map (\<lambda>i. dataFrameSharedMemory s ! ((dataFrameReadPointer s + i) mod queueSize)) [0..<backlog s]"

definition wf_server :: "FrameServer \<Rightarrow> bool" where
  "wf_server s \<longleftrightarrow> length (dataFrameSharedMemory s) = queueSize \<and> list_all wf_frame (dataFrameSharedMemory s)
     \<and> dataFrameReadPointer s < 2 * queueSize \<and> dataFrameWritePointer s < 2 * queueSize \<and> backlog s \<le> queueSize"

lemma queue_pos [simp]: "0 < queueSize"
  by (simp add: MaxRawDataFrameQueueSize_def)

lemma visible_pointers:
  "visible s = map (\<lambda>rd. dataFrameSharedMemory s ! (rd mod queueSize))
     (ring_pointers queueSize (dataFrameReadPointer s) (dataFrameWritePointer s))"
  by (simp add: visible_def ring_pointers_def backlog_def mod_mod_cancel)

lemma mod_between:
  assumes "(a :: nat) < m" "b < m"
  shows "(b + m - a) mod m = (if a \<le> b then b - a else b + m - a)"
  using assms by (auto simp: mod_if)

lemma write_position:
  assumes "dataFrameReadPointer s < 2 * queueSize" "dataFrameWritePointer s < 2 * queueSize"
  shows "(dataFrameReadPointer s + backlog s) mod (2 * queueSize) = dataFrameWritePointer s"
  using assms by (auto simp: backlog_def mod_between mod_if)

lemma write_slot_position:
  assumes "wf_server s"
  shows "dataFrameWritePointer s mod queueSize = (dataFrameReadPointer s + backlog s) mod queueSize"
proof -
  have "dataFrameWritePointer s = (dataFrameReadPointer s + backlog s) mod (2 * queueSize)"
    using write_position [of s] assms by (simp add: wf_server_def)
  then show ?thesis by (simp add: mod_mod_cancel)
qed

lemma full_iff:
  assumes "wf_server s"
  shows "ringFull (dataFrameWritePointer s) (dataFrameReadPointer s) \<longleftrightarrow> backlog s = queueSize"
proof -
  let ?r = "dataFrameReadPointer s" and ?w = "dataFrameWritePointer s" and ?N = queueSize
  have b: "?r < 2 * ?N" "?w < 2 * ?N" "backlog s \<le> ?N" using assms by (simp_all add: wf_server_def)
  have l: "backlog s = (if ?r \<le> ?w then ?w - ?r else ?w + 2 * ?N - ?r)" using b(1,2) by (simp add: backlog_def mod_between)
  have m: "x mod ?N = (if x < ?N then x else x - ?N)" if "x < 2 * ?N" for x using that by (simp add: mod_if)
  show ?thesis unfolding ringFull_def using l m [OF b(1)] m [OF b(2)] b by (auto split: if_splits)
qed

lemma no_slot_clash:
  assumes "i < k" "k < m"
  shows "(r + i) mod m \<noteq> (r + k) mod (m :: nat)"
proof
  assume "(r + i) mod m = (r + k) mod m"
  then have "(r + k - (r + i)) mod m = 0" using assms by (intro mod_eq_dvd_iff_nat [THEN iffD1, THEN dvd_imp_mod_0]) auto
  then show False using assms by simp
qed

text \<open>Writing to the slot after the last frame changes no frame of the queue, and moving the pointer adds it.\<close>

lemma visible_fill:
  assumes "wf_server s" "backlog s < queueSize"
  shows "visible (s\<lparr>dataFrameSharedMemory := (dataFrameSharedMemory s)[dataFrameWritePointer s mod queueSize := f]\<rparr>) = visible s"
proof -
  have ne: "dataFrameWritePointer s mod queueSize \<noteq> (dataFrameReadPointer s + i) mod queueSize" if "i < backlog s" for i
    using no_slot_clash [OF that assms(2), of "dataFrameReadPointer s"] unfolding write_slot_position [OF assms(1)] by (rule not_sym)
  have b: "backlog (s\<lparr>dataFrameSharedMemory := x\<rparr>) = backlog s" for x by (simp add: backlog_def)
  show ?thesis unfolding visible_def b by (rule map_cong [OF refl]) (simp add: nth_list_update_neq [OF ne])
qed

definition advance :: "FrameServer \<Rightarrow> FrameServer" where
  "advance s = s\<lparr>dataFrameWritePointer := (dataFrameWritePointer s + 1) mod (2 * queueSize)\<rparr>"

lemma advance_ok:
  assumes "wf_server s" "backlog s < queueSize"
  shows "wf_server (advance s)" "backlog (advance s) = backlog s + 1"
    "visible (advance s) = visible s @ [dataFrameSharedMemory s ! (dataFrameWritePointer s mod queueSize)]"
proof -
  let ?r = "dataFrameReadPointer s" and ?w = "dataFrameWritePointer s" and ?N = queueSize
  have b: "?r < 2 * ?N" "?w < 2 * ?N" using assms(1) by (simp_all add: wf_server_def)
  have w': "(?w + 1) mod (2 * ?N) < 2 * ?N" by simp
  have l: "backlog s = (if ?r \<le> ?w then ?w - ?r else ?w + 2 * ?N - ?r)" using b by (simp add: backlog_def mod_between)
  have l': "backlog (advance s) = (if ?r \<le> (?w + 1) mod (2 * ?N) then (?w + 1) mod (2 * ?N) - ?r else (?w + 1) mod (2 * ?N) + 2 * ?N - ?r)"
    using mod_between [OF b(1) w'] by (simp add: backlog_def advance_def)
  show c: "backlog (advance s) = backlog s + 1"
    using l l' b assms(2) by (cases "?w + 1 = 2 * ?N") (auto split: if_splits)
  show "wf_server (advance s)" using assms c by (simp add: wf_server_def advance_def)
  have "visible (advance s) = map (\<lambda>i. dataFrameSharedMemory s ! ((?r + i) mod ?N)) [0..<backlog s + 1]"
    by (simp add: visible_def c del: upt_Suc) (simp add: advance_def)
  then show "visible (advance s) = visible s @ [dataFrameSharedMemory s ! (?w mod ?N)]"
    using write_slot_position [OF assms(1)] by (simp add: visible_def)
qed

text \<open>A reader that has read \<open>k\<close> frames gives back the pointer moved by \<open>k\<close>.\<close>

definition release :: "nat \<Rightarrow> FrameServer \<Rightarrow> FrameServer" where
  "release k s = setDataFrameReadPointer (of_nat ((dataFrameReadPointer s + k) mod (2 * queueSize))) s"

lemma release_ok:
  assumes "wf_server s" "k \<le> backlog s"
  shows "wf_server (release k s)" "backlog (release k s) = backlog s - k" "visible (release k s) = drop k (visible s)"
    "dataFrameWritePointer (release k s) = dataFrameWritePointer s" "dataFrameSharedMemory (release k s) = dataFrameSharedMemory s"
proof -
  let ?r = "dataFrameReadPointer s" and ?w = "dataFrameWritePointer s" and ?N = queueSize
  let ?r' = "(?r + k) mod (2 * ?N)"
  have b: "?r < 2 * ?N" "?w < 2 * ?N" "backlog s \<le> ?N" using assms(1) by (simp_all add: wf_server_def)
  have r': "?r' < 2 * ?N" by simp
  have "unat (of_nat ?r' :: u32) = ?r'"
    using r' unfolding MaxRawDataFrameQueueSize_def by (intro unat_of_nat_small) simp
  then have rel: "release k s = s\<lparr>dataFrameReadPointer := ?r'\<rparr>" by (simp add: release_def setDataFrameReadPointer_def)
  then show "dataFrameWritePointer (release k s) = ?w" "dataFrameSharedMemory (release k s) = dataFrameSharedMemory s" by simp_all
  have l: "backlog s = (if ?r \<le> ?w then ?w - ?r else ?w + 2 * ?N - ?r)" using b by (simp add: backlog_def mod_between)
  have l': "backlog (release k s) = (if ?r' \<le> ?w then ?w - ?r' else ?w + 2 * ?N - ?r')"
    using mod_between [OF r' b(2)] by (simp add: backlog_def rel)
  show c: "backlog (release k s) = backlog s - k"
    using l l' b assms(2) by (cases "?r + k < 2 * ?N") (auto simp: mod_if split: if_splits)
  show "wf_server (release k s)" using assms(1) c r' b(3) by (simp add: wf_server_def rel)
  have "(?r' + i) mod ?N = (?r + (i + k)) mod ?N" for i
  proof -
    have "(?r' + i) mod ?N = (?r' mod ?N + i) mod ?N" by (simp add: mod_simps)
    also have "?r' mod ?N = (?r + k) mod ?N" by (simp add: mod_mod_cancel)
    finally show ?thesis by (simp add: mod_simps ac_simps)
  qed
  then have "visible (release k s) = map ((\<lambda>i. dataFrameSharedMemory s ! ((?r + i) mod ?N)) \<circ> (\<lambda>i. i + k)) [0..<backlog s - k]"
    unfolding visible_def c by (simp add: rel comp_def)
  also have "\<dots> = map (\<lambda>i. dataFrameSharedMemory s ! ((?r + i) mod ?N)) (map (\<lambda>i. i + k) [0..<backlog s - k])" by simp
  also have "map (\<lambda>i. i + k) [0..<backlog s - k] = [k..<backlog s]"
    using assms(2) map_add_upt [of k "backlog s - k"] by simp
  finally show "visible (release k s) = drop k (visible s)" by (simp add: visible_def drop_map)
qed

section \<open>The worker and its readers\<close>

definition accepted :: "RawDataFrame \<Rightarrow> bool" where
  "accepted f \<longleftrightarrow> wf_frame f \<and> parseDataFrame f"

text \<open>
  What may happen next: the worker runs a phase, a reader releases frames it has read, and, while the worker
  holds no slot, the acquisition is started or stopped. The pause in \<open>startAcquisition\<close> is there to let the
  worker finish what it holds.
\<close>

definition holds_slot :: "'c daq \<Rightarrow> bool" where
  "holds_slot d \<longleftrightarrow> (case pc d of Filling _ _ tgt \<Rightarrow> tgt \<noteq> None | Committing tgt \<Rightarrow> tgt \<noteq> None | Hunting \<Rightarrow> False)"

inductive daq_step :: "'c get_words \<Rightarrow> 'c daq \<Rightarrow> 'c daq \<Rightarrow> bool" for getWords where
  worker: "(pc d = Hunting \<longrightarrow> \<not> die (server d)) \<Longrightarrow> worker_phase getWords d = Inr d' \<Longrightarrow> daq_step getWords d d'"
| reader: "k \<le> backlog (server d) \<Longrightarrow> daq_step getWords d (d\<lparr>server := release k (server d)\<rparr>)"
| start_first: "\<not> holds_slot d \<Longrightarrow> daq_step getWords d (d\<lparr>server := wipe_first (server d)\<rparr>)"
| start_second: "\<not> holds_slot d \<Longrightarrow> daq_step getWords d (d\<lparr>server := wipe_second mode (server d)\<rparr>)"
| stop: "\<not> holds_slot d \<Longrightarrow> daq_step getWords d (d\<lparr>server := stopAcquisition (server d)\<rparr>)"
| ends: "daq_step getWords d (d\<lparr>server := stopWorker (server d)\<rparr>)"

definition daq_inv :: "'c daq \<Rightarrow> bool" where
  "daq_inv d \<longleftrightarrow> wf_server (server d) \<and> list_all accepted (visible (server d)) \<and> wf_frame (devNull d) \<and>
     (case pc d of
        Hunting \<Rightarrow> True
      | Filling h0 h1 tgt \<Rightarrow> (\<forall>i. tgt = Some i \<longrightarrow> i = dataFrameWritePointer (server d) mod queueSize \<and> backlog (server d) < queueSize)
      | Committing tgt \<Rightarrow> (\<forall>i. tgt = Some i \<longrightarrow> i = dataFrameWritePointer (server d) mod queueSize \<and> backlog (server d) < queueSize
          \<and> accepted (dataFrameSharedMemory (server d) ! i)))"

text \<open>What a step does to the queue of visible frames.\<close>

inductive queue_step :: "RawDataFrame list \<Rightarrow> RawDataFrame list \<Rightarrow> bool" where
  same: "queue_step q q"
| enqueue: "accepted f \<Longrightarrow> length q < queueSize \<Longrightarrow> queue_step q (q @ [f])"
| consume: "queue_step q (drop k q)"
| clear: "queue_step q []"

lemma again_keeps: "again k b d = Inr d' \<Longrightarrow> server d' = server d \<and> devNull d' = devNull d \<and> pc d' = Hunting"
  by (auto simp: again_def)

lemma choose_slot_ok:
  assumes "wf_server (server d)" "choose_slot h0 h1 d = Inr d'"
  shows "server d' = server d \<and> devNull d' = devNull d \<and> (pc d' = Hunting \<or> (\<exists>tgt. pc d' = Filling h0 h1 tgt \<and>
     (\<forall>i. tgt = Some i \<longrightarrow> i = dataFrameWritePointer (server d) mod queueSize \<and> backlog (server d) < queueSize)))"
proof -
  have "backlog (server d) \<le> queueSize" using assms(1) by (simp add: wf_server_def)
  then have "\<not> ringFull (dataFrameWritePointer (server d)) (dataFrameReadPointer (server d)) \<Longrightarrow> backlog (server d) < queueSize"
    using full_iff [OF assms(1)] by linarith
  with assms(2) show ?thesis by (auto simp: choose_slot_def Let_def again_def split: if_splits)
qed

definition hunted :: "'c daq \<Rightarrow> 'c daq \<Rightarrow> bool" where
  "hunted d d' \<longleftrightarrow> server d' = server d \<and> devNull d' = devNull d \<and> (pc d' = Hunting \<or> (\<exists>h0 h1 tgt. pc d' = Filling h0 h1 tgt \<and>
     (\<forall>i. tgt = Some i \<longrightarrow> i = dataFrameWritePointer (server d) mod queueSize \<and> backlog (server d) < queueSize)))"

lemma hunted_again: "again k b e = Inr d' \<Longrightarrow> server e = server d \<Longrightarrow> devNull e = devNull d \<Longrightarrow> hunted d d'"
  by (simp add: hunted_def again_keeps)

lemma hunted_choose:
  "choose_slot h0 h1 e = Inr d' \<Longrightarrow> server e = server d \<Longrightarrow> devNull e = devNull d \<Longrightarrow> wf_server (server d) \<Longrightarrow> hunted d d'"
  using choose_slot_ok [of e h0 h1 d'] by (auto simp: hunted_def)

lemma hunt_ok:
  assumes "wf_server (server d)" "hunt gw d = Inr d'"
  shows "hunted d d'"
  using assms(2) unfolding hunt_def
  by (auto simp: Let_def rbind_Inr_iff split: if_splits prod.splits
      intro: hunted_again hunted_choose [OF _ _ _ assms(1)])

definition filled :: "nat option \<Rightarrow> 'c daq \<Rightarrow> 'c daq \<Rightarrow> bool" where
  "filled tgt d d' \<longleftrightarrow>
     (\<exists>f. wf_frame f \<and> server d' = server (put_frame tgt f d) \<and> devNull d' = devNull (put_frame tgt f d)
       \<and> (pc d' = Hunting \<or> pc d' = Committing tgt \<and> parseDataFrame f))"

lemma put_frame_card [simp]: "put_frame tgt f (d\<lparr>card := c\<rparr>) = (put_frame tgt f d)\<lparr>card := c\<rparr>"
  by (auto simp: put_frame_def split: option.splits)

lemma filled_again:
  "again k b e = Inr d' \<Longrightarrow> wf_frame f \<Longrightarrow> server e = server (put_frame tgt f d) \<Longrightarrow> devNull e = devNull (put_frame tgt f d)
   \<Longrightarrow> filled tgt d d'"
  unfolding filled_def using again_keeps [of k b e d'] by auto

lemma fill_slot_ok:
  assumes "wf_frame (slot_frame tgt d)" "fill_slot gw h0 h1 tgt d = Inr d'"
  shows "filled tgt d d'"
proof -
  obtain n ws c where g: "gw (card d) (int (unat (drop_bit 36 h0 AND 0x7FFF)) - 2) = ((n, ws), c)" by (metis surj_pair)
  let ?f = "overwrite h0 h1 ws (slot_frame tgt d)"
  let ?e = "put_frame tgt ?f d"
  obtain m ts c' where t: "gw c 1 = ((m, ts), c')" by (metis surj_pair)
  have len: "2 + length ws \<le> MaxRawDataFrameSize" using assms(2) g by (auto simp: fill_slot_def Let_def split: if_splits)
  then have wf: "wf_frame ?f" using assms(1) by (simp add: wf_frame_def overwrite_def)
  show ?thesis
  proof (cases "n < 0 \<or> m < 0")
    case True
    show ?thesis
    proof (cases "n < 0")
      case True
      then have "again 1000004 True (?e\<lparr>card := c\<rparr>) = Inr d'" using assms(2) g len by (simp add: fill_slot_def Let_def)
      then show ?thesis using wf by (rule filled_again) simp_all
    next
      case False
      with True have "again 1000005 True (?e\<lparr>card := c'\<rparr>) = Inr d'"
        using assms(2) g t len by (simp add: fill_slot_def Let_def)
      then show ?thesis using wf by (rule filled_again) simp_all
    qed
  next
    case False
    then have s: "rbind (idx ts 0) (\<lambda>t. if t \<noteq> TRAILER_WORD then again 1000006 True (?e\<lparr>card := c'\<rparr>)
        else if \<not> parseDataFrame ?f then again (skippedLoops (?e\<lparr>card := c'\<rparr>)) (lastFrameWasBad (?e\<lparr>card := c'\<rparr>)) (?e\<lparr>card := c'\<rparr>)
        else Inr (?e\<lparr>card := c', pc := Committing tgt\<rparr>)) = Inr d'"
      using assms(2) g t len by (simp add: fill_slot_def Let_def split: if_splits)
    then obtain w where w: "(if w \<noteq> TRAILER_WORD then again 1000006 True (?e\<lparr>card := c'\<rparr>)
        else if \<not> parseDataFrame ?f then again (skippedLoops (?e\<lparr>card := c'\<rparr>)) (lastFrameWasBad (?e\<lparr>card := c'\<rparr>)) (?e\<lparr>card := c'\<rparr>)
        else Inr (?e\<lparr>card := c', pc := Committing tgt\<rparr>)) = Inr d'" by (auto elim: rbind_E)
    show ?thesis
    proof (cases "w \<noteq> TRAILER_WORD \<or> \<not> parseDataFrame ?f")
      case True
      with w obtain k b where "again k b (?e\<lparr>card := c'\<rparr>) = Inr d'" by (auto split: if_splits)
      then show ?thesis using wf by (rule filled_again) simp_all
    next
      case False
      with w have "d' = ?e\<lparr>card := c', pc := Committing tgt\<rparr>" by auto
      then show ?thesis unfolding filled_def using False wf by (intro exI [of _ ?f]) auto
    qed
  qed
qed

lemma wf_server_put:
  assumes "wf_server s" "wf_frame f"
  shows "wf_server (s\<lparr>dataFrameSharedMemory := (dataFrameSharedMemory s)[i := f]\<rparr>)"
proof -
  have "list_all wf_frame ((dataFrameSharedMemory s)[i := f])"
    using assms by (auto simp: wf_server_def list_all_iff dest!: set_update_subset_insert [THEN subsetD])
  with assms(1) show ?thesis by (simp add: wf_server_def backlog_def)
qed

lemma slot_in_ring: "wf_server s \<Longrightarrow> i mod queueSize < length (dataFrameSharedMemory s)"
  by (simp add: wf_server_def)

lemma store_and_advance:
  assumes "wf_server s" "backlog s < queueSize" "wf_frame g"
  shows "visible (advance (s\<lparr>dataFrameSharedMemory := (dataFrameSharedMemory s)[dataFrameWritePointer s mod queueSize := g]\<rparr>)) = visible s @ [g]"
proof -
  let ?s = "s\<lparr>dataFrameSharedMemory := (dataFrameSharedMemory s)[dataFrameWritePointer s mod queueSize := g]\<rparr>"
  have "wf_server ?s" "backlog ?s < queueSize" using wf_server_put [OF assms(1,3)] assms(2) by (simp_all add: backlog_def)
  from advance_ok(3) [OF this] visible_fill [OF assms(1,2), of g] slot_in_ring [OF assms(1)] show ?thesis by simp
qed

text \<open>What each phase keeps, for every worker that fills the slot after the last frame.\<close>

lemma hunted_inv:
  assumes "daq_inv d" "hunted d d'"
  shows "daq_inv d' \<and> queue_step (visible (server d)) (visible (server d'))"
  using assms by (auto simp: hunted_def daq_inv_def queue_step.same)

lemma slot_frame_wf: "daq_inv d \<Longrightarrow> pc d = Filling h0 h1 tgt \<Longrightarrow> wf_frame (slot_frame tgt d)"
  using slot_in_ring [of "server d"] by (auto simp: daq_inv_def slot_frame_def wf_server_def list_all_length split: option.splits)

lemma filled_inv:
  assumes inv: "daq_inv d" "pc d = Filling h0 h1 tgt" and w: "filled tgt d d'"
  shows "daq_inv d' \<and> queue_step (visible (server d)) (visible (server d'))"
proof -
  have i: "wf_server (server d)" "list_all accepted (visible (server d))" "wf_frame (devNull d)"
    "\<And>i. tgt = Some i \<Longrightarrow> i = dataFrameWritePointer (server d) mod queueSize \<and> backlog (server d) < queueSize"
    using inv by (auto simp: daq_inv_def)
  from w obtain f where f: "wf_frame f" "server d' = server (put_frame tgt f d)"
    "devNull d' = devNull (put_frame tgt f d)" "pc d' = Hunting \<or> pc d' = Committing tgt \<and> parseDataFrame f"
    by (auto simp: filled_def)
  show ?thesis
  proof (cases tgt)
    case None
    with f i show ?thesis by (auto simp: put_frame_def daq_inv_def queue_step.same)
  next
    case (Some k)
    have k: "k = dataFrameWritePointer (server d) mod queueSize" "backlog (server d) < queueSize" using i(4) [OF Some] by simp_all
    let ?s = "(server d)\<lparr>dataFrameSharedMemory := (dataFrameSharedMemory (server d))[k := f]\<rparr>"
    have s: "server d' = ?s" "devNull d' = devNull d" using f(2,3) Some by (simp_all add: put_frame_def)
    have v: "visible ?s = visible (server d)" using visible_fill [OF i(1) k(2)] by (simp add: k(1))
    have nk: "?s = server d'" "dataFrameSharedMemory ?s ! k = f"
      using s(1) slot_in_ring [OF i(1), of "dataFrameWritePointer (server d)"] by (simp_all add: k(1))
    have "backlog ?s = backlog (server d)" by (simp add: backlog_def)
    with f(1,4) i(2,3) k nk(2) s v wf_server_put [OF i(1) f(1), of k] Some show ?thesis
      by (auto simp: daq_inv_def queue_step.same accepted_def)
  qed
qed

lemma commit_inv:
  assumes inv: "daq_inv d" "pc d = Committing tgt"
  shows "daq_inv (commit_slot tgt d) \<and> queue_step (visible (server d)) (visible (server (commit_slot tgt d)))"
proof (cases tgt)
  case None
  with inv show ?thesis by (simp add: commit_slot_def daq_inv_def queue_step.same Let_def)
next
  case (Some k)
  have k: "k = dataFrameWritePointer (server d) mod queueSize" "backlog (server d) < queueSize"
    "accepted (dataFrameSharedMemory (server d) ! k)" "wf_server (server d)" "list_all accepted (visible (server d))"
    using inv Some by (auto simp: daq_inv_def)
  have s: "server (commit_slot tgt d) = advance (server d)" "pc (commit_slot tgt d) = Hunting"
    "devNull (commit_slot tgt d) = devNull d"
    using Some by (simp_all add: commit_slot_def advance_def Let_def)
  note a = advance_ok [OF k(4,2)]
  have "queue_step (visible (server d)) (visible (server (commit_slot tgt d)))"
    unfolding s(1) a(3) using k by (intro queue_step.enqueue) (simp_all add: visible_def)
  with inv(1) s a k show ?thesis by (simp add: daq_inv_def)
qed

lemma inv_worker:
  assumes inv: "daq_inv d" and w: "worker_phase gw d = Inr d'"
  shows "daq_inv d' \<and> queue_step (visible (server d)) (visible (server d'))"
proof (cases "pc d")
  case Hunting
  then have "hunted d d'" using hunt_ok [of d gw d'] inv w by (simp add: worker_phase_def daq_inv_def)
  then show ?thesis by (rule hunted_inv [OF inv])
next
  case (Filling h0 h1 tgt)
  with fill_slot_ok [OF slot_frame_wf [OF inv Filling], of gw h0 h1 d'] w have "filled tgt d d'" by (simp add: worker_phase_def)
  then show ?thesis by (rule filled_inv [OF inv Filling])
next
  case (Committing tgt)
  with w have "d' = commit_slot tgt d" by (simp add: worker_phase_def)
  then show ?thesis using commit_inv [OF inv Committing] by simp
qed

lemma wiped: "wf_server s \<Longrightarrow> wf_server (wipe_first s) \<and> wf_server (wipe_second m s) \<and> wf_server (stopAcquisition s)
   \<and> visible (wipe_first s) = [] \<and> visible (wipe_second m s) = [] \<and> visible (stopAcquisition s) = []"
  by (simp add: wf_server_def wipe_first_def wipe_second_def stopAcquisition_def visible_def backlog_def)

lemma daq_inv_wipe:
  assumes "daq_inv d" "\<not> holds_slot d" "wf_server s" "visible s = []"
  shows "daq_inv (d\<lparr>server := s\<rparr>)"
  using assms by (auto simp: daq_inv_def holds_slot_def split: phase.splits)

lemma list_all_drop: "list_all P xs \<Longrightarrow> list_all P (drop k xs)"
  by (metis append_take_drop_id list_all_append)

lemma daq_inv_server:
  assumes inv: "daq_inv d" and s: "wf_server s" "list_all accepted (visible s)"
    "dataFrameWritePointer s = dataFrameWritePointer (server d)" "dataFrameSharedMemory s = dataFrameSharedMemory (server d)"
    "backlog s \<le> backlog (server d)"
  shows "daq_inv (d\<lparr>server := s\<rparr>)"
proof (cases "pc d")
  case Hunting
  with inv s(1,2) show ?thesis by (simp add: daq_inv_def)
next
  case (Filling h0 h1 tgt)
  with inv have "\<forall>i. tgt = Some i \<longrightarrow> i = dataFrameWritePointer (server d) mod queueSize \<and> backlog (server d) < queueSize"
    by (simp add: daq_inv_def)
  then have "\<forall>i. tgt = Some i \<longrightarrow> i = dataFrameWritePointer s mod queueSize \<and> backlog s < queueSize"
    unfolding s(3) using s(5) by (cases tgt) auto
  with inv s(1,2) Filling show ?thesis by (simp add: daq_inv_def)
next
  case (Committing tgt)
  with inv have "\<forall>i. tgt = Some i \<longrightarrow> i = dataFrameWritePointer (server d) mod queueSize \<and> backlog (server d) < queueSize
       \<and> accepted (dataFrameSharedMemory (server d) ! i)"
    by (simp add: daq_inv_def)
  then have "\<forall>i. tgt = Some i \<longrightarrow> i = dataFrameWritePointer s mod queueSize \<and> backlog s < queueSize
       \<and> accepted (dataFrameSharedMemory s ! i)"
    unfolding s(3,4) using s(5) by (cases tgt) auto
  with inv s(1,2) Committing show ?thesis by (simp add: daq_inv_def)
qed

lemma wipe_step:
  assumes "daq_inv d" "\<not> holds_slot d" "wf_server s" "visible s = []"
  shows "daq_inv (d\<lparr>server := s\<rparr>) \<and> queue_step (visible (server d)) (visible (server (d\<lparr>server := s\<rparr>)))"
proof -
  have "visible (server (d\<lparr>server := s\<rparr>)) = []" using assms(4) by simp
  then show ?thesis using daq_inv_wipe [OF assms] queue_step.clear by metis
qed

lemma daq_inv_step: "daq_step gw d d' \<Longrightarrow> daq_inv d \<Longrightarrow> daq_inv d' \<and> queue_step (visible (server d)) (visible (server d'))"
proof (induction rule: daq_step.induct)
  case (worker d d')
  then show ?case using inv_worker by blast
next
  case (reader k d)
  then have w: "wf_server (server d)" by (simp add: daq_inv_def)
  note r = release_ok [OF w reader(1)]
  have "list_all accepted (visible (release k (server d)))"
    unfolding r(3) using reader(2) by (intro list_all_drop) (simp add: daq_inv_def)
  from daq_inv_server [OF reader(2) r(1) this r(4,5)] r(2)
  have "daq_inv (d\<lparr>server := release k (server d)\<rparr>)" by simp
  moreover have "queue_step (visible (server d)) (visible (release k (server d)))" unfolding r(3) by (rule queue_step.consume)
  ultimately show ?case by simp
next
  case (start_first d)
  then have w: "wf_server (server d)" by (simp add: daq_inv_def)
  note v = wiped [OF w, of 0]
  from wipe_step [OF start_first(2,1)] v show ?case by blast
next
  case (start_second d mode)
  then have w: "wf_server (server d)" by (simp add: daq_inv_def)
  note v = wiped [OF w, of mode]
  from wipe_step [OF start_second(2,1)] v show ?case by blast
next
  case (stop d)
  then have w: "wf_server (server d)" by (simp add: daq_inv_def)
  note v = wiped [OF w, of 0]
  from wipe_step [OF stop(2,1)] v show ?case by blast
next
  case (ends d)
  have e: "wf_server (stopWorker (server d)) = wf_server (server d)" "visible (stopWorker (server d)) = visible (server d)"
    "backlog (stopWorker (server d)) = backlog (server d)"
    "dataFrameWritePointer (stopWorker (server d)) = dataFrameWritePointer (server d)"
    "dataFrameSharedMemory (stopWorker (server d)) = dataFrameSharedMemory (server d)"
    by (auto simp: stopWorker_def Let_def wf_server_def visible_def backlog_def)
  have "daq_inv (d\<lparr>server := stopWorker (server d)\<rparr>)"
    using ends by (intro daq_inv_server) (simp_all add: e daq_inv_def)
  moreover have "queue_step (visible (server d)) (visible (stopWorker (server d)))" unfolding e(2) by (rule queue_step.same)
  ultimately show ?case by simp
qed

inductive daq_reachable :: "'c get_words \<Rightarrow> 'c daq \<Rightarrow> 'c daq \<Rightarrow> bool" for getWords d0 where
  start: "daq_reachable getWords d0 d0"
| step: "daq_reachable getWords d0 d \<Longrightarrow> daq_step getWords d d' \<Longrightarrow> daq_reachable getWords d0 d'"

lemma new_daq_inv: "wf_frame null \<Longrightarrow> daq_inv (newWorker (startWorker (newFrameServer i)) c null)"
  by (simp add: daq_inv_def newWorker_def startWorker_def newFrameServer_def wf_server_def visible_def backlog_def list_all_iff wf_frame_def)

lemma reachable_inv:
  assumes "daq_reachable gw (newWorker (startWorker (newFrameServer i)) c null) d" "wf_frame null"
  shows "daq_inv d"
  using assms(1) by (induction rule: daq_reachable.induct) (auto intro: new_daq_inv [OF assms(2)] dest: daq_inv_step)


text \<open>An accepted frame is one the writer and the reader of raw data can handle, unless it fills the array to the last word.\<close>

lemma accepted_good:
  assumes "accepted f" "unat (getFrameSize f) < MaxRawDataFrameSize"
  shows "good_frame f"
proof -
  let ?a = "drop_bit 36 (data f ! 0) AND 0x7FFF" and ?n = "data f ! 1 AND 0xFFFF"
  have m: "(0x7FFF :: u64) = mask 15" "(0xFFFF :: u64) = mask 16" by (simp_all add: mask_eq_exp_minus_1)
  have p: "?a = 2 + ?n" using assms(1) by (simp add: accepted_def parseDataFrame_def Let_def)
  have u: "unat (x AND mask k) = unat x mod 2 ^ k" for x :: u64 and k
    by (simp only: take_bit_eq_mask [symmetric] take_bit_eq_mod [symmetric] unsigned_take_bit_eq)
  have a: "unat ?a < 2 ^ 15" unfolding m u by simp
  have n16: "unat ?n < 2 ^ 16" unfolding m u by simp
  then have "unat (2 + ?n) = 2 + unat ?n" by (simp add: unat_word_ariths)
  with p have an: "unat ?a = 2 + unat ?n" by simp
  have "unat (getFrameSize f) = unat ?a" using a by (simp only: getFrameSize_def unsigned_ucast_eq take_bit_eq_mod) simp
  moreover have "getNEvents f = unat ?n div 2"
  proof -
    have "unat (data f ! 1 AND 0x7FFF) = unat (data f ! 1) mod 2 ^ 15" unfolding m u ..
    moreover have "unat ?n = unat (data f ! 1) mod 2 ^ 16" unfolding m u ..
    moreover have "unat ?n < 2 ^ 15" using a an by simp
    moreover have "unat (data f ! 1) mod 2 ^ 15 = unat (data f ! 1) mod 2 ^ 16 mod 2 ^ 15" by (simp add: mod_mod_cancel)
    ultimately have "unat (data f ! 1 AND 0x7FFF) = unat ?n" by (simp only: mod_less)
    then show ?thesis by (simp add: getNEvents_def unat_div)
  qed
  ultimately show ?thesis using assms an by (simp add: good_frame_def accepted_def)
qed

text \<open>The block a reader asks for by the two pointers of the server.\<close>

definition server_block :: "fp \<Rightarrow> fp \<Rightarrow> int \<Rightarrow> FrameServer \<Rightarrow> BlockHeader \<times> SHM_RAW" where
  "server_block step1 step2 eos s =
     (\<lparr>bh_step1 = step1, bh_step2 = step2, bh_wrPointer = of_nat (getDataFrameWritePointer s),
       bh_rdPointer = of_nat (getDataFrameReadPointer s), bh_endOfStep = eos\<rparr>, \<lparr>shm = dataFrameSharedMemory s\<rparr>)"

lemma server_block_frames:
  assumes "wf_server s"
  shows "block_frames (server_block s1 s2 eos s) = visible s"
proof -
  have p: "unat (of_nat x :: u32) mod (2 * queueSize) = x" if "x < 2 * queueSize" for x
  proof -
    have "x < 2 ^ 32" using that by (simp add: MaxRawDataFrameQueueSize_def)
    then have "unat (of_nat x :: u32) = x" by (intro unat_of_nat_small) simp
    with that show ?thesis by simp
  qed
  have b: "dataFrameReadPointer s < 2 * queueSize" "dataFrameWritePointer s < 2 * queueSize" using assms by (simp_all add: wf_server_def)
  show ?thesis
    using assms unfolding visible_pointers
    by (simp add: block_frames_def server_block_def getDataFrameWritePointer_def getDataFrameReadPointer_def p [OF b(1)] p [OF b(2)] b Let_def
        getSizeInFrames_def)
qed


text \<open>A worker whose card delivers nothing has made one turn.\<close>

definition idle_daq :: "unit daq" where
  "idle_daq = newWorker (startWorker (newFrameServer 0)) () \<lparr>data = replicate MaxRawDataFrameSize 0\<rparr>"

lemma idle_daq_turn:
  "daq_reachable (\<lambda>c n. ((-1, []), c)) idle_daq (idle_daq\<lparr>skippedLoops := 1000001\<rparr>)"
proof -
  have "worker_phase (\<lambda>c n. ((-1, []), c)) idle_daq = Inr (idle_daq\<lparr>skippedLoops := 1000001\<rparr>)"
    by (simp add: worker_phase_def hunt_def again_def idle_daq_def newWorker_def)
  then have "daq_step (\<lambda>c n. ((-1, []), c)) idle_daq (idle_daq\<lparr>skippedLoops := 1000001\<rparr>)"
    by (intro daq_step.worker) (simp_all add: idle_daq_def newWorker_def startWorker_def newFrameServer_def)
  then show ?thesis by (intro daq_reachable.step [OF daq_reachable.start])
qed



end
