(* ===== verification/Daq_Stream.thy ===== *)
theory Daq_Stream
  imports Frame_Server
begin

text \<open>
  The worker of daqd/DAQFrameServer.cpp on the stream of words of a card. The card is the interface \<open>word_card\<close>: requests are
  answered in full and in order. Then the worker stores exactly the frames of the stream, in order, leaving out lost
  empty ones as the code does, and after a bad frame it finds the next frame behind the next idle words.
\<close>

section \<open>Streams of frames\<close>

text \<open>The words of a frame in the stream: the header check accepts them and they fit the array.\<close>

definition stream_frame :: "u64 list \<Rightarrow> bool" where
  "stream_frame f \<longleftrightarrow> 2 \<le> length f \<and> length f \<le> MaxRawDataFrameSize
     \<and> unat (drop_bit 36 (f ! 0) AND 0x7FFF) = length f \<and> parseDataFrame \<lparr>data = f\<rparr>"

definition dropped :: "u64 \<Rightarrow> u64 list \<Rightarrow> bool" where
  "dropped cnt f \<longleftrightarrow> f ! 1 AND 0xFFFF = 0 \<and> f ! 1 AND 0x10000 \<noteq> 0 \<and> cnt mod 128 \<noteq> 0"

text \<open>Between frames the card sends idle words. Frames without events that were lost are kept once in 128 frames.\<close>

datatype item = Idle | Frame "u64 list"

fun item_words :: "item \<Rightarrow> u64 list" where
  "item_words Idle = [IDLE_WORD]"
| "item_words (Frame f) = HEADER_WORD # f @ [TRAILER_WORD]"

fun item_ok :: "item \<Rightarrow> bool" where
  "item_ok Idle \<longleftrightarrow> True"
| "item_ok (Frame f) \<longleftrightarrow> stream_frame f"

fun kept :: "u64 \<Rightarrow> item list \<Rightarrow> u64 list list" where
  "kept cnt [] = []"
| "kept cnt (Idle # its) = kept cnt its"
| "kept cnt (Frame f # its) = (if dropped cnt f then kept (cnt + 1) its else f # kept (cnt + 1) its)"

fun run_phases :: "'c get_words \<Rightarrow> nat \<Rightarrow> 'c daq \<Rightarrow> fault + 'c daq" where
  "run_phases getWords 0 d = Inr d"
| "run_phases getWords (Suc n) d = rbind (worker_phase getWords d) (run_phases getWords n)"

lemma frame_words_stored:
  assumes f: "stream_frame f" and g: "take (length f) (data g) = f"
  shows "frame_words g = f" "parseDataFrame g" "getFrameID g = f ! 0 AND 0xFFFFFFFFF"
proof -
  have l: "2 \<le> length f" "length f \<le> MaxRawDataFrameSize" "unat (drop_bit 36 (f ! 0) AND 0x7FFF) = length f"
    using f by (simp_all add: stream_frame_def)
  have n: "data g ! i = f ! i" if "i < length f" for i using g that by (metis nth_take)
  have n01: "data g ! 0 = f ! 0" "data g ! Suc 0 = f ! Suc 0" using l(1) by (intro n; linarith)+
  have "getFrameSize g = ucast (drop_bit 36 (f ! 0) AND 0x7FFF)" by (simp add: getFrameSize_def n01)
  then have "unat (getFrameSize g) = length f"
    using l(2,3) by (simp only: unsigned_ucast_eq take_bit_eq_mod) (simp add: MaxRawDataFrameSize_def)
  then show "frame_words g = f" using g by (simp add: frame_words_def)
  show "parseDataFrame g" using f by (simp add: stream_frame_def parseDataFrame_def n01)
  show "getFrameID g = f ! 0 AND 0xFFFFFFFFF" by (simp add: getFrameID_def n01)
qed

section \<open>A card that delivers a stream of words\<close>

text \<open>What the worker relies on: a request is answered in full with the next words of the stream.\<close>

locale word_card =
  fixes getWords :: "'c get_words" and cinv :: "'c \<Rightarrow> bool" and stream :: "'c \<Rightarrow> u64 list"
  assumes read_words: "cinv c \<Longrightarrow> n \<le> length (stream c) \<Longrightarrow>
     \<exists>c'. getWords c (int n) = ((int n, take n (stream c)), c') \<and> cinv c' \<and> stream c' = drop n (stream c)"
begin

lemma read_one: "cinv c \<Longrightarrow> stream c = w # ws \<Longrightarrow> \<exists>c'. getWords c 1 = ((1, [w]), c') \<and> cinv c' \<and> stream c' = ws"
  using read_words [of c 1] by simp

lemma read_two: "cinv c \<Longrightarrow> stream c = v # w # ws \<Longrightarrow> \<exists>c'. getWords c 2 = ((2, [v, w]), c') \<and> cinv c' \<and> stream c' = ws"
  using read_words [of c 2] by (simp add: numeral_2_eq_2)

definition ready :: "bool \<Rightarrow> u64 list \<Rightarrow> 'c daq \<Rightarrow> bool" where
  "ready bad ws d \<longleftrightarrow> pc d = Hunting \<and> lastFrameWasBad d = bad \<and> cinv (card d) \<and> stream (card d) = ws"

text \<open>States that differ in what the phases of interest keep.\<close>

definition same_rest :: "'c daq \<Rightarrow> 'c daq \<Rightarrow> bool" where
  "same_rest d d' \<longleftrightarrow> server d' = server d \<and> devNull d' = devNull d \<and> frameCount d' = frameCount d"

lemma skip_garbage:
  assumes "ready True (w # ws) d" "w \<noteq> IDLE_WORD"
  shows "\<exists>d'. worker_phase getWords d = Inr d' \<and> ready True ws d' \<and> same_rest d d'"
proof -
  obtain c where "getWords (card d) 1 = ((1, [w]), c)" "cinv c" "stream c = ws"
    using read_one [of "card d" w ws] assms(1) by (auto simp: ready_def)
  with assms show ?thesis
    by (auto simp: worker_phase_def ready_def hunt_def Let_def idx_def again_def same_rest_def)
qed

lemma skip_idle:
  assumes "ready False (IDLE_WORD # ws) d"
  shows "\<exists>d'. worker_phase getWords d = Inr d' \<and> ready False ws d' \<and> same_rest d d'"
proof -
  obtain c where "getWords (card d) 1 = ((1, [IDLE_WORD]), c)" "cinv c" "stream c = ws"
    using read_one [of "card d" IDLE_WORD ws] assms(1) by (auto simp: ready_def)
  with assms show ?thesis
    by (auto simp: worker_phase_def ready_def hunt_def Let_def idx_def again_def same_rest_def)
qed

text \<open>An idle word ends the search, within the same turn.\<close>

lemma resync:
  assumes "ready True (IDLE_WORD # ws) d"
  shows "\<exists>e. ready False ws e \<and> same_rest d e \<and> worker_phase getWords d = worker_phase getWords e"
proof -
  obtain c where c: "getWords (card d) 1 = ((1, [IDLE_WORD]), c)" "cinv c" "stream c = ws"
    using read_one [of "card d" IDLE_WORD ws] assms(1) by (auto simp: ready_def)
  let ?e = "(if skippedLoops d \<ge> 32 * 1024 then d\<lparr>skippedLoops := 0\<rparr> else d)\<lparr>card := c, lastFrameWasBad := False\<rparr>"
  have "worker_phase getWords d = worker_phase getWords ?e"
    using assms c by (simp add: worker_phase_def ready_def hunt_def Let_def idx_def)
  then show ?thesis using assms c by (intro exI [of _ ?e]) (auto simp: ready_def same_rest_def)
qed

lemma store_frame:
  assumes d: "ready False (HEADER_WORD # f @ TRAILER_WORD # ws) d" and f: "stream_frame f"
    and s: "daq_inv d" "acquisitionMode (server d) \<noteq> 0" "dropped (frameCount d) f \<or> backlog (server d) < queueSize"
  shows "\<exists>d1 d2 d3. worker_phase getWords d = Inr d1 \<and> worker_phase getWords d1 = Inr d2 \<and> worker_phase getWords d2 = Inr d3
     \<and> ready False ws d3 \<and> frameCount d3 = frameCount d + 1 \<and> acquisitionMode (server d3) = acquisitionMode (server d)
     \<and> daq_inv d3 \<and> map frame_words (visible (server d3)) =
         map frame_words (visible (server d)) @ (if dropped (frameCount d) f then [] else [f])"
proof -
  define cnt where "cnt = (frameCount d)"
  have w: "wf_server (server d)" using s(1) by (simp add: daq_inv_def)
  obtain h0 h1 body where fe: "f = h0 # h1 # body" using f by (cases f; cases "tl f") (auto simp: stream_frame_def)
  have len: "2 + length body \<le> MaxRawDataFrameSize" "unat (drop_bit 36 h0 AND 0x7FFF) = 2 + length body"
    "parseDataFrame \<lparr>data = h0 # h1 # body\<rparr>"
    using f by (simp_all add: stream_frame_def fe)
  have p: "pc d = Hunting" "\<not> lastFrameWasBad d" "cinv (card d)" "stream (card d) = HEADER_WORD # h0 # h1 # body @ TRAILER_WORD # ws"
    using d by (simp_all add: ready_def fe)
  obtain c1 where c1: "getWords (card d) 1 = ((1, [HEADER_WORD]), c1)" "cinv c1" "stream c1 = h0 # h1 # body @ TRAILER_WORD # ws"
    using read_one [OF p(3,4)] by blast
  obtain c2 where c2: "getWords c1 2 = ((2, [h0, h1]), c2)" "cinv c2" "stream c2 = body @ TRAILER_WORD # ws"
    using read_two [OF c1(2,3)] by blast
  obtain c3 where c3: "getWords c2 (int (length body)) = ((int (length body), body), c3)" "cinv c3" "stream c3 = TRAILER_WORD # ws"
    using read_words [OF c2(2), of "length body"] c2(3) by auto
  obtain c4 where c4: "getWords c3 1 = ((1, [TRAILER_WORD]), c4)" "cinv c4" "stream c4 = ws"
    using read_one [OF c3(2,3)] by blast
  have hd: "HEADER_WORD \<noteq> IDLE_WORD" by (simp add: HEADER_WORD_def IDLE_WORD_def)
  have sz: "\<not> drop_bit 36 h0 AND 0x7FFF > of_nat queueSize"
    using len(1,2) by (simp add: word_less_nat_alt MaxRawDataFrameQueueSize_def MaxRawDataFrameSize_def)
  have nf: "dropped cnt f \<or> \<not> ringFull (dataFrameWritePointer (server d)) (dataFrameReadPointer (server d))"
    using full_iff [OF w] s(3) by (auto simp: cnt_def)
  define tgt where "tgt = (if dropped cnt f then None else Some (dataFrameWritePointer (server d) mod queueSize))"
  have "choose_slot h0 h1 (d\<lparr>card := c2, skippedLoops := 0\<rparr>) = Inr (d\<lparr>card := c2, skippedLoops := 0, frameCount := cnt + 1, pc := Filling h0 h1 tgt\<rparr>)"
    using sz nf s(2) by (auto simp: choose_slot_def Let_def tgt_def dropped_def fe cnt_def)
  then obtain d1 where d1: "worker_phase getWords d = Inr d1"
    "d1 = d\<lparr>card := c2, skippedLoops := 0, frameCount := cnt + 1, pc := Filling h0 h1 tgt\<rparr>"
    using p c1(1) c2(1) hd by (simp add: worker_phase_def hunt_def Let_def idx_def numeral_2_eq_2)
  define g where "g = overwrite h0 h1 body (slot_frame tgt d)"
  have gd: "take (2 + length body) (data g) = f" by (simp add: g_def overwrite_def fe)
  have pg: "parseDataFrame g" using len(3) by (simp add: g_def overwrite_def parseDataFrame_def)
  define d2 where "d2 = (put_frame tgt g d1)\<lparr>card := c4, pc := Committing tgt\<rparr>"
  have sf: "slot_frame tgt d1 = slot_frame tgt d" by (simp add: slot_frame_def d1(2) split: option.splits)
  have k1: "pc d1 = Filling h0 h1 tgt" "card d1 = c2" by (simp_all add: d1(2))
  have sz2: "int (unat (drop_bit 36 h0 AND 0x7FFF)) - 2 = int (length body)" using len(2) by simp
  have w2: "worker_phase getWords d1 = Inr d2"
    unfolding worker_phase_def k1(1) phase.case fill_slot_def Let_def k1(2) sz2 c3(1) prod.case
    using c4(1) len(1) pg by (simp add: d2_def idx_def sf flip: g_def)
  have w3: "worker_phase getWords d2 = Inr (commit_slot tgt d2)" by (simp add: worker_phase_def d2_def)
  define d3 where "d3 = commit_slot tgt d2"
  have i2: "daq_inv d2" using inv_worker [OF _ d1(1)] inv_worker [OF _ w2] s(1) by blast
  have i3: "daq_inv d3" using inv_worker [OF i2 w3] by (simp add: d3_def)
  have rest: "ready False ws d3" "frameCount d3 = cnt + 1" "acquisitionMode (server d3) = acquisitionMode (server d)"
    using p c4 by (auto simp: d3_def commit_slot_def d2_def put_frame_def d1(2) ready_def Let_def split: option.splits)
  have "map frame_words (visible (server d3)) = map frame_words (visible (server d)) @ (if dropped cnt f then [] else [f])"
  proof (cases "dropped cnt f")
    case True
    then show ?thesis by (simp add: d3_def commit_slot_def d2_def put_frame_def d1(2) tgt_def Let_def)
  next
    case False
    with s(3) have b: "backlog (server d) < queueSize" by (simp add: cnt_def)
    let ?i = "dataFrameWritePointer (server d) mod queueSize"
    let ?s = "(server d)\<lparr>dataFrameSharedMemory := (dataFrameSharedMemory (server d))[?i := g]\<rparr>"
    have t: "tgt = Some ?i" using False by (simp add: tgt_def)
    have sv: "server d3 = advance ?s" by (simp add: d3_def commit_slot_def d2_def put_frame_def d1(2) t Let_def advance_def)
    have wg: "wf_frame g"
    proof -
      have "wf_frame (slot_frame tgt d)" using slot_in_ring [OF w] w by (simp add: t slot_frame_def wf_server_def list_all_length)
      then show ?thesis using len(1) by (simp add: g_def overwrite_def wf_frame_def)
    qed
    have "visible (server d3) = visible (server d) @ [g]" using store_and_advance [OF w b wg] by (simp only: sv)
    moreover have "frame_words g = f" using frame_words_stored(1) [OF f] gd by (simp add: fe)
    ultimately show ?thesis using False by simp
  qed
  with d1(1) w2 w3 rest i3 show ?thesis unfolding cnt_def d3_def by blast
qed

text \<open>Any sequence of frames and idle words is stored as far as there is room.\<close>

lemma store_items:
  assumes "ready False (concat (map item_words its) @ ws) d" "list_all item_ok its" "daq_inv d" "acquisitionMode (server d) \<noteq> 0"
    "length (visible (server d)) + length (kept (frameCount d) its) \<le> queueSize"
  shows "\<exists>n d'. run_phases getWords n d = Inr d' \<and> ready False ws d' \<and> daq_inv d'
     \<and> map frame_words (visible (server d')) = map frame_words (visible (server d)) @ kept (frameCount d) its"
  using assms
proof (induction its arbitrary: d)
  case Nil
  then show ?case by (intro exI [of _ 0] exI [of _ d]) simp
next
  case (Cons it its)
  show ?case
  proof (cases it)
    case Idle
    then have r: "ready False (IDLE_WORD # concat (map item_words its) @ ws) d" using Cons.prems(1) by simp
    from skip_idle [OF r] obtain d1 where d1: "worker_phase getWords d = Inr d1"
      "ready False (concat (map item_words its) @ ws) d1" "same_rest d d1" by blast
    have sr: "server d1 = server d" "frameCount d1 = frameCount d" using d1(3) by (simp_all add: same_rest_def)
    have "daq_inv d1" using inv_worker [OF Cons.prems(3) d1(1)] by simp
    from Cons.IH [OF d1(2) _ this] Cons.prems Idle sr obtain n d' where "run_phases getWords n d1 = Inr d'" "ready False ws d'"
      "daq_inv d'" "map frame_words (visible (server d')) = map frame_words (visible (server d)) @ kept (frameCount d) its" by auto
    with d1(1) Idle show ?thesis by (intro exI [of _ "Suc n"] exI [of _ d']) simp
  next
    case (Frame f)
    then have r: "ready False (HEADER_WORD # f @ TRAILER_WORD # (concat (map item_words its) @ ws)) d" and f: "stream_frame f"
      using Cons.prems(1,2) by simp_all
    have room: "dropped (frameCount d) f \<or> backlog (server d) < queueSize"
      using Cons.prems(5) Frame by (auto simp: visible_def split: if_splits)
    from store_frame [OF r f Cons.prems(3,4) room] obtain d1 d2 d3 where
      st: "worker_phase getWords d = Inr d1" "worker_phase getWords d1 = Inr d2" "worker_phase getWords d2 = Inr d3"
      "ready False (concat (map item_words its) @ ws) d3" "frameCount d3 = frameCount d + 1"
      "acquisitionMode (server d3) = acquisitionMode (server d)" "daq_inv d3" and
      v: "map frame_words (visible (server d3)) =
          map frame_words (visible (server d)) @ (if dropped (frameCount d) f then [] else [f])" by blast
    have "length (visible (server d3)) + length (kept (frameCount d + 1) its) \<le> queueSize"
      using arg_cong [OF v, of length] Cons.prems(5) Frame by (auto split: if_splits)
    from Cons.IH [OF st(4) _ st(7)] this Cons.prems(2,4) st(5,6) obtain n d' where
      n: "run_phases getWords n d3 = Inr d'" "ready False ws d'" "daq_inv d'"
      "map frame_words (visible (server d')) = map frame_words (visible (server d3)) @ kept (frameCount d + 1) its" by auto
    have "run_phases getWords (Suc (Suc (Suc n))) d = Inr d'" using st(1-3) n(1) by simp
    moreover have "map frame_words (visible (server d')) = map frame_words (visible (server d)) @ kept (frameCount d) (it # its)"
      using n(4) v Frame by simp
    ultimately show ?thesis using n(2,3) by blast
  qed
qed

text \<open>After a bad frame everything up to the next idle word is thrown away.\<close>

lemma store_after_garbage:
  assumes "ready True (bad @ IDLE_WORD # IDLE_WORD # concat (map item_words its) @ ws) d" "IDLE_WORD \<notin> set bad"
    "list_all item_ok its" "daq_inv d" "acquisitionMode (server d) \<noteq> 0"
    "length (visible (server d)) + length (kept (frameCount d) its) \<le> queueSize"
  shows "\<exists>n d'. run_phases getWords n d = Inr d' \<and> ready False ws d' \<and> daq_inv d'
     \<and> map frame_words (visible (server d')) = map frame_words (visible (server d)) @ kept (frameCount d) its"
  using assms
proof (induction bad arbitrary: d)
  case Nil
  then have "ready True (IDLE_WORD # concat (map item_words (Idle # its)) @ ws) d" by simp
  from resync [OF this] obtain e where e: "ready False (concat (map item_words (Idle # its)) @ ws) e" "same_rest d e"
    "worker_phase getWords d = worker_phase getWords e" by blast
  have r: "ready False (IDLE_WORD # concat (map item_words its) @ ws) e" using e(1) by simp
  from skip_idle [OF r] obtain d1 where d1: "worker_phase getWords e = Inr d1"
    "ready False (concat (map item_words its) @ ws) d1" "same_rest e d1" by blast
  have sr: "server d1 = server d" "frameCount d1 = frameCount d" using e(2) d1(3) by (simp_all add: same_rest_def)
  have "daq_inv d1" using inv_worker [OF Nil.prems(4)] d1(1) e(3) by simp
  from store_items [OF d1(2) Nil.prems(3) this] Nil.prems(5,6) sr obtain n d' where "run_phases getWords n d1 = Inr d'"
    "ready False ws d'" "daq_inv d'" "map frame_words (visible (server d')) = map frame_words (visible (server d)) @ kept (frameCount d) its"
    by auto
  with d1(1) e(3) show ?case by (intro exI [of _ "Suc n"] exI [of _ d']) simp
next
  case (Cons b bad)
  then have "ready True (b # (bad @ IDLE_WORD # IDLE_WORD # concat (map item_words its) @ ws)) d" "b \<noteq> IDLE_WORD" by auto
  from skip_garbage [OF this] obtain d1 where d1: "worker_phase getWords d = Inr d1"
    "ready True (bad @ IDLE_WORD # IDLE_WORD # concat (map item_words its) @ ws) d1" "same_rest d d1" by blast
  have sr: "server d1 = server d" "frameCount d1 = frameCount d" using d1(3) by (simp_all add: same_rest_def)
  have "daq_inv d1" using inv_worker [OF Cons.prems(4) d1(1)] by simp
  from Cons.IH [OF d1(2) _ Cons.prems(3) this] Cons.prems(2,5,6) sr obtain n d' where "run_phases getWords n d1 = Inr d'"
    "ready False ws d'" "daq_inv d'" "map frame_words (visible (server d')) = map frame_words (visible (server d)) @ kept (frameCount d) its"
    by auto
  with d1(1) show ?case by (intro exI [of _ "Suc n"] exI [of _ d']) simp
qed

end

end
