(* ===== verification/PFP_KX7.thy ===== *)
theory PFP_KX7
  imports Daq_Stream
begin

text \<open>
  The driver of the PCIe acquisition card, daqd/PFP_KX7.cpp: the two DMA buffers that a thread fills and
  \<open>getWords\<close> empties, and the card's registers with the two rings of 16 slots for commands and replies. The
  hardware (registers, DMA data) is a parameter.
\<close>

section \<open>The double buffer\<close>

definition BUFFER_SIZE :: nat where
  "BUFFER_SIZE = 262144 div 8"

text \<open>\<open>pf_dma\<close> is what the card will still deliver; \<open>pf_currentBuffer\<close> is the index of a buffer, not its address.\<close>

record dma_buffers =
  pf_bufferSet :: "u64 list"
  pf_wrPtr :: u32
  pf_rdPtr :: u32
  pf_currentBuffer :: "nat option"
  pf_consumed :: u32
  pf_dma :: "u64 list"

definition buf_index :: "u32 \<Rightarrow> nat" where
  "buf_index p = unat (p AND 1)"

definition buf_empty :: "dma_buffers \<Rightarrow> bool" where
  "buf_empty p \<longleftrightarrow> pf_wrPtr p = pf_rdPtr p"

definition buf_full :: "dma_buffers \<Rightarrow> bool" where
  "buf_full p \<longleftrightarrow> pf_wrPtr p AND 1 = pf_rdPtr p AND 1 \<and> pf_wrPtr p AND 2 \<noteq> pf_rdPtr p AND 2"

text \<open>
  The inner loop of \<open>bufferSetThreadRoutine\<close>; \<open>ks\<close> are the numbers of words of the successive reads. Every read goes to the
  start of the buffer. Without enough reads the thread does not get out of the loop.
\<close>

primrec dma_fill :: "nat list \<Rightarrow> nat \<Rightarrow> u64 list \<Rightarrow> u64 list \<Rightarrow> (u64 list \<times> u64 list) option" where
  "dma_fill [] c dev b = (if BUFFER_SIZE \<le> c then Some (b, dev) else None)"
| "dma_fill (k # ks) c dev b =
     (if BUFFER_SIZE \<le> c then Some (b, dev)
      else
        let r = min k (min (BUFFER_SIZE - c) (length dev))
        in dma_fill ks (c + r) (drop r dev) (take r dev @ drop r b))"

definition get_buffer :: "nat \<Rightarrow> dma_buffers \<Rightarrow> u64 list" where
  "get_buffer i p = take BUFFER_SIZE (drop (i * BUFFER_SIZE) (pf_bufferSet p))"

definition put_buffer :: "nat \<Rightarrow> u64 list \<Rightarrow> dma_buffers \<Rightarrow> dma_buffers" where
  "put_buffer i b p =
     p\<lparr>pf_bufferSet := take (i * BUFFER_SIZE) (pf_bufferSet p) @ b @ drop ((i + 1) * BUFFER_SIZE) (pf_bufferSet p)\<rparr>"

text \<open>One turn of the thread; \<open>None\<close> while it waits for a free buffer or for the card.\<close>

definition producer_turn :: "nat list \<Rightarrow> dma_buffers \<Rightarrow> dma_buffers option" where
  "producer_turn ks p =
     (if buf_full p then None
      else
        let index = buf_index (pf_wrPtr p) in
        map_option (\<lambda>(b, dev). (put_buffer index b p)\<lparr>pf_dma := dev, pf_wrPtr := (pf_wrPtr p + 1) AND 3\<rparr>)
          (dma_fill ks 0 (pf_dma p) (get_buffer index p)))"

text \<open>
  \<open>getWords\<close>. When both buffers are empty it waits until the thread has filled one, each read being complete, and waits
  for ever (\<open>None\<close>) if the card delivers no full buffer any more; \<open>n\<close> words are still to be copied.
\<close>

definition wait_filled :: "dma_buffers \<Rightarrow> dma_buffers option" where
  "wait_filled p = producer_turn [BUFFER_SIZE] p"

definition copy_count :: "nat \<Rightarrow> dma_buffers \<Rightarrow> nat" where
  "copy_count n p = min n (unat (of_nat BUFFER_SIZE - pf_consumed p))"

lemma wait_filled_wr:
  "wait_filled p = Some q \<Longrightarrow> pf_wrPtr q = (pf_wrPtr p + 1) AND 3 \<and> pf_rdPtr q = pf_rdPtr p \<and> pf_currentBuffer q = pf_currentBuffer p"
  by (auto simp: wait_filled_def producer_turn_def Let_def put_buffer_def split: option.splits if_splits)

lemma next_ptr: "((w :: u32) + 1) AND 3 \<noteq> w"
proof
  assume a: "(w + 1) AND 3 = w"
  have m: "(3 :: u32) = mask 2" by (simp add: mask_eq_exp_minus_1)
  have "unat ((w + 1) AND 3) = unat (w + 1) mod 4"
    unfolding m by (simp only: take_bit_eq_mask [symmetric] unsigned_take_bit_eq) (simp add: take_bit_eq_mod)
  moreover have "unat (w + 1) mod 4 = (unat w + 1) mod 4"
    by (simp add: unat_word_ariths mod_mod_cancel)
  ultimately have "(unat w + 1) mod 4 = unat w" using a by simp
  then show False by presburger
qed

definition copy_out :: "nat \<Rightarrow> nat \<Rightarrow> dma_buffers \<Rightarrow> u64 list \<times> dma_buffers" where
  "copy_out n i p =
     (let c2 = copy_count n p in
      (take c2 (drop (i * BUFFER_SIZE + unat (pf_consumed p)) (pf_bufferSet p)), p\<lparr>pf_consumed := pf_consumed p + of_nat c2\<rparr>))"

definition take_buffer :: "dma_buffers \<Rightarrow> dma_buffers" where
  "take_buffer p = p\<lparr>pf_currentBuffer := Some (buf_index (pf_rdPtr p)), pf_consumed := 0\<rparr>"

definition drop_buffer :: "dma_buffers \<Rightarrow> dma_buffers" where
  "drop_buffer p = p\<lparr>pf_currentBuffer := None, pf_rdPtr := (pf_rdPtr p + 1) AND 3\<rparr>"

function gw_loop :: "nat \<Rightarrow> dma_buffers \<Rightarrow> u64 list \<Rightarrow> (u64 list \<times> dma_buffers) option" where
  "gw_loop n p acc =
     (if n = 0 then Some (acc, p)
      else if pf_currentBuffer p = None \<and> buf_empty p then
        (case wait_filled p of None \<Rightarrow> None | Some p \<Rightarrow> gw_loop n p acc)
      else if pf_currentBuffer p \<noteq> None \<and> pf_consumed p = of_nat BUFFER_SIZE then gw_loop n (drop_buffer p) acc
      else
        let q = (if pf_currentBuffer p = None then take_buffer p else p);
            r = copy_out n (the (pf_currentBuffer q)) q
        in gw_loop (n - copy_count n q) (snd r) (acc @ fst r))"
  by pat_completeness auto

lemma copy_count_pos:
  assumes "0 < n" "pf_consumed p \<noteq> of_nat BUFFER_SIZE"
  shows "0 < copy_count n p"
proof -
  have "of_nat BUFFER_SIZE - pf_consumed p \<noteq> 0" using assms(2) by simp
  then have "0 < unat (of_nat BUFFER_SIZE - pf_consumed p)" using unat_gt_0 by blast
  then show ?thesis using assms(1) by (simp add: copy_count_def)
qed

definition gw_rank :: "dma_buffers \<Rightarrow> nat" where
  "gw_rank p = (case pf_currentBuffer p of
     None \<Rightarrow> if buf_empty p then 1 else 0
   | Some i \<Rightarrow> if pf_consumed p = of_nat BUFFER_SIZE then 2 else 0)"

lemma gw_rank_wait: "pf_currentBuffer p = None \<Longrightarrow> buf_empty p \<Longrightarrow> wait_filled p = Some q \<Longrightarrow> gw_rank q < gw_rank p"
  using next_ptr [of "pf_wrPtr p"] wait_filled_wr [of p q] by (simp add: gw_rank_def buf_empty_def)

lemma buffer_size_word [simp]: "(0 :: u32) \<noteq> of_nat BUFFER_SIZE" "unat (of_nat BUFFER_SIZE :: u32) = BUFFER_SIZE"
  by (simp_all add: BUFFER_SIZE_def)

termination gw_loop
proof (relation "measures [\<lambda>(n, p, acc). n, \<lambda>(n, p, acc). gw_rank p]", goal_cases)
  case 1
  then show ?case by simp
next
  case (2 n p acc q)
  then show ?case using gw_rank_wait [of p q] by simp
next
  case (3 n p acc)
  then show ?case by (auto simp: gw_rank_def drop_buffer_def)
next
  case (4 n p acc q r)
  then have "pf_consumed q \<noteq> of_nat BUFFER_SIZE" by (auto simp: take_buffer_def split: if_splits)
  then have "0 < copy_count n q" using 4(1) by (intro copy_count_pos) simp_all
  then show ?case using 4(1) by (simp add: copy_count_def)
qed

declare gw_loop.simps [simp del]

definition getWords_result :: "dma_buffers \<Rightarrow> int \<Rightarrow> ((int \<times> u64 list) \<times> dma_buffers) option" where
  "getWords_result p n =
     (if n \<le> 0 then Some ((0, []), p) else map_option (\<lambda>(ws, q). ((n, ws), q)) (gw_loop (nat n) p []))"

text \<open>The call as the daemon's worker makes it; what it yields while it waits for ever is left open.\<close>

definition pfp_getWords :: "dma_buffers get_words" where
  "pfp_getWords p n = the (getWords_result p n)"

section \<open>The words delivered\<close>

text \<open>The number of filled buffers, their words in order, and the words still to come.\<close>

definition occupied :: "dma_buffers \<Rightarrow> nat" where
  "occupied p = unat ((pf_wrPtr p - pf_rdPtr p) AND 3)"

definition filled_words :: "dma_buffers \<Rightarrow> u64 list" where
  "filled_words p = concat (map (\<lambda>k. get_buffer ((buf_index (pf_rdPtr p) + k) mod 2) p) [0..<occupied p])"

definition word_stream :: "dma_buffers \<Rightarrow> u64 list" where
  "word_stream p = drop (if pf_currentBuffer p = None then 0 else unat (pf_consumed p)) (filled_words p) @ pf_dma p"

definition buffers_ok :: "dma_buffers \<Rightarrow> bool" where
  "buffers_ok p \<longleftrightarrow> length (pf_bufferSet p) = 2 * BUFFER_SIZE \<and> pf_wrPtr p \<in> {0, 1, 2, 3} \<and> pf_rdPtr p \<in> {0, 1, 2, 3}
     \<and> occupied p \<le> 2 \<and> BUFFER_SIZE dvd length (pf_dma p)
     \<and> (pf_currentBuffer p \<noteq> None \<longrightarrow> 1 \<le> occupied p \<and> pf_currentBuffer p = Some (buf_index (pf_rdPtr p))
          \<and> unat (pf_consumed p) \<le> BUFFER_SIZE)"

lemma BUFFER_SIZE_pos [simp]: "0 < BUFFER_SIZE" "BUFFER_SIZE \<noteq> 0"
  by (simp_all add: BUFFER_SIZE_def)

lemma pointer_facts:
  assumes "pf_wrPtr p \<in> {0, 1, 2, 3}" "pf_rdPtr p \<in> {0, 1, 2, 3}" "occupied p \<le> 2"
  shows "buf_empty p \<longleftrightarrow> occupied p = 0" "buf_full p \<longleftrightarrow> occupied p = 2"
    "buf_index (pf_wrPtr p) = (buf_index (pf_rdPtr p) + occupied p) mod 2"
    "buf_index (pf_rdPtr p) < 2" "buf_index ((pf_rdPtr p + 1) AND 3) = (buf_index (pf_rdPtr p) + 1) mod 2"
    "(pf_wrPtr p + 1) AND 3 \<in> {0, 1, 2, 3}" "(pf_rdPtr p + 1) AND 3 \<in> {0, 1, 2, 3}"
    "unat ((((pf_wrPtr p + 1) AND 3) - pf_rdPtr p) AND 3) = (if occupied p = 2 then 3 else occupied p + 1)"
    "0 < occupied p \<Longrightarrow> unat ((pf_wrPtr p - ((pf_rdPtr p + 1) AND 3)) AND 3) = occupied p - 1"
  using assms by (auto simp: buf_empty_def buf_full_def occupied_def buf_index_def)

lemma length_get_buffer: "length (pf_bufferSet p) = 2 * BUFFER_SIZE \<Longrightarrow> i < 2 \<Longrightarrow> length (get_buffer i p) = BUFFER_SIZE"
  by (cases i) (auto simp: get_buffer_def less_2_cases_iff)

lemma put_buffer_ok:
  assumes "length (pf_bufferSet p) = 2 * BUFFER_SIZE" "length b = BUFFER_SIZE" "i < 2" "j < 2"
  shows "length (pf_bufferSet (put_buffer i b p)) = 2 * BUFFER_SIZE"
    "get_buffer j (put_buffer i b p) = (if i = j then b else get_buffer j p)"
  using assms by (auto simp: put_buffer_def get_buffer_def less_2_cases_iff)

lemma dma_full: "BUFFER_SIZE \<le> length dev \<Longrightarrow> length b = BUFFER_SIZE \<Longrightarrow>
    dma_fill [BUFFER_SIZE] 0 dev b = Some (take BUFFER_SIZE dev, drop BUFFER_SIZE dev)"
  by (simp add: Let_def min_def)

lemma filled_words_first:
  assumes "buffers_ok p" "0 < occupied p"
  shows "filled_words p = get_buffer (buf_index (pf_rdPtr p)) p
    @ concat (map (\<lambda>k. get_buffer ((buf_index (pf_rdPtr p) + Suc k) mod 2) p) [0..<occupied p - 1])"
proof -
  have "buf_index (pf_rdPtr p) < 2" using assms pointer_facts(4) by (simp add: buffers_ok_def)
  moreover have "[0..<occupied p] = 0 # map Suc [0..<occupied p - 1]" using assms(2) by (simp add: upt_conv_Cons map_Suc_upt)
  ultimately show ?thesis by (simp add: filled_words_def comp_def)
qed

text \<open>The thread fills the buffer that is not being read, and what will be delivered stays the same.\<close>

lemma producer_ok:
  assumes ok: "buffers_ok p" and room: "occupied p < 2" and dma: "pf_dma p \<noteq> []"
  shows "\<exists>p'. producer_turn [BUFFER_SIZE] p = Some p' \<and> buffers_ok p' \<and> word_stream p' = word_stream p
     \<and> occupied p' = occupied p + 1 \<and> pf_currentBuffer p' = pf_currentBuffer p"
proof -
  have b: "length (pf_bufferSet p) = 2 * BUFFER_SIZE" "pf_wrPtr p \<in> {0, 1, 2, 3}" "pf_rdPtr p \<in> {0, 1, 2, 3}" "occupied p \<le> 2"
    "BUFFER_SIZE dvd length (pf_dma p)" using ok by (simp_all add: buffers_ok_def)
  note f = pointer_facts [OF b(2-4)]
  let ?r = "buf_index (pf_rdPtr p)" and ?i = "buf_index (pf_wrPtr p)" and ?dev = "pf_dma p"
  have dl: "BUFFER_SIZE \<le> length ?dev" using b(5) dma by (simp add: dvd_imp_le)
  have i2: "?i < 2" using f(3) by simp
  let ?p = "(put_buffer ?i (take BUFFER_SIZE ?dev) p)\<lparr>pf_dma := drop BUFFER_SIZE ?dev, pf_wrPtr := (pf_wrPtr p + 1) AND 3\<rparr>"
  have bl: "length (get_buffer ?i p) = BUFFER_SIZE" using length_get_buffer b(1) i2 by blast
  have turn: "producer_turn [BUFFER_SIZE] p = Some ?p"
    using f(2) room dma_full [OF dl bl] by (simp add: producer_turn_def Let_def)
  have k: "pf_rdPtr ?p = pf_rdPtr p" "pf_currentBuffer ?p = pf_currentBuffer p" "pf_consumed ?p = pf_consumed p"
    by (simp_all add: put_buffer_def)
  have occ: "occupied ?p = occupied p + 1" using f(8) room by (simp add: occupied_def put_buffer_def)
  have len: "length (take BUFFER_SIZE ?dev) = BUFFER_SIZE" using dl by simp
  note pb = put_buffer_ok [OF b(1) len i2]
  have gb: "get_buffer j ?p = (if ?i = j then take BUFFER_SIZE ?dev else get_buffer j p)" if "j < 2" for j
    using pb(2) [OF that] by (simp add: get_buffer_def)
  have fw: "filled_words ?p = filled_words p @ take BUFFER_SIZE ?dev"
  proof -
    have "map (\<lambda>k. get_buffer ((?r + k) mod 2) ?p) [0..<occupied p] = map (\<lambda>k. get_buffer ((?r + k) mod 2) p) [0..<occupied p]"
      using room f(3,4) gb by (cases "occupied p") (auto simp: less_2_cases_iff)
    moreover have "get_buffer ((?r + occupied p) mod 2) ?p = take BUFFER_SIZE ?dev" using gb f(3) by simp
    ultimately show ?thesis unfolding filled_words_def k(1) occ by (simp del: map_eq_conv)
  qed
  have cl: "pf_currentBuffer p \<noteq> None \<Longrightarrow> unat (pf_consumed p) \<le> length (filled_words p)"
  proof -
    assume c: "pf_currentBuffer p \<noteq> None"
    then have "1 \<le> occupied p" "unat (pf_consumed p) \<le> BUFFER_SIZE" using ok by (auto simp: buffers_ok_def)
    then show ?thesis using filled_words_first [OF ok] length_get_buffer [OF b(1) f(4)] by simp
  qed
  have "word_stream ?p = word_stream p"
    unfolding word_stream_def k fw using cl by (cases "pf_currentBuffer p") simp_all
  moreover have "buffers_ok ?p"
    using ok room f(6) occ k pb(1) b(5) i2
    by (auto simp: buffers_ok_def put_buffer_def dvd_diff_nat)
  ultimately show ?thesis using turn occ k(2) by blast
qed


section \<open>Reading\<close>

lemma wait_filled_ok:
  assumes "buffers_ok p" "occupied p < 2" "pf_dma p \<noteq> []"
  obtains q where "wait_filled p = Some q" "buffers_ok q" "word_stream q = word_stream p"
  using producer_ok [OF assms] that by (auto simp: wait_filled_def)

lemma drop_buffer_ok:
  assumes ok: "buffers_ok p" and c: "pf_currentBuffer p \<noteq> None" "pf_consumed p = of_nat BUFFER_SIZE"
  shows "buffers_ok (drop_buffer p)" "word_stream (drop_buffer p) = word_stream p"
proof -
  have b: "pf_wrPtr p \<in> {0, 1, 2, 3}" "pf_rdPtr p \<in> {0, 1, 2, 3}" "occupied p \<le> 2" "length (pf_bufferSet p) = 2 * BUFFER_SIZE"
    and o: "0 < occupied p" using ok c(1) by (auto simp: buffers_ok_def)
  note f = pointer_facts [OF b(1-3)]
  have oc: "occupied (drop_buffer p) = occupied p - 1" using f(9) o by (simp add: occupied_def drop_buffer_def)
  show "buffers_ok (drop_buffer p)" using ok f(7) oc b(3) by (auto simp: buffers_ok_def drop_buffer_def)
  have g: "get_buffer j (drop_buffer p) = get_buffer j p" for j by (simp add: get_buffer_def drop_buffer_def)
  have "filled_words (drop_buffer p) = drop BUFFER_SIZE (filled_words p)"
  proof -
    have "pf_rdPtr (drop_buffer p) = (pf_rdPtr p + 1) AND 3" by (simp add: drop_buffer_def)
    then have "filled_words (drop_buffer p) =
        concat (map (\<lambda>k. get_buffer ((buf_index (pf_rdPtr p) + Suc k) mod 2) p) [0..<occupied p - 1])"
      unfolding filled_words_def oc g using f(5) by (simp add: mod_simps)
    then show ?thesis using filled_words_first [OF ok o] length_get_buffer [OF b(4) f(4)] by simp
  qed
  then show "word_stream (drop_buffer p) = word_stream p" using c by (auto simp: word_stream_def drop_buffer_def)
qed

lemma take_buffer_ok:
  assumes ok: "buffers_ok p" and c: "pf_currentBuffer p = None" "\<not> buf_empty p"
  shows "buffers_ok (take_buffer p)" "word_stream (take_buffer p) = word_stream p"
    "pf_currentBuffer (take_buffer p) = Some (buf_index (pf_rdPtr p))" "pf_rdPtr (take_buffer p) = pf_rdPtr p"
proof -
  have b: "pf_wrPtr p \<in> {0, 1, 2, 3}" "pf_rdPtr p \<in> {0, 1, 2, 3}" "occupied p \<le> 2" using ok by (auto simp: buffers_ok_def)
  have o: "occupied (take_buffer p) = occupied p" by (simp add: occupied_def take_buffer_def)
  show "buffers_ok (take_buffer p)" using ok c(2) pointer_facts(1) [OF b] o by (auto simp: buffers_ok_def take_buffer_def)
  have "filled_words (take_buffer p) = filled_words p" by (simp add: filled_words_def get_buffer_def o) (simp add: take_buffer_def)
  then show "word_stream (take_buffer p) = word_stream p" using c by (simp add: word_stream_def take_buffer_def)
qed (simp_all add: take_buffer_def)

lemma copy_out_ok:
  assumes ok: "buffers_ok p" and c: "pf_currentBuffer p = Some i"
  shows "fst (copy_out n i p) = take (copy_count n p) (word_stream p)" "buffers_ok (snd (copy_out n i p))"
    "word_stream (snd (copy_out n i p)) = drop (copy_count n p) (word_stream p)" "copy_count n p \<le> n"
proof -
  have b: "pf_wrPtr p \<in> {0, 1, 2, 3}" "pf_rdPtr p \<in> {0, 1, 2, 3}" "occupied p \<le> 2" "length (pf_bufferSet p) = 2 * BUFFER_SIZE"
    and o: "0 < occupied p" and i: "i = buf_index (pf_rdPtr p)" and cs: "unat (pf_consumed p) \<le> BUFFER_SIZE"
    using ok c by (auto simp: buffers_ok_def)
  note f = pointer_facts [OF b(1-3)]
  have lg: "length (get_buffer i p) = BUFFER_SIZE" using length_get_buffer [OF b(4) f(4)] by (simp add: i)
  have un: "unat (of_nat BUFFER_SIZE - pf_consumed p) = BUFFER_SIZE - unat (pf_consumed p)"
    using cs by (simp add: unat_sub word_le_nat_alt)
  then have cc: "copy_count n p \<le> BUFFER_SIZE - unat (pf_consumed p)" by (simp add: copy_count_def)
  show "copy_count n p \<le> n" by (simp add: copy_count_def)
  have fw: "filled_words p = get_buffer i p @ drop BUFFER_SIZE (filled_words p)"
    unfolding filled_words_first [OF ok o] using lg by (simp add: i)
  have ws: "word_stream p = drop (unat (pf_consumed p)) (get_buffer i p) @ drop BUFFER_SIZE (filled_words p) @ pf_dma p"
    unfolding word_stream_def by (subst fw) (use c cs lg in simp)
  show "fst (copy_out n i p) = take (copy_count n p) (word_stream p)"
  proof -
    let ?d = "drop (i * BUFFER_SIZE + unat (pf_consumed p)) (pf_bufferSet p)"
    have "drop (unat (pf_consumed p)) (get_buffer i p) = take (BUFFER_SIZE - unat (pf_consumed p)) ?d"
      by (simp add: get_buffer_def drop_take add.commute)
    then have "take (copy_count n p) (drop (unat (pf_consumed p)) (get_buffer i p)) = take (copy_count n p) ?d"
      using cc by (simp add: min_def)
    then show ?thesis unfolding ws using cc lg by (simp add: copy_out_def Let_def)
  qed
  have uc: "unat (pf_consumed p + of_nat (copy_count n p)) = unat (pf_consumed p) + copy_count n p"
  proof -
    have "unat (pf_consumed p) + copy_count n p \<le> BUFFER_SIZE" using cc cs by simp
    then have "unat (pf_consumed p) + copy_count n p < 2 ^ 32" by (simp add: BUFFER_SIZE_def)
    then show ?thesis by (simp add: unat_word_ariths unat_of_nat mod_simps)
  qed
  let ?q = "snd (copy_out n i p)"
  have k: "?q = p\<lparr>pf_consumed := pf_consumed p + of_nat (copy_count n p)\<rparr>" by (simp add: copy_out_def Let_def)
  have oq: "occupied ?q = occupied p" by (simp add: occupied_def k)
  have kf: "pf_bufferSet ?q = pf_bufferSet p" "pf_wrPtr ?q = pf_wrPtr p" "pf_rdPtr ?q = pf_rdPtr p" "pf_dma ?q = pf_dma p"
    "pf_currentBuffer ?q = pf_currentBuffer p" "unat (pf_consumed ?q) = unat (pf_consumed p) + copy_count n p"
    unfolding k using uc by simp_all
  have "unat (pf_consumed p) + copy_count n p \<le> BUFFER_SIZE" using cc cs by simp
  then show "buffers_ok ?q" using ok unfolding buffers_ok_def oq kf by blast
  have "filled_words ?q = filled_words p" unfolding filled_words_def oq by (simp add: k get_buffer_def)
  then have "word_stream ?q = drop (unat (pf_consumed p) + copy_count n p) (filled_words p) @ pf_dma p"
    using c uc by (simp add: word_stream_def k)
  also have "\<dots> = drop (copy_count n p) (word_stream p)"
    unfolding ws by (subst fw) (use cc cs lg in \<open>simp add: add.commute\<close>)
  finally show "word_stream ?q = drop (copy_count n p) (word_stream p)" .
qed


text \<open>Whatever is asked for is delivered in full and in order.\<close>

lemma gw_loop_stream:
  assumes "buffers_ok p" "n \<le> length (word_stream p)"
  shows "\<exists>q. gw_loop n p acc = Some (acc @ take n (word_stream p), q) \<and> buffers_ok q \<and> word_stream q = drop n (word_stream p)"
  using assms
proof (induction n p acc rule: gw_loop.induct)
  case (1 n p acc)
  show ?case
  proof (cases "n = 0")
    case True
    then show ?thesis using 1(4) by (simp add: gw_loop.simps)
  next
    case n: False
    show ?thesis
    proof (cases "pf_currentBuffer p = None \<and> buf_empty p")
      case True
      then have o: "occupied p = 0" using pointer_facts(1) 1(4) by (auto simp: buffers_ok_def)
      then have dma: "pf_dma p \<noteq> []" "occupied p < 2" using 1(5) n True by (auto simp: word_stream_def filled_words_def)
      from wait_filled_ok [OF 1(4) dma(2,1)] obtain q where q: "wait_filled p = Some q" "buffers_ok q" "word_stream q = word_stream p" .
      then show ?thesis using 1(1) [OF n True q(1) q(2)] 1(5) n True by (simp add: gw_loop.simps [of n p])
    next
      case w: False
      show ?thesis
      proof (cases "pf_currentBuffer p \<noteq> None \<and> pf_consumed p = of_nat BUFFER_SIZE")
        case True
        then have "gw_loop n p acc = gw_loop n (drop_buffer p) acc" using n by (auto simp: gw_loop.simps [of n p])
        then show ?thesis using 1(2) [OF n w True] drop_buffer_ok [OF 1(4)] True 1(5) by simp
      next
        case d: False
        define q where "q = (if pf_currentBuffer p = None then take_buffer p else p)"
        have q: "buffers_ok q" "word_stream q = word_stream p" "pf_currentBuffer q = Some (the (pf_currentBuffer q))"
          using 1(4) take_buffer_ok [of p] w by (auto simp: q_def)
        note co = copy_out_ok [OF q(1,3), of n]
        define r where "r = copy_out n (the (pf_currentBuffer q)) q"
        have step: "gw_loop n p acc = gw_loop (n - copy_count n q) (snd r) (acc @ fst r)"
          unfolding gw_loop.simps [of n p] q_def r_def Let_def if_not_P [OF n] if_not_P [OF w] if_not_P [OF d] by (rule refl)
        have len: "n - copy_count n q \<le> length (word_stream (snd r))" using co(3) q(2) 1(5) by (simp add: r_def)
        from 1(3) [OF n w d q_def r_def] co(2) len obtain q' where q':
          "gw_loop (n - copy_count n q) (snd r) (acc @ fst r) = Some ((acc @ fst r) @ take (n - copy_count n q) (word_stream (snd r)), q')"
          "buffers_ok q'" "word_stream q' = drop (n - copy_count n q) (word_stream (snd r))" by (auto simp: r_def)
        have "fst r @ take (n - copy_count n q) (word_stream (snd r)) = take n (word_stream p)"
          using co(1,3,4) q(2) by (simp add: r_def flip: take_add)
        moreover have "word_stream q' = drop n (word_stream p)" using q'(3) co(3,4) q(2) by (simp add: r_def)
        ultimately show ?thesis using step q'(1,2) by simp
      qed
    qed
  qed
qed

interpretation pfp: word_card pfp_getWords buffers_ok word_stream
proof unfold_locales
  fix c n
  assume a: "buffers_ok c" "n \<le> length (word_stream c)"
  from gw_loop_stream [OF a, of "[]"] a(1)
  show "\<exists>c'. pfp_getWords c (int n) = ((int n, take n (word_stream c)), c') \<and> buffers_ok c' \<and> word_stream c' = drop n (word_stream c)"
    by (cases "n = 0") (auto simp: pfp_getWords_def getWords_result_def)
qed


text \<open>A card that starts with damaged data and delivers one frame with two events and one that was lost.\<close>

definition card_example :: "dma_buffers daq" where
  "card_example =
     (let ws = [5, IDLE_WORD, IDLE_WORD, HEADER_WORD, push_bit 36 4 OR 7, 2, 11, 12, TRAILER_WORD, IDLE_WORD] in
      newWorker (wipe_second 1 (startWorker (newFrameServer 0)))
        \<lparr>pf_bufferSet = replicate (2 * BUFFER_SIZE) 0, pf_wrPtr = 0, pf_rdPtr = 0, pf_currentBuffer = None, pf_consumed = 0,
         pf_dma = ws @ replicate (BUFFER_SIZE - length ws) IDLE_WORD\<rparr>
        \<lparr>data = replicate MaxRawDataFrameSize 0\<rparr>)"


end
