(* ===== verification/Card_Commands.thy ===== *)
theory Card_Commands
  imports PFP_KX7
begin

text \<open>
  The registers of the card, daqd/PFP_KX7.cpp: checked reads and writes, the two rings of 16 slots for commands and replies, the
  start and the stop of the acquisition and the trigger settings. The card itself (its registers and the clock) is the
  parameter \<open>bus\<close>. A checked access repeats until two reads agree and may never return, which is \<open>None\<close>.
\<close>

section \<open>Registers\<close>

text \<open>\<open>bus_time\<close> is the system clock in microseconds, which goes on while the card is read.\<close>

record 'h bus =
  bus_read :: "int \<Rightarrow> 'h \<Rightarrow> u32 \<times> 'h"
  bus_write :: "int \<Rightarrow> u32 \<Rightarrow> 'h \<Rightarrow> 'h"
  bus_time :: "'h \<Rightarrow> int"

record 'h kx7 =
  k_hw :: 'h
  k_txWrPointer :: u32
  k_rxRdPointer :: u32
  k_threadValid :: bool
  k_threadStop :: bool
  k_dma :: dma_buffers

definition base_addr0 :: int where "base_addr0 = 0x280000"
definition ConfigReg :: int where "ConfigReg = 288"
definition txWrPointerReg :: int where "txWrPointerReg = 320"
definition DMAConfigReg :: int where "DMAConfigReg = 352"
definition txRdPointerReg :: int where "txRdPointerReg = 384"
definition rxWrPointerReg :: int where "rxWrPointerReg = 448"
definition rxRdPointerReg :: int where "rxRdPointerReg = 512"
definition ThresholdReg :: int where "ThresholdReg = 544"
definition acqStatusPointerReg :: int where "acqStatusPointerReg = 576"
definition GateEnableReg :: int where "GateEnableReg = 577"
definition CoincWindowReg :: int where "CoincWindowReg = 608"
definition CoincMasksReg :: int where "CoincMasksReg = 609"
definition statusReg :: int where "statusReg = 640"
definition base_addr1 :: int where "base_addr1 = 0x100000"
definition ExtClk0 :: int where "ExtClk0 = 0x20000"
definition Osc0 :: int where "Osc0 = 0x200"

definition reg_addr :: "int \<Rightarrow> int" where
  "reg_addr r = base_addr0 + r * 4"

primrec WriteWithoutCheck :: "'h bus \<Rightarrow> int \<Rightarrow> u32 list \<Rightarrow> 'h \<Rightarrow> 'h" where
  "WriteWithoutCheck b reg [] h = h"
| "WriteWithoutCheck b reg (d # ds) h = WriteWithoutCheck b (reg + 4) ds (bus_write b reg d h)"

primrec ReadWithoutCheck :: "'h bus \<Rightarrow> int \<Rightarrow> nat \<Rightarrow> 'h \<Rightarrow> u32 list \<times> 'h" where
  "ReadWithoutCheck b reg 0 h = ([], h)"
| "ReadWithoutCheck b reg (Suc n) h =
     (let (d, h) = bus_read b reg h; (ds, h) = ReadWithoutCheck b (reg + 4) n h in (d # ds, h))"

partial_function (option) WriteAndCheck :: "'h bus \<Rightarrow> int \<Rightarrow> u32 list \<Rightarrow> 'h \<Rightarrow> 'h option" where
  "WriteAndCheck b reg ds h =
     (let (rb, h) = ReadWithoutCheck b reg (length ds) (WriteWithoutCheck b reg ds h) in
      if rb = ds then Some h else WriteAndCheck b reg ds h)"

partial_function (option) ReadAndCheck :: "'h bus \<Rightarrow> int \<Rightarrow> nat \<Rightarrow> 'h \<Rightarrow> (u32 list \<times> 'h) option" where
  "ReadAndCheck b reg n h =
     (let (ds, h) = ReadWithoutCheck b reg n h; (rb, h) = ReadWithoutCheck b reg n h in
      if rb = ds then Some (ds, h) else ReadAndCheck b reg n h)"

text \<open>Accesses of the registers above \<open>base_addr0\<close> on the state of the driver.\<close>

definition read_reg :: "'h bus \<Rightarrow> int \<Rightarrow> nat \<Rightarrow> 'h kx7 \<Rightarrow> (u32 list \<times> 'h kx7) option" where
  "read_reg b r n k = map_option (\<lambda>(ds, h). (ds, k\<lparr>k_hw := h\<rparr>)) (ReadAndCheck b (reg_addr r) n (k_hw k))"

definition write_reg :: "'h bus \<Rightarrow> int \<Rightarrow> u32 list \<Rightarrow> 'h kx7 \<Rightarrow> 'h kx7 option" where
  "write_reg b r ds k = map_option (\<lambda>h. k\<lparr>k_hw := h\<rparr>) (WriteAndCheck b (reg_addr r) ds (k_hw k))"

section \<open>Commands and replies\<close>

text \<open>A packet of 64 bit words is copied in 32 bit halves, the lower one first.\<close>

definition split_words :: "u64 list \<Rightarrow> u32 list" where
  "split_words ws = concat (map (\<lambda>w. [ucast w, ucast (drop_bit 32 w)]) ws)"

fun join_words :: "u32 list \<Rightarrow> u64 list" where
  "join_words (lo # hi # ds) = (ucast lo OR push_bit 32 (ucast hi)) # join_words ds"
| "join_words _ = []"

partial_function (option) clearReplyQueue :: "'h bus \<Rightarrow> 'h kx7 \<Rightarrow> 'h kx7 option" where
  "clearReplyQueue b k =
     Option.bind (read_reg b rxWrPointerReg 1 k) (\<lambda>(ds, k).
       if hd ds AND 31 = k_rxRdPointer k AND 31 then Some k
       else
         let k = k\<lparr>k_rxRdPointer := (hd ds AND 31) OR 0xFACE9100\<rparr> in
         Option.bind (write_reg b rxRdPointerReg [k_rxRdPointer k] k) (clearReplyQueue b))"

definition tx_full :: "u32 \<Rightarrow> u32 \<Rightarrow> bool" where
  "tx_full w r \<longleftrightarrow> w AND 16 \<noteq> r AND 16 \<and> w AND 15 = r AND 15"

text \<open>The polling loops, from a start time on: \<open>Some None\<close> inside the option is the time-out.\<close>

partial_function (option) wait_tx :: "'h bus \<Rightarrow> int \<Rightarrow> 'h kx7 \<Rightarrow> (u32 option \<times> 'h kx7) option" where
  "wait_tx b start k =
     Option.bind (read_reg b txRdPointerReg 1 k) (\<lambda>(ds, k).
       if (bus_time b (k_hw k) - start) div 1000 > 10 then Some (None, k)
       else if tx_full (k_txWrPointer k) (hd ds) then wait_tx b start k
       else Some (Some (hd ds), k))"

definition sendCommand :: "'h bus \<Rightarrow> u64 list \<Rightarrow> 'h kx7 \<Rightarrow> (int \<times> 'h kx7) option" where
  "sendCommand b packet k =
     (if length packet > 64 then Some (-1, k)
      else
        Option.bind (wait_tx b (bus_time b (k_hw k)) k) (\<lambda>(rd, k).
          case rd of
            None \<Rightarrow> Some (-1, k)
          | Some _ \<Rightarrow>
              let wrSlot = uint (k_txWrPointer k AND 15) in
              Option.bind (write_reg b (wrSlot * 16) (split_words packet) k) (\<lambda>k.
                let k = k\<lparr>k_txWrPointer := ((k_txWrPointer k + 1) AND 31) OR 0xCAFE1500\<rparr> in
                map_option (\<lambda>k. (0, k)) (write_reg b txWrPointerReg [k_txWrPointer k] k))))"

partial_function (option) wait_rx :: "'h bus \<Rightarrow> int \<Rightarrow> 'h kx7 \<Rightarrow> (bool \<times> 'h kx7) option" where
  "wait_rx b start k =
     Option.bind (read_reg b rxWrPointerReg 1 k) (\<lambda>(ds, k).
       if (bus_time b (k_hw k) - start) div 1000 > 10 then Some (False, k)
       else if hd ds AND 31 = k_rxRdPointer k AND 31 then wait_rx b start k
       else Some (True, k))"

text \<open>The result is the return value and the words stored in the caller's buffer, if any; the caller's buffer has eight words.\<close>

definition recvReply :: "'h bus \<Rightarrow> 'h kx7 \<Rightarrow> ((int \<times> u64 list) \<times> 'h kx7) option" where
  "recvReply b k =
     Option.bind (wait_rx b (bus_time b (k_hw k)) k) (\<lambda>(got, k).
       if \<not> got then Some ((-1, []), k)
       else
         let rdSlot = uint (k_rxRdPointer k AND 15) in
         Option.bind (read_reg b (768 + rdSlot * 16) 16 k) (\<lambda>(ds, k).
           let k = k\<lparr>k_rxRdPointer := ((k_rxRdPointer k + 1) AND 31) OR 0xFACE9100\<rparr> in
           map_option (\<lambda>k. ((8, join_words ds), k)) (write_reg b rxRdPointerReg [k_rxRdPointer k] k)))"

section \<open>Settings\<close>

text \<open>
  Starting resets the pointers of the buffers but not \<open>currentBuffer\<close>. \<open>final\<close> is what the filling thread still does
  before it has ended.
\<close>

definition start_thread :: "'h kx7 \<Rightarrow> 'h kx7" where
  "start_thread k =
     (if k_threadValid k then k
      else k\<lparr>k_dma := (k_dma k)\<lparr>pf_wrPtr := 0, pf_rdPtr := 0, pf_consumed := of_nat BUFFER_SIZE\<rparr>,
             k_threadStop := False, k_threadValid := True\<rparr>)"

definition stop_thread :: "(dma_buffers \<Rightarrow> dma_buffers) \<Rightarrow> 'h kx7 \<Rightarrow> 'h kx7" where
  "stop_thread final k =
     (if k_threadValid k then k\<lparr>k_threadStop := True, k_dma := final (k_dma k), k_threadValid := False\<rparr> else k)"

definition acq_word :: "bool \<Rightarrow> u32" where
  "acq_word enable = (if enable then 0x000FFFF else 0xFFFF0000)"

definition setAcquistionOnOff :: "'h bus \<Rightarrow> (dma_buffers \<Rightarrow> dma_buffers) \<Rightarrow> bool \<Rightarrow> 'h kx7 \<Rightarrow> (int \<times> 'h kx7) option" where
  "setAcquistionOnOff b final enable k =
     Option.bind (write_reg b acqStatusPointerReg [acq_word enable] k) (\<lambda>k.
     Option.bind (write_reg b acqStatusPointerReg [acq_word enable] k) (\<lambda>k.
       Some (1, if enable then start_thread k else stop_thread final k)))"

definition getPortUp :: "'h bus \<Rightarrow> 'h kx7 \<Rightarrow> (u64 \<times> 'h kx7) option" where
  "getPortUp b k = map_option (\<lambda>(ds, k). (ucast (hd ds), k)) (read_reg b statusReg 1 k)"

definition getPortCounts :: "'h bus \<Rightarrow> int \<Rightarrow> int \<Rightarrow> 'h kx7 \<Rightarrow> u64 \<times> 'h kx7" where
  "getPortCounts b channel whichCount k =
     (let (ds, h) = ReadWithoutCheck b (reg_addr (statusReg + 1 + 6 * channel + 2 * whichCount)) 2 (k_hw k) in
      (hd (join_words ds), k\<lparr>k_hw := h\<rparr>))"

definition setSorter :: "'h bus \<Rightarrow> u32 \<Rightarrow> 'h kx7 \<Rightarrow> (int \<times> 'h kx7) option" where
  "setSorter b mode k =
     Option.bind (read_reg b ConfigReg 1 k) (\<lambda>(ds, k).
       let currentSetting = (hd ds AND 0xEFFFFFFF) OR (if mode = 0 then 0x10000000 else 0) in
       map_option (\<lambda>k. (0, k)) (write_reg b ConfigReg [currentSetting] k))"

record CoincidenceTriggerConfig =
  tc_enable :: u32
  tc_minToT :: u32
  tc_cWindow :: u32
  tc_preWindow :: u32
  tc_postWindow :: u32
  tc_singlesFraction :: u32
  tc_mask :: "u32 list"

definition window_word :: "CoincidenceTriggerConfig \<Rightarrow> u32" where
  "window_word c =
     (let pre = (if tc_preWindow c > 0xF then 0xF else tc_preWindow c);
          post = (if tc_postWindow c > 0x3F then 0x3F else tc_postWindow c);
          cw = (if tc_cWindow c > 0x3 then 0x3 else tc_cWindow c)
      in pre OR push_bit 8 post OR push_bit 20 cw)"

definition mask_word :: "CoincidenceTriggerConfig \<Rightarrow> nat \<Rightarrow> u32" where
  "mask_word c n = (tc_mask c ! (2 * n) AND 0xFFF) OR push_bit 16 (tc_mask c ! (2 * n + 1) AND 0xFFF)"

primrec write_regs :: "'h bus \<Rightarrow> (int \<times> u32 list) list \<Rightarrow> 'h kx7 \<Rightarrow> 'h kx7 option" where
  "write_regs b [] k = Some k"
| "write_regs b (x # xs) k = Option.bind (write_reg b (fst x) (snd x) k) (write_regs b xs)"

definition setCoincidenceTrigger :: "'h bus \<Rightarrow> CoincidenceTriggerConfig option \<Rightarrow> 'h kx7 \<Rightarrow> (int \<times> 'h kx7) option" where
  "setCoincidenceTrigger b config k =
     map_option (\<lambda>k. (0, k))
       (case config of
          Some c \<Rightarrow>
            if tc_enable c = 0 then
              write_regs b ([(CoincWindowReg, [0x0F000000]), (ThresholdReg, [0])] @ map (\<lambda>n. (CoincMasksReg + int n, [0])) [0..<6]) k
            else
              write_regs b [(CoincWindowReg, [window_word c]), (ThresholdReg, [tc_minToT c]),
                            (CoincMasksReg, map (mask_word c) [0..<6])] k
        | None \<Rightarrow>
            write_regs b ([(CoincWindowReg, [0x0F000000]), (ThresholdReg, [0])] @ map (\<lambda>n. (CoincMasksReg + int n, [0])) [0..<6]) k)"

definition setGateEnable :: "'h bus \<Rightarrow> u32 \<Rightarrow> 'h kx7 \<Rightarrow> (int \<times> 'h kx7) option" where
  "setGateEnable b mode k = map_option (\<lambda>k. (1, k)) (write_reg b GateEnableReg [acq_word (mode \<noteq> 0)] k)"

section \<open>Setting up the card\<close>

partial_function (option) wait_osc :: "'h bus \<Rightarrow> 'h \<Rightarrow> 'h option" where
  "wait_osc b h =
     (let (d, h) = bus_read b (base_addr1 + 0x10) h in if d \<noteq> 0 then wait_osc b h else Some h)"

definition TARGET_EXT_CLK_FREQUENCY :: int where
  "TARGET_EXT_CLK_FREQUENCY = 200000000"

text \<open>The comparison in doubles of the constructor: \<open>num\<close> / 100000 of the nominal frequency.\<close>

definition clock_bound :: "int \<Rightarrow> fp" where
  "clock_bound num = fp_mul F64 (fp_div F64 (fp_of_int F64 num) (fp_of_int F64 100000)) (fp_of_int F64 TARGET_EXT_CLK_FREQUENCY)"

definition set_oscillator :: "'h bus \<Rightarrow> 'h \<Rightarrow> 'h option" where
  "set_oscillator b h =
     (let (f, h) = bus_read b (base_addr1 + ExtClk0) h; freq = fp_of_int F64 (uint f) in
      if fp_lt freq (clock_bound 99995) \<or> fp_gt freq (clock_bound 100005) then
        Option.bind (wait_osc b (bus_write b (base_addr1 + 0x18) 1 h)) (\<lambda>h.
          wait_osc b (bus_write b (base_addr1 + Osc0) (word_of_int (TARGET_EXT_CLK_FREQUENCY div 10000)) h))
      else Some h)"

text \<open>\<open>dma0\<close> holds the members the constructor leaves uninitialised; the worker is started afterwards.\<close>

definition new_PFP_KX7 :: "'h bus \<Rightarrow> dma_buffers \<Rightarrow> 'h \<Rightarrow> 'h kx7 option" where
  "new_PFP_KX7 b dma0 h =
     Option.bind (set_oscillator b h) (\<lambda>h.
       let h = WriteWithoutCheck b (reg_addr ConfigReg) [0x19000000] h;
           h = WriteWithoutCheck b (reg_addr ThresholdReg) [0] h;
           h = WriteWithoutCheck b (reg_addr CoincWindowReg) [0x0F000000] h;
           h = WriteWithoutCheck b (reg_addr CoincMasksReg) (replicate 6 0xFFFFFFFF) h;
           h = WriteWithoutCheck b (reg_addr DMAConfigReg) [0x08000000 + 262144 div 16] h;
           h = snd (ReadWithoutCheck b (reg_addr statusReg) 1 h);
           k = \<lparr>k_hw = h, k_txWrPointer = 0, k_rxRdPointer = 0, k_threadValid = False, k_threadStop = False, k_dma = dma0\<rparr>
       in Option.bind (read_reg b txRdPointerReg 1 k) (\<lambda>(ds, k).
          let k = k\<lparr>k_txWrPointer := hd ds\<rparr> in
          Option.bind (write_reg b txWrPointerReg [k_txWrPointer k] k) (\<lambda>k.
          Option.bind (read_reg b rxWrPointerReg 1 k) (\<lambda>(ds, k).
          let k = k\<lparr>k_rxRdPointer := hd ds\<rparr> in
          Option.bind (write_reg b rxRdPointerReg [k_rxRdPointer k] k) (\<lambda>k.
          map_option snd (setAcquistionOnOff b id False k))))))"

section \<open>What checked accesses do\<close>

text \<open>
  What the driver relies on: the registers of \<open>own\<close>, whose contents are \<open>view\<close>, change only by its own writes and can be
  read back, time passes while the card is read, and repeated reads settle. The card may change all other registers.
\<close>

definition lawful :: "'h bus \<Rightarrow> ('h \<Rightarrow> int \<Rightarrow> u32) \<Rightarrow> int set \<Rightarrow> bool" where
  "lawful b view own \<longleftrightarrow>
     (\<forall>h r. r \<in> own \<longrightarrow> fst (bus_read b r h) = view h r)
   \<and> (\<forall>h r q. q \<in> own \<longrightarrow> view (snd (bus_read b r h)) q = view h q)
   \<and> (\<forall>h r v q. r \<in> own \<longrightarrow> q \<in> own \<longrightarrow> view (bus_write b r v h) q = (if q = r then v else view h q))
   \<and> (\<forall>h r. bus_time b h < bus_time b (snd (bus_read b r h)))
   \<and> (\<forall>h r n. ReadAndCheck b r n h \<noteq> None)"

lemma lawfulD:
  assumes "lawful b view own"
  shows "r \<in> own \<Longrightarrow> fst (bus_read b r h) = view h r" "q \<in> own \<Longrightarrow> view (snd (bus_read b r h)) q = view h q"
    "r \<in> own \<Longrightarrow> q \<in> own \<Longrightarrow> view (bus_write b r v h) q = (if q = r then v else view h q)"
    "bus_time b h < bus_time b (snd (bus_read b r h))" "\<exists>ds h'. ReadAndCheck b r n h = Some (ds, h')"
  using assms by (auto simp: lawful_def)

primrec written :: "int \<Rightarrow> u32 list \<Rightarrow> (int \<Rightarrow> u32) \<Rightarrow> int \<Rightarrow> u32" where
  "written a [] f = f"
| "written a (d # ds) f = written (a + 4) ds (f(a := d))"

lemma written_outside: "(\<And>i. i < length ds \<Longrightarrow> q \<noteq> a + 4 * int i) \<Longrightarrow> written a ds f q = f q"
proof (induction ds arbitrary: a f)
  case (Cons d ds)
  have "q \<noteq> a + 4 + 4 * int i" if "i < length ds" for i using Cons.prems [of "Suc i"] that by simp
  then have "written (a + 4) ds (f(a := d)) q = (f(a := d)) q" by (rule Cons.IH)
  moreover have "q \<noteq> a" using Cons.prems [of 0] by simp
  ultimately show ?case by simp
qed simp

lemma written_inside: "i < length ds \<Longrightarrow> written a ds f (a + 4 * int i) = ds ! i"
proof (induction ds arbitrary: a f i)
  case (Cons d ds)
  show ?case
  proof (cases i)
    case 0
    have "written (a + 4) ds (f(a := d)) a = (f(a := d)) a" by (rule written_outside) simp
    then show ?thesis using 0 by simp
  next
    case (Suc j)
    have e: "a + 4 * int i = a + 4 + 4 * int j" by (simp add: Suc)
    have "j < length ds" using Suc Cons.prems by simp
    then have "written (a + 4) ds (f(a := d)) (a + 4 + 4 * int j) = ds ! j" by (rule Cons.IH)
    then show ?thesis unfolding e written.simps by (simp add: Suc)
  qed
qed simp

lemma written_cong: "q \<in> own \<Longrightarrow> (\<And>r. r \<in> own \<Longrightarrow> f r = g r) \<Longrightarrow> written a ds f q = written a ds g q"
proof (induction ds arbitrary: a f g)
  case (Cons d ds)
  have "written (a + 4) ds (f(a := d)) q = written (a + 4) ds (g(a := d)) q"
    by (rule Cons.IH [OF Cons.prems(1)]) (simp add: Cons.prems(2))
  then show ?case by simp
qed simp

definition block :: "int \<Rightarrow> nat \<Rightarrow> int set" where
  "block a n = (\<lambda>i. a + 4 * int i) ` {..<n}"

lemma block_Suc: "block a (Suc n) = insert a (block (a + 4) n)"
  by (simp add: block_def lessThan_Suc_eq_insert_0 image_image algebra_simps)

lemma write_block_view:
  assumes l: "lawful b view own"
  shows "block a (length ds) \<subseteq> own \<Longrightarrow> q \<in> own \<Longrightarrow> view (WriteWithoutCheck b a ds h) q = written a ds (view h) q"
proof (induction ds arbitrary: a h)
  case (Cons d ds)
  then have s: "a \<in> own" "block (a + 4) (length ds) \<subseteq> own" by (simp_all add: block_Suc)
  have "view (WriteWithoutCheck b a (d # ds) h) q = written (a + 4) ds (view (bus_write b a d h)) q"
    using Cons.IH [OF s(2) Cons.prems(2)] by simp
  also have "\<dots> = written (a + 4) ds ((view h)(a := d)) q"
    using lawfulD(3) [OF l s(1)] by (intro written_cong [OF Cons.prems(2)]) simp
  finally show ?case by simp
qed simp

lemma read_block_view:
  assumes l: "lawful b view own" and r: "ReadWithoutCheck b a n h = (ds, h')"
  shows "length ds = n \<and> (\<forall>q \<in> own. view h' q = view h q) \<and> bus_time b h \<le> bus_time b h' \<and> (0 < n \<longrightarrow> bus_time b h < bus_time b h')"
  using r
proof (induction n arbitrary: a h ds)
  case (Suc n)
  obtain d h1 where d: "bus_read b a h = (d, h1)" by fastforce
  obtain es h2 where e: "ReadWithoutCheck b (a + 4) n h1 = (es, h2)" by fastforce
  have e': "ReadWithoutCheck b (a + 4) n h1 = (es, h')" "ds = d # es" using Suc.prems d e by auto
  from Suc.IH [OF e'(1)] lawfulD(2,4) [OF l, where r = a and h = h] d e'(2) show ?case by force
qed simp

lemma read_block_own:
  assumes l: "lawful b view own"
  shows "block a n \<subseteq> own \<Longrightarrow> fst (ReadWithoutCheck b a n h) = map (\<lambda>i. view h (a + 4 * int i)) [0..<n]"
proof (induction n arbitrary: a h)
  case (Suc n)
  then have s: "a \<in> own" "block (a + 4) n \<subseteq> own" by (simp_all add: block_Suc)
  obtain d h1 where d: "bus_read b a h = (d, h1)" by fastforce
  obtain ds h2 where e: "ReadWithoutCheck b (a + 4) n h1 = (ds, h2)" by fastforce
  have "d = view h a" "\<And>q. q \<in> own \<Longrightarrow> view h1 q = view h q" using lawfulD(1,2) [OF l, where r = a and h = h] d s(1) by auto
  moreover have "ds = map (\<lambda>i. view h1 (a + 4 + 4 * int i)) [0..<n]" using Suc.IH [OF s(2), of h1] e by simp
  moreover have "a + 4 + 4 * int i \<in> own" if "i < n" for i using s(2) that by (auto simp: block_def)
  ultimately show ?case using d e by (simp add: upt_conv_Cons map_Suc_upt [symmetric] comp_def algebra_simps del: upt_Suc)
qed simp

text \<open>A checked write of the driver's own registers returns at once, with the words stored.\<close>

lemma WriteAndCheck_own:
  assumes l: "lawful b view own" and s: "block a (length ds) \<subseteq> own"
  obtains h' where "WriteAndCheck b a ds h = Some h'" "\<And>q. q \<in> own \<Longrightarrow> view h' q = written a ds (view h) q"
proof -
  let ?h = "WriteWithoutCheck b a ds h"
  obtain rb h' where r: "ReadWithoutCheck b a (length ds) ?h = (rb, h')" by fastforce
  have v: "view ?h (a + 4 * int i) = ds ! i" if "i < length ds" for i
  proof -
    have "a + 4 * int i \<in> own" using s that by (auto simp: block_def)
    then show ?thesis using write_block_view [OF l s] written_inside [OF that] by simp
  qed
  have "rb = map (\<lambda>i. view ?h (a + 4 * int i)) [0..<length ds]" using read_block_own [OF l s, of ?h] r by simp
  also have "\<dots> = ds" using v by (intro nth_equalityI) simp_all
  finally have rb: "rb = ds" .
  have "WriteAndCheck b a ds h = Some h'" by (subst WriteAndCheck.simps) (simp add: r rb)
  moreover have "view h' q = written a ds (view h) q" if "q \<in> own" for q
    using read_block_view [OF l r] write_block_view [OF l s that] that by simp
  ultimately show ?thesis using that by blast
qed

definition keeps_own :: "'h bus \<Rightarrow> ('h \<Rightarrow> int \<Rightarrow> u32) \<Rightarrow> int set \<Rightarrow> 'h \<Rightarrow> 'h \<Rightarrow> bool" where
  "keeps_own b view own h h' \<longleftrightarrow> (\<forall>q \<in> own. view h' q = view h q) \<and> bus_time b h < bus_time b h'"

lemma keeps_own_trans: "keeps_own b view own h h1 \<Longrightarrow> keeps_own b view own h1 h2 \<Longrightarrow> keeps_own b view own h h2"
  by (simp add: keeps_own_def)

lemma ReadAndCheck_keeps:
  assumes l: "lawful b view own" and r: "ReadAndCheck b a n h = Some y" and n: "0 < n"
  shows "length (fst y) = n \<and> keeps_own b view own h (snd y)"
proof -
  let ?P = "\<lambda>b a n h y. lawful b view own \<longrightarrow> 0 < n \<longrightarrow> length (fst y) = n \<and> keeps_own b view own h (snd y)"
  have "?P b a n h y"
  proof (rule ReadAndCheck.raw_induct [where P = ?P, OF _ r], intro impI, goal_cases)
    case (1 f b a n h y)
    obtain ds h1 where d: "ReadWithoutCheck b a n h = (ds, h1)" by fastforce
    obtain rb h2 where e: "ReadWithoutCheck b a n h1 = (rb, h2)" by fastforce
    have k1: "length ds = n" "keeps_own b view own h h1" using read_block_view [OF 1(3) d] 1(4) by (simp_all add: keeps_own_def)
    have k2: "keeps_own b view own h1 h2" using read_block_view [OF 1(3) e] 1(4) by (simp add: keeps_own_def)
    note k = keeps_own_trans [OF k1(2) k2]
    show ?case
    proof (cases "rb = ds")
      case True
      then show ?thesis using 1(2) d e k k1(1) by auto
    next
      case False
      then have "f b a n h2 = Some y" using 1(2) d e by simp
      from 1(1) [OF this] 1(3,4) show ?thesis using keeps_own_trans [OF k] by blast
    qed
  qed
  then show ?thesis using l n by blast
qed

lemma read_reg_ok:
  assumes l: "lawful b view own"
  obtains d k' where "read_reg b r 1 k = Some ([d], k')" "k' = k\<lparr>k_hw := k_hw k'\<rparr>" "keeps_own b view own (k_hw k) (k_hw k')"
proof -
  obtain ds h where r: "ReadAndCheck b (reg_addr r) 1 (k_hw k) = Some (ds, h)" using lawfulD(5) [OF l] by blast
  from ReadAndCheck_keeps [OF l r] have s: "length ds = 1" "keeps_own b view own (k_hw k) h" by simp_all
  then obtain d where d: "ds = [d]" by (cases ds) auto
  have "read_reg b r 1 k = Some ([d], k\<lparr>k_hw := h\<rparr>)" using r by (simp add: read_reg_def d)
  from that [OF this] s(2) show ?thesis by simp
qed

lemma write_reg_ok:
  assumes l: "lawful b view own" and s: "block (reg_addr r) (length ds) \<subseteq> own"
  obtains k' where "write_reg b r ds k = Some k'" "k' = k\<lparr>k_hw := k_hw k'\<rparr>"
    "\<And>q. q \<in> own \<Longrightarrow> view (k_hw k') q = written (reg_addr r) ds (view (k_hw k)) q"
proof -
  from WriteAndCheck_own [OF assms, of "k_hw k"] obtain h where h: "WriteAndCheck b (reg_addr r) ds (k_hw k) = Some h"
    "\<And>q. q \<in> own \<Longrightarrow> view h q = written (reg_addr r) ds (view (k_hw k)) q" by blast
  have "write_reg b r ds k = Some (k\<lparr>k_hw := h\<rparr>)" by (simp add: write_reg_def h(1))
  from that [OF this] h(2) show ?thesis by simp
qed

section \<open>The ring of commands\<close>

text \<open>The wait for a free slot ends, with a free slot or with a time-out; nothing is written.\<close>

lemma wait_tx_ok:
  assumes l: "lawful b view own"
  shows "\<exists>r k'. wait_tx b start k = Some (r, k') \<and> k' = k\<lparr>k_hw := k_hw k'\<rparr> \<and> (\<forall>q \<in> own. view (k_hw k') q = view (k_hw k) q)
     \<and> (\<forall>x. r = Some x \<longrightarrow> \<not> tx_full (k_txWrPointer k) x)"
proof (induction "nat (start + 11000 - bus_time b (k_hw k))" arbitrary: k rule: less_induct)
  case less
  from read_reg_ok [OF l, of txRdPointerReg k] obtain d k1 where r: "read_reg b txRdPointerReg 1 k = Some ([d], k1)"
    "k1 = k\<lparr>k_hw := k_hw k1\<rparr>" "keeps_own b view own (k_hw k) (k_hw k1)" .
  have same: "k_txWrPointer k1 = k_txWrPointer k" "\<And>h. k1\<lparr>k_hw := h\<rparr> = k\<lparr>k_hw := h\<rparr>" by (subst r(2), simp)+
  have v: "\<forall>q \<in> own. view (k_hw k1) q = view (k_hw k) q" using r(3) by (simp add: keeps_own_def)
  show ?case
  proof (cases "(bus_time b (k_hw k1) - start) div 1000 > 10 \<or> \<not> tx_full (k_txWrPointer k) d")
    case True
    then show ?thesis using r(1,2) v by (subst wait_tx.simps) (auto simp: same(1))
  next
    case False
    then have "nat (start + 11000 - bus_time b (k_hw k1)) < nat (start + 11000 - bus_time b (k_hw k))"
      using r(3) by (simp add: keeps_own_def) linarith
    from less [OF this] obtain x k' where w: "wait_tx b start k1 = Some (x, k')" "k' = k1\<lparr>k_hw := k_hw k'\<rparr>"
      "\<forall>q \<in> own. view (k_hw k') q = view (k_hw k1) q" "\<forall>y. x = Some y \<longrightarrow> \<not> tx_full (k_txWrPointer k1) y" by blast
    have "wait_tx b start k = Some (x, k')" using False r(1) w(1) by (subst wait_tx.simps) (simp add: same(1))
    then show ?thesis using w(2-4) v same by (intro exI [of _ x] exI [of _ k']) simp
  qed
qed

text \<open>The words of a slot, and the commands the card has not taken yet, seen from a write and a read pointer.\<close>

definition slot_addr :: "nat \<Rightarrow> int" where
  "slot_addr s = reg_addr (int s * 16)"

definition slot_words :: "(int \<Rightarrow> u32) \<Rightarrow> nat \<Rightarrow> u32 list" where
  "slot_words v s = map (\<lambda>j. v (slot_addr s + 4 * int j)) [0..<16]"

definition pending_count :: "u32 \<Rightarrow> u32 \<Rightarrow> nat" where
  "pending_count w r = (unat w mod 32 + 32 - unat r mod 32) mod 32"

definition pending :: "(int \<Rightarrow> u32) \<Rightarrow> u32 \<Rightarrow> u32 \<Rightarrow> u32 list list" where
  "pending v w r = map (\<lambda>i. slot_words v ((unat r + i) mod 16)) [0..<pending_count w r]"

lemma low_bits: "unat (w AND 15 :: u32) = unat w mod 16" "unat (w AND 31 :: u32) = unat w mod 32"
proof -
  have m: "(15 :: u32) = mask 4" "(31 :: u32) = mask 5" by (simp_all add: mask_eq_exp_minus_1)
  show "unat (w AND 15 :: u32) = unat w mod 16" "unat (w AND 31 :: u32) = unat w mod 32"
    unfolding m by (simp_all only: take_bit_eq_mask [symmetric] unsigned_take_bit_eq take_bit_eq_mod) (simp_all add: unat_mod)
qed

lemma next_pointer:
  assumes "t AND 31 = 0"
  shows "unat (((w + 1) AND 31) OR t :: u32) mod 32 = (unat w + 1) mod 32"
proof -
  have "(((w + 1) AND 31) OR t) AND 31 = (w + 1) AND 31" using assms by (simp add: word_ao_dist and.assoc)
  then have "unat (((w + 1) AND 31) OR t) mod 32 = unat (w + 1) mod 32" unfolding low_bits(2) [symmetric] by simp
  then show ?thesis by (simp add: unat_word_ariths mod_mod_cancel)
qed

lemma next_count:
  assumes "(a :: nat) < 32" "c < 32" "(a + 32 - c) mod 32 < 16"
  shows "((a + 1) mod 32 + 32 - c) mod 32 = Suc ((a + 32 - c) mod 32)"
proof -
  have m: "(a + 1) mod 32 < 32" by simp
  have e: "(a + 1) mod 32 = (if a = 31 then 0 else a + 1)" using assms(1) by (simp add: mod_if)
  show ?thesis using assms unfolding mod_between [OF assms(2,1)] mod_between [OF assms(2) m] unfolding e by (auto split: if_splits)
qed

lemma ring_end:
  assumes "(a :: nat) < 32" "c < 32"
  shows "(c + (if c \<le> a then a - c else a + 32 - c)) mod 16 = a mod 16"
proof (cases "c \<le> a")
  case False
  have "c + (a + 32 - c) = a + 2 * 16" using assms by simp
  then show ?thesis using False by (simp only: if_False mod_mult_self1)
qed simp

lemma ring_full:
  assumes "(a :: nat) < 32" "c < 32"
  shows "a \<noteq> c \<and> (if a < 16 then a else a - 16) = (if c < 16 then c else c - 16)
    \<longleftrightarrow> (if c \<le> a then a - c else a + 32 - c) = 16"
  using assms by auto

lemma pending_count_eq: "pending_count w r =
    (if unat r mod 32 \<le> unat w mod 32 then unat w mod 32 - unat r mod 32 else unat w mod 32 + 32 - unat r mod 32)"
  unfolding pending_count_def by (rule mod_between) simp_all

lemma mod_32_16: "(x :: nat) mod 16 = (if x mod 32 < 16 then x mod 32 else x mod 32 - 16)"
proof -
  have "x mod 16 = x mod 32 mod 16" by (rule mod_mod_cancel [symmetric]) simp
  moreover have "x mod 32 < 32" by simp
  moreover have "y mod 16 = (if y < 16 then y else y - 16)" if "y < 32" for y :: nat using that by (simp add: mod_if)
  ultimately show ?thesis by metis
qed

lemma pending_end: "(unat r + pending_count w r) mod 16 = unat w mod 16"
proof -
  have "(unat r mod 32 + pending_count w r) mod 16 = unat w mod 32 mod 16"
    unfolding pending_count_eq by (rule ring_end) simp_all
  moreover have "x mod 32 mod 16 = x mod 16" for x :: nat by (rule mod_mod_cancel) simp
  ultimately show ?thesis by (metis mod_add_left_eq)
qed

lemma tx_full_iff: "tx_full w r \<longleftrightarrow> pending_count w r = 16"
proof -
  have parts: "x AND 31 = (x AND 16) OR (x AND 15)" for x :: u32
  proof -
    have "(31 :: u32) = 16 OR 15" by simp
    then show ?thesis by (simp only: bit.conj_disj_distrib)
  qed
  have again16: "(x AND 31) AND 16 = x AND 16" for x :: u32 by (simp add: and.assoc)
  have "tx_full w r \<longleftrightarrow> w AND 31 \<noteq> r AND 31 \<and> w AND 15 = r AND 15"
    unfolding tx_full_def using parts [of w] parts [of r] again16 [of w] again16 [of r] by metis
  also have "\<dots> \<longleftrightarrow> unat w mod 32 \<noteq> unat r mod 32 \<and> unat w mod 16 = unat r mod 16"
    unfolding word_unat_eq_iff low_bits ..
  also have "\<dots> \<longleftrightarrow> pending_count w r = 16"
    unfolding pending_count_eq mod_32_16 by (rule ring_full) simp_all
  finally show ?thesis .
qed

lemma length_split_words: "length (split_words ws) = 2 * length ws"
  by (induction ws) (simp_all add: split_words_def)

lemma slot_in_block: "s < 16 \<Longrightarrow> n \<le> 16 \<Longrightarrow> block (slot_addr s) n \<subseteq> block (reg_addr 0) 256"
proof
  fix x
  assume s: "s < 16" "n \<le> 16" and "x \<in> block (slot_addr s) n"
  then obtain i where "i < n" "x = slot_addr s + 4 * int i" by (auto simp: block_def)
  then have "x = reg_addr 0 + 4 * int (s * 16 + i)" "s * 16 + i < 256" using s by (simp_all add: slot_addr_def reg_addr_def)
  then show "x \<in> block (reg_addr 0) 256" unfolding block_def by blast
qed

lemma slot_words_written:
  assumes "length ds \<le> 16"
  shows "slot_words (written (slot_addr s) ds v) t = (if s = t then ds @ drop (length ds) (slot_words v s) else slot_words v t)"
proof (cases "s = t")
  case True
  have "written (slot_addr s) ds v (slot_addr s + 4 * int j) = (ds @ drop (length ds) (slot_words v s)) ! j" if "j < 16" for j
  proof (cases "j < length ds")
    case True
    then show ?thesis by (simp add: written_inside nth_append)
  next
    case False
    then have "written (slot_addr s) ds v (slot_addr s + 4 * int j) = v (slot_addr s + 4 * int j)" by (intro written_outside) auto
    then show ?thesis using False that assms by (simp add: nth_append slot_words_def)
  qed
  then show ?thesis using True assms by (auto simp: slot_words_def [of "written _ _ _"] list_eq_iff_nth_eq) (simp add: slot_words_def)
next
  case False
  have "written (slot_addr s) ds v (slot_addr t + 4 * int j) = v (slot_addr t + 4 * int j)" if "j < 16" for j
  proof (rule written_outside)
    fix i
    assume "i < length ds"
    then have "16 * s + i \<noteq> 16 * t + j" using that assms False by presburger
    then show "slot_addr t + 4 * int j \<noteq> slot_addr s + 4 * int i" by (simp add: slot_addr_def reg_addr_def)
  qed
  then show ?thesis using False by (simp add: slot_words_def)
qed

lemma slot_words_cong: "(\<And>q. q \<in> block (slot_addr s) 16 \<Longrightarrow> v q = v' q) \<Longrightarrow> slot_words v s = slot_words v' s"
  by (simp add: slot_words_def block_def)

text \<open>Storing a packet in the next slot and moving the pointer adds it behind the commands that are still pending.\<close>

lemma pending_push:
  assumes full: "pending_count w r < 16" and w': "unat w' mod 32 = (unat w + 1) mod 32" and ds: "length ds \<le> 16"
  shows "pending (written (slot_addr (unat w mod 16)) ds v) w' r =
     pending v w r @ [ds @ drop (length ds) (slot_words v (unat w mod 16))]"
proof -
  have c: "pending_count w' r = Suc (pending_count w r)"
    using next_count [of "unat w mod 32" "unat r mod 32"] full by (simp add: pending_count_def w' mod_Suc_eq)
  have p: "(unat r + pending_count w r) mod 16 = unat w mod 16" by (rule pending_end)
  have ne: "unat w mod 16 \<noteq> (unat r + i) mod 16" if "i < pending_count w r" for i
    using no_slot_clash [OF that full, of "unat r"] unfolding p by (rule not_sym)
  have "map (\<lambda>i. slot_words (written (slot_addr (unat w mod 16)) ds v) ((unat r + i) mod 16)) [0..<pending_count w r] = pending v w r"
    using ne by (auto simp: slot_words_written [OF ds] pending_def)
  then show ?thesis by (simp add: pending_def [of "written _ _ _"] c p slot_words_written [OF ds] del: map_eq_conv)
qed

lemma command_sent:
  assumes l: "lawful b view own" and own: "block (reg_addr 0) 256 \<subseteq> own" "reg_addr txWrPointerReg \<in> own" and p: "length packet \<le> 8"
  shows "\<exists>res k'. sendCommand b packet k = Some (res, k') \<and>
    (res = -1 \<and> k_txWrPointer k' = k_txWrPointer k \<and> (\<forall>q \<in> own. view (k_hw k') q = view (k_hw k) q)
     \<or> res = 0 \<and> (\<exists>r k1. wait_tx b (bus_time b (k_hw k)) k = Some (Some r, k1) \<and> pending_count (k_txWrPointer k) r \<noteq> 16)
       \<and> view (k_hw k') (reg_addr txWrPointerReg) = k_txWrPointer k'
       \<and> (\<forall>r. pending_count (k_txWrPointer k) r < 16 \<longrightarrow> pending (view (k_hw k')) (k_txWrPointer k') r =
            pending (view (k_hw k)) (k_txWrPointer k) r
              @ [split_words packet @ drop (2 * length packet) (slot_words (view (k_hw k)) (unat (k_txWrPointer k) mod 16))]))"
proof -
  from wait_tx_ok [OF l, of "bus_time b (k_hw k)" k] obtain r k1 where w: "wait_tx b (bus_time b (k_hw k)) k = Some (r, k1)"
    "k1 = k\<lparr>k_hw := k_hw k1\<rparr>" "\<forall>q \<in> own. view (k_hw k1) q = view (k_hw k) q" "\<forall>x. r = Some x \<longrightarrow> \<not> tx_full (k_txWrPointer k) x" by blast
  have t1: "k_txWrPointer k1 = k_txWrPointer k" by (subst w(2)) simp
  show ?thesis
  proof (cases r)
    case None
    then show ?thesis using w(1,3) p t1 by (simp add: sendCommand_def)
  next
    case (Some x)
    let ?w = "k_txWrPointer k" let ?s = "unat ?w mod 16" and ?ds = "split_words packet"
    have s: "uint (?w AND 15) * 16 = int ?s * 16" unfolding uint_nat low_bits(1) ..
    have ds: "length ?ds \<le> 16" using p by (simp add: length_split_words)
    have sb: "block (slot_addr ?s) (length ?ds) \<subseteq> own" using slot_in_block [of ?s "length ?ds"] ds own(1) by auto
    from write_reg_ok [OF l sb [unfolded slot_addr_def], of k1] obtain k2 where w2: "write_reg b (int ?s * 16) ?ds k1 = Some k2"
      "k2 = k1\<lparr>k_hw := k_hw k2\<rparr>" "\<And>q. q \<in> own \<Longrightarrow> view (k_hw k2) q = written (slot_addr ?s) ?ds (view (k_hw k1)) q"
      unfolding slot_addr_def by blast
    have t2: "k_txWrPointer k2 = ?w" by (subst w2(2)) (simp add: t1)
    let ?n = "((?w + 1) AND 31) OR 0xCAFE1500"
    let ?k = "k2\<lparr>k_txWrPointer := ?n\<rparr>"
    have pb: "block (reg_addr txWrPointerReg) (length [?n]) \<subseteq> own" using own(2) by (auto simp: block_def)
    from write_reg_ok [OF l pb, of ?k] obtain k3 where w3: "write_reg b txWrPointerReg [?n] ?k = Some k3" "k3 = ?k\<lparr>k_hw := k_hw k3\<rparr>"
      "\<And>q. q \<in> own \<Longrightarrow> view (k_hw k3) q = written (reg_addr txWrPointerReg) [?n] (view (k_hw ?k)) q" by blast
    have t3: "k_txWrPointer k3 = ?n" by (subst w3(2)) simp
    have send: "sendCommand b packet k = Some (0, k3)"
      using p w(1) Some w2(1) w3(1) by (simp add: sendCommand_def t1 t2 s Let_def)
    have pv: "view (k_hw k3) (reg_addr txWrPointerReg) = ?n" using w3(3) [OF own(2)] by simp
    have slots: "view (k_hw k3) q = written (slot_addr ?s) ?ds (view (k_hw k)) q" if "q \<in> block (reg_addr 0) 256" for q
    proof -
      have qo: "q \<in> own" using that own(1) by blast
      have "q \<noteq> reg_addr txWrPointerReg" using that by (auto simp: block_def reg_addr_def txWrPointerReg_def)
      then have "view (k_hw k3) q = view (k_hw k2) q" using w3(3) [OF qo] by simp
      also have "\<dots> = written (slot_addr ?s) ?ds (view (k_hw k1)) q" by (rule w2(3) [OF qo])
      also have "\<dots> = written (slot_addr ?s) ?ds (view (k_hw k)) q" using w(3) by (intro written_cong [OF qo]) blast
      finally show ?thesis .
    qed
    have "pending (view (k_hw k3)) ?n y = pending (written (slot_addr ?s) ?ds (view (k_hw k))) ?n y" for y
      unfolding pending_def using slots slot_in_block [of "_ mod 16" 16] by (auto intro!: map_cong slot_words_cong)
    moreover have "unat ?n mod 32 = (unat ?w + 1) mod 32" by (rule next_pointer) simp
    ultimately have push: "pending (view (k_hw k3)) ?n y = pending (view (k_hw k)) ?w y @ [?ds @ drop (length ?ds) (slot_words (view (k_hw k)) ?s)]"
      if "pending_count ?w y < 16" for y using pending_push [OF that _ ds] by simp
    have "pending_count ?w x \<noteq> 16" using w(4) Some by (simp add: tx_full_iff)
    then show ?thesis using send w(1) Some pv push
      by (intro exI [of _ 0] exI [of _ k3]) (simp add: t3 length_split_words)
  qed
qed


text \<open>A card whose registers are plain memory, and whose clock advances by 100 microseconds with every access.\<close>

definition memory_bus :: "((int \<Rightarrow> u32) \<times> int) bus" where
  "memory_bus = \<lparr>bus_read = \<lambda>r h. (fst h r, (fst h, snd h + 100)), bus_write = \<lambda>r v h. ((fst h)(r := v), snd h + 100), bus_time = snd\<rparr>"

lemma memory_read: "ReadWithoutCheck memory_bus a n h = (map (\<lambda>i. fst h (a + 4 * int i)) [0..<n], (fst h, snd h + 100 * int n))"
  by (induction n arbitrary: a h)
    (simp_all add: memory_bus_def upt_conv_Cons map_Suc_upt [symmetric] comp_def algebra_simps del: upt_Suc)

lemma memory_lawful: "lawful memory_bus fst UNIV"
proof -
  have "ReadAndCheck memory_bus a n h \<noteq> None" for a n h by (subst ReadAndCheck.simps) (simp add: memory_read)
  then show ?thesis by (simp add: lawful_def) (simp add: memory_bus_def)
qed

definition kx7_example :: "((int \<Rightarrow> u32) \<times> int) kx7" where
  "kx7_example = \<lparr>k_hw = (\<lambda>r. 0, 0), k_txWrPointer = 15, k_rxRdPointer = 0, k_threadValid = False, k_threadStop = False,
     k_dma = \<lparr>pf_bufferSet = replicate (2 * BUFFER_SIZE) 0, pf_wrPtr = 0, pf_rdPtr = 0, pf_currentBuffer = None, pf_consumed = 0, pf_dma = []\<rparr>\<rparr>"


section \<open>Settings\<close>

lemma and_mask_id: "(x :: u32) \<le> mask n \<Longrightarrow> x AND mask n = x"
proof -
  assume "x \<le> mask n"
  then have "uint x \<le> uint (mask n :: u32)" by (simp only: word_le_def)
  also have "\<dots> = mask (min 32 n)" using uint_mask_eq [of n, where 'a = 32] by simp
  also have "\<dots> = 2 ^ min 32 n - 1" by (rule mask_eq_exp_minus_1)
  finally have "uint x \<le> 2 ^ min 32 n - 1" .
  moreover have "(2 :: int) ^ min 32 n \<le> 2 ^ n" by (rule power_increasing) simp_all
  ultimately have "uint x < 2 ^ n" by linarith
  then show ?thesis by (simp only: mask_eq_iff)
qed

lemma min_field: "(if (x :: u32) > mask n then mask n else x) = take_bit n (if x > mask n then mask n else x)"
proof -
  have "(if x > mask n then mask n else x) \<le> mask n" by (simp add: not_less)
  then have "(if x > mask n then mask n else x) AND mask n = (if x > mask n then mask n else x)"
    by (cases "x > mask n") (auto simp: and_mask_id)
  then show ?thesis by (simp only: take_bit_eq_mask)
qed

lemma window_fields:
  "window_word c AND 0xF = (if tc_preWindow c > 0xF then 0xF else tc_preWindow c)"
  "drop_bit 8 (window_word c) AND 0x3F = (if tc_postWindow c > 0x3F then 0x3F else tc_postWindow c)"
  "drop_bit 20 (window_word c) AND 0x3 = (if tc_cWindow c > 0x3 then 0x3 else tc_cWindow c)"
proof -
  have m: "(0xF :: u32) = mask 4" "(0x3F :: u32) = mask 6" "(0x3 :: u32) = mask 2" by (simp_all add: mask_eq_exp_minus_1)
  define p where "p = (if tc_preWindow c > 0xF then 0xF else tc_preWindow c)"
  define q where "q = (if tc_postWindow c > 0x3F then 0x3F else tc_postWindow c)"
  define w where "w = (if tc_cWindow c > 0x3 then 0x3 else tc_cWindow c)"
  have p: "p = take_bit 4 p" unfolding p_def m by (rule min_field)
  have q: "q = take_bit 6 q" unfolding q_def m by (rule min_field)
  have w: "w = take_bit 2 w" unfolding w_def m by (rule min_field)
  have e: "window_word c = take_bit 4 p OR push_bit 8 (take_bit 6 q) OR push_bit 20 (take_bit 2 w)"
    unfolding p [symmetric] q [symmetric] w [symmetric] by (simp add: window_word_def Let_def p_def q_def w_def)
  have "window_word c AND mask 4 = take_bit 4 p" unfolding e by (rule bit_eqI) (auto simp: bit_simps)
  then show "window_word c AND 0xF = (if tc_preWindow c > 0xF then 0xF else tc_preWindow c)"
    unfolding m(1) [symmetric] p [symmetric] by (simp add: p_def)
  have "drop_bit 8 (window_word c) AND mask 6 = take_bit 6 q" unfolding e by (rule bit_eqI) (auto simp: bit_simps)
  then show "drop_bit 8 (window_word c) AND 0x3F = (if tc_postWindow c > 0x3F then 0x3F else tc_postWindow c)"
    unfolding m(2) [symmetric] q [symmetric] by (simp add: q_def)
  have "drop_bit 20 (window_word c) AND mask 2 = take_bit 2 w" unfolding e by (rule bit_eqI) (auto simp: bit_simps)
  then show "drop_bit 20 (window_word c) AND 0x3 = (if tc_cWindow c > 0x3 then 0x3 else tc_cWindow c)"
    unfolding m(3) [symmetric] w [symmetric] by (simp add: w_def)
qed

lemma mask_fields:
  "mask_word c n AND 0xFFFF = tc_mask c ! (2 * n) AND 0xFFF" "drop_bit 16 (mask_word c n) = tc_mask c ! (2 * n + 1) AND 0xFFF"
proof -
  have m: "(0xFFF :: u32) = mask 12" "(0xFFFF :: u32) = mask 16" by (simp_all add: mask_eq_exp_minus_1)
  show "mask_word c n AND 0xFFFF = tc_mask c ! (2 * n) AND 0xFFF" "drop_bit 16 (mask_word c n) = tc_mask c ! (2 * n + 1) AND 0xFFF"
    unfolding mask_word_def m by (rule bit_eqI; auto simp: bit_simps)+
qed

text \<open>
  Setting the trigger of an enabled configuration returns, and the card's registers then hold the three windows, each cut to
  the width of its field, the threshold, and the low 12 bits of the masks of the 12 ports, two to a register.
\<close>

theorem trigger_registers:
  assumes l: "lawful b view own" and own: "block (reg_addr CoincWindowReg) 7 \<union> {reg_addr ThresholdReg} \<subseteq> own" and e: "tc_enable c \<noteq> 0"
  shows "\<exists>k'. setCoincidenceTrigger b (Some c) k = Some (0, k') \<and>
    (let w = view (k_hw k') (reg_addr CoincWindowReg) in
       w AND 0xF = min (tc_preWindow c) 0xF \<and> drop_bit 8 w AND 0x3F = min (tc_postWindow c) 0x3F \<and> drop_bit 20 w AND 0x3 = min (tc_cWindow c) 0x3)
    \<and> view (k_hw k') (reg_addr ThresholdReg) = tc_minToT c
    \<and> (\<forall>n \<in> {0, 1, 2, 3, 4, 5}. let m = view (k_hw k') (reg_addr (CoincMasksReg + int n)) in
         m AND 0xFFFF = tc_mask c ! (2 * n) AND 0xFFF \<and> drop_bit 16 m = tc_mask c ! (2 * n + 1) AND 0xFFF)"
proof -
  let ?W = "reg_addr CoincWindowReg" and ?T = "reg_addr ThresholdReg" and ?M = "reg_addr CoincMasksReg"
  have a: "?W = 0x280980" "?T = 0x280880" "?M = 0x280984"
    by (simp_all add: reg_addr_def base_addr0_def CoincWindowReg_def ThresholdReg_def CoincMasksReg_def)
  have bs: "block ?W 1 \<subseteq> own" "block ?T 1 \<subseteq> own" "block ?M 6 \<subseteq> own" "?W \<in> own" "?T \<in> own"
    using own by (simp_all add: a block_def lessThan_nat_numeral lessThan_Suc numeral_eq_Suc)
  let ?ms = "map (mask_word c) [0..<6]"
  have b1: "block ?W (length [window_word c]) \<subseteq> own" using bs(1) by simp
  from write_reg_ok [OF l b1, of k] obtain k1 where k1: "write_reg b CoincWindowReg [window_word c] k = Some k1"
    "\<And>q. q \<in> own \<Longrightarrow> view (k_hw k1) q = written ?W [window_word c] (view (k_hw k)) q" by blast
  have b2: "block ?T (length [tc_minToT c]) \<subseteq> own" using bs(2) by simp
  from write_reg_ok [OF l b2, of k1] obtain k2 where k2: "write_reg b ThresholdReg [tc_minToT c] k1 = Some k2"
    "\<And>q. q \<in> own \<Longrightarrow> view (k_hw k2) q = written ?T [tc_minToT c] (view (k_hw k1)) q" by blast
  have b3: "block ?M (length ?ms) \<subseteq> own" using bs(3) by simp
  from write_reg_ok [OF l b3, of k2] obtain k3 where k3: "write_reg b CoincMasksReg ?ms k2 = Some k3"
    "\<And>q. q \<in> own \<Longrightarrow> view (k_hw k3) q = written ?M ?ms (view (k_hw k2)) q" by blast
  have s: "setCoincidenceTrigger b (Some c) k = Some (0, k3)" using e k1(1) k2(1) k3(1) by (simp add: setCoincidenceTrigger_def)
  have W: "view (k_hw k3) ?W = window_word c"
    using k3(2) [OF bs(4)] k2(2) [OF bs(4)] k1(2) [OF bs(4)] written_outside [of ?ms ?W ?M] by (simp add: a)
  have T: "view (k_hw k3) ?T = tc_minToT c"
    using k3(2) [OF bs(5)] k2(2) [OF bs(5)] written_outside [of ?ms ?T ?M] by (simp add: a)
  have M: "view (k_hw k3) (reg_addr (CoincMasksReg + int n)) = mask_word c n" if "n < 6" for n
  proof -
    have "reg_addr (CoincMasksReg + int n) = ?M + 4 * int n" by (simp add: reg_addr_def)
    moreover have "?M + 4 * int n \<in> own" using bs(3) that by (auto simp: block_def)
    ultimately show ?thesis using k3(2) written_inside [of n ?ms ?M] that by simp
  qed
  have mn: "min x y = (if x > y then y else x)" for x y :: u32 by (auto simp: min_def not_less)
  have ms: "\<forall>n \<in> {0, 1, 2, 3, 4, 5}. let m = view (k_hw k3) (reg_addr (CoincMasksReg + int n)) in
         m AND 0xFFFF = tc_mask c ! (2 * n) AND 0xFFF \<and> drop_bit 16 m = tc_mask c ! (2 * n + 1) AND 0xFFF"
  proof
    fix n :: nat
    assume "n \<in> {0, 1, 2, 3, 4, 5}"
    then have "n < 6" by auto
    then show "let m = view (k_hw k3) (reg_addr (CoincMasksReg + int n)) in
         m AND 0xFFFF = tc_mask c ! (2 * n) AND 0xFFF \<and> drop_bit 16 m = tc_mask c ! (2 * n + 1) AND 0xFFF"
      using mask_fields by (simp only: M Let_def)
  qed
  have "let w = view (k_hw k3) ?W in
       w AND 0xF = min (tc_preWindow c) 0xF \<and> drop_bit 8 w AND 0x3F = min (tc_postWindow c) 0x3F \<and> drop_bit 20 w AND 0x3 = min (tc_cWindow c) 0x3"
    unfolding Let_def W mn using window_fields [of c] by blast
  with s T ms show ?thesis by blast
qed

definition trigger_example :: CoincidenceTriggerConfig where
  "trigger_example = \<lparr>tc_enable = 1, tc_minToT = 3, tc_cWindow = 9, tc_preWindow = 2, tc_postWindow = 100, tc_singlesFraction = 0,
     tc_mask = replicate 32 0x1FFF\<rparr>"

lemma trigger_registers_witness:
  "\<exists>k'. setCoincidenceTrigger memory_bus (Some trigger_example) kx7_example = Some (0, k')
     \<and> fst (k_hw k') (reg_addr ThresholdReg) = 3 \<and> drop_bit 20 (fst (k_hw k') (reg_addr CoincWindowReg)) AND 0x3 = 3"
proof -
  have "tc_enable trigger_example \<noteq> 0" by (simp add: trigger_example_def)
  from trigger_registers [OF memory_lawful _ this, of kx7_example] show ?thesis
    by (auto simp: Let_def trigger_example_def)
qed

section \<open>Starting the acquisition\<close>

text \<open>When no buffer is being read, the words delivered after the start are those of the card.\<close>

lemma start_delivers:
  assumes "\<not> k_threadValid k" "pf_currentBuffer (k_dma k) = None" "length (pf_bufferSet (k_dma k)) = 2 * BUFFER_SIZE"
    "BUFFER_SIZE dvd length (pf_dma (k_dma k))"
  shows "buffers_ok (k_dma (start_thread k))" "word_stream (k_dma (start_thread k)) = pf_dma (k_dma k)"
  using assms by (auto simp: start_thread_def buffers_ok_def word_stream_def filled_words_def occupied_def)

text \<open>
  Starting the acquisition again while a buffer is still being read does not deliver the words of the card: \<open>currentBuffer\<close> is kept, so
  that the next call of \<open>getWords\<close> moves the read pointer past the empty buffers and delivers what the second buffer held before.
\<close>

theorem restart_delivers_stale:
  assumes k: "\<not> k_threadValid k" "pf_currentBuffer (k_dma k) \<noteq> None" and n: "0 < n" "n \<le> BUFFER_SIZE"
    and len: "length (pf_bufferSet (k_dma k)) = 2 * BUFFER_SIZE"
  shows "\<exists>q. getWords_result (k_dma (start_thread k)) (int n) = Some ((int n, take n (get_buffer 1 (k_dma k))), q)"
proof -
  let ?p = "k_dma (start_thread k)"
  have p: "pf_currentBuffer ?p \<noteq> None" "pf_consumed ?p = of_nat BUFFER_SIZE" "pf_wrPtr ?p = 0" "pf_rdPtr ?p = 0" "pf_bufferSet ?p = pf_bufferSet (k_dma k)"
    using k by (simp_all add: start_thread_def)
  let ?d = "drop_buffer ?p"
  have d: "pf_currentBuffer ?d = None" "pf_wrPtr ?d = 0" "pf_rdPtr ?d = 1" "pf_bufferSet ?d = pf_bufferSet (k_dma k)"
    using p by (simp_all add: drop_buffer_def)
  let ?t = "take_buffer ?d"
  have t: "pf_currentBuffer ?t = Some 1" "pf_consumed ?t = 0" "pf_bufferSet ?t = pf_bufferSet (k_dma k)"
    using d by (simp_all add: take_buffer_def buf_index_def)
  have c: "copy_count n ?t = n" using n t(2) by (simp add: copy_count_def)
  have "gw_loop n ?p [] = gw_loop n ?d []" using p n by (subst gw_loop.simps) auto
  also have "\<dots> = gw_loop (n - copy_count n ?t) (snd (copy_out n 1 ?t)) (fst (copy_out n 1 ?t))"
    using d n t by (subst gw_loop.simps) (simp add: buf_empty_def Let_def)
  also have "\<dots> = Some (fst (copy_out n 1 ?t), snd (copy_out n 1 ?t))" unfolding c by (subst gw_loop.simps) simp
  also have "fst (copy_out n 1 ?t) = take n (get_buffer 1 (k_dma k))"
    using t n by (simp add: copy_out_def Let_def c get_buffer_def min_def)
  finally show ?thesis using n by (simp add: getWords_result_def)
qed

lemma restart_delivers_stale_witness:
  "\<exists>q. getWords_result (k_dma (start_thread (kx7_example\<lparr>k_dma := (k_dma kx7_example)\<lparr>pf_currentBuffer := Some 0, pf_dma := [7]\<rparr>\<rparr>))) (int 1)
     = Some ((int 1, [0]), q)"
proof -
  let ?k = "kx7_example\<lparr>k_dma := (k_dma kx7_example)\<lparr>pf_currentBuffer := Some 0, pf_dma := [7]\<rparr>\<rparr>"
  have "take 1 (get_buffer 1 (k_dma ?k)) = [0]" by (simp add: kx7_example_def get_buffer_def BUFFER_SIZE_def)
  moreover have "1 \<le> BUFFER_SIZE" by (simp add: BUFFER_SIZE_def)
  ultimately show ?thesis using restart_delivers_stale [of ?k 1] by (simp add: kx7_example_def)
qed

end
