(* ===== verification/Daq_Command.thy ===== *)
theory Daq_Command
  imports Card_Commands
begin

text \<open>
  Commands to the front end over an acquisition card, daqd/DAQFrameServer.cpp: the packet built from a command, the wait for the
  matching reply, and the methods that hand a setting to the card. The card is a record of operations, \<open>kx7_ops\<close> for the
  PCIe card; an operation that never returns is \<open>None\<close>.
\<close>

section \<open>The interface of the cards\<close>

text \<open>\<open>AbstractDAQCard\<close>, with the clock in microseconds.\<close>

record 'c card_ops =
  co_clearReplyQueue :: "'c \<Rightarrow> 'c option"
  co_sendCommand :: "u64 list \<Rightarrow> 'c \<Rightarrow> (int \<times> 'c) option"
  co_recvReply :: "'c \<Rightarrow> ((int \<times> u64 list) \<times> 'c) option"
  co_setAcquistionOnOff :: "bool \<Rightarrow> 'c \<Rightarrow> (int \<times> 'c) option"
  co_getPortUp :: "'c \<Rightarrow> (u64 \<times> 'c) option"
  co_getPortCounts :: "int \<Rightarrow> int \<Rightarrow> 'c \<Rightarrow> (u64 \<times> 'c) option"
  co_setSorter :: "u32 \<Rightarrow> 'c \<Rightarrow> (int \<times> 'c) option"
  co_setCoincidenceTrigger :: "CoincidenceTriggerConfig \<Rightarrow> 'c \<Rightarrow> (int \<times> 'c) option"
  co_setGateEnable :: "u32 \<Rightarrow> 'c \<Rightarrow> (int \<times> 'c) option"
  co_time :: "'c \<Rightarrow> int"

definition kx7_ops :: "'h bus \<Rightarrow> (dma_buffers \<Rightarrow> dma_buffers) \<Rightarrow> 'h kx7 card_ops" where
  "kx7_ops b final =
     \<lparr>co_clearReplyQueue = clearReplyQueue b, co_sendCommand = sendCommand b, co_recvReply = recvReply b,
      co_setAcquistionOnOff = setAcquistionOnOff b final, co_getPortUp = getPortUp b,
      co_getPortCounts = (\<lambda>p w k. Some (getPortCounts b p w k)), co_setSorter = setSorter b,
      co_setCoincidenceTrigger = (\<lambda>c. setCoincidenceTrigger b (Some c)), co_setGateEnable = setGateEnable b,
      co_time = (\<lambda>k. bus_time b (k_hw k))\<rparr>"

section \<open>The packet of a command\<close>

definition MAX_PACKET_WORDS :: nat where
  "MAX_PACKET_WORDS = 8"

definition CommandTimeout :: int where
  "CommandTimeout = 250"

text \<open>The serial number in the first two bytes, computed on signed characters.\<close>

definition serial :: "u8 list \<Rightarrow> u16" where
  "serial chars = ucast (push_bit 8 (scast (chars ! 0) :: u32) + scast (chars ! 1))"

definition packet_header :: "int \<Rightarrow> int \<Rightarrow> u64" where
  "packet_header portID slaveID = push_bit 36 8 + push_bit 59 (word_of_int portID) + push_bit 54 (word_of_int slaveID)"

definition packetLength :: "nat \<Rightarrow> nat" where
  "packetLength commandLength = 2 + (commandLength + 7) div 8"

text \<open>The words before the command is copied, and the packet sent.\<close>

definition packet_filler :: "u64 list" where
  "packet_filler = map (\<lambda>i. push_bit (4 * i) 0x0F) [2..<8]"

definition command_packet :: "int \<Rightarrow> int \<Rightarrow> u8 list \<Rightarrow> u64 list" where
  "command_packet portID slaveID cmd =
     [packet_header portID slaveID, of_nat (length cmd)] @ words_le (cmd @ drop (length cmd) (bytes_of packet_filler))"

section \<open>The reply\<close>

text \<open>The length of a reply that passes the checks on address and size, and its bytes.\<close>

definition reply_length :: "int \<Rightarrow> int \<Rightarrow> int \<Rightarrow> u64 list \<Rightarrow> int option" where
  "reply_length portID slaveID bufferSize packet =
     (let recvPortID = uint (drop_bit 59 (packet ! 0)); recvSlaveID = uint (drop_bit 54 (packet ! 0) AND 0x1F);
          replyLength = to_i32 (packet ! 1)
      in if portID \<noteq> recvPortID \<or> slaveID \<noteq> recvSlaveID then None
         else if replyLength < 2 then None
         else if replyLength > 8 * (int MAX_PACKET_WORDS - 2) then None
         else if replyLength > bufferSize then None
         else Some replyLength)"

definition reply_bytes :: "u64 list \<Rightarrow> nat \<Rightarrow> u8 list" where
  "reply_bytes packet n = take n (bytes_of (drop 2 packet))"

definition store_reply :: "u64 list \<Rightarrow> nat \<Rightarrow> u8 list \<Rightarrow> u8 list" where
  "store_reply packet n chars = reply_bytes packet n @ drop n chars"

text \<open>The loop that waits for the reply: replies that do not match are dropped, though a wrong serial number is noticed in the caller's buffer.\<close>

partial_function (option) await_reply ::
    "'c card_ops \<Rightarrow> int \<Rightarrow> int \<Rightarrow> int \<Rightarrow> int \<Rightarrow> u16 \<Rightarrow> u64 list \<Rightarrow> u8 list \<Rightarrow> 'c \<Rightarrow> ((int \<times> u8 list) \<times> 'c) option" where
  "await_reply ops t2 portID slaveID bufferSize sentSN packet chars c =
     (if (co_time ops c - t2) div 1000 > CommandTimeout then Some ((0, chars), c)
      else
        Option.bind (co_recvReply ops c) (\<lambda>((status, ws), c).
          let packet = ws @ drop (length ws) packet in
          if status < 0 then await_reply ops t2 portID slaveID bufferSize sentSN packet chars c
          else
            case reply_length portID slaveID bufferSize packet of
              None \<Rightarrow> await_reply ops t2 portID slaveID bufferSize sentSN packet chars c
            | Some n \<Rightarrow>
                let chars = store_reply packet (nat n) chars in
                if sentSN \<noteq> serial chars then await_reply ops t2 portID slaveID bufferSize sentSN packet chars c
                else Some ((n, chars), c)))"

definition of_option :: "'a option \<Rightarrow> fault + 'a" where
  "of_option r = (case r of None \<Rightarrow> Inl Diverges | Some x \<Rightarrow> Inr x)"

text \<open>\<open>chars\<close> is all of the caller's array, the command being its first bytes; the length of the command is not checked from below.\<close>

definition daq_sendCommand :: "'c card_ops \<Rightarrow> int \<Rightarrow> int \<Rightarrow> u8 list \<Rightarrow> int \<Rightarrow> int \<Rightarrow> 'c \<Rightarrow> fault + ((int \<times> u8 list) \<times> 'c)" where
  "daq_sendCommand ops portID slaveID chars bufferSize commandLength c =
     (if length chars < 2 then Inl OutOfBounds
      else if commandLength > 48 then Inr ((-1, chars), c)
      else if commandLength < 0 \<or> commandLength > int (length chars) then Inl OutOfBounds
      else
        let sentSN = serial chars;
            packet = command_packet portID slaveID (take (nat commandLength) chars)
        in rbind (of_option (co_clearReplyQueue ops c)) (\<lambda>c.
           rbind (of_option (co_sendCommand ops (take (packetLength (nat commandLength)) packet) c)) (\<lambda>(_, c).
           of_option (await_reply ops (co_time ops c) portID slaveID bufferSize sentSN packet chars c))))"

section \<open>Methods that use the card\<close>

definition on_card :: "('c \<Rightarrow> ('r \<times> 'c) option) \<Rightarrow> 'c daq \<Rightarrow> fault + ('r \<times> 'c daq)" where
  "on_card f d = rbind (of_option (f (card d))) (\<lambda>(r, c). Inr (r, d\<lparr>card := c\<rparr>))"

definition daq_startAcquisition :: "'c card_ops \<Rightarrow> (FrameServer \<Rightarrow> FrameServer) \<Rightarrow> int \<Rightarrow> 'c daq \<Rightarrow> fault + 'c daq" where
  "daq_startAcquisition ops between mode d =
     rbind (on_card (co_setAcquistionOnOff ops False) d) (\<lambda>(_, d).
     rbind (on_card (co_setAcquistionOnOff ops True) d) (\<lambda>(_, d).
     Inr (d\<lparr>server := startAcquisition between mode (server d)\<rparr>)))"

definition daq_stopAcquisition :: "'c card_ops \<Rightarrow> 'c daq \<Rightarrow> fault + 'c daq" where
  "daq_stopAcquisition ops d =
     rbind (on_card (co_setAcquistionOnOff ops False) d) (\<lambda>(_, d). Inr (d\<lparr>server := stopAcquisition (server d)\<rparr>))"

definition daq_getPortUp :: "'c card_ops \<Rightarrow> 'c daq \<Rightarrow> fault + (u64 \<times> 'c daq)" where
  "daq_getPortUp ops = on_card (co_getPortUp ops)"

definition daq_getPortCounts :: "'c card_ops \<Rightarrow> int \<Rightarrow> int \<Rightarrow> 'c daq \<Rightarrow> fault + (u64 \<times> 'c daq)" where
  "daq_getPortCounts ops port whichCount = on_card (co_getPortCounts ops port whichCount)"

definition daq_setSorter :: "'c card_ops \<Rightarrow> u32 \<Rightarrow> 'c daq \<Rightarrow> fault + (int \<times> 'c daq)" where
  "daq_setSorter ops mode = on_card (co_setSorter ops mode)"

definition daq_setCoincidenceTrigger :: "'c card_ops \<Rightarrow> CoincidenceTriggerConfig \<Rightarrow> 'c daq \<Rightarrow> fault + (int \<times> 'c daq)" where
  "daq_setCoincidenceTrigger ops config = on_card (co_setCoincidenceTrigger ops config)"

definition daq_setGateEnable :: "'c card_ops \<Rightarrow> u32 \<Rightarrow> 'c daq \<Rightarrow> fault + (int \<times> 'c daq)" where
  "daq_setGateEnable ops mode = on_card (co_setGateEnable ops mode)"

section \<open>Correctness\<close>

lemma byte_of_of_le: "i < length bs \<Longrightarrow> i < 8 \<Longrightarrow> byte_of (of_le bs) i = bs ! i"
  by (rule bit_eqI) (auto simp: byte_of_def bit_simps bit_of_le div_add1_eq)

lemma bytes_words_le: "8 dvd length bs \<Longrightarrow> bytes_of (words_le bs) = bs"
proof (induction bs rule: words_le.induct)
  case (1 bs)
  show ?case
  proof (cases "length bs < 8")
    case True
    with 1(2) have "bs = []" by (auto dest: dvd_imp_le)
    then show ?thesis by (simp add: words_le.simps bytes_of_def)
  next
    case False
    then have "8 dvd length (drop 8 bs)" using 1(2) by (simp add: dvd_diff_nat)
    moreover have "le_bytes (of_le (take 8 bs)) = take 8 bs"
      using False byte_of_of_le [of _ "take 8 bs"] by (intro nth_equalityI) (auto simp: le_bytes_def)
    ultimately show ?thesis using 1(1) False by (simp add: words_le.simps [of bs] bytes_of_def)
  qed
qed

text \<open>
  C23: A command packet carries its command: the receiver that reads address and length the way a reply is read gets the port, the slave
  and exactly the bytes of the command, and all these bytes are in the words that are sent.
\<close>

theorem packet_roundtrip:
  assumes port: "0 \<le> portID" "portID < 32" and slave: "0 \<le> slaveID" "slaveID < 32" and len: "2 \<le> length cmd" "length cmd \<le> 48"
    and size: "48 \<le> bufferSize"
  shows "reply_length portID slaveID bufferSize (command_packet portID slaveID cmd) = Some (int (length cmd))
     \<and> reply_bytes (command_packet portID slaveID cmd) (length cmd) = cmd
     \<and> reply_bytes (take (packetLength (length cmd)) (command_packet portID slaveID cmd)) (length cmd) = cmd
     \<and> length (command_packet portID slaveID cmd) = MAX_PACKET_WORDS"
proof -
  let ?p = "command_packet portID slaveID cmd"
  have fill: "length (bytes_of packet_filler) = 48" by (simp add: packet_filler_def)
  let ?bs = "cmd @ drop (length cmd) (bytes_of packet_filler)"
  have bl: "length ?bs = 48" using len fill by simp
  have pay: "bytes_of (words_le ?bs) = ?bs" using bl by (intro bytes_words_le) simp
  have wl: "length (words_le ?bs) = 6" using arg_cong [OF pay, of length] bl by simp
  have d2: "drop 2 ?p = words_le ?bs" by (simp add: command_packet_def)
  have all: "reply_bytes ?p (length cmd) = cmd" unfolding reply_bytes_def d2 pay by simp
  have "8 * ((length cmd + 7) div 8) \<ge> length cmd" by simp
  then have sent: "reply_bytes (take (packetLength (length cmd)) ?p) (length cmd) = cmd"
    unfolding reply_bytes_def drop_take d2 by (simp add: packetLength_def pay min_def flip: bytes_of_take)
  let ?h = "packet_header portID slaveID"
  have h: "uint ?h = 8 * 2 ^ 36 + portID * 2 ^ 59 + slaveID * 2 ^ 54"
    using port slave by (simp add: packet_header_def uint_word_ariths push_bit_eq_mult uint_word_of_int)
  have hp: "uint (drop_bit 59 ?h) = portID" "uint (drop_bit 54 ?h AND 0x1F) = slaveID"
  proof -
    show "uint (drop_bit 59 ?h) = portID" using slave by (simp add: drop_bit_eq_div uint_div h)
    have m: "(0x1F :: u64) = mask 5" by (simp add: mask_eq_exp_minus_1)
    have e: "(549755813888 + portID * 576460752303423488) div 18014398509481984 = portID * 32"
      using div_mult_self1 [of "18014398509481984 :: int" 549755813888 "portID * 32"] by simp
    show "uint (drop_bit 54 ?h AND 0x1F) = slaveID"
      unfolding m using port slave e
      by (simp only: take_bit_eq_mask [symmetric] unsigned_take_bit_eq) (simp add: take_bit_eq_mod drop_bit_eq_div uint_div h)
  qed
  have l: "to_i32 (of_nat (length cmd) :: u64) = int (length cmd)" using len by (simp add: to_i32_def unsigned_of_nat signed_of_nat take_bit_nat_eq_self signed_take_bit_int_eq_self)
  have "reply_length portID slaveID bufferSize ?p = Some (int (length cmd))"
    using hp l len size by (simp add: reply_length_def command_packet_def Let_def MAX_PACKET_WORDS_def)
  then show ?thesis using all sent wl by (simp add: command_packet_def MAX_PACKET_WORDS_def)
qed

lemma packet_roundtrip_witness:
  "reply_length 3 5 2048 (command_packet 3 5 [1, 2, 3]) = Some 3 \<and> reply_bytes (command_packet 3 5 [1, 2, 3]) 3 = [1, 2, 3]"
  using packet_roundtrip [of 3 5 "[1, 2, 3]" 2048] by (simp add: numeral_3_eq_3)

text \<open>What the daemon relies on: the calls of the card return, and the clock goes on while a reply is awaited.\<close>

definition responsive :: "'c card_ops \<Rightarrow> bool" where
  "responsive ops \<longleftrightarrow> (\<forall>c. co_clearReplyQueue ops c \<noteq> None) \<and> (\<forall>p c. length p \<le> 8 \<longrightarrow> co_sendCommand ops p c \<noteq> None)
     \<and> (\<forall>c. \<exists>r c'. co_recvReply ops c = Some (r, c') \<and> co_time ops c < co_time ops c')"

text \<open>A reply was accepted: it came from the card, passed the checks, and carries the serial number of the command.\<close>

definition accepted_reply :: "'c card_ops \<Rightarrow> int \<Rightarrow> int \<Rightarrow> int \<Rightarrow> u16 \<Rightarrow> int \<Rightarrow> u8 list \<Rightarrow> bool" where
  "accepted_reply ops portID slaveID bufferSize sn n chars \<longleftrightarrow>
     (\<exists>c c' status ws rest. co_recvReply ops c = Some ((status, ws), c') \<and> 0 \<le> status
        \<and> reply_length portID slaveID bufferSize (ws @ rest) = Some n
        \<and> take (nat n) chars = reply_bytes (ws @ rest) (nat n) \<and> serial chars = sn)"

lemma reply_length_bounds: "reply_length portID slaveID bufferSize packet = Some n \<Longrightarrow> 2 \<le> n \<and> n \<le> 48 \<and> n \<le> bufferSize"
  by (auto simp: reply_length_def Let_def MAX_PACKET_WORDS_def split: if_splits)

lemma length_reply_bytes: "16 + n \<le> 8 * length packet \<Longrightarrow> length (reply_bytes packet n) = n"
  by (simp add: reply_bytes_def)

lemma take_store_reply: "16 + n \<le> 8 * length packet \<Longrightarrow> take n (store_reply packet n chars) = reply_bytes packet n"
  by (simp add: store_reply_def length_reply_bytes)

lemma length_store_reply: "8 * length packet \<ge> 16 + n \<Longrightarrow> n \<le> length chars \<Longrightarrow> length (store_reply packet n chars) = length chars"
  by (simp add: store_reply_def reply_bytes_def min_def) arith

lemma await_reply_ok:
  assumes r: "responsive ops" and p: "length packet \<ge> 8" and buf: "min bufferSize 48 \<le> int (length chars)"
  shows "\<exists>n chars' c'. await_reply ops t2 portID slaveID bufferSize sn packet chars c = Some ((n, chars'), c')
     \<and> length chars' = length chars \<and> (n = 0 \<or> 2 \<le> n \<and> n \<le> 48 \<and> n \<le> bufferSize \<and> accepted_reply ops portID slaveID bufferSize sn n chars')"
  using p buf
proof (induction "nat (t2 + 251000 - co_time ops c)" arbitrary: c packet chars rule: less_induct)
  case less
  show ?case
  proof (cases "(co_time ops c - t2) div 1000 > CommandTimeout")
    case True
    then show ?thesis by (subst await_reply.simps) simp
  next
    case False
    from r obtain status ws c1 where rc: "co_recvReply ops c = Some ((status, ws), c1)" "co_time ops c < co_time ops c1"
      unfolding responsive_def by (metis surj_pair)
    let ?p = "ws @ drop (length ws) packet"
    have dec: "nat (t2 + 251000 - co_time ops c1) < nat (t2 + 251000 - co_time ops c)"
      using False rc(2) unfolding CommandTimeout_def by linarith
    have lp: "8 \<le> length ?p" using less.prems(1) by simp
    note step = await_reply.simps [of ops t2 portID slaveID bufferSize sn packet chars c]
    show ?thesis
    proof (cases "status < 0 \<or> reply_length portID slaveID bufferSize ?p = None")
      case True
      then have "await_reply ops t2 portID slaveID bufferSize sn packet chars c = await_reply ops t2 portID slaveID bufferSize sn ?p chars c1"
        using False rc(1) by (subst step) (auto simp: Let_def)
      then show ?thesis using less.hyps [OF dec lp less.prems(2)] by simp
    next
      case ok: False
      then obtain n where n: "reply_length portID slaveID bufferSize ?p = Some n" by auto
      then have nb: "2 \<le> n" "n \<le> 48" "n \<le> bufferSize" using reply_length_bounds [OF n] by simp_all
      let ?b = "store_reply ?p (nat n) chars"
      have lb: "length ?b = length chars" using lp nb less.prems(2) by (intro length_store_reply) (auto simp: min_def split: if_splits)
      show ?thesis
      proof (cases "sn = serial ?b")
        case True
        then have "await_reply ops t2 portID slaveID bufferSize sn packet chars c = Some ((n, ?b), c1)"
          using False ok n rc(1) by (subst step) (simp add: Let_def)
        moreover have "take (nat n) ?b = reply_bytes ?p (nat n)"
          using lp nb by (intro take_store_reply) simp
        then have "accepted_reply ops portID slaveID bufferSize sn n ?b"
          unfolding accepted_reply_def using rc(1) ok n True by (metis linorder_not_less)
        ultimately show ?thesis using nb lb by blast
      next
        case sn: False
        then have "await_reply ops t2 portID slaveID bufferSize sn packet chars c = await_reply ops t2 portID slaveID bufferSize sn ?p ?b c1"
          using False ok n rc(1) by (subst step) (simp add: Let_def)
        then show ?thesis using less.hyps [OF dec lp, of ?b] less.prems(2) lb by simp
      qed
    qed
  qed
qed

lemma daq_sendCommand_ok:
  assumes r: "responsive ops" and size: "2 \<le> length chars" "min bufferSize 48 \<le> int (length chars)"
    and len: "0 \<le> commandLength" "commandLength \<le> int (length chars)"
  shows "\<exists>n chars' c'. daq_sendCommand ops portID slaveID chars bufferSize commandLength c = Inr ((n, chars'), c') \<and> length chars' = length chars
     \<and> (n = -1 \<and> 48 < commandLength \<or> n = 0 \<and> commandLength \<le> 48
        \<or> commandLength \<le> 48 \<and> 2 \<le> n \<and> n \<le> 48 \<and> n \<le> bufferSize \<and> accepted_reply ops portID slaveID bufferSize (serial chars) n chars')"
proof (cases "commandLength > 48")
  case True
  then show ?thesis using size by (simp add: daq_sendCommand_def)
next
  case False
  let ?cmd = "take (nat commandLength) chars"
  let ?p = "command_packet portID slaveID ?cmd"
  from r obtain c1 where c1: "co_clearReplyQueue ops c = Some c1" unfolding responsive_def by (metis not_Some_eq)
  have "packetLength (nat commandLength) \<le> 8" using False by (simp add: packetLength_def)
  then have sent: "length (take (packetLength (nat commandLength)) ?p) \<le> 8" by simp
  from r obtain st c2 where c2: "co_sendCommand ops (take (packetLength (nat commandLength)) ?p) c1 = Some (st, c2)"
    using sent unfolding responsive_def by (metis not_Some_eq surj_pair)
  have "length (?cmd @ drop (length ?cmd) (bytes_of packet_filler)) = 48"
    using False len by (simp add: packet_filler_def)
  then have "8 \<le> length ?p"
    using arg_cong [OF bytes_words_le [of "?cmd @ drop (length ?cmd) (bytes_of packet_filler)"], of length]
    by (simp add: command_packet_def)
  from await_reply_ok [OF r this size(2), of "co_time ops c2" portID slaveID "serial chars" c2] obtain n chars' c' where
    a: "await_reply ops (co_time ops c2) portID slaveID bufferSize (serial chars) ?p chars c2 = Some ((n, chars'), c')"
    "length chars' = length chars"
    "n = 0 \<or> 2 \<le> n \<and> n \<le> 48 \<and> n \<le> bufferSize \<and> accepted_reply ops portID slaveID bufferSize (serial chars) n chars'" by blast
  have "daq_sendCommand ops portID slaveID chars bufferSize commandLength c = Inr ((n, chars'), c')"
    using False size len c1 c2 a(1) by (simp add: daq_sendCommand_def Let_def of_option_def)
  with a(2,3) False show ?thesis by auto
qed

text \<open>
  C22: On a card whose calls return, sending a command always returns: with -1 if the command is longer than a packet, with 0
  after the time-out, or with the length of a reply that came from the addressed port and slave, carries the serial number of the
  command, fits packet and buffer, and now stands at the start of the buffer.
\<close>

theorem command_answered:
  assumes r: "responsive ops" and size: "2 \<le> length chars" "min bufferSize 48 \<le> int (length chars)"
    and len: "0 \<le> commandLength" "commandLength \<le> int (length chars)"
  shows "\<exists>n chars' c'. daq_sendCommand ops portID slaveID chars bufferSize commandLength c = Inr ((n, chars'), c') \<and> length chars' = length chars
     \<and> (n = -1 \<and> 48 < commandLength \<or> n = 0 \<and> commandLength \<le> 48
        \<or> commandLength \<le> 48 \<and> 2 \<le> n \<and> n \<le> 48 \<and> n \<le> bufferSize \<and> accepted_reply ops portID slaveID bufferSize (serial chars) n chars')"
  by (rule daq_sendCommand_ok [OF r size len])

text \<open>The PCIe card is such a card, if its registers behave and its reply queue can be emptied.\<close>

lemma wait_rx_ok:
  assumes l: "lawful b view own"
  shows "\<exists>r k'. wait_rx b start k = Some (r, k') \<and> bus_time b (k_hw k) < bus_time b (k_hw k')"
proof (induction "nat (start + 11000 - bus_time b (k_hw k))" arbitrary: k rule: less_induct)
  case less
  from read_reg_ok [OF l, of rxWrPointerReg k] obtain d k1 where r: "read_reg b rxWrPointerReg 1 k = Some ([d], k1)"
    "k1 = k\<lparr>k_hw := k_hw k1\<rparr>" "keeps_own b view own (k_hw k) (k_hw k1)" .
  have t: "bus_time b (k_hw k) < bus_time b (k_hw k1)" using r(3) by (simp add: keeps_own_def)
  show ?case
  proof (cases "(bus_time b (k_hw k1) - start) div 1000 > 10 \<or> d AND 31 \<noteq> k_rxRdPointer k1 AND 31")
    case True
    then show ?thesis using r(1) t by (subst wait_rx.simps) auto
  next
    case False
    then have "nat (start + 11000 - bus_time b (k_hw k1)) < nat (start + 11000 - bus_time b (k_hw k))" using t by linarith
    from less [OF this] obtain x k' where w: "wait_rx b start k1 = Some (x, k')" "bus_time b (k_hw k1) < bus_time b (k_hw k')" by blast
    have "wait_rx b start k = Some (x, k')" using False r(1) w(1) by (subst wait_rx.simps) simp
    then show ?thesis using w(2) t by auto
  qed
qed

lemma recvReply_ok:
  assumes l: "lawful b view own" and own: "reg_addr rxRdPointerReg \<in> own"
    and mono: "\<And>h r v. bus_time b h \<le> bus_time b (bus_write b r v h)"
  shows "\<exists>r k'. recvReply b k = Some (r, k') \<and> bus_time b (k_hw k) < bus_time b (k_hw k')"
proof -
  from wait_rx_ok [OF l, of "bus_time b (k_hw k)" k] obtain g k1 where w: "wait_rx b (bus_time b (k_hw k)) k = Some (g, k1)"
    "bus_time b (k_hw k) < bus_time b (k_hw k1)" by blast
  show ?thesis
  proof (cases g)
    case False
    then show ?thesis using w by (simp add: recvReply_def)
  next
    case True
    let ?a = "reg_addr (768 + uint (k_rxRdPointer k1 AND 15) * 16)"
    obtain ds h where rd: "ReadAndCheck b ?a 16 (k_hw k1) = Some (ds, h)" using lawfulD(5) [OF l] by blast
    have th: "bus_time b (k_hw k1) < bus_time b h" using ReadAndCheck_keeps [OF l rd] by (simp add: keeps_own_def)
    let ?v = "((k_rxRdPointer k1 + 1) AND 31) OR 0xFACE9100"
    let ?w = "WriteWithoutCheck b (reg_addr rxRdPointerReg) [?v] h"
    have sub: "block (reg_addr rxRdPointerReg) (length [?v]) \<subseteq> own" using own by (auto simp: block_def)
    obtain rb h2 where rw: "ReadWithoutCheck b (reg_addr rxRdPointerReg) 1 ?w = (rb, h2)" by fastforce
    have "view ?w (reg_addr rxRdPointerReg) = ?v" using write_block_view [OF l sub own, of h] by simp
    then have "rb = [?v]" using read_block_own [OF l, of "reg_addr rxRdPointerReg" 1 ?w] sub rw by simp
    then have wr: "WriteAndCheck b (reg_addr rxRdPointerReg) [?v] h = Some h2" using rw by (subst WriteAndCheck.simps) simp
    have "bus_time b ?w \<le> bus_time b h2" using read_block_view [OF l rw] by simp
    moreover have "bus_time b h \<le> bus_time b ?w" using mono by simp
    ultimately have "bus_time b (k_hw k) < bus_time b h2" using w(2) th by linarith
    then show ?thesis using w(1) True rd wr by (simp add: recvReply_def read_reg_def write_reg_def Let_def)
  qed
qed

lemma kx7_responsive:
  assumes l: "lawful b view own" and own: "block (reg_addr 0) 256 \<subseteq> own" "reg_addr txWrPointerReg \<in> own" "reg_addr rxRdPointerReg \<in> own"
    and mono: "\<And>h r v. bus_time b h \<le> bus_time b (bus_write b r v h)" and drain: "\<And>k. clearReplyQueue b k \<noteq> None"
  shows "responsive (kx7_ops b final)"
proof -
  have "sendCommand b p k \<noteq> None" if "length p \<le> 8" for p k
  proof -
    have "\<exists>res k'. sendCommand b p k = Some (res, k')" using command_sent [OF l own(1,2) that, of k] by blast
    then show ?thesis by auto
  qed
  moreover have "\<exists>r k'. recvReply b k = Some (r, k') \<and> bus_time b (k_hw k) < bus_time b (k_hw k')" for k
    by (rule recvReply_ok [OF l own(3) mono])
  ultimately show ?thesis using drain by (simp add: responsive_def kx7_ops_def)
qed

text \<open>The card of plain registers answers.\<close>

lemma memory_drains: "clearReplyQueue memory_bus k \<noteq> None"
proof -
  have rd: "read_reg memory_bus r 1 k = Some ([fst (k_hw k) (reg_addr r)], k\<lparr>k_hw := (fst (k_hw k), snd (k_hw k) + 200)\<rparr>)" for r k
  proof -
    have "ReadAndCheck memory_bus a 1 h = Some ([fst h a], (fst h, snd h + 200))" for a h
      by (subst ReadAndCheck.simps) (simp add: memory_read upt_rec [of 0 1] del: ReadWithoutCheck.simps One_nat_def)
    then show ?thesis by (simp add: read_reg_def)
  qed
  have wr: "write_reg memory_bus r [v] k = Some (k\<lparr>k_hw := ((fst (k_hw k))(reg_addr r := v), snd (k_hw k) + 200)\<rparr>)" for r v k
  proof -
    have "WriteWithoutCheck memory_bus a [v] h = ((fst h)(a := v), snd h + 100)" for a h by (simp add: memory_bus_def)
    then have "WriteAndCheck memory_bus a [v] h = Some ((fst h)(a := v), snd h + 200)" for a h
      by (subst WriteAndCheck.simps) (simp add: memory_read del: ReadWithoutCheck.simps WriteWithoutCheck.simps)
    then show ?thesis by (simp add: write_reg_def)
  qed
  have tag: "((d AND 31) OR 0xFACE9100) AND 31 = d AND 31" for d :: u32 by (simp add: word_ao_dist and.assoc)
  have ne: "reg_addr rxWrPointerReg \<noteq> reg_addr rxRdPointerReg" by (simp add: reg_addr_def rxWrPointerReg_def rxRdPointerReg_def)
  show ?thesis
    by (subst clearReplyQueue.simps, simp add: rd wr Let_def del: One_nat_def)
      (subst clearReplyQueue.simps, simp add: rd tag ne del: One_nat_def)
qed

lemma memory_responsive: "responsive (kx7_ops memory_bus id)"
  by (rule kx7_responsive [OF memory_lawful]) (auto simp: memory_drains, simp add: memory_bus_def)

lemma command_answered_witness:
  "\<exists>n chars' c'. daq_sendCommand (kx7_ops memory_bus id) 3 5 (replicate 2046 7) 2046 4 kx7_example = Inr ((n, chars'), c')
     \<and> length chars' = 2046 \<and> (n = 0 \<or> 2 \<le> n \<and> n \<le> 48 \<and> serial chars' = serial (replicate 2046 7))"
  using command_answered [OF memory_responsive, of "replicate 2046 7" 2046 4 3 5 kx7_example]
  by (auto simp: accepted_reply_def)

end
