(* ===== verification/Client_Requests.thy ===== *)
theory Client_Requests
  imports Daq_Command
begin

text \<open>
  The requests of the daemon's clients, daqd/Client.cpp: each handler reads its arguments from the bytes received, calls the frame
  server and sends a reply. The frame server is the interface \<open>server_ops\<close>, with one instance for a card here and one for the
  Ethernet front end in \<open>Udp_Frame_Server\<close>.
\<close>

section \<open>The interface of the frame servers\<close>

text \<open>The virtual methods; the others work on the common part, read by \<open>so_server\<close> and changed by \<open>so_update\<close>.\<close>

record 's server_ops =
  so_server :: "'s \<Rightarrow> FrameServer"
  so_update :: "(FrameServer \<Rightarrow> FrameServer) \<Rightarrow> 's \<Rightarrow> 's"
  so_sendCommand :: "int \<Rightarrow> int \<Rightarrow> u8 list \<Rightarrow> int \<Rightarrow> int \<Rightarrow> 's \<Rightarrow> fault + ((int \<times> u8 list) \<times> 's)"
  so_startAcquisition :: "int \<Rightarrow> 's \<Rightarrow> fault + 's"
  so_stopAcquisition :: "'s \<Rightarrow> fault + 's"
  so_getPortUp :: "'s \<Rightarrow> fault + (u64 \<times> 's)"
  so_getPortCounts :: "int \<Rightarrow> int \<Rightarrow> 's \<Rightarrow> fault + (u64 \<times> 's)"
  so_setSorter :: "u32 \<Rightarrow> 's \<Rightarrow> fault + (int \<times> 's)"
  so_setCoincidenceTrigger :: "CoincidenceTriggerConfig \<Rightarrow> 's \<Rightarrow> fault + (int \<times> 's)"
  so_setGateEnable :: "u32 \<Rightarrow> 's \<Rightarrow> fault + (int \<times> 's)"

definition daq_ops :: "'c card_ops \<Rightarrow> (FrameServer \<Rightarrow> FrameServer) \<Rightarrow> 'c daq server_ops" where
  "daq_ops ops between =
     \<lparr>so_server = server, so_update = (\<lambda>f d. d\<lparr>server := f (server d)\<rparr>),
      so_sendCommand = (\<lambda>port slave chars size len d.
        rbind (daq_sendCommand ops port slave chars size len (card d)) (\<lambda>(r, c). Inr (r, d\<lparr>card := c\<rparr>))),
      so_startAcquisition = daq_startAcquisition ops between, so_stopAcquisition = daq_stopAcquisition ops,
      so_getPortUp = daq_getPortUp ops, so_getPortCounts = daq_getPortCounts ops, so_setSorter = daq_setSorter ops,
      so_setCoincidenceTrigger = daq_setCoincidenceTrigger ops, so_setGateEnable = daq_setGateEnable ops\<rparr>"

section \<open>The connection\<close>

text \<open>
  \<open>cl_recv\<close> are the bytes the successive calls of \<open>recv\<close> return and \<open>cl_send\<close> the results of the successive calls
  of \<open>send\<close>, which store what they accept in \<open>cl_sent\<close>; a call without an entry fails.
\<close>

record client =
  cl_socketBuffer :: "u8 list"
  cl_recv :: "u8 list list"
  cl_send :: "int list"
  cl_sent :: "u8 list"

definition socketBufferSize :: nat where
  "socketBufferSize = 16 * 1024"

definition HEADER_SIZE :: nat where
  "HEADER_SIZE = 4"

definition cl_receive :: "nat \<Rightarrow> client \<Rightarrow> int \<times> client" where
  "cl_receive off cl =
     (case cl_recv cl of
        [] \<Rightarrow> (-1, cl)
      | bs # rest \<Rightarrow>
          (int (length bs), cl\<lparr>cl_recv := rest,
             cl_socketBuffer := take off (cl_socketBuffer cl) @ bs @ drop (off + length bs) (cl_socketBuffer cl)\<rparr>))"

definition cl_transmit :: "u8 list \<Rightarrow> client \<Rightarrow> int \<times> client" where
  "cl_transmit bs cl =
     (case cl_send cl of
        [] \<Rightarrow> (-1, cl)
      | r # rest \<Rightarrow> (r, cl\<lparr>cl_send := rest, cl_sent := cl_sent cl @ take (nat r) bs\<rparr>))"

text \<open>
  A reply that is sent with a check of the result: the comparison is unsigned, so the result -1 of a failed call passes it.
\<close>

definition short_send :: "int \<Rightarrow> nat \<Rightarrow> bool" where
  "short_send status n \<longleftrightarrow> (word_of_int status :: u64) < of_nat n"

definition send_reply :: "u8 list \<Rightarrow> client \<Rightarrow> int \<times> client" where
  "send_reply bs cl = (let (status, cl) = cl_transmit bs cl in (if short_send status (length bs) then -1 else 0, cl))"

definition arg_bytes :: "nat \<Rightarrow> client \<Rightarrow> u8 list" where
  "arg_bytes n cl = take n (drop HEADER_SIZE (cl_socketBuffer cl))"

definition arg16 :: "client \<Rightarrow> u16" where "arg16 cl = ucast (of_le (arg_bytes 2 cl))"
definition arg32 :: "client \<Rightarrow> u32" where "arg32 cl = ucast (of_le (arg_bytes 4 cl))"
definition arg64 :: "client \<Rightarrow> u64" where "arg64 cl = of_le (arg_bytes 8 cl)"

definition bytes16 :: "u16 \<Rightarrow> u8 list" where "bytes16 x = take 2 (le_bytes (ucast x))"
definition bytes32 :: "u32 \<Rightarrow> u8 list" where "bytes32 x = take 4 (le_bytes (ucast x))"

section \<open>The handlers\<close>

text \<open>
  Replies are structures with unset padding bytes, which are \<open>pad\<close>; \<open>stack\<close> is the local array of \<open>doCommandToFrontEnd\<close>.
\<close>

type_synonym 's handled = "fault + (int \<times> 's \<times> client)"

definition answer :: "u8 list \<Rightarrow> 's \<Rightarrow> client \<Rightarrow> 's handled" where
  "answer bs s cl = (let (r, cl) = send_reply bs cl in Inr (r, s, cl))"

definition doCommandToFrontEnd :: "'s server_ops \<Rightarrow> u8 list \<Rightarrow> int \<Rightarrow> 's \<Rightarrow> client \<Rightarrow> 's handled" where
  "doCommandToFrontEnd ops stack commandLength s cl =
     (if commandLength < 0 \<or> commandLength > int (length stack) then Inl OutOfBounds
      else
        let chars = arg_bytes (nat commandLength) cl @ drop (nat commandLength) stack;
            portID = sint (chars ! 0); slaveID = sint (chars ! 1)
        in rbind (so_sendCommand ops portID slaveID (drop 2 chars) 2048 (commandLength - 2) s) (\<lambda>((replyLength, reply), s).
           let cl = snd (cl_transmit (bytes16 (word_of_int replyLength)) cl) in
           if replyLength < 0 \<or> replyLength > int (length reply) then Inl OutOfBounds
           else Inr (0, s, snd (cl_transmit (take (nat replyLength) reply) cl))))"

definition doAcqOnOff :: "'s server_ops \<Rightarrow> 's \<Rightarrow> client \<Rightarrow> 's handled" where
  "doAcqOnOff ops s cl =
     rbind (if arg16 cl \<noteq> 0 then so_startAcquisition ops 1 s else so_stopAcquisition ops s) (\<lambda>s. answer (bytes16 0) s cl)"

definition doGetDataFrameWriteReadPointer :: "'s server_ops \<Rightarrow> u8 list \<Rightarrow> 's \<Rightarrow> client \<Rightarrow> 's handled" where
  "doGetDataFrameWriteReadPointer ops pad s cl =
     answer (bytes16 12 @ take 2 pad @ bytes32 (of_nat (getDataFrameWritePointer (so_server ops s)))
       @ bytes32 (of_nat (getDataFrameReadPointer (so_server ops s)))) s cl"

definition doSetDataFrameReadPointer :: "'s server_ops \<Rightarrow> 's \<Rightarrow> client \<Rightarrow> 's handled" where
  "doSetDataFrameReadPointer ops s cl =
     answer (bytes32 (arg32 cl)) (so_update ops (setDataFrameReadPointer (arg32 cl)) s) cl"

definition name_bytes :: "string \<Rightarrow> u8 list" where
  "name_bytes = map (\<lambda>c. of_nat (of_char c))"

definition doGetDataFrameSharedMemoryName :: "'s server_ops \<Rightarrow> u8 list \<Rightarrow> 's \<Rightarrow> client \<Rightarrow> 's handled" where
  "doGetDataFrameSharedMemoryName ops pad s cl =
     (let name = name_bytes (getDataFrameSharedMemoryName (so_server ops s));
          header = bytes16 (of_nat (32 + length name)) @ take 6 pad @ le_bytes (of_nat (8 * MaxRawDataFrameSize)) @ le_bytes 0 @ le_bytes 0;
          (r, cl) = send_reply header cl
      in if r = -1 then Inr (-1, s, cl) else answer name s cl)"

definition doGetPortUp :: "'s server_ops \<Rightarrow> u8 list \<Rightarrow> 's \<Rightarrow> client \<Rightarrow> 's handled" where
  "doGetPortUp ops pad s cl =
     rbind (so_getPortUp ops s) (\<lambda>(up, s). answer (bytes16 16 @ take 6 pad @ le_bytes up) s cl)"

definition doGetPortCounts :: "'s server_ops \<Rightarrow> u8 list \<Rightarrow> 's \<Rightarrow> client \<Rightarrow> 's handled" where
  "doGetPortCounts ops pad s cl =
     (let portID = int (unat (arg16 cl)) in
      rbind (so_getPortCounts ops portID 0 s) (\<lambda>(tx, s).
      rbind (so_getPortCounts ops portID 1 s) (\<lambda>(rx, s).
      rbind (so_getPortCounts ops portID 2 s) (\<lambda>(rxBad, s).
      answer (bytes16 32 @ take 6 pad @ le_bytes tx @ le_bytes rx @ le_bytes rxBad) s cl))))"

definition doSetSorter :: "'s server_ops \<Rightarrow> 's \<Rightarrow> client \<Rightarrow> 's handled" where
  "doSetSorter ops s cl = rbind (so_setSorter ops (arg32 cl) s) (\<lambda>(_, s). answer (bytes32 0) s cl)"

definition word32_at :: "nat \<Rightarrow> u8 list \<Rightarrow> u32" where
  "word32_at i bs = ucast (of_le (take 4 (drop (4 * i) bs)))"

definition trigger_of :: "u8 list \<Rightarrow> CoincidenceTriggerConfig" where
  "trigger_of bs =
     \<lparr>tc_enable = word32_at 0 bs, tc_minToT = word32_at 1 bs, tc_cWindow = word32_at 2 bs, tc_preWindow = word32_at 3 bs,
      tc_postWindow = word32_at 4 bs, tc_singlesFraction = word32_at 5 bs, tc_mask = map (\<lambda>i. word32_at (6 + i) bs) [0..<32]\<rparr>"

definition doSetTrigger :: "'s server_ops \<Rightarrow> 's \<Rightarrow> client \<Rightarrow> 's handled" where
  "doSetTrigger ops s cl =
     rbind (so_setCoincidenceTrigger ops (trigger_of (arg_bytes 152 cl)) s) (\<lambda>(r, s). answer (bytes32 (word_of_int r)) s cl)"

definition doSetIdleTimeCalculation :: "'s server_ops \<Rightarrow> 's \<Rightarrow> client \<Rightarrow> 's handled" where
  "doSetIdleTimeCalculation ops s cl = answer (bytes32 0) (so_update ops (setIdleTimeCalculation (arg32 cl)) s) cl"

definition doSetGateEnable :: "'s server_ops \<Rightarrow> 's \<Rightarrow> client \<Rightarrow> 's handled" where
  "doSetGateEnable ops s cl = rbind (so_setGateEnable ops (arg32 cl) s) (\<lambda>(r, s). answer (bytes32 (word_of_int r)) s cl)"

definition doSetMinimumFrameID :: "'s server_ops \<Rightarrow> 's \<Rightarrow> client \<Rightarrow> 's handled" where
  "doSetMinimumFrameID ops s cl =
     answer (bytes32 (word_of_int (fst (setMinimumFrameID (arg64 cl) (so_server ops s)))))
       (so_update ops (\<lambda>f. snd (setMinimumFrameID (arg64 cl) f)) s) cl"

section \<open>Dispatch\<close>

definition commandAcqOnOff :: u16 where "commandAcqOnOff = 0x01"
definition commandGetDataFrameSharedMemoryName :: u16 where "commandGetDataFrameSharedMemoryName = 0x02"
definition commandGetDataFrameWriteReadPointer :: u16 where "commandGetDataFrameWriteReadPointer = 0x03"
definition commandSetDataFrameReadPointer :: u16 where "commandSetDataFrameReadPointer = 0x04"
definition commandToFrontEnd :: u16 where "commandToFrontEnd = 0x05"
definition commandGetPortUp :: u16 where "commandGetPortUp = 0x06"
definition commandGetPortCounts :: u16 where "commandGetPortCounts = 0x07"
definition commandSetSorter :: u16 where "commandSetSorter = 0x09"
definition commandSetTrigger :: u16 where "commandSetTrigger = 0x10"
definition commandSetIdleTimeCalculation :: u16 where "commandSetIdleTimeCalculation = 0x11"
definition commandSetGateEnable :: u16 where "commandSetGateEnable = 0x12"
definition commandSetMinimumFrameID :: u16 where "commandSetMinimumFrameID = 0x13"

text \<open>The result of \<open>doAcqOnOff\<close> is not used; an unknown command is ignored without a reply.\<close>

definition dispatch :: "'s server_ops \<Rightarrow> u8 list \<Rightarrow> u8 list \<Rightarrow> u16 \<Rightarrow> int \<Rightarrow> 's \<Rightarrow> client \<Rightarrow> 's handled" where
  "dispatch ops pad stack type nBytesNext s cl =
     (if type = commandAcqOnOff then rbind (doAcqOnOff ops s cl) (\<lambda>(_, s, cl). Inr (0, s, cl))
      else if type = commandGetDataFrameSharedMemoryName then doGetDataFrameSharedMemoryName ops pad s cl
      else if type = commandGetDataFrameWriteReadPointer then doGetDataFrameWriteReadPointer ops pad s cl
      else if type = commandSetDataFrameReadPointer then doSetDataFrameReadPointer ops s cl
      else if type = commandToFrontEnd then doCommandToFrontEnd ops stack nBytesNext s cl
      else if type = commandGetPortUp then doGetPortUp ops pad s cl
      else if type = commandGetPortCounts then doGetPortCounts ops pad s cl
      else if type = commandSetSorter then doSetSorter ops s cl
      else if type = commandSetTrigger then doSetTrigger ops s cl
      else if type = commandSetIdleTimeCalculation then doSetIdleTimeCalculation ops s cl
      else if type = commandSetGateEnable then doSetGateEnable ops s cl
      else if type = commandSetMinimumFrameID then doSetMinimumFrameID ops s cl
      else Inr (0, s, cl))"

definition handleRequest :: "'s server_ops \<Rightarrow> u8 list \<Rightarrow> u8 list \<Rightarrow> 's \<Rightarrow> client \<Rightarrow> 's handled" where
  "handleRequest ops pad stack s cl =
     (let (n, cl) = cl_receive 0 cl in
      if n \<noteq> int HEADER_SIZE then Inr (-1, s, cl)
      else
        let type = ucast (of_le (take 2 (cl_socketBuffer cl))); len = unat (of_le (take 2 (drop 2 (cl_socketBuffer cl)))) in
        if len > socketBufferSize then Inr (-1, s, cl)
        else
          let nBytesNext = int len - int HEADER_SIZE;
              (n, cl) = (if nBytesNext > 0 then cl_receive HEADER_SIZE cl else (nBytesNext, cl))
          in if nBytesNext > 0 \<and> n \<noteq> nBytesNext then Inr (-1, s, cl)
             else rbind (dispatch ops pad stack type nBytesNext s cl) (\<lambda>(r, s, cl). Inr (if r = -1 then -1 else 0, s, cl)))"

section \<open>What clients rely on\<close>

definition returns :: "('s \<Rightarrow> bool) \<Rightarrow> fault + ('r \<times> 's) \<Rightarrow> bool" where
  "returns sinv r \<longleftrightarrow> (\<exists>v s. r = Inr (v, s) \<and> sinv s)"

text \<open>
  A frame server whose calls return; a command fails only if it is longer than a packet, and its reply fits an array of \<open>room\<close> bytes,
  which the array of the handler is.
\<close>

locale request_server =
  fixes ops :: "'s server_ops" and sinv :: "'s \<Rightarrow> bool" and room :: nat
  assumes room: "room \<le> 2046"
    and update: "sinv s \<Longrightarrow> sinv (so_update ops f s)"
    and command: "sinv s \<Longrightarrow> room \<le> length chars \<Longrightarrow> 0 \<le> n \<Longrightarrow> n \<le> int (length chars) \<Longrightarrow>
      \<exists>r chars' s'. so_sendCommand ops port slave chars 2048 n s = Inr ((r, chars'), s') \<and> length chars' = length chars
        \<and> r \<le> int (length chars) \<and> (r < 0 \<longrightarrow> 48 < n) \<and> sinv s'"
    and start: "sinv s \<Longrightarrow> \<exists>s'. so_startAcquisition ops m s = Inr s' \<and> sinv s'"
    and stop: "sinv s \<Longrightarrow> \<exists>s'. so_stopAcquisition ops s = Inr s' \<and> sinv s'"
    and settings: "sinv s \<Longrightarrow> returns sinv (so_getPortUp ops s)" "sinv s \<Longrightarrow> returns sinv (so_getPortCounts ops port which s)"
      "sinv s \<Longrightarrow> returns sinv (so_setSorter ops w s)" "sinv s \<Longrightarrow> returns sinv (so_setCoincidenceTrigger ops cfg s)"
      "sinv s \<Longrightarrow> returns sinv (so_setGateEnable ops w s)"
begin

definition handled_ok :: "client \<Rightarrow> 's handled \<Rightarrow> bool" where
  "handled_ok cl r \<longleftrightarrow> (\<exists>v s' cl'. r = Inr (v, s', cl') \<and> sinv s' \<and> length (cl_socketBuffer cl') = length (cl_socketBuffer cl)
     \<and> cl_recv cl' = cl_recv cl)"

lemma transmit_keeps: "cl_socketBuffer (snd (cl_transmit bs cl)) = cl_socketBuffer cl" "cl_recv (snd (cl_transmit bs cl)) = cl_recv cl"
  by (simp_all add: cl_transmit_def split: list.splits)

lemma answer_ok: "sinv s \<Longrightarrow> handled_ok cl (answer bs s cl)"
  using transmit_keeps [of bs cl] by (cases "cl_transmit bs cl") (auto simp: answer_def send_reply_def handled_ok_def)

lemma call_ok: "returns sinv r \<Longrightarrow> (\<And>v s. sinv s \<Longrightarrow> handled_ok cl (k (v, s))) \<Longrightarrow> handled_ok cl (rbind r k)"
  by (auto simp: returns_def)

lemma send_keeps: "cl_socketBuffer (snd (send_reply bs cl)) = cl_socketBuffer cl" "cl_recv (snd (send_reply bs cl)) = cl_recv cl"
  using transmit_keeps [of bs cl] by (cases "cl_transmit bs cl", simp add: send_reply_def)+

lemma handled_trans: "handled_ok cl1 r \<Longrightarrow> length (cl_socketBuffer cl1) = length (cl_socketBuffer cl) \<Longrightarrow>
    cl_recv cl1 = cl_recv cl \<Longrightarrow> handled_ok cl r"
  by (simp add: handled_ok_def)

lemma front_end_ok:
  assumes s: "sinv s" and buf: "length (cl_socketBuffer cl) = socketBufferSize" "length stack = 2048" and n: "2 \<le> n" "n \<le> 50"
  shows "handled_ok cl (doCommandToFrontEnd ops stack n s cl)"
proof -
  let ?chars = "arg_bytes (nat n) cl @ drop (nat n) stack"
  have "length ?chars = 2048" using buf n by (simp add: arg_bytes_def socketBufferSize_def HEADER_SIZE_def)
  then have len: "length (drop 2 ?chars) = 2046" by simp
  from command [OF s, of "drop 2 ?chars" "n - 2" "sint (?chars ! 0)" "sint (?chars ! 1)"] n room obtain r chars' s' where
    c: "so_sendCommand ops (sint (?chars ! 0)) (sint (?chars ! 1)) (drop 2 ?chars) 2048 (n - 2) s = Inr ((r, chars'), s')"
    "length chars' = 2046" "r \<le> 2046" "r < 0 \<longrightarrow> 48 < n - 2" "sinv s'" unfolding len by auto
  have ok: "0 \<le> r" "r \<le> int (length chars')" "0 \<le> n" "n \<le> int (length stack)" using c(2-4) n buf(2) by simp_all
  then have "\<not> (n < 0 \<or> n > int (length stack))" "\<not> (r < 0 \<or> r > int (length chars'))" by simp_all
  then show ?thesis
    using c(1,5) transmit_keeps unfolding doCommandToFrontEnd_def Let_def by (simp add: handled_ok_def del: drop_append)
qed

lemma dispatch_ok:
  assumes s: "sinv s" and buf: "length (cl_socketBuffer cl) = socketBufferSize" "length stack = 2048"
    and n: "type = commandToFrontEnd \<Longrightarrow> 2 \<le> n \<and> n \<le> 50"
  shows "handled_ok cl (dispatch ops pad stack type n s cl)"
proof -
  have acq: "handled_ok cl (rbind (doAcqOnOff ops s cl) (\<lambda>(_, s, cl). Inr (0, s, cl)))"
  proof -
    obtain s' where s': "(if arg16 cl \<noteq> 0 then so_startAcquisition ops 1 s else so_stopAcquisition ops s) = Inr s'" "sinv s'"
      using start [OF s] stop [OF s] by (cases "arg16 cl \<noteq> 0") auto
    then show ?thesis using answer_ok [OF s'(2), of cl "bytes16 0"] by (auto simp: doAcqOnOff_def handled_ok_def)
  qed
  have nm: "handled_ok cl (doGetDataFrameSharedMemoryName ops pad s cl)"
  proof -
    have "handled_ok cl (case send_reply hdr cl of (r, cl1) \<Rightarrow> if r = -1 then Inr (-1, s, cl1) else answer name s cl1)" for hdr name
      using s send_keeps [of hdr cl] handled_trans [OF answer_ok [OF s, of "snd (send_reply hdr cl)" name], of cl]
      by (cases "send_reply hdr cl") (auto simp: handled_ok_def)
    then show ?thesis unfolding doGetDataFrameSharedMemoryName_def Let_def .
  qed
  have set: "handled_ok cl (doGetDataFrameWriteReadPointer ops pad s cl)" "handled_ok cl (doSetDataFrameReadPointer ops s cl)"
    "handled_ok cl (doSetIdleTimeCalculation ops s cl)" "handled_ok cl (doSetMinimumFrameID ops s cl)"
    using s update by (simp_all add: doGetDataFrameWriteReadPointer_def doSetDataFrameReadPointer_def doSetIdleTimeCalculation_def
        doSetMinimumFrameID_def answer_ok)
  have up: "handled_ok cl (doGetPortUp ops pad s cl)" unfolding doGetPortUp_def
    using settings(1) [OF s] by (rule call_ok) (simp add: answer_ok)
  have counts: "handled_ok cl (doGetPortCounts ops pad s cl)" unfolding doGetPortCounts_def Let_def
    by (rule call_ok [OF settings(2) [OF s]], simp, rule call_ok [OF settings(2)], assumption, simp,
        rule call_ok [OF settings(2)], assumption, simp add: answer_ok)
  have so: "handled_ok cl (doSetSorter ops s cl)" unfolding doSetSorter_def
    using settings(3) [OF s] by (rule call_ok) (simp add: answer_ok)
  have tr: "handled_ok cl (doSetTrigger ops s cl)" unfolding doSetTrigger_def
    using settings(4) [OF s] by (rule call_ok) (simp add: answer_ok)
  have ga: "handled_ok cl (doSetGateEnable ops s cl)" unfolding doSetGateEnable_def
    using settings(5) [OF s] by (rule call_ok) (simp add: answer_ok)
  have un: "handled_ok cl (Inr (0, s, cl))" using s by (simp add: handled_ok_def)
  show ?thesis
    unfolding dispatch_def using acq nm set up counts so tr ga un front_end_ok [OF s buf] n by simp
qed

text \<open>A request is the four bytes of its header, which is received as a whole, and the bytes announced in it.\<close>

lemma request_ok:
  assumes s: "sinv s" and buf: "length (cl_socketBuffer cl) = socketBufferSize" "length stack = 2048"
    and recv: "cl_recv cl = hdr # body # rest" "length hdr = 4" "unat (of_le (drop 2 hdr)) = 4 + length body"
    and body: "0 < length body" "4 + length body \<le> socketBufferSize"
    and fe: "ucast (of_le (take 2 hdr)) = commandToFrontEnd \<Longrightarrow> 2 \<le> length body \<and> length body \<le> 50"
  shows "\<exists>v s' cl'. handleRequest ops pad stack s cl = Inr (v, s', cl') \<and> v \<in> {0, -1} \<and> sinv s'
    \<and> length (cl_socketBuffer cl') = socketBufferSize \<and> cl_recv cl' = rest"
proof -
  let ?cl1 = "cl\<lparr>cl_recv := body # rest, cl_socketBuffer := hdr @ drop 4 (cl_socketBuffer cl)\<rparr>"
  let ?cl2 = "?cl1\<lparr>cl_recv := rest, cl_socketBuffer := hdr @ body @ drop (4 + length body) (cl_socketBuffer ?cl1)\<rparr>"
  have r1: "cl_receive 0 cl = (4, ?cl1)" using recv by (simp add: cl_receive_def)
  have r2: "cl_receive 4 ?cl1 = (int (length body), ?cl2)" using recv(2) by (simp add: cl_receive_def)
  have tk: "take 2 (cl_socketBuffer ?cl1) = take 2 hdr" "take 2 (drop 2 (cl_socketBuffer ?cl1)) = drop 2 hdr"
    using recv(2) by simp_all
  have b2: "length (cl_socketBuffer ?cl2) = socketBufferSize" using recv(2) buf(1) body(2) by simp
  have d: "handled_ok ?cl2 (dispatch ops pad stack (ucast (of_le (take 2 hdr))) (int (length body)) s ?cl2)"
    using fe by (intro dispatch_ok [OF s b2 buf(2)]) simp
  have "handleRequest ops pad stack s cl =
      rbind (dispatch ops pad stack (ucast (of_le (take 2 hdr))) (int (length body)) s ?cl2) (\<lambda>(r, s, cl). Inr (if r = -1 then -1 else 0, s, cl))"
    unfolding handleRequest_def r1 Let_def HEADER_SIZE_def prod.case tk recv(3) using body r2 by simp
  with d b2 buf(1) show ?thesis by (auto simp: handled_ok_def)
qed

end

section \<open>The requests to a card\<close>

definition card_returns :: "'c card_ops \<Rightarrow> bool" where
  "card_returns ops \<longleftrightarrow> responsive ops \<and> (\<forall>e c. co_setAcquistionOnOff ops e c \<noteq> None) \<and> (\<forall>c. co_getPortUp ops c \<noteq> None)
     \<and> (\<forall>p w c. co_getPortCounts ops p w c \<noteq> None) \<and> (\<forall>w c. co_setSorter ops w c \<noteq> None)
     \<and> (\<forall>t c. co_setCoincidenceTrigger ops t c \<noteq> None) \<and> (\<forall>w c. co_setGateEnable ops w c \<noteq> None)"

lemma on_card_returns: "(\<And>c. f c \<noteq> None) \<Longrightarrow> returns (\<lambda>_. True) (on_card f d)"
proof -
  assume "\<And>c. f c \<noteq> None"
  then obtain v c where "f (card d) = Some (v, c)" by (metis not_None_eq surj_pair)
  then show ?thesis by (simp add: on_card_def of_option_def returns_def)
qed

lemma daq_request_server:
  assumes r: "card_returns ops"
  shows "request_server (daq_ops ops between) (\<lambda>_. True) 48"
proof -
  have acq: "\<exists>v d'. on_card (co_setAcquistionOnOff ops e) d = Inr (v, d')" for e d
    using on_card_returns [of "co_setAcquistionOnOff ops e" d] r by (auto simp: card_returns_def returns_def)
  have start: "\<exists>s'. so_startAcquisition (daq_ops ops between) m s = Inr s' \<and> True" for m s
  proof -
    obtain v d1 where 1: "on_card (co_setAcquistionOnOff ops False) s = Inr (v, d1)" using acq by blast
    obtain v2 d2 where 2: "on_card (co_setAcquistionOnOff ops True) d1 = Inr (v2, d2)" using acq by blast
    show ?thesis by (simp add: daq_ops_def daq_startAcquisition_def 1 2)
  qed
  have stop: "\<exists>s'. so_stopAcquisition (daq_ops ops between) s = Inr s' \<and> True" for s
  proof -
    obtain v d1 where 1: "on_card (co_setAcquistionOnOff ops False) s = Inr (v, d1)" using acq by blast
    show ?thesis by (simp add: daq_ops_def daq_stopAcquisition_def 1)
  qed
  have command: "\<exists>ra chars' s'. so_sendCommand (daq_ops ops between) port slave chars 2048 n s = Inr ((ra, chars'), s') \<and>
      length chars' = length chars \<and> ra \<le> int (length chars) \<and> (ra < 0 \<longrightarrow> 48 < n) \<and> True"
    if a: "48 \<le> length chars" "0 \<le> n" "n \<le> int (length chars)" for port slave and chars :: "u8 list" and n s
  proof -
    have "responsive ops" "2 \<le> length chars" "min 2048 48 \<le> int (length chars)" using r a(1) by (simp_all add: card_returns_def)
    from daq_sendCommand_ok [OF this a(2,3), of port slave "card s"] show ?thesis using a(1) by (auto simp: daq_ops_def)
  qed
  have others: "returns (\<lambda>_. True) (so_getPortUp (daq_ops ops between) s)"
    "returns (\<lambda>_. True) (so_getPortCounts (daq_ops ops between) port which s)"
    "returns (\<lambda>_. True) (so_setSorter (daq_ops ops between) w s)"
    "returns (\<lambda>_. True) (so_setCoincidenceTrigger (daq_ops ops between) cfg s)"
    "returns (\<lambda>_. True) (so_setGateEnable (daq_ops ops between) w s)" for s port which w cfg
    using r by (simp_all add: daq_ops_def daq_getPortUp_def daq_getPortCounts_def daq_setSorter_def daq_setCoincidenceTrigger_def
        daq_setGateEnable_def card_returns_def on_card_returns)
  show ?thesis
    by (rule request_server.intro) (simp, (use start stop command others in blast)+)
qed


lemma le_bytes_32: "arg32 (cl\<lparr>cl_socketBuffer := hdr @ bytes32 x @ rest\<rparr>) = x" if "length hdr = 4"
proof -
  have "arg_bytes 4 (cl\<lparr>cl_socketBuffer := hdr @ bytes32 x @ rest\<rparr>) = bytes32 x"
    using that by (simp add: arg_bytes_def HEADER_SIZE_def bytes32_def)
  moreover have "(ucast (of_le (bytes32 x)) :: u32) = x"
  proof (rule bit_eqI)
    fix n :: nat
    have "8 * (n div 8) + n mod 8 = n" by simp
    then show "bit (ucast (of_le (bytes32 x)) :: u32) n = bit x n"
      using bit_imp_le_length [of x n]
      by (cases "n < 32") (auto simp: bytes32_def bit_of_le le_bytes_def byte_of_def bit_simps)
  qed
  ultimately show ?thesis by (simp add: arg32_def)
qed

text \<open>
  A client that has processed the first frames of the ring releases exactly these: after the request that sets the read pointer \<open>k\<close>
  frames further, the daemon's queue of frames is the rest, and the ring is still well formed.
\<close>

theorem client_releases:
  assumes w: "wf_server (server d)" and k: "k \<le> backlog (server d)" and buf: "length (cl_socketBuffer cl) = socketBufferSize"
    and recv: "cl_recv cl = [4, 0, 8, 0] # bytes32 (of_nat ((dataFrameReadPointer (server d) + k) mod (2 * queueSize))) # rest"
  shows "\<exists>v d' cl'. handleRequest (daq_ops ops between) pad stack d cl = Inr (v, d', cl')
    \<and> wf_server (server d') \<and> visible (server d') = drop k (visible (server d)) \<and> backlog (server d') = backlog (server d) - k"
proof -
  let ?x = "of_nat ((dataFrameReadPointer (server d) + k) mod (2 * queueSize)) :: u32"
  let ?ops = "daq_ops ops between"
  let ?cl1 = "cl\<lparr>cl_recv := bytes32 ?x # rest, cl_socketBuffer := [4, 0, 8, 0] @ drop 4 (cl_socketBuffer cl)\<rparr>"
  let ?cl2 = "(cl\<lparr>cl_recv := rest\<rparr>)\<lparr>cl_socketBuffer := [4, 0, 8, 0] @ bytes32 ?x @ drop 8 (cl_socketBuffer ?cl1)\<rparr>"
  have b4: "length (bytes32 ?x) = 4" by (simp add: bytes32_def)
  have r1: "cl_receive 0 cl = (4, ?cl1)" using recv by (simp add: cl_receive_def numeral_eq_Suc)
  have r2: "cl_receive 4 ?cl1 = (4, ?cl2)" using b4 by (simp add: cl_receive_def)
  have a: "arg32 ?cl2 = ?x" by (rule le_bytes_32) simp
  have d: "handleRequest ?ops pad stack d cl =
      rbind (dispatch ?ops pad stack (ucast (of_le [4, 0 :: u8])) 4 d ?cl2) (\<lambda>(r, s, cl). Inr (if r = -1 then -1 else 0, s, cl))"
  proof -
    have tk: "take 2 (cl_socketBuffer ?cl1) = [4, 0]" "take 2 (drop 2 (cl_socketBuffer ?cl1)) = [8, 0]" by (simp_all add: numeral_2_eq_2)
    have l: "unat (of_le [8, 0 :: u8]) = 8" by simp
    show ?thesis unfolding handleRequest_def r1 Let_def HEADER_SIZE_def prod.case tk l socketBufferSize_def using r2 by simp
  qed
  have "(ucast (of_le [4, 0 :: u8]) :: u16) = commandSetDataFrameReadPointer" by (simp add: commandSetDataFrameReadPointer_def)
  then have "dispatch ?ops pad stack (ucast (of_le [4, 0 :: u8])) 4 d ?cl2 = doSetDataFrameReadPointer ?ops d ?cl2"
    by (simp add: dispatch_def commandAcqOnOff_def commandGetDataFrameSharedMemoryName_def
        commandGetDataFrameWriteReadPointer_def commandSetDataFrameReadPointer_def)
  moreover have "doSetDataFrameReadPointer ?ops d ?cl2 = answer (bytes32 ?x) (d\<lparr>server := release k (server d)\<rparr>) ?cl2"
    unfolding doSetDataFrameReadPointer_def a by (simp add: daq_ops_def release_def)
  ultimately have "\<exists>v cl'. handleRequest ?ops pad stack d cl = Inr (v, d\<lparr>server := release k (server d)\<rparr>, cl')"
    unfolding d by (cases "send_reply (bytes32 ?x) ?cl2") (simp add: answer_def)
  then show ?thesis using release_ok(1-3) [OF w k] by fastforce
qed

text \<open>
  A command to the front end that is too short for its address, or longer than the handler's array, is not refused but makes the handler
  access memory out of bounds, whatever the card: the announced length is checked against the receive buffer only.
\<close>

theorem front_end_length_faults:
  assumes buf: "length stack = 2048" and n: "n < 2 \<or> 2048 < n"
  shows "dispatch (daq_ops ops between) pad stack commandToFrontEnd n d cl = Inl OutOfBounds"
proof -
  have "doCommandToFrontEnd (daq_ops ops between) stack n d cl = Inl OutOfBounds"
  proof (cases "n < 0 \<or> n > 2048")
    case True
    then show ?thesis using buf by (auto simp: doCommandToFrontEnd_def)
  next
    case False
    then have n01: "n = 0 \<or> n = 1" using n by auto
    have "length (drop 2 (arg_bytes (nat n) cl @ drop (nat n) stack)) \<ge> 2"
      using n01 buf by (auto simp: arg_bytes_def)
    then have "daq_sendCommand ops port slave (drop 2 (arg_bytes (nat n) cl @ drop (nat n) stack)) 2048 (n - 2) c = Inl OutOfBounds"
      for port slave c using n01 by (auto simp: daq_sendCommand_def)
    then show ?thesis using False buf unfolding doCommandToFrontEnd_def Let_def daq_ops_def by (auto simp del: drop_append)
  qed
  then show ?thesis
    by (simp add: dispatch_def commandAcqOnOff_def commandGetDataFrameSharedMemoryName_def commandGetDataFrameWriteReadPointer_def
        commandSetDataFrameReadPointer_def commandToFrontEnd_def)
qed

lemma front_end_length_witness:
  "dispatch (daq_ops (kx7_ops memory_bus id) id) [] (replicate 2048 0) commandToFrontEnd 1 (newWorker (newFrameServer 0) kx7_example \<lparr>data = []\<rparr>)
     \<lparr>cl_socketBuffer = [], cl_recv = [], cl_send = [], cl_sent = []\<rparr> = Inl OutOfBounds"
  using front_end_length_faults [of "replicate 2048 0" 1] by simp

text \<open>A reply that could not be sent counts as sent.\<close>

lemma failed_send_unnoticed: "n < 2 ^ 63 \<Longrightarrow> \<not> short_send (-1) n"
proof -
  assume "n < 2 ^ 63"
  then have "unat (of_nat n :: u64) = n" by (intro unat_of_nat_small) simp
  moreover have "unat (-1 :: u64) = 2 ^ 64 - 1" by (simp add: unsigned_minus_1_eq_mask mask_eq_exp_minus_1)
  ultimately show ?thesis using \<open>n < 2 ^ 63\<close> by (simp add: short_send_def word_less_nat_alt)
qed

section \<open>The PCIe card\<close>

lemma memory_read_reg: "read_reg memory_bus r 1 k \<noteq> None"
  by (metis read_reg_ok [OF memory_lawful] not_None_eq)

lemma memory_write_reg: "write_reg memory_bus r ds k \<noteq> None"
  by (metis write_reg_ok [OF memory_lawful] subset_UNIV not_None_eq)

lemma memory_write_regs: "write_regs memory_bus xs k \<noteq> None"
proof (induction xs arbitrary: k)
  case (Cons x xs)
  then show ?case using memory_write_reg [of "fst x" "snd x" k] by (cases "write_reg memory_bus (fst x) (snd x) k") auto
qed simp

lemma memory_card_returns: "card_returns (kx7_ops memory_bus id)"
proof -
  have rd: "\<exists>y. read_reg memory_bus r (Suc 0) k = Some y" for r k using memory_read_reg [of r k] by auto
  have wr: "\<exists>y. write_reg memory_bus r ds k = Some y" for r ds k using memory_write_reg [of r ds k] by auto
  have wrs: "\<exists>y. write_regs memory_bus xs k = Some y" for xs k using memory_write_regs [of xs k] by auto
  have acq: "\<exists>y. setAcquistionOnOff memory_bus id e k = Some y" for e k
  proof -
    obtain k1 where 1: "write_reg memory_bus acqStatusPointerReg [acq_word e] k = Some k1" using wr by blast
    obtain k2 where 2: "write_reg memory_bus acqStatusPointerReg [acq_word e] k1 = Some k2" using wr by blast
    show ?thesis by (simp add: setAcquistionOnOff_def 1 2)
  qed
  have so: "\<exists>y. setSorter memory_bus w k = Some y" for w k
  proof -
    obtain ds k1 where 1: "read_reg memory_bus ConfigReg 1 k = Some (ds, k1)" using rd by fastforce
    obtain k2 where 2: "write_reg memory_bus ConfigReg [(hd ds AND 0xEFFFFFFF) OR (if w = 0 then 0x10000000 else 0)] k1 = Some k2" using wr by blast
    show ?thesis using 2 unfolding setSorter_def 1 by (simp add: Let_def)
  qed
  have tr: "\<exists>y. setCoincidenceTrigger memory_bus t k = Some y" for t k
  proof -
    have "\<exists>y. map_option (\<lambda>k. (0 :: int, k)) (write_regs memory_bus xs k) = Some y" for xs
      using wrs [of xs k] by auto
    then show ?thesis unfolding setCoincidenceTrigger_def by (simp del: write_regs.simps split: option.split)
  qed
  have up: "\<exists>y. getPortUp memory_bus k = Some y" for k using rd [of statusReg k] by (auto simp: getPortUp_def)
  have ga: "\<exists>y. setGateEnable memory_bus w k = Some y" for w k
    using wr [of GateEnableReg "[acq_word (w \<noteq> 0)]" k] by (auto simp: setGateEnable_def)
  have eqs: "co_setAcquistionOnOff (kx7_ops memory_bus id) = setAcquistionOnOff memory_bus id"
    "co_getPortUp (kx7_ops memory_bus id) = getPortUp memory_bus" "co_setSorter (kx7_ops memory_bus id) = setSorter memory_bus"
    "co_getPortCounts (kx7_ops memory_bus id) = (\<lambda>p w k. Some (getPortCounts memory_bus p w k))"
    "co_setCoincidenceTrigger (kx7_ops memory_bus id) = (\<lambda>c. setCoincidenceTrigger memory_bus (Some c))"
    "co_setGateEnable (kx7_ops memory_bus id) = setGateEnable memory_bus"
    by (simp_all add: kx7_ops_def)
  show ?thesis unfolding card_returns_def eqs not_None_eq
    using memory_responsive up acq so tr ga by blast
qed

interpretation kx: request_server "daq_ops (kx7_ops memory_bus id) id" "\<lambda>_. True" 48
  by (rule daq_request_server [OF memory_card_returns])

definition client_example :: "u8 list list \<Rightarrow> client" where
  "client_example msgs = \<lparr>cl_socketBuffer = replicate socketBufferSize 0, cl_recv = msgs, cl_send = [4], cl_sent = []\<rparr>"


lemma client_releases_witness:
  "\<exists>v d' cl'. handleRequest (daq_ops (kx7_ops memory_bus id) id) [] []
       (newWorker ((newFrameServer 0)\<lparr>dataFrameWritePointer := 3\<rparr>) kx7_example \<lparr>data = []\<rparr>)
       (client_example [[4, 0, 8, 0], bytes32 2]) = Inr (v, d', cl') \<and> backlog (server d') = 1"
proof -
  let ?s = "(newFrameServer 0)\<lparr>dataFrameWritePointer := 3\<rparr>"
  let ?d = "newWorker ?s kx7_example \<lparr>data = []\<rparr>"
  have b: "backlog ?s = 3" by (simp add: backlog_def newFrameServer_def MaxRawDataFrameQueueSize_def)
  then have "wf_server ?s" by (simp add: wf_server_def) (simp add: newFrameServer_def MaxRawDataFrameQueueSize_def list_all_iff wf_frame_def)
  moreover have "dataFrameReadPointer ?s = 0" by (simp add: newFrameServer_def)
  ultimately show ?thesis
    using client_releases [of ?d 2 "client_example [[4, 0, 8, 0], bytes32 2]" "[]" "kx7_ops memory_bus id" id "[]" "[]"] b
    by (auto simp: newWorker_def client_example_def MaxRawDataFrameQueueSize_def)
qed

end
