(* ===== verification/Udp_Frame_Server.thy ===== *)
theory Udp_Frame_Server
  imports Client_Requests
begin

text \<open>
  The frame server of the Ethernet front end, daqd/UDPFrameServer.cpp: the worker that sorts the datagrams received into replies and data and
  stores the frames of the data in the ring, and the exchange of a command for its reply. As in \<open>Frame_Server\<close>, the
  worker is cut at its lock operations.
\<close>

section \<open>The worker\<close>

text \<open>
  \<open>Choosing p n\<close>: the next frame starts at word \<open>p\<close> of the \<open>n\<close> words of the datagram; \<open>Copying\<close> and
  \<open>Pushing\<close> hold the slot chosen. The replies of \<open>replyQueue\<close> are the bytes stored, and \<open>u_sent\<close> lists the
  datagrams sent.
\<close>

datatype udp_pc = Receiving | Choosing nat nat | Copying nat nat nat "nat option" | Pushing nat nat "nat option"

record udp =
  u_server :: FrameServer
  u_replyQueue :: "u8 list list"
  u_sent :: "u8 list list"
  u_rxBuffer :: "u8 list"
  u_dataBuffer :: "u64 list"
  u_devNull :: RawDataFrame
  u_pc :: udp_pc

definition rxBufferSize :: nat where
  "rxBufferSize = 2048"

definition dataBufferSize :: nat where
  "dataBufferSize = rxBufferSize div 8"

text \<open>
  The set-up, with the result of \<open>recv\<close> for the first datagram sent; no answer ends the program. The contents of the local arrays of
  the worker are not set.
\<close>

definition newUDPFrameServer :: "int \<Rightarrow> u32 \<Rightarrow> u8 list \<Rightarrow> u64 list \<Rightarrow> RawDataFrame \<Rightarrow> udp option" where
  "newUDPFrameServer r idle0 rx0 data0 null =
     (if r < 1 then None
      else Some \<lparr>u_server = startWorker (newFrameServer idle0), u_replyQueue = [], u_sent = [replicate 22 0xFF], u_rxBuffer = rx0,
        u_dataBuffer = data0, u_devNull = null, u_pc = Receiving\<rparr>)"

text \<open>
  One call of \<open>recv\<close>: \<open>None\<close> for a failed one, which is never told from a time-out, and otherwise a datagram, cut to the
  buffer. An empty datagram is judged by the first byte of the one before, and its length minus one wraps to a huge size.
\<close>

definition udp_receive :: "u8 list option \<Rightarrow> udp \<Rightarrow> fault + udp" where
  "udp_receive rx u =
     (case rx of
        None \<Rightarrow> Inr u
      | Some bs \<Rightarrow>
          let bs = take rxBufferSize bs; r = length bs; u = u\<lparr>u_rxBuffer := bs @ drop r (u_rxBuffer u)\<rparr> in
          rbind (idx (u_rxBuffer u) 0) (\<lambda>b.
            if b = 0x5A then
              if r = 0 then Inl OutOfBounds
              else Inr (u\<lparr>u_replyQueue := u_replyQueue u @ [take (r - 1) (drop 1 (u_rxBuffer u))]\<rparr>)
            else if b = 0xA5 \<and> acquisitionMode (u_server u) \<noteq> 0 then
              if r = 0 then Inl OutOfBounds
              else
                let nWords = (r - 1) div 8 in
                Inr (u\<lparr>u_dataBuffer := words_le (take (8 * nWords) (drop 1 (u_rxBuffer u))) @ drop nWords (u_dataBuffer u),
                  u_pc := Choosing 0 nWords\<rparr>)
            else Inr u))"

definition udp_next :: "nat \<Rightarrow> nat \<Rightarrow> udp \<Rightarrow> udp" where
  "udp_next p nWords u = u\<lparr>u_pc := if p < nWords then Choosing p nWords else Receiving\<rparr>"

definition udp_choose :: "nat \<Rightarrow> nat \<Rightarrow> udp \<Rightarrow> fault + udp" where
  "udp_choose p nWords u =
     rbind (idx (u_dataBuffer u) p) (\<lambda>w.
       let frameSize = unat (drop_bit 36 w AND 0x7FFF); s = u_server u;
           tgt = (if \<not> ringFull (dataFrameWritePointer s) (dataFrameReadPointer s)
                  then Some (dataFrameWritePointer s mod queueSize) else None)
       in Inr (u\<lparr>u_pc := Copying p nWords frameSize tgt\<rparr>))"

definition udp_slot :: "nat option \<Rightarrow> udp \<Rightarrow> RawDataFrame" where
  "udp_slot tgt u = (case tgt of None \<Rightarrow> u_devNull u | Some i \<Rightarrow> dataFrameSharedMemory (u_server u) ! i)"

definition udp_store :: "nat option \<Rightarrow> RawDataFrame \<Rightarrow> udp \<Rightarrow> udp" where
  "udp_store tgt f u =
     (case tgt of
        None \<Rightarrow> u\<lparr>u_devNull := f\<rparr>
      | Some i \<Rightarrow> u\<lparr>u_server := (u_server u)\<lparr>dataFrameSharedMemory := (dataFrameSharedMemory (u_server u))[i := f]\<rparr>\<rparr>)"

text \<open>The frame is copied over the slot before its header is checked; its size is not checked against the words received.\<close>

definition udp_copy :: "nat \<Rightarrow> nat \<Rightarrow> nat \<Rightarrow> nat option \<Rightarrow> udp \<Rightarrow> fault + udp" where
  "udp_copy p nWords frameSize tgt u =
     (if p + frameSize > length (u_dataBuffer u) \<or> frameSize > MaxRawDataFrameSize then Inl OutOfBounds
      else
        let f = \<lparr>data = take frameSize (drop p (u_dataBuffer u)) @ drop frameSize (data (udp_slot tgt u))\<rparr>; u = udp_store tgt f u in
        if \<not> parseDataFrame f then Inr (u\<lparr>u_pc := Receiving\<rparr>)
        else if getFrameID f < minimumFrameID (u_server u) then Inr (udp_next (p + frameSize) nWords u)
        else Inr (u\<lparr>u_pc := Pushing (p + frameSize) nWords tgt\<rparr>))"

definition udp_push :: "nat \<Rightarrow> nat \<Rightarrow> nat option \<Rightarrow> udp \<Rightarrow> udp" where
  "udp_push p nWords tgt u =
     (let s = u_server u;
          s = (if tgt \<noteq> None then s\<lparr>dataFrameWritePointer := (dataFrameWritePointer s + 1) mod (2 * queueSize)\<rparr> else s)
      in udp_next p nWords (u\<lparr>u_server := s\<rparr>))"

text \<open>The next phase of the worker; \<open>rx\<close> is the result of \<open>recv\<close>, if it is called.\<close>

definition udp_worker :: "u8 list option \<Rightarrow> udp \<Rightarrow> fault + udp" where
  "udp_worker rx u =
     (case u_pc u of
        Receiving \<Rightarrow> udp_receive rx u
      | Choosing p n \<Rightarrow> udp_choose p n u
      | Copying p n k tgt \<Rightarrow> udp_copy p n k tgt u
      | Pushing p n tgt \<Rightarrow> Inr (udp_push p n tgt u))"


section \<open>The ring as a queue\<close>

text \<open>A worker of the ring in the sense of \<open>Frame_Server\<close>: the words of the datagram take the place of a card.\<close>

definition udp_pc_of :: "udp_pc \<Rightarrow> phase" where
  "udp_pc_of c =
     (case c of
        Receiving \<Rightarrow> Hunting
      | Choosing p n \<Rightarrow> Hunting
      | Copying p n k tgt \<Rightarrow> Filling 0 0 tgt
      | Pushing p n tgt \<Rightarrow> Committing tgt)"

definition as_daq :: "udp \<Rightarrow> unit daq" where
  "as_daq u = \<lparr>server = u_server u, card = (), devNull = u_devNull u, pc = udp_pc_of (u_pc u),
     lastFrameWasBad = False, skippedLoops = 0, frameCount = 0\<rparr>"

lemma as_daq_sel [simp]:
  "server (as_daq u) = u_server u" "devNull (as_daq u) = u_devNull u" "pc (as_daq u) = udp_pc_of (u_pc u)"
  by (simp_all add: as_daq_def)

lemma udp_pc_of_simps [simp]:
  "udp_pc_of Receiving = Hunting" "udp_pc_of (Choosing p n) = Hunting" "udp_pc_of (Copying p n k tgt) = Filling 0 0 tgt"
  "udp_pc_of (Pushing p n tgt) = Committing tgt"
  by (simp_all add: udp_pc_of_def)

lemma udp_slot_daq: "slot_frame tgt (as_daq u) = udp_slot tgt u"
  by (simp add: slot_frame_def udp_slot_def split: option.split)

lemma udp_store_daq:
  "u_server (udp_store tgt f u) = server (put_frame tgt f (as_daq u))" "u_devNull (udp_store tgt f u) = devNull (put_frame tgt f (as_daq u))"
  by (simp_all add: udp_store_def put_frame_def split: option.split)

lemma udp_next_sel [simp]:
  "u_server (udp_next p n u) = u_server u" "u_devNull (udp_next p n u) = u_devNull u" "udp_pc_of (u_pc (udp_next p n u)) = Hunting"
  by (simp_all add: udp_next_def)

lemma udp_push_daq: "as_daq (udp_push p n tgt u) = (commit_slot tgt (as_daq u))"
  by (simp add: udp_push_def commit_slot_def as_daq_def Let_def udp_next_def)

text \<open>Every step of the worker is one of a worker of the ring, and keeps the sizes of the local arrays.\<close>

definition udp_inv :: "udp \<Rightarrow> bool" where
  "udp_inv u \<longleftrightarrow> daq_inv (as_daq u) \<and> length (u_rxBuffer u) = rxBufferSize \<and> length (u_dataBuffer u) = dataBufferSize"

definition udp_refined :: "udp \<Rightarrow> udp \<Rightarrow> bool" where
  "udp_refined u u' \<longleftrightarrow> daq_inv (as_daq u') \<and> queue_step (visible (u_server u)) (visible (u_server u'))"

lemma refined_hunted: "daq_inv (as_daq u) \<Longrightarrow> hunted (as_daq u) (as_daq u') \<Longrightarrow> udp_refined u u'"
  using hunted_inv [of "as_daq u" "as_daq u'"] by (simp add: udp_refined_def)

lemma udp_receive_refined: "daq_inv (as_daq u) \<Longrightarrow> u_pc u = Receiving \<Longrightarrow> udp_receive rx u = Inr u' \<Longrightarrow> udp_refined u u'"
  by (rule refined_hunted) (auto simp: udp_receive_def hunted_def Let_def rbind_Inr_iff split: option.splits if_splits)

lemma udp_choose_refined:
  assumes "daq_inv (as_daq u)" "udp_choose p n u = Inr u'"
  shows "udp_refined u u'"
proof (rule refined_hunted [OF assms(1)])
  have w: "wf_server (u_server u)" using assms(1) by (simp add: daq_inv_def)
  then have "backlog (u_server u) \<le> queueSize" by (simp add: wf_server_def)
  with assms(2) full_iff [OF w] show "hunted (as_daq u) (as_daq u')"
    by (auto simp: udp_choose_def hunted_def Let_def rbind_Inr_iff)
qed

lemma udp_copy_refined:
  assumes inv: "daq_inv (as_daq u)" "u_pc u = Copying p n k tgt" and c: "udp_copy p n k tgt u = Inr u'"
  shows "udp_refined u u'"
proof -
  let ?f = "\<lparr>data = take k (drop p (u_dataBuffer u)) @ drop k (data (udp_slot tgt u))\<rparr> :: RawDataFrame"
  have pc: "pc (as_daq u) = Filling 0 0 tgt" using inv(2) by simp
  have "wf_frame (udp_slot tgt u)" using slot_frame_wf [OF inv(1) pc] by (simp add: udp_slot_daq)
  then have wf: "wf_frame ?f" using c by (auto simp: udp_copy_def wf_frame_def split: if_splits)
  have "filled tgt (as_daq u) (as_daq u')"
    using c wf unfolding filled_def by (intro exI [of _ ?f]) (auto simp: udp_copy_def udp_store_daq Let_def split: if_splits)
  from filled_inv [OF inv(1) pc this] show ?thesis by (simp add: udp_refined_def)
qed

lemma udp_worker_refined:
  assumes "daq_inv (as_daq u)" "udp_worker rx u = Inr u'"
  shows "udp_refined u u'"
proof (cases "u_pc u")
  case (Pushing p n tgt)
  then have u': "u' = udp_push p n tgt u" "pc (as_daq u) = Committing tgt" using assms(2) by (simp_all add: udp_worker_def)
  have "server (commit_slot tgt (as_daq u)) = u_server (udp_push p n tgt u)" by (simp add: udp_push_daq [of p n, symmetric])
  then show ?thesis using commit_inv [OF assms(1) u'(2)] by (simp add: udp_refined_def u' udp_push_daq)
qed (use assms udp_receive_refined udp_choose_refined udp_copy_refined in \<open>auto simp: udp_worker_def\<close>)

lemma udp_receive_sizes:
  assumes "udp_receive rx u = Inr u'" "length (u_rxBuffer u) = rxBufferSize" "length (u_dataBuffer u) = dataBufferSize"
  shows "length (u_rxBuffer u') = rxBufferSize \<and> length (u_dataBuffer u') = dataBufferSize"
proof (cases rx)
  case (Some bs)
  let ?bs = "take rxBufferSize bs"
  let ?n = "(length ?bs - 1) div 8"
  have r: "length ?bs \<le> 2048" by (simp add: rxBufferSize_def)
  have l: "length (?bs @ drop (length ?bs) (u_rxBuffer u)) = rxBufferSize" using assms(2) by simp
  have n: "?n \<le> 256" "8 * ?n \<le> 2047" using r by linarith+
  show ?thesis
  proof (cases "u_dataBuffer u' = u_dataBuffer u")
    case True
    then show ?thesis using assms Some l by (auto simp: udp_receive_def Let_def rbind_Inr_iff split: if_splits)
  next
    case False
    let ?x = "?bs @ drop (length ?bs) (u_rxBuffer u)"
    have "u_rxBuffer u' = ?x \<and> u_dataBuffer u' = words_le (take (8 * ?n) (drop 1 ?x)) @ drop ?n (u_dataBuffer u)"
      using False assms(1) Some by (auto simp: udp_receive_def Let_def rbind_Inr_iff split: if_splits)
    moreover have "length (words_le (take (8 * ?n) (drop 1 ?x))) = ?n"
      using n l unfolding length_words_le length_take length_drop rxBufferSize_def by simp
    ultimately show ?thesis using l n assms(3) by (simp add: dataBufferSize_def rxBufferSize_def)
  qed
qed (use assms in \<open>simp add: udp_receive_def\<close>)

lemma udp_worker_sizes:
  assumes "udp_worker rx u = Inr u'" "length (u_rxBuffer u) = rxBufferSize" "length (u_dataBuffer u) = dataBufferSize"
  shows "length (u_rxBuffer u') = rxBufferSize \<and> length (u_dataBuffer u') = dataBufferSize"
proof (cases "u_pc u")
  case Receiving
  then show ?thesis using udp_receive_sizes [OF _ assms(2,3)] assms(1) by (simp add: udp_worker_def)
next
  case (Copying p n k tgt)
  then show ?thesis using assms
    by (auto simp: udp_worker_def udp_copy_def udp_store_def udp_next_def Let_def split: if_splits option.splits)
qed (use assms in \<open>auto simp: udp_worker_def udp_choose_def udp_push_def udp_next_def Let_def rbind_Inr_iff\<close>)


text \<open>What may happen next, as for a card: the worker runs a phase, a reader releases frames, the acquisition is started or stopped.\<close>

inductive udp_step :: "udp \<Rightarrow> udp \<Rightarrow> bool" where
  worker: "(u_pc u = Receiving \<longrightarrow> \<not> die (u_server u)) \<Longrightarrow> udp_worker rx u = Inr u' \<Longrightarrow> udp_step u u'"
| reader: "k \<le> backlog (u_server u) \<Longrightarrow> udp_step u (u\<lparr>u_server := release k (u_server u)\<rparr>)"
| start_first: "\<not> holds_slot (as_daq u) \<Longrightarrow> udp_step u (u\<lparr>u_server := wipe_first (u_server u)\<rparr>)"
| start_second: "\<not> holds_slot (as_daq u) \<Longrightarrow> udp_step u (u\<lparr>u_server := wipe_second mode (u_server u)\<rparr>)"
| stop: "\<not> holds_slot (as_daq u) \<Longrightarrow> udp_step u (u\<lparr>u_server := stopAcquisition (u_server u)\<rparr>)"
| ends: "udp_step u (u\<lparr>u_server := stopWorker (u_server u)\<rparr>)"

lemma as_daq_server: "as_daq (u\<lparr>u_server := s\<rparr>) = (as_daq u)\<lparr>server := s\<rparr>"
  by (simp add: as_daq_def)

lemma udp_control:
  assumes inv: "udp_inv u" and d: "daq_step gw (as_daq u) ((as_daq u)\<lparr>server := s\<rparr>)"
  shows "udp_inv (u\<lparr>u_server := s\<rparr>) \<and> queue_step (visible (u_server u)) (visible s)"
  using daq_inv_step [OF d] inv by (simp add: udp_inv_def as_daq_server)

lemma udp_inv_step: "udp_step u u' \<Longrightarrow> udp_inv u \<Longrightarrow> udp_inv u' \<and> queue_step (visible (u_server u)) (visible (u_server u'))"
proof (induction rule: udp_step.induct)
  case (worker u rx u')
  then show ?case using udp_worker_refined [OF _ worker(2)] udp_worker_sizes [OF worker(2)] by (simp add: udp_inv_def udp_refined_def)
next
  case (reader k u)
  then have "daq_step (\<lambda>c n. undefined) (as_daq u) ((as_daq u)\<lparr>server := release k (server (as_daq u))\<rparr>)" by (intro daq_step.reader) simp
  from udp_control [OF reader(2) this] show ?case by simp
next
  case (start_first u)
  from udp_control [OF start_first(2) daq_step.start_first [OF start_first(1)]] show ?case by simp
next
  case (start_second u mode)
  from udp_control [OF start_second(2) daq_step.start_second [OF start_second(1)]] show ?case by simp
next
  case (stop u)
  from udp_control [OF stop(2) daq_step.stop [OF stop(1)]] show ?case by simp
next
  case (ends u)
  from udp_control [OF ends daq_step.ends] show ?case by simp
qed

inductive udp_reachable :: "udp \<Rightarrow> udp \<Rightarrow> bool" for u0 where
  start: "udp_reachable u0 u0"
| step: "udp_reachable u0 u \<Longrightarrow> udp_step u u' \<Longrightarrow> udp_reachable u0 u'"

definition udp_locals :: "u8 list \<Rightarrow> u64 list \<Rightarrow> RawDataFrame \<Rightarrow> bool" where
  "udp_locals rx0 data0 null \<longleftrightarrow> length rx0 = rxBufferSize \<and> length data0 = dataBufferSize \<and> wf_frame null"

lemma new_udp_inv:
  assumes "newUDPFrameServer r i rx0 data0 null = Some u" "udp_locals rx0 data0 null"
  shows "udp_inv u"
proof -
  have u: "u = \<lparr>u_server = startWorker (newFrameServer i), u_replyQueue = [], u_sent = [replicate 22 0xFF], u_rxBuffer = rx0,
        u_dataBuffer = data0, u_devNull = null, u_pc = Receiving\<rparr>"
    using assms(1) by (simp add: newUDPFrameServer_def split: if_splits)
  have "wf_frame null" using assms(2) by (simp add: udp_locals_def)
  from new_daq_inv [OF this, of i "()"] assms(2) show ?thesis
    by (simp add: u udp_inv_def udp_locals_def as_daq_def daq_inv_def newWorker_def)
qed

lemma udp_reachable_inv: "udp_reachable u0 u \<Longrightarrow> udp_inv u0 \<Longrightarrow> udp_inv u"
  by (induction rule: udp_reachable.induct) (auto dest: udp_inv_step)



section \<open>The frames of a datagram\<close>

text \<open>Phases of the worker from which no datagram is taken.\<close>

fun udp_phases :: "nat \<Rightarrow> udp \<Rightarrow> fault + udp" where
  "udp_phases 0 u = Inr u"
| "udp_phases (Suc n) u = rbind (udp_worker None u) (udp_phases n)"

lemma udp_phases_add: "udp_phases m u = Inr u1 \<Longrightarrow> udp_phases n u1 = r \<Longrightarrow> udp_phases (m + n) u = r"
  by (induction m arbitrary: u) (auto simp: rbind_Inr_iff)

definition too_early :: "udp \<Rightarrow> u64 list \<Rightarrow> bool" where
  "too_early u f \<longleftrightarrow> f ! 0 AND 0xFFFFFFFFF < minimumFrameID (u_server u)"

text \<open>The worker at word \<open>p\<close> of a datagram, with the words \<open>ws\<close> of it left.\<close>

definition at_words :: "nat \<Rightarrow> u64 list \<Rightarrow> udp \<Rightarrow> bool" where
  "at_words n ws u \<longleftrightarrow> n \<le> length (u_dataBuffer u) \<and>
     (\<exists>p. drop p (take n (u_dataBuffer u)) = ws \<and> u_pc u = (if p < n then Choosing p n else Receiving))"

definition stored_more :: "u64 list list \<Rightarrow> udp \<Rightarrow> udp \<Rightarrow> bool" where
  "stored_more fs u u' \<longleftrightarrow> udp_inv u' \<and> minimumFrameID (u_server u') = minimumFrameID (u_server u)
     \<and> map frame_words (visible (u_server u')) = map frame_words (visible (u_server u)) @ fs"

lemma udp_store_frame:
  assumes aw: "at_words n (f @ ws) u" and f: "stream_frame f" and inv: "udp_inv u"
    and room: "\<not> too_early u f \<Longrightarrow> backlog (u_server u) < queueSize"
  shows "\<exists>k \<le> 3. \<exists>u'. udp_phases k u = Inr u' \<and> at_words n ws u' \<and> stored_more (if too_early u f then [] else [f]) u u'"
proof -
  define s where "s = u_server u"
  define b where "b = u_dataBuffer u"
  define tgt where "tgt = (if \<not> ringFull (dataFrameWritePointer s) (dataFrameReadPointer s)
                  then Some (dataFrameWritePointer s mod queueSize) else None)"
  have l: "2 \<le> length f" "length f \<le> MaxRawDataFrameSize" "unat (drop_bit 36 (f ! 0) AND 0x7FFF) = length f"
    using f by (simp_all add: stream_frame_def)
  obtain p where p: "drop p (take n b) = f @ ws" "u_pc u = (if p < n then Choosing p n else Receiving)" and n: "n \<le> length b"
    using aw by (auto simp: at_words_def b_def)
  have ln: "n - p = length f + length ws" using arg_cong [OF p(1), of length] n by simp
  then have pn: "p + length f \<le> n" "p < n" using l(1) by linarith+
  have b0: "b ! p = f ! 0"
  proof -
    have "b ! p = drop p (take n b) ! 0" using n pn by simp
    moreover have "f \<noteq> []" using l(1) by auto
    ultimately show ?thesis using p(1) by (simp add: nth_append)
  qed
  have bf: "take (length f) (drop p b) = f"
  proof -
    have "take (length f) (drop p (take n b)) = f" using p(1) by simp
    then show ?thesis using pn by (simp add: take_drop min_def split: if_splits)
  qed
  define u1 where "u1 = u\<lparr>u_pc := Copying p n (length f) tgt\<rparr>"
  have w1: "udp_worker None u = Inr u1"
    using p(2) pn n l(3) b0 by (simp add: udp_worker_def udp_choose_def b_def [symmetric] u1_def tgt_def s_def Let_def)
  define g where "g = (\<lparr>data = f @ drop (length f) (data (udp_slot tgt u))\<rparr> :: RawDataFrame)"
  have g: "frame_words g = f" "parseDataFrame g" "getFrameID g = f ! 0 AND 0xFFFFFFFFF"
    using frame_words_stored [OF f, of g] by (simp_all add: g_def)
  define u2 where "u2 = udp_store tgt g u1"
  have sl: "udp_slot tgt u1 = udp_slot tgt u" by (simp add: udp_slot_def u1_def split: option.split)
  have m2: "minimumFrameID (u_server u2) = minimumFrameID s" "u_dataBuffer u2 = b"
    by (simp_all add: u2_def udp_store_def u1_def s_def b_def split: option.split)
  have c: "udp_copy p n (length f) tgt u1 = (if too_early u f then Inr (udp_next (p + length f) n u2)
      else Inr (u2\<lparr>u_pc := Pushing (p + length f) n tgt\<rparr>))"
  proof -
    have "\<not> (p + length f > length (u_dataBuffer u1) \<or> length f > MaxRawDataFrameSize)" using pn n l(2) by (simp add: u1_def b_def)
    moreover have "take (length f) (drop p (u_dataBuffer u1)) = f" using bf by (simp add: u1_def b_def)
    ultimately show ?thesis
      using g(2,3) m2(1) by (simp add: udp_copy_def sl g_def [symmetric] u2_def [symmetric] too_early_def s_def)
  qed
  have rest: "at_words n ws (udp_next (p + length f) n u')" if "u_dataBuffer u' = b" for u'
  proof -
    have "drop (p + length f) (take n b) = ws" using p(1) by (metis append_eq_conv_conj drop_drop add.commute)
    then show ?thesis using n that unfolding at_words_def by (auto simp: udp_next_def)
  qed
  have i1: "udp_inv u1" using udp_inv_step [OF udp_step.worker [OF _ w1] inv] p(2) pn by auto
  have w: "wf_server s" using inv by (simp add: udp_inv_def daq_inv_def s_def)
  have full: "tgt = Some (dataFrameWritePointer s mod queueSize) \<and> backlog s < queueSize \<or> tgt = None \<and> backlog s = queueSize"
    using full_iff [OF w] w by (auto simp: tgt_def wf_server_def)
  have s2: "u_server u2 = (case tgt of None \<Rightarrow> s | Some i \<Rightarrow> s\<lparr>dataFrameSharedMemory := (dataFrameSharedMemory s)[i := g]\<rparr>)"
    by (simp add: u2_def udp_store_def u1_def s_def split: option.split)
  show ?thesis
  proof (cases "too_early u f")
    case True
    let ?u3 = "udp_next (p + length f) n u2"
    have w2: "udp_worker None u1 = Inr ?u3" using c True by (simp add: udp_worker_def u1_def)
    have i3: "udp_inv ?u3" using udp_inv_step [OF udp_step.worker [OF _ w2] i1] by (simp add: u1_def)
    have "visible (u_server u2) = visible s" using full visible_fill [OF w] by (auto simp: s2)
    then have "stored_more [] u ?u3" using i3 m2 by (simp add: stored_more_def s_def)
    moreover have "udp_phases 2 u = Inr ?u3" using w1 w2 by (simp add: numeral_2_eq_2)
    ultimately show ?thesis using True rest [of u2] m2(2) by (intro exI [of _ 2] exI [of _ ?u3]) simp
  next
    case False
    let ?u3 = "u2\<lparr>u_pc := Pushing (p + length f) n tgt\<rparr>"
    let ?u4 = "udp_push (p + length f) n tgt ?u3"
    have w2: "udp_worker None u1 = Inr ?u3" using c False by (simp add: udp_worker_def u1_def)
    have w3: "udp_worker None ?u3 = Inr ?u4" by (simp add: udp_worker_def)
    have i3: "udp_inv ?u3" using udp_inv_step [OF udp_step.worker [OF _ w2] i1] by (simp add: u1_def)
    have i4: "udp_inv ?u4" using udp_inv_step [OF udp_step.worker [OF _ w3] i3] by simp
    have t: "tgt = Some (dataFrameWritePointer s mod queueSize)" "backlog s < queueSize" using full room [OF False] by (auto simp: s_def)
    have "wf_frame (udp_slot tgt u)"
      using slot_in_ring [OF w] w by (simp add: t udp_slot_def wf_server_def list_all_length flip: s_def)
    then have wg: "wf_frame g" using l(2) by (simp add: g_def wf_frame_def)
    have sv: "u_server ?u4 = advance (s\<lparr>dataFrameSharedMemory := (dataFrameSharedMemory s)[dataFrameWritePointer s mod queueSize := g]\<rparr>)"
      by (simp add: udp_push_def Let_def s2 t advance_def)
    have "visible (u_server ?u4) = visible s @ [g]" using store_and_advance [OF w t(2) wg] by (simp only: sv)
    moreover have "minimumFrameID (u_server ?u4) = minimumFrameID s" unfolding sv by (simp add: advance_def)
    ultimately have "stored_more [f] u ?u4" using i4 g(1) by (simp add: stored_more_def s_def)
    moreover have "udp_phases 3 u = Inr ?u4" using w1 w2 w3 by (simp add: numeral_3_eq_3)
    moreover have "at_words n ws ?u4" unfolding udp_push_def Let_def using m2(2) by (intro rest) simp
    ultimately show ?thesis using False by (intro exI [of _ 3] exI [of _ ?u4]) simp
  qed
qed

lemma stored_more_trans: "stored_more fs u v \<Longrightarrow> stored_more gs v w \<Longrightarrow> stored_more (fs @ gs) u w"
  by (simp add: stored_more_def)

lemma udp_store_frames:
  assumes "at_words n (concat fs) u" "list_all stream_frame fs" "udp_inv u"
    "backlog (u_server u) + length (filter (\<lambda>f. \<not> too_early u f) fs) \<le> queueSize"
  shows "\<exists>k \<le> 3 * length fs. \<exists>u'. udp_phases k u = Inr u' \<and> u_pc u' = Receiving \<and> stored_more (filter (\<lambda>f. \<not> too_early u f) fs) u u'"
  using assms
proof (induction fs arbitrary: u)
  case Nil
  then have "u_pc u = Receiving" by (auto simp: at_words_def split: if_splits)
  with Nil(3) show ?case by (auto simp: stored_more_def)
next
  case (Cons f fs)
  have len: "length (visible (u_server v)) = backlog (u_server v)" for v by (simp add: visible_def)
  have "\<exists>k \<le> 3. \<exists>u'. udp_phases k u = Inr u' \<and> at_words n (concat fs) u' \<and> stored_more (if too_early u f then [] else [f]) u u'"
    using Cons.prems by (intro udp_store_frame) auto
  then obtain k u1 where 1: "k \<le> 3" "udp_phases k u = Inr u1" "at_words n (concat fs) u1"
    "stored_more (if too_early u f then [] else [f]) u u1" by blast
  have te: "too_early u1 = too_early u" using 1(4) by (simp add: stored_more_def too_early_def fun_eq_iff)
  have "backlog (u_server u1) = backlog (u_server u) + (if too_early u f then 0 else 1)"
    using arg_cong [of _ _ length, OF 1(4) [unfolded stored_more_def, THEN conjunct2, THEN conjunct2]] by (simp add: len)
  then have "backlog (u_server u1) + length (filter (\<lambda>f. \<not> too_early u1 f) fs) \<le> queueSize" using Cons.prems(4) by (cases "too_early u f") (simp_all add: te)
  with Cons.IH [OF 1(3)] Cons.prems(2) 1(4) obtain m u2 where 2: "m \<le> 3 * length fs" "udp_phases m u1 = Inr u2" "u_pc u2 = Receiving"
    "stored_more (filter (\<lambda>f. \<not> too_early u1 f) fs) u1 u2" by (auto simp: stored_more_def)
  have "udp_phases (k + m) u = Inr u2" using udp_phases_add [OF 1(2) 2(2)] .
  moreover have "stored_more (filter (\<lambda>f. \<not> too_early u f) (f # fs)) u u2" using stored_more_trans [OF 1(4) 2(4)] by (cases "too_early u f") (simp_all add: te)
  ultimately show ?case using 1(1) 2(1,3) by (intro exI [of _ "k + m"]) auto
qed

lemma udp_take_data:
  assumes "take rxBufferSize (0xA5 # bytes_of ws) = 0xA5 # bytes_of ws" "(length (0xA5 # bytes_of ws) - 1) div 8 = length ws"
    and m: "acquisitionMode (u_server u) \<noteq> 0"
  shows "udp_receive (Some (0xA5 # bytes_of ws)) u =
     Inr (u\<lparr>u_rxBuffer := (0xA5 # bytes_of ws) @ drop (length (0xA5 # bytes_of ws)) (u_rxBuffer u),
       u_dataBuffer := ws @ drop (length ws) (u_dataBuffer u), u_pc := Choosing 0 (length ws)\<rparr>)"
proof -
  have t: "take (8 * length ws) (drop 1 ((0xA5 # bytes_of ws) @ rest)) = bytes_of ws" for rest :: "u8 list" by simp
  have i: "idx ((0xA5 # bytes_of ws) @ rest) 0 = Inr 0xA5" for rest :: "u8 list" by simp
  have v: "(0xA5 :: u8) \<noteq> 0x5A" "length (0xA5 # bytes_of ws) \<noteq> 0" by simp_all
  show ?thesis
    unfolding udp_receive_def option.case assms(1) Let_def assms(2) using m v t
    by (simp add: i del: append_Cons length_Cons list.size drop_append take_append)
qed

text \<open>
  C30: A data datagram made of whole frames that fit the receive buffer is stored in the ring, while the acquisition is on and there is room: exactly
  its frames from the minimum frame number on, in order, unchanged, within three phases of the worker for each.
\<close>

theorem udp_datagram_stored:
  assumes inv: "udp_inv u" "u_pc u = Receiving" "acquisitionMode (u_server u) \<noteq> 0"
    and fs: "fs \<noteq> []" "list_all stream_frame fs" "8 * length (concat fs) < rxBufferSize"
    and room: "length (visible (u_server u)) + length (filter (\<lambda>f. \<not> too_early u f) fs) \<le> queueSize"
  shows "\<exists>k \<le> 3 * length fs. \<exists>u'. rbind (udp_worker (Some (0xA5 # bytes_of (concat fs))) u) (udp_phases k) = Inr u'
    \<and> u_pc u' = Receiving \<and> udp_inv u'
    \<and> map frame_words (visible (u_server u')) = map frame_words (visible (u_server u)) @ filter (\<lambda>f. \<not> too_early u f) fs"
proof -
  let ?ws = "concat fs" and ?bs = "0xA5 # bytes_of (concat fs) :: u8 list"
  let ?n = "length ?ws"
  define u1 where "u1 = u\<lparr>u_rxBuffer := ?bs @ drop (length ?bs) (u_rxBuffer u), u_dataBuffer := ?ws @ drop ?n (u_dataBuffer u),
    u_pc := Choosing 0 ?n\<rparr>"
  have n: "take rxBufferSize ?bs = ?bs" "(length ?bs - 1) div 8 = ?n" using fs(3) by simp_all
  have w: "udp_worker (Some ?bs) u = Inr u1" using inv(2,3) udp_take_data [OF n] by (simp only: udp_worker_def udp_pc.case u1_def)
  have i1: "udp_inv u1"
    using udp_worker_refined [OF _ w] udp_worker_sizes [OF w] inv(1) by (simp add: udp_inv_def udp_refined_def)
  have "0 < ?n" using fs(1,2) by (cases fs) (auto simp: stream_frame_def)
  then have a: "at_words ?n ?ws u1" unfolding at_words_def by (intro conjI exI [of _ 0]) (simp_all add: u1_def)
  have te: "too_early u1 = too_early u" "u_server u1 = u_server u" by (simp_all add: too_early_def u1_def fun_eq_iff)
  have "backlog (u_server u1) + length (filter (\<lambda>f. \<not> too_early u1 f) fs) \<le> queueSize" using room by (simp add: te visible_def)
  from udp_store_frames [OF a fs(2) i1 this] obtain k u' where k: "k \<le> 3 * length fs" "udp_phases k u1 = Inr u'" "u_pc u' = Receiving"
    "stored_more (filter (\<lambda>f. \<not> too_early u f) fs) u1 u'" unfolding te by blast
  have "rbind (udp_worker (Some ?bs) u) (udp_phases k) = Inr u'" using w k(2) by simp
  with k(1,3,4) show ?thesis unfolding stored_more_def te by blast
qed


section \<open>Examples\<close>

definition udp_example :: udp where
  "udp_example = \<lparr>u_server = wipe_second 1 (startWorker (newFrameServer 0)), u_replyQueue = [], u_sent = [replicate 22 0xFF],
     u_rxBuffer = replicate rxBufferSize 0, u_dataBuffer = replicate dataBufferSize 0,
     u_devNull = \<lparr>data = replicate MaxRawDataFrameSize 0\<rparr>, u_pc = Receiving\<rparr>"

definition udp_fresh :: udp where
  "udp_fresh = udp_example\<lparr>u_server := startWorker (newFrameServer 0)\<rparr>"

lemma udp_fresh_new:
  "newUDPFrameServer 5 0 (replicate rxBufferSize 0) (replicate dataBufferSize 0) \<lparr>data = replicate MaxRawDataFrameSize 0\<rparr> = Some udp_fresh"
  "udp_locals (replicate rxBufferSize 0) (replicate dataBufferSize 0) \<lparr>data = replicate MaxRawDataFrameSize 0\<rparr>"
  by (simp_all add: newUDPFrameServer_def udp_fresh_def udp_example_def udp_locals_def wf_frame_def)

lemma udp_example_step: "udp_reachable udp_fresh udp_example"
proof -
  have "udp_step udp_fresh (udp_fresh\<lparr>u_server := wipe_second 1 (u_server udp_fresh)\<rparr>)"
    by (rule udp_step.start_second) (simp add: holds_slot_def udp_fresh_def udp_example_def)
  then show ?thesis using udp_reachable.step [OF udp_reachable.start] by (simp add: udp_fresh_def udp_example_def)
qed


lemma udp_datagram_witness:
  "\<exists>k \<le> 3. \<exists>u'. rbind (udp_worker (Some (0xA5 # bytes_of [push_bit 36 4 OR 7, 2, 11, 12])) udp_example) (udp_phases k) = Inr u'
     \<and> map frame_words (visible (u_server u')) = [[push_bit 36 4 OR 7, 2, 11, 12]]"
proof -
  let ?f = "[push_bit 36 4 OR 7, 2, 11, 12] :: u64 list"
  have f: "list_all stream_frame [?f]" by (simp add: stream_frame_def parseDataFrame_def Let_def MaxRawDataFrameSize_def)
  have v: "visible (u_server udp_example) = []"
    by (simp add: udp_example_def visible_def backlog_def wipe_second_def)
  have m: "u_pc udp_example = Receiving" "acquisitionMode (u_server udp_example) \<noteq> 0" "\<not> too_early udp_example ?f"
    by (simp_all add: udp_example_def wipe_second_def too_early_def)
  have i: "udp_inv udp_example" using udp_reachable_inv [OF udp_example_step new_udp_inv [OF udp_fresh_new]] .
  have l: "8 * length (concat [?f]) < rxBufferSize" "length (visible (u_server udp_example)) + length (filter (\<lambda>f. \<not> too_early udp_example f) [?f]) \<le> queueSize"
    by (simp_all add: v rxBufferSize_def MaxRawDataFrameQueueSize_def)
  from udp_datagram_stored [OF i m(1,2) _ f l] m(3) v show ?thesis by auto
qed


section \<open>Commands\<close>

text \<open>
  The loop that waits for the reply. Each turn has the replies the worker stores before the queue is looked at for the second time, and the
  milliseconds since the call; \<open>Diverges\<close> means that it has not ended within the turns given. The time is only looked
  at when no reply is waiting, and the reply is copied whatever the size of the caller's array.
\<close>

type_synonym turns = "(u8 list list \<times> int) list"

fun udp_await :: "turns \<Rightarrow> u16 \<Rightarrow> u8 list \<Rightarrow> u8 list list \<Rightarrow> fault + ((int \<times> u8 list) \<times> u8 list list)" where
  "udp_await [] sentSN chars queue = Inl Diverges"
| "udp_await ((arrived, ms) # turns) sentSN chars queue =
     (case queue @ arrived of
        [] \<Rightarrow> if ms > CommandTimeout then Inr ((0, chars), []) else udp_await turns sentSN chars []
      | reply # rest \<Rightarrow>
          if length reply < 2 then udp_await turns sentSN chars rest
          else if sentSN = serial reply then
            if length reply > length chars then Inl OutOfBounds
            else Inr ((int (length reply), reply @ drop (length reply) chars), rest)
          else udp_await turns sentSN chars rest)"

text \<open>
  The address of the front end and \<open>bufferSize\<close> are not used; \<open>send\<close> refuses a negative length. What arrives depends on
  what was sent.
\<close>

definition udp_sendCommand :: "(u8 list option \<Rightarrow> udp \<Rightarrow> turns) \<Rightarrow> int \<Rightarrow> int \<Rightarrow> u8 list \<Rightarrow> int \<Rightarrow> int \<Rightarrow> udp
    \<Rightarrow> fault + ((int \<times> u8 list) \<times> udp)" where
  "udp_sendCommand net portID slaveID chars bufferSize commandLength u =
     (if length chars < 2 \<or> commandLength > int (length chars) then Inl OutOfBounds
      else
        let sentSN = serial chars;
            packet = (if commandLength < 0 then None else Some (take (nat commandLength) chars));
            u = (case packet of None \<Rightarrow> u | Some bs \<Rightarrow> u\<lparr>u_sent := u_sent u @ [bs]\<rparr>)
        in rbind (udp_await (net packet u) sentSN chars (u_replyQueue u)) (\<lambda>(r, queue). Inr (r, u\<lparr>u_replyQueue := queue\<rparr>)))"

definition udp_getPortUp :: "udp \<Rightarrow> u64" where
  "udp_getPortUp u = 1"

definition udp_getPortCounts :: "int \<Rightarrow> int \<Rightarrow> udp \<Rightarrow> u64" where
  "udp_getPortCounts port whichCount u = 0"

definition udp_ops :: "(u8 list option \<Rightarrow> udp \<Rightarrow> turns) \<Rightarrow> (FrameServer \<Rightarrow> FrameServer) \<Rightarrow> udp server_ops" where
  "udp_ops net between =
     \<lparr>so_server = u_server, so_update = (\<lambda>f u. u\<lparr>u_server := f (u_server u)\<rparr>), so_sendCommand = udp_sendCommand net,
      so_startAcquisition = (\<lambda>mode u. Inr (u\<lparr>u_server := startAcquisition between mode (u_server u)\<rparr>)),
      so_stopAcquisition = (\<lambda>u. Inr (u\<lparr>u_server := stopAcquisition (u_server u)\<rparr>)),
      so_getPortUp = (\<lambda>u. Inr (udp_getPortUp u, u)), so_getPortCounts = (\<lambda>port which u. Inr (udp_getPortCounts port which u, u)),
      so_setSorter = (\<lambda>mode u. Inr (fs_setSorter mode, u)),
      so_setCoincidenceTrigger = (\<lambda>config u. Inr (fs_setCoincidenceTrigger config, u)),
      so_setGateEnable = (\<lambda>mode u. Inr (fs_setGateEnable mode, u))\<rparr>"

text \<open>Replies that fit an array of \<open>k\<close> bytes, and turns that go on long enough to meet an empty queue after the time limit.\<close>

definition short_replies :: "nat \<Rightarrow> u8 list list \<Rightarrow> bool" where
  "short_replies k rs \<longleftrightarrow> list_all (\<lambda>r. length r \<le> k) rs"

definition arrivals :: "turns \<Rightarrow> u8 list list" where
  "arrivals ts = concat (map fst ts)"

definition late_turns :: "turns \<Rightarrow> nat" where
  "late_turns ts = length (filter (\<lambda>t. CommandTimeout < snd t) ts)"

lemma udp_await_ok:
  assumes "length queue + length (arrivals ts) < late_turns ts" "short_replies (length chars) (queue @ arrivals ts)"
  shows "\<exists>r chars' queue'. udp_await ts sentSN chars queue = Inr ((r, chars'), queue') \<and> length chars' = length chars \<and> 0 \<le> r
    \<and> r \<le> int (length chars) \<and> set queue' \<subseteq> set queue \<union> set (arrivals ts)"
  using assms
proof (induction ts arbitrary: queue)
  case Nil
  then show ?case by (simp add: late_turns_def)
next
  case (Cons t ts)
  obtain arrived ms where t: "t = (arrived, ms)" by (cases t)
  have a: "arrivals (t # ts) = arrived @ arrivals ts" by (simp add: arrivals_def t)
  have l: "late_turns (t # ts) = (if CommandTimeout < ms then 1 else 0) + late_turns ts" by (simp add: late_turns_def t)
  show ?case
  proof (cases "queue @ arrived")
    case Nil
    then have "length (arrivals ts) < late_turns ts \<or> CommandTimeout < ms" using Cons.prems(1) a l by (auto split: if_splits)
    then show ?thesis
      using Cons.IH [of "[]"] Cons.prems(2) Nil a by (cases "CommandTimeout < ms") (auto simp: t)
  next
    case (Cons reply rest)
    have len: "length rest + length (arrivals ts) < late_turns ts"
      using Cons.prems(1) arg_cong [OF Cons, of length] a l by (auto split: if_splits)
    have sub: "set rest \<subseteq> set queue \<union> set arrived" "reply \<in> set queue \<union> set arrived"
      using arg_cong [OF Cons, of set] by auto
    have sh: "short_replies (length chars) (rest @ arrivals ts)" "length reply \<le> length chars"
      using Cons.prems(2) sub by (auto simp: short_replies_def list_all_iff a)
    from Cons.IH [OF len sh(1)] obtain r chars' queue' where ih: "udp_await ts sentSN chars rest = Inr ((r, chars'), queue')"
      "length chars' = length chars" "0 \<le> r" "r \<le> int (length chars)" "set queue' \<subseteq> set rest \<union> set (arrivals ts)" by blast
    show ?thesis
    proof (cases "2 \<le> length reply \<and> sentSN = serial reply")
      case True
      then show ?thesis using Cons sub sh(2) a unfolding t by auto
    next
      case False
      then have "udp_await (t # ts) sentSN chars queue = udp_await ts sentSN chars rest" by (auto simp: t Cons)
      with ih sub show ?thesis by (auto simp: a)
    qed
  qed
qed

text \<open>
  The network as the requests need it: datagrams of the front end fit the array of the handler, and replies do not arrive
  for ever.
\<close>

definition patient :: "(u8 list option \<Rightarrow> udp \<Rightarrow> turns) \<Rightarrow> bool" where
  "patient net \<longleftrightarrow> (\<forall>packet u. short_replies 2046 (arrivals (net packet u))
     \<and> length (u_replyQueue u) + length (arrivals (net packet u)) < late_turns (net packet u))"

lemma udp_sendCommand_ok:
  assumes net: "patient net" and u: "short_replies 2046 (u_replyQueue u)" and n: "2046 \<le> length chars" "n \<le> int (length chars)"
  shows "\<exists>r chars' u'. udp_sendCommand net port slave chars cap n u = Inr ((r, chars'), u') \<and> length chars' = length chars
    \<and> 0 \<le> r \<and> r \<le> int (length chars) \<and> short_replies 2046 (u_replyQueue u')"
proof -
  define packet where "packet = (if n < 0 then None else Some (take (nat n) chars))"
  define u1 where "u1 = (case packet of None \<Rightarrow> u | Some bs \<Rightarrow> u\<lparr>u_sent := u_sent u @ [bs]\<rparr>)"
  have q: "u_replyQueue u1 = u_replyQueue u" by (simp add: u1_def split: option.split)
  let ?ts = "net packet u1"
  have p: "short_replies 2046 (arrivals ?ts)" "length (u_replyQueue u) + length (arrivals ?ts) < late_turns ?ts"
    using net q by (metis patient_def)+
  have "short_replies (length chars) (u_replyQueue u @ arrivals ?ts)"
    using u p(1) n(1) by (auto simp: short_replies_def list_all_iff)
  from udp_await_ok [OF p(2) this, of "serial chars"] obtain r chars' queue' where
    a: "udp_await ?ts (serial chars) chars (u_replyQueue u) = Inr ((r, chars'), queue')" "length chars' = length chars" "0 \<le> r"
    "r \<le> int (length chars)" "set queue' \<subseteq> set (u_replyQueue u) \<union> set (arrivals ?ts)" by blast
  have "short_replies 2046 queue'" using a(5) u p(1) by (auto simp: short_replies_def list_all_iff)
  moreover have "udp_sendCommand net port slave chars cap n u = Inr ((r, chars'), u1\<lparr>u_replyQueue := queue'\<rparr>)"
    using n a(1) unfolding udp_sendCommand_def Let_def by (simp add: q flip: packet_def u1_def)
  ultimately show ?thesis using a(2-4) by auto
qed

lemma udp_request_server:
  assumes "patient net"
  shows "request_server (udp_ops net between) (\<lambda>u. short_replies 2046 (u_replyQueue u)) 2046"
proof (rule request_server.intro)
  fix u :: udp and chars :: "u8 list" and n port slave
  assume "short_replies 2046 (u_replyQueue u)" "2046 \<le> length chars" "n \<le> int (length chars)"
  from udp_sendCommand_ok [OF assms this, of port slave 2048]
  show "\<exists>r chars' u'. so_sendCommand (udp_ops net between) port slave chars 2048 n u = Inr ((r, chars'), u') \<and> length chars' = length chars
      \<and> r \<le> int (length chars) \<and> (r < 0 \<longrightarrow> 48 < n) \<and> short_replies 2046 (u_replyQueue u')"
    by (auto simp: udp_ops_def)
qed (simp_all add: udp_ops_def returns_def)

text \<open>The requests of a client are served by the Ethernet front end as well.\<close>

lemma udp_requests_served:
  assumes "patient net" "short_replies 2046 (u_replyQueue u)" "length (cl_socketBuffer cl) = socketBufferSize" "length stack = 2048"
    "cl_recv cl = hdr # body # rest" "length hdr = 4" "unat (of_le (drop 2 hdr)) = 4 + length body"
    "0 < length body" "4 + length body \<le> socketBufferSize"
    "ucast (of_le (take 2 hdr)) = commandToFrontEnd \<Longrightarrow> 2 \<le> length body \<and> length body \<le> 50"
  shows "\<exists>v u' cl'. handleRequest (udp_ops net between) pad stack u cl = Inr (v, u', cl') \<and> v \<in> {0, -1}
    \<and> short_replies 2046 (u_replyQueue u') \<and> cl_recv cl' = rest"
  using request_server.request_ok [OF udp_request_server [OF assms(1), of between] assms(2-9), of pad] assms(10) by auto

definition quiet_net :: "u8 list option \<Rightarrow> udp \<Rightarrow> turns" where
  "quiet_net packet u = replicate (length (u_replyQueue u) + 1) ([], 251)"

lemma patient_quiet: "patient quiet_net"
proof -
  have "arrivals (replicate n ([], 251)) = []" "late_turns (replicate n ([], 251)) = n" for n
    by (simp_all add: arrivals_def late_turns_def CommandTimeout_def filter_replicate)
  then show ?thesis unfolding patient_def quiet_net_def by (simp add: short_replies_def del: replicate_Suc)
qed

interpretation eth: request_server "udp_ops quiet_net id" "\<lambda>u. short_replies 2046 (u_replyQueue u)" 2046
  by (rule udp_request_server [OF patient_quiet])

text \<open>The time is not looked at while replies are waiting, and a reply longer than the array of the caller is copied past its end.\<close>

lemma long_reply_faults:
  "2 \<le> length reply \<Longrightarrow> serial reply = sentSN \<Longrightarrow> length chars < length reply \<Longrightarrow>
    udp_await ((arrived, ms) # turns) sentSN chars (reply # queue) = Inl OutOfBounds"
  by simp

text \<open>
  A frame size of zero in the data copies nothing and does not move on: what the slot held before is checked and pushed again, and the
  same word is met again.
\<close>

lemma zero_size_repeats:
  assumes u: "udp_inv u" "u_pc u = Choosing p n" "p < n" "n \<le> dataBufferSize"
    and z: "drop_bit 36 (u_dataBuffer u ! p) AND 0x7FFF = 0" and room: "backlog (u_server u) < queueSize"
    and stale: "g = dataFrameSharedMemory (u_server u) ! (dataFrameWritePointer (u_server u) mod queueSize)"
      "parseDataFrame g" "\<not> getFrameID g < minimumFrameID (u_server u)"
  shows "\<exists>u'. udp_phases 3 u = Inr u' \<and> u_pc u' = Choosing p n \<and> visible (u_server u') = visible (u_server u) @ [g]"
proof -
  let ?s = "u_server u"
  let ?i = "dataFrameWritePointer ?s mod queueSize"
  have w: "wf_server ?s" using u(1) by (simp add: udp_inv_def daq_inv_def)
  have nf: "\<not> ringFull (dataFrameWritePointer ?s) (dataFrameReadPointer ?s)" using full_iff [OF w] room by simp
  have l: "p < length (u_dataBuffer u)" using u by (simp add: udp_inv_def)
  let ?u1 = "u\<lparr>u_pc := Copying p n 0 (Some ?i)\<rparr>"
  have w1: "udp_worker None u = Inr ?u1" using u(2) l z nf by (simp add: udp_worker_def udp_choose_def)
  have gg: "(\<lparr>data = data g\<rparr> :: RawDataFrame) = g" by (cases g) simp
  have st: "udp_store (Some ?i) \<lparr>data = data g\<rparr> ?u1 = ?u1"
    using slot_in_ring [OF w, of "dataFrameWritePointer ?s"] by (simp add: udp_store_def stale(1) list_update_same_conv)
  let ?u2 = "?u1\<lparr>u_pc := Pushing p n (Some ?i)\<rparr>"
  have w2: "udp_worker None ?u1 = Inr ?u2"
    using l stale(2,3) st by (simp add: udp_worker_def udp_copy_def udp_slot_def Let_def gg flip: stale(1))
  have w3: "udp_worker None ?u2 = Inr (udp_push p n (Some ?i) ?u2)" by (simp add: udp_worker_def)
  have s: "u_server (udp_push p n (Some ?i) ?u2) = advance ?s" "u_pc (udp_push p n (Some ?i) ?u2) = Choosing p n"
    using u(3) by (simp_all add: udp_push_def udp_next_def advance_def Let_def)
  have "udp_phases 3 u = Inr (udp_push p n (Some ?i) ?u2)" using w1 w2 w3 by (simp add: numeral_3_eq_3)
  with s advance_ok(3) [OF w room] show ?thesis by (simp add: stale(1))
qed

end
