(* ===== verification/Record_Files.thy ===== *)
theory Record_Files
  imports Scanf Bytes
begin

text \<open>
  How the conversion tools put values on disk: the bit pattern of a \<open>float\<close>, packed structures (their
  fields one after another, least significant byte first) and the \<open>%e\<close> format. The lemmas show that
  reading a packed structure returns its fields and that the bit pattern of a representable number
  determines it. The pattern of a not-a-number value is the quiet one without payload.
\<close>

section \<open>Bit patterns of floating point numbers\<close>

fun float_bits :: "fp \<Rightarrow> u32" where
  "float_bits NaN = 0x7FC00000"
| "float_bits (Inf s) = (if s then 0xFF800000 else 0x7F800000)"
| "float_bits (Fin s m e) =
     of_nat (pack [(23, nat (m mod 2 ^ 23)), (8, if m < 2 ^ 23 then 0 else nat (e + 150)), (1, if s then 1 else 0)])"

definition float_of_bits :: "u32 \<Rightarrow> fp" where
  "float_of_bits w =
     (let n = unat w; frac = int (n mod 2 ^ 23); ex = int (n div 2 ^ 23 mod 2 ^ 8); s = (n div 2 ^ 31 mod 2 = 1)
      in if ex = 255 then (if frac = 0 then Inf s else NaN)
         else if ex = 0 then Fin s frac (-149)
         else Fin s (2 ^ 23 + frac) (ex - 150))"

text \<open>The values of a format: normal numbers and the numbers at the smallest exponent.\<close>

fun representable :: "fmt \<Rightarrow> fp \<Rightarrow> bool" where
  "representable f (Fin s m e) \<longleftrightarrow>
     0 \<le> m \<and> m < 2 ^ nat (prec f) \<and> emin f \<le> e \<and> e \<le> emax f \<and> (emin f < e \<longrightarrow> 2 ^ nat (prec f - 1) \<le> m)"
| "representable f _ = True"

lemma float_of_float_bits:
  assumes "representable F32 a"
  shows "float_of_bits (float_bits a) = a"
proof (cases a)
  case (Fin s m e)
  define ex :: nat where "ex = (if m < 2 ^ 23 then 0 else nat (e + 150))"
  define sg :: nat where "sg = (if s then 1 else 0)"
  define fr :: nat where "fr = nat (m mod 2 ^ 23)"
  have r: "0 \<le> m" "m < 2 ^ 24" "-149 \<le> e" "e \<le> 104" "-149 < e \<Longrightarrow> 2 ^ 23 \<le> m"
    using assms Fin by (auto simp: numeral_eq_Suc)
  have fit: "fits [(23, fr), (8, ex), (1, sg)]"
    using r by (auto simp: ex_def sg_def fr_def)
  let ?n = "pack [(23, fr), (8, ex), (1, sg)]"
  have "?n < 2 ^ width [(23, fr), (8, ex), (1, sg)]" using fit by (rule pack_bound)
  then have lt: "?n < 2 ^ LENGTH(32)" by (simp add: width_def)
  have "float_bits a = of_nat ?n" by (simp only: Fin float_bits.simps ex_def sg_def fr_def)
  then have n: "unat (float_bits a) = ?n" using unat_of_nat_small [OF lt] by simp
  have f: "?n mod 2 ^ 23 = fr" "?n div 2 ^ 23 mod 2 ^ 8 = ex" "?n div 2 ^ 31 mod 2 = sg"
    using pack_nth [OF fit, of 0] pack_nth [OF fit, of 1] pack_nth [OF fit, of 2] by simp_all
  have low: "\<not> m < 2 ^ 23 \<Longrightarrow> m mod 2 ^ 23 = m - 2 ^ 23" 
    using minus_mod_self2 [of m "2 ^ 23"] mod_pos_pos_trivial [of "m - 2 ^ 23" "2 ^ 23"] r by force
  show ?thesis
    unfolding float_of_bits_def Let_def n f using r low Fin
    by (cases "-149 < e") (auto simp: ex_def sg_def fr_def)
qed (simp_all add: float_of_bits_def)

lemma float_bits_inj: "representable F32 a \<Longrightarrow> representable F32 b \<Longrightarrow> float_bits a = float_bits b \<Longrightarrow> a = b"
  by (metis float_of_float_bits)

text \<open>Every result of an operation is a value of its format.\<close>

lemma finish_representable:
  assumes "0 \<le> q" "q \<le> 2 ^ nat (prec f)" "emin f \<le> x" "emin f < x \<Longrightarrow> 2 ^ nat (prec f - 1) \<le> q"
  shows "representable f (finish_fp f s q x)"
proof -
  have "(2::int) ^ nat (prec f - 1) < 2 ^ nat (prec f)" using prec_pos [of f] by (intro power_strict_increasing) auto
  with assms show ?thesis by (auto simp: finish_fp_def Let_def)
qed

lemma div_power_bounds:
  fixes m a :: int
  shows "m < a * 2 ^ k \<Longrightarrow> m div 2 ^ k < a" and "a * 2 ^ k \<le> m \<Longrightarrow> a \<le> m div 2 ^ k"
proof -
  have q: "m div 2 ^ k * 2 ^ k \<le> m" by (metis add_le_same_cancel1 div_mult_mod_eq le_add_same_cancel1 pos_mod_sign zero_less_numeral zero_less_power)
  show "m div 2 ^ k < a" if "m < a * 2 ^ k"
    using that q mult_right_mono [of a "m div 2 ^ k" "2 ^ k"] by fastforce
  show "a \<le> m div 2 ^ k" if "a * 2 ^ k \<le> m"
    using zdiv_mono1 [OF that, of "2 ^ k"] by simp
qed

lemma round_mant_bounds:
  assumes "0 \<le> m" shows "m div 2 ^ k \<le> round_mant m k" "round_mant m k \<le> m div 2 ^ k + 1"
  by (auto simp: round_mant_def Let_def)

lemma round_representable:
  assumes "0 \<le> m"
  shows "representable f (round_fp f s m e)"
proof (cases "m = 0")
  case True
  then show ?thesis using prec_pos [of f] by (simp add: round_fp_def)
next
  case False
  with assms have m: "0 < m" by simp
  define x where "x = last_place f m e"
  note b = bitlen_bounds [OF m]
  have x: "emin f \<le> x" "e + bitlen m - prec f \<le> x" "emin f < x \<Longrightarrow> x = e + bitlen m - prec f"
    by (auto simp: x_def last_place_def)
  show ?thesis
  proof (cases "x \<le> e")
    case True
    define k where "k = nat (e - x)"
    have bk: "bitlen (m * 2 ^ k) = bitlen m + (e - x)" using True by (simp add: bitlen_scale [OF m] k_def)
    have pos: "0 < m * 2 ^ k" using m by simp
    note c = bitlen_bounds [OF pos]
    have "(2::int) ^ nat (bitlen (m * 2 ^ k)) \<le> 2 ^ nat (prec f)"
      using x(2) bk by (intro power_increasing) auto
    moreover have "m * 2 ^ k \<le> 2 ^ nat (bitlen (m * 2 ^ k))" using c by linarith
    ultimately have up: "m * 2 ^ k \<le> 2 ^ nat (prec f)" by (rule order.trans [rotated])
    have low: "2 ^ nat (prec f - 1) \<le> m * 2 ^ k" if "emin f < x"
    proof -
      have "bitlen (m * 2 ^ k) = prec f" using x(3) [OF that] bk by linarith
      with c show ?thesis by metis
    qed
    have "representable f (finish_fp f s (m * 2 ^ k) x)"
      by (rule finish_representable [OF order.strict_implies_order [OF pos] up x(1) low])
    then show ?thesis using False True by (simp add: round_fp_def Let_def x_def k_def)
  next
    case False2: False
    define k where "k = nat (x - e)"
    have up: "m div 2 ^ k < 2 ^ nat (prec f)"
    proof -
      have "m < 2 ^ nat (bitlen m)" using b by simp
      also have "(2::int) ^ nat (bitlen m) \<le> 2 ^ (nat (prec f) + k)"
        using x(2) prec_pos [of f] False2 by (intro power_increasing) (auto simp: k_def)
      finally have "m < 2 ^ nat (prec f) * 2 ^ k" by (simp add: power_add)
      then show ?thesis by (rule div_power_bounds(1))
    qed
    have low: "2 ^ nat (prec f - 1) \<le> m div 2 ^ k" if "emin f < x"
    proof -
      have "(2::int) ^ (nat (prec f - 1) + k) = 2 ^ nat (bitlen m - 1)"
        using x(3) [OF that] prec_pos [of f] b False2 by (simp add: k_def nat_add_distrib [symmetric] algebra_simps)
      then have "2 ^ nat (prec f - 1) * 2 ^ k \<le> m" using b by (simp add: power_add)
      then show ?thesis by (rule div_power_bounds(2))
    qed
    have "0 \<le> m div 2 ^ k" using m by (simp add: pos_imp_zdiv_nonneg_iff)
    then have "representable f (finish_fp f s (round_mant m k) x)"
      using round_mant_bounds [OF assms, of k] up low x(1) by (intro finish_representable) fastforce+
    then show ?thesis using False False2 by (simp add: round_fp_def Let_def x_def k_def)
  qed
qed

fun op_result :: "fp \<Rightarrow> bool" where
  "op_result (Fin s m e) \<longleftrightarrow> 0 \<le> m"
| "op_result _ = True"

lemma representable_op [simp]: "representable f a \<Longrightarrow> op_result a"
  by (cases a) auto

lemma fp_mul_representable: "op_result a \<Longrightarrow> op_result b \<Longrightarrow> representable f (fp_mul f a b)"
  by (cases a; cases b) (auto intro!: round_representable)

lemma fp_convert_representable: "op_result a \<Longrightarrow> representable f (fp_convert f a)"
  by (cases a) (auto intro!: round_representable)

section \<open>Packed structures\<close>

text \<open>A structure is the list of its fields with their sizes in bytes.\<close>

definition packed :: "(nat \<times> u64) list \<Rightarrow> u8 list" where
  "packed fs = concat (map (\<lambda>(n, v). take n (le_bytes v)) fs)"

fun unpack :: "nat list \<Rightarrow> u8 list \<Rightarrow> u64 list" where
  "unpack [] bs = []"
| "unpack (n # ns) bs = of_le (take n bs) # unpack ns (drop n bs)"

text \<open>The records of a file, one after another, as far as they are complete.\<close>

function records_of :: "nat list \<Rightarrow> u8 list \<Rightarrow> u64 list list" where
  "records_of ns bs =
     (if sum_list ns = 0 \<or> length bs < sum_list ns then []
      else unpack ns bs # records_of ns (drop (sum_list ns) bs))"
  by pat_completeness auto
termination
proof (relation "measure (\<lambda>(ns, bs). length bs)", goal_cases)
  case (2 ns bs)
  then have "0 < sum_list ns" "sum_list ns \<le> length bs" by linarith+
  then show ?case unfolding in_measure prod.case length_drop by linarith
qed simp

declare records_of.simps [simp del]

definition field_ok :: "nat \<times> u64 \<Rightarrow> bool" where
  "field_ok = (\<lambda>(n, v). n \<le> 8 \<and> unat v < 256 ^ n)"

lemma of_le_take:
  assumes "n \<le> 8" "unat v < 256 ^ n"
  shows "of_le (take n (le_bytes v)) = v"
proof (rule bit_eqI)
  fix i :: nat
  have small: "unat v < 2 ^ (8 * n)" using assms(2) by (simp add: power_mult)
  have high: "i < 8 * n" if "bit v i"
  proof -
    have "bit (unat v) i" using that by (simp add: bit_unsigned_iff)
    then show ?thesis using small by (rule bit_nat_bound)
  qed
  have i: "8 * (i div 8) + i mod 8 = i" by simp
  show "bit (of_le (take n (le_bytes v))) i = bit v i"
  proof (cases "i < 8 * n")
    case True
    then have d: "i div 8 < n" "i div 8 < 8" "i < 64" using assms(1) by auto
    with i show ?thesis by (simp add: bit_of_le le_bytes_def byte_of_def bit_ucast_iff bit_drop_bit_eq)
  next
    case False
    then have "\<not> i div 8 < n" by auto
    with False high show ?thesis by (auto simp: bit_of_le)
  qed
qed

lemma length_packed: "list_all field_ok fs \<Longrightarrow> length (packed fs) = sum_list (map fst fs)"
  by (induction fs) (auto simp: packed_def field_ok_def)

lemma packed_Cons: "packed ((n, v) # fs) = take n (le_bytes v) @ packed fs"
  by (simp add: packed_def)

lemma unpack_packed: "list_all field_ok fs \<Longrightarrow> unpack (map fst fs) (packed fs @ bs) = map snd fs"
proof (induction fs)
  case (Cons a fs)
  obtain n v where "a = (n, v)" by fastforce
  with Cons show ?case by (simp add: packed_Cons of_le_take field_ok_def)
qed simp

text \<open>
  The interface of a structure that is written to a file: its layout and its fields. Whatever reads
  the file by the layout sees the values that were written.
\<close>

locale packed_record =
  fixes layout :: "nat list" and fields :: "'r \<Rightarrow> (nat \<times> u64) list"
  assumes layout_ok: "map fst (fields r) = layout" and fields_ok: "list_all field_ok (fields r)"
    and not_empty: "0 < sum_list layout"
begin

lemma length_record: "length (packed (fields r)) = sum_list layout"
  by (simp add: length_packed fields_ok layout_ok)

lemma records_Cons: "records_of layout (packed (fields r) @ bs) = map snd (fields r) # records_of layout bs"
proof -
  have "\<not> (sum_list layout = 0 \<or> length (packed (fields r) @ bs) < sum_list layout)"
    using not_empty unfolding length_append length_record by linarith
  then show ?thesis
    using unpack_packed [OF fields_ok, of r bs]
    by (subst records_of.simps) (simp only: if_False layout_ok length_record drop_append drop_all
        diff_self_eq_0 drop0 append_Nil order.refl)
qed

lemma records_file: "records_of layout (concat (map (\<lambda>r. packed (fields r)) rs)) = map (\<lambda>r. map snd (fields r)) rs"
proof (induction rs)
  case Nil
  then show ?case using not_empty by (subst records_of.simps) simp
qed (simp add: records_Cons)

lemma length_file: "length (concat (map (\<lambda>r. packed (fields r)) rs)) = sum_list layout * length rs"
  by (induction rs) (simp_all add: length_record)

end

section \<open>Numbers in scientific notation\<close>

text \<open>
  \<open>%.ke\<close>: one digit, \<open>k\<close> decimals and an exponent of at least two digits, of the number \<open>n / d\<close>
  rounded to nearest even; \<open>%e\<close> has six decimals.
\<close>

definition round_div :: "int \<Rightarrow> int \<Rightarrow> int" where
  "round_div n d = (let q = n div d; r = n mod d in if 2 * r > d \<or> (2 * r = d \<and> odd q) then q + 1 else q)"

function scale_up :: "int \<Rightarrow> int \<Rightarrow> nat" where
  "scale_up n d = (if n \<le> 0 \<or> d \<le> n then 0 else Suc (scale_up (10 * n) d))"
  by pat_completeness auto
termination
  by (relation "measure (\<lambda>(n, d). nat (d - n))") auto

declare scale_up.simps [simp del]

definition decimal_exponent :: "int \<Rightarrow> int \<Rightarrow> int" where
  "decimal_exponent n d = (if d \<le> n then int (length (show_nat (nat (n div d)))) - 1 else - int (scale_up n d))"

definition show_exponent :: "int \<Rightarrow> string" where
  "show_exponent x =
     (if x < 0 then ''-'' else ''+'') @ (if \<bar>x\<bar> < 10 then ''0'' else '''') @ show_nat (nat \<bar>x\<bar>)"

definition show_mantissa :: "int \<Rightarrow> string" where
  "show_mantissa q = (let ds = show_nat (nat q) in take 1 ds @ ''.'' @ drop 1 ds)"

definition show_sci :: "nat \<Rightarrow> fp \<Rightarrow> string" where
  "show_sci k a =
     (case a of
        NaN \<Rightarrow> ''nan''
      | Inf s \<Rightarrow> (if s then ''-inf'' else ''inf'')
      | Fin s m e \<Rightarrow>
          (if s then ''-'' else '''') @
          (if m = 0 then ''0.'' @ replicate k (CHR ''0'') @ ''e+00''
           else
             let n = m * 2 ^ nat e; d = 2 ^ nat (- e); x = decimal_exponent n d;
                 q = round_div (n * 10 ^ nat (int k - x)) (d * 10 ^ nat (x - int k));
                 (q, x) = (if q = 10 ^ (k + 1) then (10 ^ k, x + 1) else (q, x))
             in show_mantissa q @ ''e'' @ show_exponent x))"

definition show_exp :: "fp \<Rightarrow> string" where
  "show_exp = show_sci 6"

end
