(* ===== verification/Event_Writer.thy ===== *)
theory Event_Writer
  imports Record_Files Coincidence_Grouper Raw_Reader
begin

text \<open>
  What the programs petsys_util/convert_raw_to_*.cpp have in common: their class \<open>DataFileWriter\<close> with
  its three kinds of output (text, binary with an index file, ROOT trees), the loop over the events of a buffer
  with the selection of a fraction of them, the conversion of times, the command line, and the loop over the steps
  of a data set. The trees of the ROOT library are a parameter, with the contract \<open>tree_contract\<close>, as are
  \<open>getopt_long\<close>, which gives the list of options, and the number parser of the Boost library. An
  uncaught exception ends the process like a failed assertion. The lemmas show that the loop over a
  buffer writes the records of the selected events one after another.
\<close>

section \<open>Output files\<close>

datatype FILE_TYPE = FILE_TEXT | FILE_BINARY | FILE_ROOT

record ('r, 't) root_ops =
  ro_new :: "string list \<Rightarrow> 't"
  ro_Fill :: "'r \<Rightarrow> 't \<Rightarrow> 't"
  ro_GetEntries :: "'t \<Rightarrow> int"

text \<open>The contract: \<open>view\<close> is the list of the rows of a tree, which \<open>Fill\<close> extends and \<open>GetEntries\<close> counts.\<close>

definition tree_contract :: "('r, 't) root_ops \<Rightarrow> ('t \<Rightarrow> 'r list) \<Rightarrow> bool" where
  "tree_contract D view \<longleftrightarrow> (\<forall>branches. view (ro_new D branches) = []) \<and> (\<forall>r t. view (ro_Fill D r t) = view t @ [r]) \<and>
     (\<forall>t. ro_GetEntries D t = int (length (view t)))"

record index_row =
  ix_step1 :: fp
  ix_step2 :: fp
  ix_stepBegin :: int
  ix_stepEnd :: int

definition index_branches :: "string list" where
  "index_branches = [''step1'', ''step2'', ''stepBegin'', ''stepEnd'']"

text \<open>The pointers \<open>hData\<close> and \<open>hIndex\<close> are only set for ROOT output: \<open>None\<close> is the unset pointer.\<close>

record ('d, 'x) DataFileWriter =
  wr_frequency :: fp
  wr_fileType :: FILE_TYPE
  wr_hitLimitToWrite :: int
  wr_eventFractionToWrite :: int
  wr_eventCounter :: int
  wr_dataName :: string
  wr_indexName :: "string option"
  wr_dataFile :: "u8 list"
  wr_indexFile :: "u8 list"
  wr_stepBegin :: int
  wr_hData :: "'d option"
  wr_hIndex :: "'x option"

definition text_bytes :: "string \<Rightarrow> u8 list" where
  "text_bytes s = map of_char s"

definition fields_line :: "string list \<Rightarrow> string" where
  "fields_line fs = concat (map (\<lambda>f. f @ [TAB]) (butlast fs)) @ last fs @ [NL]"

text \<open>The constructor: \<open>can_open\<close> says which files \<open>fopen\<close> can create.\<close>

definition newDataFileWriter ::
  "('r, 'd) root_ops \<Rightarrow> (index_row, 'x) root_ops \<Rightarrow> (string \<Rightarrow> bool) \<Rightarrow> string list \<Rightarrow> string \<Rightarrow> fp \<Rightarrow>
   FILE_TYPE \<Rightarrow> int \<Rightarrow> int \<Rightarrow> fault + ('d, 'x) DataFileWriter" where
  "newDataFileWriter D X can_open branches fName frequency fileType hitLimit eventFraction =
     (let w = \<lparr>wr_frequency = frequency, wr_fileType = fileType, wr_hitLimitToWrite = hitLimit,
            wr_eventFractionToWrite = eventFraction, wr_eventCounter = 0, wr_dataName = fName, wr_indexName = None,
            wr_dataFile = [], wr_indexFile = [], wr_stepBegin = 0, wr_hData = None, wr_hIndex = None\<rparr>
      in case fileType of
           FILE_ROOT \<Rightarrow> Inr (w\<lparr>wr_hData := Some (ro_new D branches), wr_hIndex := Some (ro_new X index_branches)\<rparr>)
         | FILE_BINARY \<Rightarrow>
             (let d = fName @ ''.ldat''; i = fName @ ''.lidx''
              in if length d \<ge> 1024 then Inl OutOfBounds
                 else if \<not> can_open d \<or> \<not> can_open i then Inl AssertFail
                 else Inr (w\<lparr>wr_dataName := d, wr_indexName := Some i\<rparr>))
         | FILE_TEXT \<Rightarrow> if can_open fName then Inr w else Inl AssertFail)"

definition fill_row ::
  "('r, 'd) root_ops \<Rightarrow> 'r \<Rightarrow> ('d, 'x, 'z) DataFileWriter_scheme \<Rightarrow> fault + ('d, 'x, 'z) DataFileWriter_scheme" where
  "fill_row D r w =
     (case wr_hData w of None \<Rightarrow> Inl Unspecified | Some t \<Rightarrow> Inr (w\<lparr>wr_hData := Some (ro_Fill D r t)\<rparr>))"

definition put_bytes :: "u8 list \<Rightarrow> ('d, 'x, 'z) DataFileWriter_scheme \<Rightarrow> ('d, 'x, 'z) DataFileWriter_scheme" where
  "put_bytes bs w = w\<lparr>wr_dataFile := wr_dataFile w @ bs\<rparr>"

definition closeStep ::
  "('r, 'd) root_ops \<Rightarrow> (index_row, 'x) root_ops \<Rightarrow> fp \<Rightarrow> fp \<Rightarrow>
   ('d, 'x, 'z) DataFileWriter_scheme \<Rightarrow> fault + ('d, 'x, 'z) DataFileWriter_scheme" where
  "closeStep D X step1 step2 w =
     (case wr_fileType w of
        FILE_ROOT \<Rightarrow>
          (case (wr_hData w, wr_hIndex w) of
             (Some d, Some x) \<Rightarrow>
               (let row = \<lparr>ix_step1 = step1, ix_step2 = step2, ix_stepBegin = wr_stepBegin w,
                      ix_stepEnd = ro_GetEntries D d\<rparr>
                in Inr (w\<lparr>wr_hIndex := Some (ro_Fill X row x), wr_stepBegin := ro_GetEntries D d\<rparr>))
           | _ \<Rightarrow> Inl Unspecified)
      | FILE_BINARY \<Rightarrow>
          (let pos = int (length (wr_dataFile w));
               line = fields_line [show_int (wr_stepBegin w), show_int pos, show_exp step1, show_exp step2]
           in Inr (w\<lparr>wr_indexFile := wr_indexFile w @ text_bytes line, wr_stepBegin := pos\<rparr>))
      | FILE_TEXT \<Rightarrow> Inr w)"

section \<open>Events\<close>

text \<open>What is written for one record: a row of the tree, or bytes of the data file.\<close>

datatype 'r out_record = Row 'r | Packed "u8 list" | Line string

fun emit :: "('r, 'd) root_ops \<Rightarrow> 'r out_record \<Rightarrow> ('d, 'x, 'z) DataFileWriter_scheme \<Rightarrow>
   fault + ('d, 'x, 'z) DataFileWriter_scheme" where
  "emit D (Row r) w = fill_row D r w"
| "emit D (Packed bs) w = Inr (put_bytes bs w)"
| "emit D (Line s) w = Inr (put_bytes (text_bytes s) w)"

text \<open>The settings of a writer that its records depend on.\<close>

definition cfg :: "('d, 'x, 'z) DataFileWriter_scheme \<Rightarrow> FILE_TYPE \<times> int" where
  "cfg w = (wr_fileType w, wr_hitLimitToWrite w)"

text \<open>The loop of \<open>addEvents\<close>: every event is counted, a fraction of them is handed to the body.\<close>

definition event_step ::
  "('e \<Rightarrow> ('d, 'x, 'z) DataFileWriter_scheme \<Rightarrow> fault + ('d, 'x, 'z) DataFileWriter_scheme) \<Rightarrow> 'e EventBuffer \<Rightarrow> nat \<Rightarrow>
   ('d, 'x, 'z) DataFileWriter_scheme \<Rightarrow> fault + ('d, 'x, 'z) DataFileWriter_scheme" where
  "event_step body buffer i w =
     (let tmpCounter = wr_eventCounter w; w = w\<lparr>wr_eventCounter := wr_eventCounter w + 1\<rparr>
      in if Prelude.cmod tmpCounter 1024 \<ge> wr_eventFractionToWrite w then Inr w
         else rbind (get buffer i) (\<lambda>e. body e w))"

definition event_loop ::
  "('e \<Rightarrow> ('d, 'x, 'z) DataFileWriter_scheme \<Rightarrow> fault + ('d, 'x, 'z) DataFileWriter_scheme) \<Rightarrow> 'e EventBuffer \<Rightarrow>
   ('d, 'x, 'z) DataFileWriter_scheme \<Rightarrow> fault + ('d, 'x, 'z) DataFileWriter_scheme" where
  "event_loop body buffer w = rfold (event_step body buffer) [0..<getSize buffer] w"

definition i64 :: "int \<Rightarrow> fault + int" where
  "i64 v = (if - (2 ^ 63) \<le> v \<and> v < 2 ^ 63 then Inr v else Inl Unspecified)"

definition deref :: "'a option \<Rightarrow> fault + 'a" where
  "deref p = (case p of None \<Rightarrow> Inl NullDeref | Some a \<Rightarrow> Inr a)"

definition Tps_of :: "fp \<Rightarrow> fp" where
  "Tps_of frequency = fp_div F64 (fp_of_int F64 1000000000000) frequency"

definition tMin_of :: "fp \<Rightarrow> 'e EventBuffer \<Rightarrow> fault + int" where
  "tMin_of Tps buffer = rbind (fp_to_signed 64 Tps) (\<lambda>t. i64 (getTMin buffer * t))"

text \<open>\<open>((long long)(h.time * Tps)) + tMin\<close>, \<open>h.energy * Eunit\<close> and the time over threshold.\<close>

definition hit_time :: "fp \<Rightarrow> int \<Rightarrow> Hit \<Rightarrow> fault + int" where
  "hit_time Tps tMin h = rbind (fp_to_signed 64 (fp_mul F64 (h_time h) Tps)) (\<lambda>t. i64 (t + tMin))"

definition hit_energy :: "Hit \<Rightarrow> fp" where
  "hit_energy h = fp_mul F32 (h_energy h) (fp_of_int F32 1)"

definition hit_tot :: "fp \<Rightarrow> Hit \<Rightarrow> fp" where
  "hit_tot Tps h = fp_convert F32 (fp_mul F64 (fp_sub F64 (h_timeEnd h) (h_time h)) Tps)"

definition prev_event_time :: "fp \<Rightarrow> RawHit \<Rightarrow> fault + int" where
  "prev_event_time Tps r =
     rbind (i64 (rh_time r - rh_prevEventTime r)) (\<lambda>d. fp_to_signed 64 (fp_mul F64 (fp_of_int F64 d) Tps))"

section \<open>What the loop over a buffer writes\<close>

text \<open>
  \<open>picked c f es\<close> are the events written when the counter stands at \<open>c\<close> and the fraction is \<open>f\<close>;
  \<open>rconcat\<close> collects the records of a list of events.
\<close>

fun picked :: "int \<Rightarrow> int \<Rightarrow> 'e list \<Rightarrow> 'e list" where
  "picked c f [] = []"
| "picked c f (e # es) = (if Prelude.cmod c 1024 \<ge> f then picked (c + 1) f es else e # picked (c + 1) f es)"

fun rconcat :: "('a \<Rightarrow> 'e + 'b list) \<Rightarrow> 'a list \<Rightarrow> 'e + 'b list" where
  "rconcat g [] = Inr []"
| "rconcat g (x # xs) = rbind (g x) (\<lambda>a. rbind (rconcat g xs) (\<lambda>b. Inr (a @ b)))"

lemma cmod_less: "Prelude.cmod c 1024 < 1024"
proof (cases "0 \<le> c")
  case True
  then have "Prelude.cmod c 1024 = c - 1024 * (c div 1024)"
    by (cases "c = 0") (simp_all add: Prelude.cmod_def cdiv_def)
  also have "\<dots> = c mod 1024" by (simp add: minus_mult_div_eq_mod)
  finally show ?thesis by simp
next
  case False
  then have "Prelude.cmod c 1024 = c + 1024 * ((- c) div 1024)" by (simp add: Prelude.cmod_def cdiv_def)
  also have "\<dots> \<le> 0" using minus_mult_div_eq_mod [of "- c" 1024] pos_mod_sign [of 1024 "- c"] by linarith
  finally show ?thesis by simp
qed

lemma picked_all: "1024 \<le> f \<Longrightarrow> picked c f es = es"
proof (induction es arbitrary: c)
  case (Cons e es)
  with cmod_less [of c] show ?case by simp
qed simp

fun put :: "('r, 'd) root_ops \<Rightarrow> 'r out_record \<Rightarrow> ('d, 'x, 'z) DataFileWriter_scheme \<Rightarrow> ('d, 'x, 'z) DataFileWriter_scheme" where
  "put D (Row r) w = w\<lparr>wr_hData := map_option (ro_Fill D r) (wr_hData w)\<rparr>"
| "put D (Packed bs) w = put_bytes bs w"
| "put D (Line s) w = put_bytes (text_bytes s) w"

definition puts :: "('r, 'd) root_ops \<Rightarrow> 'r out_record list \<Rightarrow> ('d, 'x, 'z) DataFileWriter_scheme \<Rightarrow> ('d, 'x, 'z) DataFileWriter_scheme" where
  "puts D os w = fold (put D) os w"

lemma puts_simps [simp]: "puts D [] w = w" "puts D (os @ ps) w = puts D ps (puts D os w)"
  "puts D [out] w = put D out w"
  by (simp_all add: puts_def)

text \<open>In ROOT mode the trees exist.\<close>

definition ready :: "('d, 'x, 'z) DataFileWriter_scheme \<Rightarrow> bool" where
  "ready w \<longleftrightarrow> (wr_fileType w = FILE_ROOT \<longrightarrow> wr_hData w \<noteq> None \<and> wr_hIndex w \<noteq> None)"

lemma put_keeps [simp]:
  "cfg (put D out w) = cfg w" "ready (put D out w) = ready w" "wr_eventCounter (put D out w) = wr_eventCounter w"
  "wr_eventFractionToWrite (put D out w) = wr_eventFractionToWrite w" "wr_stepBegin (put D out w) = wr_stepBegin w"
  "wr_indexFile (put D out w) = wr_indexFile w" "wr_hIndex (put D out w) = wr_hIndex w"
  "put D out (w\<lparr>wr_eventCounter := c\<rparr>) = (put D out w)\<lparr>wr_eventCounter := c\<rparr>"
  by (cases out; simp add: cfg_def ready_def put_bytes_def)+

lemma puts_keeps [simp]:
  "cfg (puts D os w) = cfg w" "ready (puts D os w) = ready w" "wr_eventCounter (puts D os w) = wr_eventCounter w"
  "wr_eventFractionToWrite (puts D os w) = wr_eventFractionToWrite w" "wr_stepBegin (puts D os w) = wr_stepBegin w"
  "wr_indexFile (puts D os w) = wr_indexFile w" "wr_hIndex (puts D os w) = wr_hIndex w"
  "puts D os (w\<lparr>wr_eventCounter := c\<rparr>) = (puts D os w)\<lparr>wr_eventCounter := c\<rparr>"
  unfolding puts_def by (induction os arbitrary: w) simp_all

text \<open>With the settings \<open>c\<close>, \<open>f\<close> appends the records \<open>g\<close> to the output and does nothing else.\<close>

definition appends ::
  "('r, 'd) root_ops \<Rightarrow> FILE_TYPE \<times> int \<Rightarrow> (('d, 'x, 'z) DataFileWriter_scheme \<Rightarrow> fault + ('d, 'x, 'z) DataFileWriter_scheme) \<Rightarrow>
   fault + 'r out_record list \<Rightarrow> bool" where
  "appends D c f g \<longleftrightarrow> (\<forall>w. ready w \<longrightarrow> cfg w = c \<longrightarrow> f w = rbind g (\<lambda>os. Inr (puts D os w)))"

named_theorems append_rules "what the loops of the tools append"

lemma appends_nothing [append_rules]: "appends D c Inr (Inr [])"
  by (simp add: appends_def)

lemma appends_if [append_rules]:
  "appends D c f g \<Longrightarrow> appends D c h k \<Longrightarrow> appends D c (\<lambda>w. if b then f w else h w) (if b then g else k)"
  by (simp add: appends_def)

lemma appends_bind [append_rules]:
  "(\<And>a. r = Inr a \<Longrightarrow> appends D c (f a) (g a)) \<Longrightarrow> appends D c (\<lambda>w. rbind r (\<lambda>a. f a w)) (rbind r g)"
  by (cases r) (simp_all add: appends_def)

lemma appends_cfg: "appends D c (f c) g \<Longrightarrow> appends D c (\<lambda>w. f (cfg w) w) g"
  by (simp add: appends_def)

lemma appends_emit [append_rules]:
  assumes "\<And>r. out = Row r \<Longrightarrow> fst c = FILE_ROOT"
  shows "appends D c (emit D out) (Inr [out])"
  using assms by (cases out) (auto simp: appends_def fill_row_def ready_def cfg_def split: option.splits)

lemma appends_rfold [append_rules]:
  assumes "\<And>x. x \<in> set xs \<Longrightarrow> appends D c (f x) (g x)"
  shows "appends D c (rfold f xs) (rconcat g xs)"
  using assms
proof (induction xs)
  case (Cons x xs)
  then have f: "appends D c (f x) (g x)" and IH: "appends D c (rfold f xs) (rconcat g xs)" by simp_all
  show ?case
  proof (cases "g x")
    case (Inr os)
    then show ?thesis
      using f IH by (cases "rconcat g xs") (simp_all add: appends_def)
  qed (use f in \<open>simp add: appends_def\<close>)
qed (simp add: appends_def)

text \<open>
  The interface of a tool: \<open>body\<close> handles one event and appends its records. The whole loop then
  appends the records of the events that are picked, in order, and counts all events.
\<close>

locale event_body =
  fixes D :: "('r, 'd) root_ops"
    and body :: "'e \<Rightarrow> ('d, 'x, 'z) DataFileWriter_scheme \<Rightarrow> fault + ('d, 'x, 'z) DataFileWriter_scheme"
    and outs :: "'e \<Rightarrow> FILE_TYPE \<times> int \<Rightarrow> fault + 'r out_record list"
  assumes body_appends: "appends D c (body e) (outs e c)"
begin

lemma loop_from:
  assumes "wf_buffer b" "i \<le> getSize b" "ready w"
  shows "rfold (event_step body b) [i..<getSize b] w =
    rbind (rconcat (\<lambda>e. outs e (cfg w)) (picked (wr_eventCounter w) (wr_eventFractionToWrite w) (drop i (contents b))))
      (\<lambda>os. Inr ((puts D os w)\<lparr>wr_eventCounter := wr_eventCounter w + int (getSize b - i)\<rparr>))"
  using assms(2,3)
proof (induction i arbitrary: w rule: inc_induct)
  case base
  then show ?case by (simp add: getSize_contents)
next
  case (step i)
  let ?w = "w\<lparr>wr_eventCounter := wr_eventCounter w + 1\<rparr>"
  let ?f = "wr_eventFractionToWrite w"
  have rng: "[i..<getSize b] = i # [Suc i..<getSize b]" using step.hyps by (simp add: upt_conv_Cons)
  have e: "drop i (contents b) = contents b ! i # drop (Suc i) (contents b)"
    using step.hyps by (simp add: Cons_nth_drop_Suc getSize_contents)
  have r: "ready ?w" "cfg ?w = cfg w" using step.prems by (simp_all add: ready_def cfg_def)
  have g: "get b i = Inr (contents b ! i)" using get_contents [OF assms(1)] step.hyps by simp
  have cnt: "int (getSize b - i) = 1 + int (getSize b - Suc i)" using step.hyps by linarith
  show ?case
  proof (cases "Prelude.cmod (wr_eventCounter w) 1024 \<ge> ?f")
    case True
    with step.IH [OF r(1)] r show ?thesis
      by (simp add: rng e cnt event_step_def algebra_simps)
  next
    case False
    then have 1: "event_step body b i w = body (contents b ! i) ?w"
      by (simp add: event_step_def g)
    have 2: "body (contents b ! i) ?w = rbind (outs (contents b ! i) (cfg w)) (\<lambda>os. Inr (puts D os ?w))"
      using body_appends r by (simp add: appends_def)
    show ?thesis
    proof (cases "outs (contents b ! i) (cfg w)")
      case (Inr os)
      have rr: "ready ((puts D os w)\<lparr>wr_eventCounter := wr_eventCounter w + 1\<rparr>)"
        using step.prems puts_keeps(2) [of D os w] by (simp add: ready_def)
      have cc: "cfg ((puts D os w)\<lparr>wr_eventCounter := wr_eventCounter w + 1\<rparr>) = cfg w"
        using puts_keeps(1) [of D os w] by (simp add: cfg_def)
      have fr: "wr_eventFractionToWrite (puts D os w) = ?f" by simp
      note ih = step.IH [OF rr, unfolded cc]
      from Inr 1 2 have "rfold (event_step body b) [i..<getSize b] w =
        rfold (event_step body b) [Suc i..<getSize b] ((puts D os w)\<lparr>wr_eventCounter := wr_eventCounter w + 1\<rparr>)"
        by (simp add: rng)
      with False Inr ih show ?thesis
        by (cases "rconcat (\<lambda>e. outs e (cfg w)) (picked (wr_eventCounter w + 1) ?f (drop (Suc i) (contents b)))")
          (simp_all add: e cnt add.assoc)
    qed (use False in \<open>simp add: rng e 1 2\<close>)
  qed
qed

lemma loop_writes:
  assumes "wf_buffer b" "ready w"
  shows "event_loop body b w =
    rbind (rconcat (\<lambda>e. outs e (cfg w)) (picked (wr_eventCounter w) (wr_eventFractionToWrite w) (contents b)))
      (\<lambda>os. Inr ((puts D os w)\<lparr>wr_eventCounter := wr_eventCounter w + int (getSize b)\<rparr>))"
  using loop_from [OF assms(1) _ assms(2), of 0] by (simp add: event_loop_def)

end

section \<open>The command line\<close>

text \<open>The results of \<open>getopt_long\<close> in order, with the option's argument.\<close>

datatype getopt = ShortOpt char string | LongOpt nat string

record parsers =
  lexical_cast_int :: "string \<Rightarrow> int option"
  lexical_cast_float :: "string \<Rightarrow> fp option"

record options =
  op_configFileName :: "string option"
  op_inputFilePrefix :: "string option"
  op_outputFileName :: "string option"
  op_fileType :: FILE_TYPE
  op_hitLimitToWrite :: int
  op_eventFractionToWrite :: int
  op_parser_type :: int
  op_att :: int

definition atoi :: "string \<Rightarrow> fault + int" where
  "atoi s = (case scan_int (c_str s) of None \<Rightarrow> Inr 0 | Some (v, _) \<Rightarrow> fit_signed 32 v)"

text \<open>\<open>round\<close>: halves away from zero.\<close>

fun fp_round :: "fp \<Rightarrow> int option" where
  "fp_round (Fin s m e) =
     Some (signed s (if 0 \<le> e then m * 2 ^ nat e else (m + 2 ^ (nat (- e) - 1)) div 2 ^ nat (- e)))"
| "fp_round _ = None"

definition parse_int :: "parsers \<Rightarrow> string \<Rightarrow> fault + int" where
  "parse_int P s = (case lexical_cast_int P s of None \<Rightarrow> Inl AssertFail | Some v \<Rightarrow> fit_signed 32 v)"

definition parse_fraction :: "parsers \<Rightarrow> string \<Rightarrow> fault + int" where
  "parse_fraction P s =
     (case lexical_cast_float P s of
        None \<Rightarrow> Inl AssertFail
      | Some x \<Rightarrow>
          (case fp_round (fp_div F64 (fp_mul F32 (fp_of_int F32 1024) x) (fp_of_int F64 100)) of
             None \<Rightarrow> Inl Unspecified
           | Some v \<Rightarrow> i64 v))"

definition required_options :: "options \<Rightarrow> fault + string \<times> string \<times> string" where
  "required_options p =
     (case op_configFileName p of None \<Rightarrow> Inl (Exit 1) | Some c \<Rightarrow>
     (case op_inputFilePrefix p of None \<Rightarrow> Inl (Exit 1) | Some i \<Rightarrow>
     (case op_outputFileName p of None \<Rightarrow> Inl (Exit 1) | Some out \<Rightarrow> Inr (c, i, out))))"

text \<open>The parameter of the constructor is an \<open>int\<close>: the 64 bit value is cut to 32 bits.\<close>

definition to_int :: "int \<Rightarrow> int" where
  "to_int v = sint (word_of_int v :: u32)"

section \<open>The steps of a data set\<close>

text \<open>The interface of a reader of raw data.\<close>

record 'r reader_ops =
  rd_getNSteps :: "'r \<Rightarrow> nat"
  rd_getStepValue :: "'r \<Rightarrow> nat \<Rightarrow> fault + fp \<times> fp"
  rd_processStep :: "'r \<Rightarrow> nat \<Rightarrow> fault + RawHit EventBuffer sink_call list \<times> 'r"
  rd_getFrequency :: "'r \<Rightarrow> fp"
  rd_getTriggerID :: "'r \<Rightarrow> int"

definition raw_reader_ops :: "(nat \<Rightarrow> nat \<Rightarrow> RawHit) \<Rightarrow> RawDataFrame \<Rightarrow> (nat \<Rightarrow> nat) \<Rightarrow> RawReader reader_ops" where
  "raw_reader_ops junk frame0 rd =
     \<lparr>rd_getNSteps = getNSteps, rd_getStepValue = getStepValue,
      rd_processStep = (\<lambda>r n. rbind (processStep junk frame0 rd r n) (\<lambda>st. Inr (ps_sink st, ps_reader st))),
      rd_getFrequency = getFrequency, rd_getTriggerID = getTriggerID\<rparr>"

text \<open>
  A chain of stages takes the buffers of a step one after another; its state \<open>'c\<close> starts afresh in every
  step. The handler at its end writes the events of the buffer.
\<close>

definition push_buffer ::
  "('c \<Rightarrow> RawHit EventBuffer \<Rightarrow> fault + 'c \<times> 'e EventBuffer) \<Rightarrow> ('e EventBuffer \<Rightarrow> 'w \<Rightarrow> fault + 'w) \<Rightarrow>
   RawHit EventBuffer sink_call \<Rightarrow> 'c \<times> 'w \<Rightarrow> fault + 'c \<times> 'w" where
  "push_buffer chain add call st =
     (case st of (c, w) \<Rightarrow>
        (case call of
           PushEvents b \<Rightarrow> rbind (chain c b) (\<lambda>(c, out). rbind (add out w) (\<lambda>w. Inr (c, w)))
         | _ \<Rightarrow> Inr (c, w)))"

definition convert_step ::
  "'r reader_ops \<Rightarrow> 'c \<Rightarrow> ('c \<Rightarrow> RawHit EventBuffer \<Rightarrow> fault + 'c \<times> 'e EventBuffer) \<Rightarrow>
   (fp \<Rightarrow> fp \<Rightarrow> 'e EventBuffer \<Rightarrow> 'w \<Rightarrow> fault + 'w) \<Rightarrow> (fp \<Rightarrow> fp \<Rightarrow> 'w \<Rightarrow> fault + 'w) \<Rightarrow> nat \<Rightarrow> 'r \<times> 'w \<Rightarrow> fault + 'r \<times> 'w" where
  "convert_step R c0 chain add close stepIndex st =
     (case st of (r, w) \<Rightarrow>
        rbind (rd_getStepValue R r stepIndex) (\<lambda>(step1, step2).
        rbind (rd_processStep R r stepIndex) (\<lambda>(calls, r).
        rbind (rfold (push_buffer chain (add step1 step2)) calls (c0, w)) (\<lambda>(c, w).
        rbind (close step1 step2 w) (\<lambda>w. Inr (r, w))))))"

definition convert_steps ::
  "'r reader_ops \<Rightarrow> 'c \<Rightarrow> ('c \<Rightarrow> RawHit EventBuffer \<Rightarrow> fault + 'c \<times> 'e EventBuffer) \<Rightarrow>
   (fp \<Rightarrow> fp \<Rightarrow> 'e EventBuffer \<Rightarrow> 'w \<Rightarrow> fault + 'w) \<Rightarrow> (fp \<Rightarrow> fp \<Rightarrow> 'w \<Rightarrow> fault + 'w) \<Rightarrow> 'r \<Rightarrow> 'w \<Rightarrow> fault + 'r \<times> 'w" where
  "convert_steps R c0 chain add close r w =
     rfold (convert_step R c0 chain add close) [0..<rd_getNSteps R r] (r, w)"

section \<open>The parts of the data file\<close>

text \<open>
  A binary data file is cut into the parts of the steps, and the index file has a line for each part:
  where it begins, where it ends and the step values.
\<close>

type_synonym part = "u8 list \<times> fp \<times> fp"

fun index_lines :: "nat \<Rightarrow> part list \<Rightarrow> string" where
  "index_lines b [] = []"
| "index_lines b ((bs, s1, s2) # ps) =
     fields_line [show_int (int b), show_int (int (b + length bs)), show_exp s1, show_exp s2] @ index_lines (b + length bs) ps"

definition parts_bytes :: "part list \<Rightarrow> u8 list" where
  "parts_bytes ps = concat (map fst ps)"

lemma index_lines_append: "index_lines b (ps @ qs) = index_lines b ps @ index_lines (b + length (parts_bytes ps)) qs"
  by (induction b ps rule: index_lines.induct) (simp_all add: parts_bytes_def add.assoc)

text \<open>The bytes \<open>bs\<close> are appended to the data file and everything else of the files stays.\<close>

definition extends :: "u8 list \<Rightarrow> ('d, 'x, 'z) DataFileWriter_scheme \<Rightarrow> ('d, 'x, 'z) DataFileWriter_scheme \<Rightarrow> bool" where
  "extends bs w w' \<longleftrightarrow> wr_dataFile w' = wr_dataFile w @ bs \<and> wr_indexFile w' = wr_indexFile w \<and>
     wr_stepBegin w' = wr_stepBegin w \<and> wr_fileType w' = wr_fileType w"

lemma extends_refl [simp]: "extends [] w w"
  by (simp add: extends_def)

lemma extends_trans: "extends bs w w' \<Longrightarrow> extends cs w' w'' \<Longrightarrow> extends (bs @ cs) w w''"
  by (simp add: extends_def)

definition partitioned :: "part list \<Rightarrow> ('d, 'x, 'z) DataFileWriter_scheme \<Rightarrow> bool" where
  "partitioned ps w \<longleftrightarrow> wr_fileType w = FILE_BINARY \<and> wr_dataFile w = parts_bytes ps \<and>
     wr_stepBegin w = int (length (parts_bytes ps)) \<and> wr_indexFile w = text_bytes (index_lines 0 ps)"

lemma closeStep_partitions:
  assumes "partitioned ps w" "extends bs w w1" "closeStep D X s1 s2 w1 = Inr w2"
  shows "partitioned (ps @ [(bs, s1, s2)]) w2"
  using assms
  by (auto simp: partitioned_def extends_def closeStep_def index_lines_append text_bytes_def parts_bytes_def Let_def)

lemma new_partitioned:
  "newDataFileWriter D X can_open br fName fr FILE_BINARY hl ef = Inr w \<Longrightarrow> partitioned [] w"
  by (auto simp: newDataFileWriter_def partitioned_def parts_bytes_def text_bytes_def Let_def split: if_splits)

text \<open>
  The interface of a reader of steps, and what every tool writes with it: the parts of the data file are
  those of the steps, in order, with the values of the steps.
\<close>

locale step_reader =
  fixes R :: "'r reader_ops"
  assumes steps_kept: "rd_processStep R r n = Inr (calls, r') \<Longrightarrow>
      rd_getStepValue R r' = rd_getStepValue R r \<and> rd_getNSteps R r' = rd_getNSteps R r"
begin

lemma push_extends:
  assumes add: "\<And>b w w'. add b w = Inr w' \<Longrightarrow> \<exists>bs. extends bs w w'"
    and run: "rfold (push_buffer chain add) calls (c, w) = Inr (c', w')"
  shows "\<exists>bs. extends bs w w'"
  using run
proof (induction calls arbitrary: c w)
  case Nil
  then show ?case by (auto intro: exI [of _ "[]"])
next
  case (Cons call calls)
  then obtain c1 w1 where 1: "push_buffer chain add call (c, w) = Inr (c1, w1)"
    "rfold (push_buffer chain add) calls (c1, w1) = Inr (c', w')"
    by (auto simp: rbind_Inr_iff)
  have "\<exists>bs. extends bs w w1"
  proof (cases call)
    case (PushEvents b)
    with 1(1) obtain out where "add out w = Inr w1" by (auto simp: push_buffer_def rbind_Inr_iff)
    then show ?thesis by (rule add)
  qed (use 1(1) in \<open>auto simp: push_buffer_def intro: exI [of _ "[]"]\<close>)
  with Cons.IH [OF 1(2)] show ?case by (blast intro: extends_trans)
qed

lemma convert_partitions:
  assumes add: "\<And>s1 s2 b w w'. add s1 s2 b w = Inr w' \<Longrightarrow> \<exists>bs. extends bs w w'"
    and run: "rfold (convert_step R c0 chain add (closeStep D X)) ks (r, w) = Inr (r', w')"
    and part: "partitioned ps w"
  shows "\<exists>qs. partitioned (ps @ qs) w' \<and> map (\<lambda>q. Inr (snd q)) qs = map (rd_getStepValue R r) ks"
  using run part
proof (induction ks arbitrary: r w ps)
  case Nil
  then show ?case by (auto intro: exI [of _ "[]"])
next
  case (Cons k ks)
  from Cons.prems(1) obtain r1 w1 where 1: "convert_step R c0 chain add (closeStep D X) k (r, w) = Inr (r1, w1)"
    "rfold (convert_step R c0 chain add (closeStep D X)) ks (r1, w1) = Inr (r', w')"
    by (auto simp: rbind_Inr_iff)
  from 1(1) obtain s1 s2 calls c wa where 2: "rd_getStepValue R r k = Inr (s1, s2)"
    "rd_processStep R r k = Inr (calls, r1)" "rfold (push_buffer chain (add s1 s2)) calls (c0, w) = Inr (c, wa)"
    "closeStep D X s1 s2 wa = Inr w1"
    by (auto simp: convert_step_def rbind_Inr_iff)
  have "\<exists>bs. extends bs w wa" by (rule push_extends [OF _ 2(3)]) (rule add)
  then obtain bs where bs: "extends bs w wa" by blast
  have "partitioned (ps @ [(bs, s1, s2)]) w1" by (rule closeStep_partitions [OF Cons.prems(2) bs 2(4)])
  from Cons.IH [OF 1(2) this] obtain qs where "partitioned (ps @ (bs, s1, s2) # qs) w'"
    "map (\<lambda>q. Inr (snd q)) qs = map (rd_getStepValue R r1) ks" by auto
  moreover have "rd_getStepValue R r1 = rd_getStepValue R r" using steps_kept [OF 2(2)] by simp
  ultimately show ?case using 2(1) by (auto intro!: exI [of _ "(bs, s1, s2) # qs"])
qed

end

lemma refill_steps: "refill rd r = Inr r' \<Longrightarrow> rr_steps r' = rr_steps r"
  by (auto simp: refill_def Let_def split: if_splits)

lemma read_loop_steps: "read_loop rd n r acc = Inr (bs, r') \<Longrightarrow> rr_steps r' = rr_steps r"
proof (induction rd n r acc rule: read_loop.induct)
  case (1 rd n r acc)
  show ?case
  proof (cases "n = 0")
    case True
    with 1(2) show ?thesis by (simp add: read_loop.simps)
  next
    case False
    with 1(2) obtain r1 where r1: "refill rd r = Inr r1"
      by (subst (asm) read_loop.simps) (auto split: sum.splits)
    let ?c = "if n < length (rr_buffered r1) then n else length (rr_buffered r1)"
    from 1(2) False r1 have "read_loop rd (n - ?c) (r1\<lparr>rr_buffered := drop ?c (rr_buffered r1)\<rparr>)
        (acc @ take ?c (rr_buffered r1)) = Inr (bs, r')"
      by (subst (asm) read_loop.simps) (simp add: Let_def)
    from 1(1) [OF False r1 refl this] refill_steps [OF r1] show ?thesis by simp
  qed
qed

lemma frame_step_steps: "frame_step junk rd st = Inr st' \<Longrightarrow> rr_steps (ps_reader st') = rr_steps (ps_reader st)"
  by (auto simp: frame_step_def Let_def readFromDataFile_def dest!: read_loop_steps
      elim!: rbind_E split: if_splits option.splits prod.splits)

lemma frame_loop_steps: "frame_loop junk rd n st = Inr st' \<Longrightarrow> rr_steps (ps_reader st') = rr_steps (ps_reader st)"
proof (induction junk rd n st rule: frame_loop.induct)
  case (1 junk rd n st)
  from 1(2) show ?case
    by (subst (asm) frame_loop.simps) (auto simp: frame_step_steps dest!: 1(1) split: if_splits sum.splits)
qed

interpretation raw: step_reader "raw_reader_ops junk frame0 rd" for junk frame0 rd
proof (unfold_locales, goal_cases)
  case (1 r n calls r')
  then obtain st where st: "processStep junk frame0 rd r n = Inr st" "r' = ps_reader st"
    by (auto simp: raw_reader_ops_def rbind_Inr_iff)
  then have "rr_steps r' = rr_steps r"
    by (auto simp: processStep_def start_state_def Let_def rbind_Inr_iff dest!: frame_loop_steps split: option.splits)
  then show ?case by (auto simp: raw_reader_ops_def getStepValue_def getNSteps_def)
qed

end
