(* ===== verification/Convert_Coincidence.thy ===== *)
theory Convert_Coincidence
  imports Event_Writer Coarse_Sorter Process_Hit
begin

text \<open>
  The program petsys_util/convert_raw_to_coincidence.cpp, and the chain of processing stages all converters build in
  front of their writer. \<open>tool_env\<close> gathers what lies outside the program: libraries, files and the memory of new buffers.
  The properties: the binary file holds, record by record, the pairs of hits of the coincidences in
  order, and the index file cuts it into the parts of the steps.
\<close>

section \<open>The stages in front of the writer\<close>

record ('r, 'row, 'd, 'x) tool_env =
  te_externals :: externals
  te_parsers :: parsers
  te_memory :: SystemConfig
  te_data :: "('row, 'd) root_ops"
  te_index :: "(index_row, 'x) root_ops"
  te_can_open :: "string \<Rightarrow> bool"
  te_reader :: "'r reader_ops"
  te_open_raw :: "string \<Rightarrow> fault + 'r"
  te_open_v1 :: "string \<Rightarrow> fault + 'r"
  te_sort :: "(SortEntry \<Rightarrow> SortEntry \<Rightarrow> bool) \<Rightarrow> SortEntry list \<Rightarrow> SortEntry list"
  te_rawHits :: "nat \<Rightarrow> nat \<Rightarrow> RawHit"
  te_hits :: "nat \<Rightarrow> nat \<Rightarrow> Hit"
  te_photons :: "nat \<Rightarrow> nat \<Rightarrow> GammaPhoton"
  te_coincidences :: "nat \<Rightarrow> nat \<Rightarrow> Coincidence"
  te_tmax :: int

text \<open>The stages with their counters; the number counts the buffers of the step.\<close>

record chain =
  ch_count :: nat
  ch_sorter :: CoarseSorter
  ch_process :: ProcessHit
  ch_grouper :: SimpleGrouper
  ch_coincidence :: CoincidenceGrouper

definition newChain :: chain where
  "newChain = \<lparr>ch_count = 0, ch_sorter = newCoarseSorter, ch_process = newProcessHit,
     ch_grouper = newSimpleGrouper, ch_coincidence = newCoincidenceGrouper\<rparr>"

definition hit_chain ::
  "('r, 'row, 'd, 'x) tool_env \<Rightarrow> SystemConfig \<Rightarrow> int \<Rightarrow> chain \<Rightarrow> RawHit EventBuffer \<Rightarrow> fault + chain \<times> Hit EventBuffer" where
  "hit_chain T config trig c b =
     rbind (sorter_handleEvents (te_sort T) (te_rawHits T (ch_count c)) (te_tmax T) (ch_sorter c) b) (\<lambda>(cs, b).
     rbind (process_handleEvents (te_hits T (ch_count c)) (te_tmax T) config trig (ch_process c) b) (\<lambda>(ph, b).
     Inr (c\<lparr>ch_count := ch_count c + 1, ch_sorter := cs, ch_process := ph\<rparr>, b)))"

definition photon_chain ::
  "('r, 'row, 'd, 'x) tool_env \<Rightarrow> SystemConfig \<Rightarrow> int \<Rightarrow> chain \<Rightarrow> RawHit EventBuffer \<Rightarrow>
   fault + chain \<times> GammaPhoton EventBuffer" where
  "photon_chain T config trig c b =
     rbind (hit_chain T config trig c b) (\<lambda>(c, b).
     rbind (group_handleEvents (te_photons T (ch_count c)) (te_tmax T) config (ch_grouper c) b) (\<lambda>(sg, b).
     Inr (c\<lparr>ch_grouper := sg\<rparr>, b)))"

definition coincidence_chain ::
  "('r, 'row, 'd, 'x) tool_env \<Rightarrow> SystemConfig \<Rightarrow> int \<Rightarrow> chain \<Rightarrow> RawHit EventBuffer \<Rightarrow>
   fault + chain \<times> Coincidence EventBuffer" where
  "coincidence_chain T config trig c b =
     rbind (photon_chain T config trig c b) (\<lambda>(c, b).
     rbind (coincidence_handleEvents (te_coincidences T (ch_count c)) (te_tmax T) config (ch_coincidence c) b) (\<lambda>(cg, b).
     Inr (c\<lparr>ch_coincidence := cg\<rparr>, b)))"

definition default_options :: "int \<Rightarrow> options" where
  "default_options hitLimit =
     \<lparr>op_configFileName = None, op_inputFilePrefix = None, op_outputFileName = None, op_fileType = FILE_TEXT,
      op_hitLimitToWrite = hitLimit, op_eventFractionToWrite = 1024, op_parser_type = 0, op_att = 4\<rparr>"

definition open_reader :: "('r, 'row, 'd, 'x) tool_env \<Rightarrow> options \<Rightarrow> string \<Rightarrow> fault + 'r" where
  "open_reader T p prefix = (if op_parser_type p = 1 then te_open_v1 T prefix else te_open_raw T prefix)"

section \<open>Records\<close>

text \<open>The branch variables of one side of the pair, and of a row of the tree.\<close>

record side_row =
  sr_N :: u16
  sr_J :: u16
  sr_Time :: int
  sr_ChannelID :: u32
  sr_ToT :: fp
  sr_Energy :: fp
  sr_TacID :: u16
  sr_X :: fp
  sr_Y :: fp
  sr_Z :: fp
  sr_Xi :: int
  sr_Yi :: int

record coincidence_row =
  cr_step1 :: fp
  cr_step2 :: fp
  cr_1 :: side_row
  cr_2 :: side_row

record coincidence_event =
  ce_mh_n1 :: u8
  ce_mh_j1 :: u8
  ce_time1 :: int
  ce_e1 :: fp
  ce_id1 :: int
  ce_mh_n2 :: u8
  ce_mh_j2 :: u8
  ce_time2 :: int
  ce_e2 :: fp
  ce_id2 :: int

definition coincidence_branches :: "string list" where
  "coincidence_branches =
     [''step1'', ''step2'', ''mh_n1'', ''mh_j1'', ''tot1'', ''time1'', ''channelID1'', ''energy1'', ''tacID1'', ''xi1'', ''yi1'',
      ''x1'', ''y1'', ''z1'', ''mh_n2'', ''mh_j2'', ''time2'', ''channelID2'', ''tot2'', ''energy2'', ''tacID2'', ''xi2'', ''yi2'',
      ''x2'', ''y2'', ''z2'']"

definition coincidence_newDataFileWriter ::
  "('r, 'row, 'd, 'x) tool_env \<Rightarrow> string \<Rightarrow> fp \<Rightarrow> FILE_TYPE \<Rightarrow> int \<Rightarrow> int \<Rightarrow> fault + ('d, 'x) DataFileWriter" where
  "coincidence_newDataFileWriter T = newDataFileWriter (te_data T) (te_index T) (te_can_open T) coincidence_branches"

definition coincidence_layout :: "nat list" where
  "coincidence_layout = [1, 1, 8, 4, 4, 1, 1, 8, 4, 4]"

text \<open>The bytes of a signed value of 32 or 64 bits and of a float, as the fields of a structure.\<close>

definition f8 :: "u8 \<Rightarrow> nat \<times> u64" where "f8 b = (1, ucast b)"
definition f64 :: "int \<Rightarrow> nat \<times> u64" where "f64 v = (8, word_of_int v)"
definition f32 :: "int \<Rightarrow> nat \<times> u64" where "f32 v = (4, ucast (word_of_int v :: u32))"
definition ffloat :: "fp \<Rightarrow> nat \<times> u64" where "ffloat e = (4, ucast (float_bits e))"

definition coincidence_fields :: "coincidence_event \<Rightarrow> (nat \<times> u64) list" where
  "coincidence_fields e =
     [f8 (ce_mh_n1 e), f8 (ce_mh_j1 e), f64 (ce_time1 e), ffloat (ce_e1 e), f32 (ce_id1 e),
      f8 (ce_mh_n2 e), f8 (ce_mh_j2 e), f64 (ce_time2 e), ffloat (ce_e2 e), f32 (ce_id2 e)]"

lemma ucast_field: "unat (ucast (b :: 'a::len word) :: u64) < 2 ^ LENGTH('a)"
proof -
  have "unat (ucast b :: u64) \<le> unat b" by (simp add: unsigned_ucast_eq)
  then show ?thesis using unsigned_less [of b] by (metis le_less_trans)
qed

lemma field_fst [simp]: "fst (f8 b) = 1" "fst (f64 v) = 8" "fst (f32 v) = 4" "fst (ffloat e) = 4"
  by (simp_all add: f8_def f64_def f32_def ffloat_def)

lemma field_good [simp]: "field_ok (f8 b)" "field_ok (f64 v)" "field_ok (f32 v)" "field_ok (ffloat e)"
  using ucast_field [of b] unsigned_less [of "word_of_int v :: u64"] ucast_field [of "word_of_int v :: u32"] ucast_field [of "float_bits e"]
  by (simp_all add: field_ok_def f8_def f64_def f32_def ffloat_def)

interpretation ce: packed_record coincidence_layout coincidence_fields
  by unfold_locales (simp_all add: coincidence_layout_def coincidence_fields_def)

definition coincidence_side :: "fp \<Rightarrow> int \<Rightarrow> GammaPhoton \<Rightarrow> nat \<Rightarrow> Hit \<Rightarrow> fault + side_row" where
  "coincidence_side Tps tMin p m h =
     rbind (hit_time Tps tMin h) (\<lambda>t.
     rbind (deref (h_raw h)) (\<lambda>raw.
     Inr \<lparr>sr_N = word_of_int (g_nHits p), sr_J = of_nat m, sr_Time = t, sr_ChannelID = rh_channelID raw,
          sr_ToT = hit_tot Tps h, sr_Energy = hit_energy h, sr_TacID = rh_tacID raw, sr_X = h_x h, sr_Y = h_y h,
          sr_Z = h_z h, sr_Xi = h_xi h, sr_Yi = h_yi h\<rparr>))"

definition coincidence_packed :: "fp \<Rightarrow> int \<Rightarrow> GammaPhoton \<Rightarrow> GammaPhoton \<Rightarrow> nat \<Rightarrow> nat \<Rightarrow> Hit \<Rightarrow> Hit \<Rightarrow> fault + coincidence_event" where
  "coincidence_packed Tps tMin p1 p2 m n h1 h2 =
     rbind (hit_time Tps tMin h1) (\<lambda>t1. rbind (deref (h_raw h1)) (\<lambda>raw1.
     rbind (hit_time Tps tMin h2) (\<lambda>t2. rbind (deref (h_raw h2)) (\<lambda>raw2.
     Inr \<lparr>ce_mh_n1 = word_of_int (g_nHits p1), ce_mh_j1 = of_nat m, ce_time1 = t1, ce_e1 = hit_energy h1,
          ce_id1 = to_i32 (rh_channelID raw1),
          ce_mh_n2 = word_of_int (g_nHits p2), ce_mh_j2 = of_nat n, ce_time2 = t2, ce_e2 = hit_energy h2,
          ce_id2 = to_i32 (rh_channelID raw2)\<rparr>))))"

definition coincidence_line :: "fp \<Rightarrow> int \<Rightarrow> GammaPhoton \<Rightarrow> GammaPhoton \<Rightarrow> nat \<Rightarrow> nat \<Rightarrow> Hit \<Rightarrow> Hit \<Rightarrow> fault + string" where
  "coincidence_line Tps tMin p1 p2 m n h1 h2 =
     rbind (hit_time Tps tMin h1) (\<lambda>t1. rbind (deref (h_raw h1)) (\<lambda>raw1.
     rbind (hit_time Tps tMin h2) (\<lambda>t2. rbind (deref (h_raw h2)) (\<lambda>raw2.
     Inr (fields_line
       [show_int (g_nHits p1), show_int (int m), show_int t1, show_fixed (hit_energy h1), show_int (to_i32 (rh_channelID raw1)),
        show_int (g_nHits p2), show_int (int n), show_int t2, show_fixed (hit_energy h2), show_int (to_i32 (rh_channelID raw2))])))))"

definition coincidence_record ::
  "FILE_TYPE \<Rightarrow> fp \<Rightarrow> fp \<Rightarrow> fp \<Rightarrow> int \<Rightarrow> GammaPhoton \<Rightarrow> GammaPhoton \<Rightarrow> nat \<Rightarrow> nat \<Rightarrow> Hit \<Rightarrow> Hit \<Rightarrow>
   fault + coincidence_row out_record" where
  "coincidence_record ft step1 step2 Tps tMin p1 p2 m n h1 h2 =
     (case ft of
        FILE_ROOT \<Rightarrow>
          rbind (coincidence_side Tps tMin p1 m h1) (\<lambda>r1. rbind (coincidence_side Tps tMin p2 n h2) (\<lambda>r2.
          Inr (Row \<lparr>cr_step1 = step1, cr_step2 = step2, cr_1 = r1, cr_2 = r2\<rparr>)))
      | FILE_BINARY \<Rightarrow>
          rbind (coincidence_packed Tps tMin p1 p2 m n h1 h2) (\<lambda>e. Inr (Packed (packed (coincidence_fields e))))
      | FILE_TEXT \<Rightarrow> rbind (coincidence_line Tps tMin p1 p2 m n h1 h2) (\<lambda>s. Inr (Line s)))"

section \<open>Events\<close>

definition hit_at :: "GammaPhoton \<Rightarrow> nat \<Rightarrow> fault + Hit" where
  "hit_at p m = rbind (idx (g_hits p) m) deref"

definition hit_limit :: "int \<Rightarrow> GammaPhoton \<Rightarrow> int" where
  "hit_limit hitLimit p = (if hitLimit < g_nHits p then hitLimit else g_nHits p)"

definition coincidence_pair ::
  "(coincidence_row, 'd) root_ops \<Rightarrow> fp \<Rightarrow> fp \<Rightarrow> fp \<Rightarrow> int \<Rightarrow> GammaPhoton \<Rightarrow> GammaPhoton \<Rightarrow> FILE_TYPE \<Rightarrow> nat \<Rightarrow> nat \<Rightarrow>
   ('d, 'x) DataFileWriter \<Rightarrow> fault + ('d, 'x) DataFileWriter" where
  "coincidence_pair D step1 step2 Tps tMin p1 p2 ft m n w =
     (if m \<noteq> 0 \<and> n \<noteq> 0 then Inr w
      else
        rbind (hit_at p1 m) (\<lambda>h1.
        rbind (hit_at p2 n) (\<lambda>h2.
        rbind (coincidence_record ft step1 step2 Tps tMin p1 p2 m n h1 h2) (\<lambda>out. emit D out w))))"

definition coincidence_body ::
  "(coincidence_row, 'd) root_ops \<Rightarrow> fp \<Rightarrow> fp \<Rightarrow> fp \<Rightarrow> int \<Rightarrow> Coincidence \<Rightarrow>
   ('d, 'x) DataFileWriter \<Rightarrow> fault + ('d, 'x) DataFileWriter" where
  "coincidence_body D step1 step2 Tps tMin e w =
     (if \<not> c_valid e then Inr w
      else if c_nPhotons e \<noteq> 2 then Inr w
      else
        rbind (rbind (idx (c_photons e) 0) deref) (\<lambda>p1.
        rbind (rbind (idx (c_photons e) 1) deref) (\<lambda>p2.
        let limit1 = hit_limit (wr_hitLimitToWrite w) p1; limit2 = hit_limit (wr_hitLimitToWrite w) p2
        in rfold (\<lambda>m. rfold (coincidence_pair D step1 step2 Tps tMin p1 p2 (wr_fileType w) m) [0..<nat limit2]) [0..<nat limit1] w)))"

definition coincidence_addEvents ::
  "(coincidence_row, 'd) root_ops \<Rightarrow> fp \<Rightarrow> fp \<Rightarrow> Coincidence EventBuffer \<Rightarrow> ('d, 'x) DataFileWriter \<Rightarrow> fault + ('d, 'x) DataFileWriter" where
  "coincidence_addEvents D step1 step2 buffer w =
     (let Tps = Tps_of (wr_frequency w)
      in rbind (tMin_of Tps buffer) (\<lambda>tMin. event_loop (coincidence_body D step1 step2 Tps tMin) buffer w))"

definition coincidence_closeStep ::
  "('r, 'row, 'd, 'x) tool_env \<Rightarrow> fp \<Rightarrow> fp \<Rightarrow> ('d, 'x) DataFileWriter \<Rightarrow> fault + ('d, 'x) DataFileWriter" where
  "coincidence_closeStep T = closeStep (te_data T) (te_index T)"

section \<open>The program\<close>

definition coincidence_option :: "parsers \<Rightarrow> getopt \<Rightarrow> options \<Rightarrow> fault + options" where
  "coincidence_option P opt p =
     (case opt of
        ShortOpt c s \<Rightarrow>
          if c = CHR ''i'' then Inr (p\<lparr>op_inputFilePrefix := Some s\<rparr>)
          else if c = CHR ''o'' then Inr (p\<lparr>op_outputFileName := Some s\<rparr>)
          else Inl (Exit 1)
      | LongOpt n s \<Rightarrow>
          if n = 0 then Inl (Exit 0)
          else if n = 1 then Inr (p\<lparr>op_configFileName := Some s\<rparr>)
          else if n = 2 then Inr (p\<lparr>op_fileType := FILE_BINARY\<rparr>)
          else if n = 3 then Inr (p\<lparr>op_fileType := FILE_ROOT\<rparr>)
          else if n = 4 then rbind (parse_int P s) (\<lambda>v. Inr (p\<lparr>op_hitLimitToWrite := v\<rparr>))
          else if n = 5 then rbind (parse_fraction P s) (\<lambda>v. Inr (p\<lparr>op_eventFractionToWrite := v\<rparr>))
          else if n = 6 then Inr (p\<lparr>op_parser_type := 1\<rparr>)
          else if n = 7 then rbind (atoi s) (\<lambda>v. Inr (p\<lparr>op_att := v\<rparr>))
          else Inl (Exit 1))"

definition convert_raw_to_coincidence ::
  "('r, coincidence_row, 'd, 'x) tool_env \<Rightarrow> getopt list \<Rightarrow> fault + 'r \<times> ('d, 'x) DataFileWriter" where
  "convert_raw_to_coincidence T args =
     rbind (rfold (coincidence_option (te_parsers T)) args (default_options 1)) (\<lambda>p.
     rbind (required_options p) (\<lambda>(configFileName, inputFilePrefix, outputFileName).
     rbind (open_reader T p inputFilePrefix) (\<lambda>reader.
     rbind (fromFile_mask (te_externals T) (te_memory T) configFileName LOAD_ALL (op_att p)) (\<lambda>config.
     rbind (coincidence_newDataFileWriter T outputFileName (rd_getFrequency (te_reader T) reader) (op_fileType p)
              (op_hitLimitToWrite p) (to_int (op_eventFractionToWrite p))) (\<lambda>w.
     convert_steps (te_reader T) newChain (coincidence_chain T config (rd_getTriggerID (te_reader T) reader))
       (coincidence_addEvents (te_data T)) (coincidence_closeStep T) reader w)))))"

section \<open>The parts of the files\<close>

text \<open>A result that differs from the writer \<open>w\<close> by bytes at the end of the data file.\<close>

definition grows :: "('d, 'x, 'z) DataFileWriter_scheme \<Rightarrow> fault + ('d, 'x, 'z) DataFileWriter_scheme \<Rightarrow> bool" where
  "grows w r \<longleftrightarrow> (\<forall>w'. r = Inr w' \<longrightarrow> (\<exists>bs. extends bs w w'))"

named_theorems grow_rules "operations that only add to the data file"

lemma grows_id [grow_rules]: "grows w (Inr w)"
  by (auto simp: grows_def intro: exI [of _ "[]"])

lemma grows_emit [grow_rules]: "grows w (emit D out w)"
  by (cases out) (auto simp: grows_def fill_row_def put_bytes_def extends_def split: option.splits)

lemma grows_if [grow_rules]: "grows w r \<Longrightarrow> grows w s \<Longrightarrow> grows w (if b then r else s)"
  by (simp add: grows_def)

lemma grows_bind [grow_rules]: "(\<And>a. grows w (f a)) \<Longrightarrow> grows w (rbind r f)"
  by (auto simp: grows_def rbind_Inr_iff)

lemma grows_rfold [grow_rules]:
  assumes "\<And>x w. grows w (f x w)"
  shows "grows w (rfold f xs w)"
  unfolding grows_def
proof (intro allI impI)
  fix w' assume "rfold f xs w = Inr w'"
  then show "\<exists>bs. extends bs w w'"
  proof (induction xs arbitrary: w)
    case Nil
    then show ?case by (auto intro: exI [of _ "[]"])
  next
    case (Cons x xs)
    then obtain w1 where "f x w = Inr w1" "rfold f xs w1 = Inr w'" by (auto simp: rbind_Inr_iff)
    with Cons.IH assms show ?case unfolding grows_def by (blast intro: extends_trans)
  qed
qed

lemma grows_event_loop [grow_rules]:
  assumes "\<And>e w. grows w (body e w)"
  shows "grows w (event_loop body b w)"
proof -
  have "grows w (event_step body b i w)" for i w
    unfolding grows_def
  proof (intro allI impI)
    fix w' assume r: "event_step body b i w = Inr w'"
    let ?w = "w\<lparr>wr_eventCounter := wr_eventCounter w + 1\<rparr>"
    have x: "extends bs w w'" if "extends bs ?w w'" for bs using that by (simp add: extends_def)
    show "\<exists>bs. extends bs w w'"
    proof (cases "wr_eventFractionToWrite w \<le> Prelude.cmod (wr_eventCounter w) 1024")
      case True
      with r show ?thesis by (intro exI [of _ "[]"] x) (simp add: event_step_def)
    next
      case False
      with r obtain e where "body e ?w = Inr w'" by (auto simp: event_step_def rbind_Inr_iff)
      with assms [of ?w e] x show ?thesis unfolding grows_def by blast
    qed
  qed
  then show ?thesis unfolding event_loop_def by (rule grows_rfold)
qed

lemma coincidence_grows: "grows w (coincidence_addEvents D step1 step2 b w)"
  unfolding coincidence_addEvents_def coincidence_body_def coincidence_pair_def Let_def
  by (intro grow_rules)

section \<open>The records in the file\<close>

text \<open>
  What is written for a coincidence, in the terms of the record: the pairs of hits in which one is the
  first of its photon, as far as the limit allows.
\<close>

definition pair_events :: "fp \<Rightarrow> int \<Rightarrow> int \<Rightarrow> Coincidence \<Rightarrow> fault + coincidence_event list" where
  "pair_events Tps tMin limit e =
     (if \<not> c_valid e \<or> c_nPhotons e \<noteq> 2 then Inr []
      else
        rbind (rbind (idx (c_photons e) 0) deref) (\<lambda>p1.
        rbind (rbind (idx (c_photons e) 1) deref) (\<lambda>p2.
        rconcat (\<lambda>m. rconcat (\<lambda>n.
          if m \<noteq> 0 \<and> n \<noteq> 0 then Inr []
          else rbind (hit_at p1 m) (\<lambda>h1. rbind (hit_at p2 n) (\<lambda>h2.
               rbind (coincidence_packed Tps tMin p1 p2 m n h1 h2) (\<lambda>r. Inr [r]))))
          [0..<nat (hit_limit limit p2)]) [0..<nat (hit_limit limit p1)])))"

text \<open>The records of a buffer, when \<open>counter\<close> events were seen before it.\<close>

definition buffer_events :: "fp \<Rightarrow> int \<Rightarrow> int \<Rightarrow> int \<Rightarrow> Coincidence EventBuffer \<Rightarrow> fault + coincidence_event list" where
  "buffer_events frequency limit fraction counter b =
     (let Tps = Tps_of frequency
      in rbind (tMin_of Tps b) (\<lambda>tMin. rconcat (pair_events Tps tMin limit) (picked counter fraction (contents b))))"

text \<open>What a reader of the file makes of the fields of a record.\<close>

definition i64_field :: "u64 \<Rightarrow> int" where "i64_field v = sint v"
definition i32_field :: "u64 \<Rightarrow> int" where "i32_field v = sint (ucast v :: u32)"
definition float_field :: "u64 \<Rightarrow> fp" where "float_field v = float_of_bits (ucast v)"

definition event_of_fields :: "u64 list \<Rightarrow> coincidence_event" where
  "event_of_fields vs =
     \<lparr>ce_mh_n1 = ucast (vs ! 0), ce_mh_j1 = ucast (vs ! 1), ce_time1 = i64_field (vs ! 2), ce_e1 = float_field (vs ! 3),
      ce_id1 = i32_field (vs ! 4), ce_mh_n2 = ucast (vs ! 5), ce_mh_j2 = ucast (vs ! 6), ce_time2 = i64_field (vs ! 7),
      ce_e2 = float_field (vs ! 8), ce_id2 = i32_field (vs ! 9)\<rparr>"

lemma ucast_back [simp]:
  "(ucast (ucast (b :: u8) :: u64) :: u8) = b" "(ucast (ucast (d :: u32) :: u64) :: u32) = d"
  by (rule bit_eqI, auto simp: bit_simps dest: bit_imp_le_length)+

lemma field_back:
  "(ucast (snd (f8 b)) :: u8) = b"
  "- (2 ^ 63) \<le> v \<Longrightarrow> v < 2 ^ 63 \<Longrightarrow> i64_field (snd (f64 v)) = v"
  "- (2 ^ 31) \<le> v \<Longrightarrow> v < 2 ^ 31 \<Longrightarrow> i32_field (snd (f32 v)) = v"
  "representable F32 a \<Longrightarrow> float_field (snd (ffloat a)) = a"
  by (simp_all add: f8_def f64_def f32_def ffloat_def i64_field_def i32_field_def float_field_def float_of_float_bits
      sint_sbintrunc' signed_take_bit_int_eq_self)

definition event_ok :: "coincidence_event \<Rightarrow> bool" where
  "event_ok e \<longleftrightarrow> - (2 ^ 63) \<le> ce_time1 e \<and> ce_time1 e < 2 ^ 63 \<and> - (2 ^ 63) \<le> ce_time2 e \<and> ce_time2 e < 2 ^ 63 \<and>
     - (2 ^ 31) \<le> ce_id1 e \<and> ce_id1 e < 2 ^ 31 \<and> - (2 ^ 31) \<le> ce_id2 e \<and> ce_id2 e < 2 ^ 31 \<and>
     representable F32 (ce_e1 e) \<and> representable F32 (ce_e2 e)"

lemma event_of_event: "event_ok e \<Longrightarrow> event_of_fields (map snd (coincidence_fields e)) = e"
  by (simp add: event_ok_def event_of_fields_def coincidence_fields_def field_back)

lemma to_i32_range: "- (2 ^ 31) \<le> to_i32 (w :: u32) \<and> to_i32 w < 2 ^ 31"
  using sint_ge [of w] sint_lt [of w] by (simp add: to_i32_def)

lemma hit_time_range: "hit_time Tps tMin h = Inr t \<Longrightarrow> - (2 ^ 63) \<le> t \<and> t < 2 ^ 63"
  by (auto simp: hit_time_def i64_def rbind_Inr_iff split: if_splits)

lemma fp_one: "fp_of_int F32 1 = Fin False 8388608 (-23)"
  by code_simp

lemma hit_energy_representable: "op_result (h_energy h) \<Longrightarrow> representable F32 (hit_energy h)"
  unfolding hit_energy_def by (rule fp_mul_representable) (simp_all add: fp_one)

lemma packed_event_ok:
  assumes "coincidence_packed Tps tMin p1 p2 m n h1 h2 = Inr e" "op_result (h_energy h1)" "op_result (h_energy h2)"
  shows "event_ok e"
  using assms hit_energy_representable hit_time_range to_i32_range
  unfolding coincidence_packed_def event_ok_def by (auto simp: rbind_Inr_iff)

lemma appends_cong: "(\<And>w. cfg w = c \<Longrightarrow> f w = f' w) \<Longrightarrow> appends D c f' g \<Longrightarrow> appends D c f g"
  by (simp add: appends_def)

definition coincidence_outs ::
  "fp \<Rightarrow> fp \<Rightarrow> fp \<Rightarrow> int \<Rightarrow> Coincidence \<Rightarrow> FILE_TYPE \<times> int \<Rightarrow> fault + coincidence_row out_record list" where
  "coincidence_outs step1 step2 Tps tMin e c =
     (if \<not> c_valid e then Inr []
      else if c_nPhotons e \<noteq> 2 then Inr []
      else
        rbind (rbind (idx (c_photons e) 0) deref) (\<lambda>p1.
        rbind (rbind (idx (c_photons e) 1) deref) (\<lambda>p2.
        rconcat (\<lambda>m. rconcat (\<lambda>n.
          if m \<noteq> 0 \<and> n \<noteq> 0 then Inr []
          else rbind (hit_at p1 m) (\<lambda>h1. rbind (hit_at p2 n) (\<lambda>h2.
               rbind (coincidence_record (fst c) step1 step2 Tps tMin p1 p2 m n h1 h2) (\<lambda>out. Inr [out]))))
          [0..<nat (hit_limit (snd c) p2)]) [0..<nat (hit_limit (snd c) p1)])))"

lemma coincidence_record_row:
  "coincidence_record ft step1 step2 Tps tMin p1 p2 m n h1 h2 = Inr (Row r) \<Longrightarrow> ft = FILE_ROOT"
  by (cases ft) (auto simp: coincidence_record_def rbind_Inr_iff)

interpretation cb: event_body D "coincidence_body D step1 step2 Tps tMin" "coincidence_outs step1 step2 Tps tMin"
  for D step1 step2 Tps tMin
proof (unfold_locales, goal_cases)
  case (1 c e)
  obtain ft lim where c: "c = (ft, lim)" by fastforce
  show ?case
    unfolding coincidence_outs_def c fst_conv snd_conv
  proof (rule appends_cong)
    fix w :: "('a, 'b) DataFileWriter" assume "cfg w = (ft, lim)"
    then show "coincidence_body D step1 step2 Tps tMin e w =
      (if \<not> c_valid e then Inr w
       else if c_nPhotons e \<noteq> 2 then Inr w
       else
         rbind (rbind (idx (c_photons e) 0) deref) (\<lambda>p1.
         rbind (rbind (idx (c_photons e) 1) deref) (\<lambda>p2.
         rfold (\<lambda>m. rfold (coincidence_pair D step1 step2 Tps tMin p1 p2 ft m) [0..<nat (hit_limit lim p2)])
           [0..<nat (hit_limit lim p1)] w)))"
      by (simp add: coincidence_body_def cfg_def)
  qed (unfold coincidence_pair_def [abs_def], intro append_rules, simp add: coincidence_record_row)
qed

lemma rconcat_map:
  assumes "\<And>x. g x = rbind (h x) (\<lambda>a. Inr (map F a))"
  shows "rconcat g xs = rbind (rconcat h xs) (\<lambda>a. Inr (map F a))"
proof (induction xs)
  case (Cons x xs)
  then show ?case by (cases "h x"; cases "rconcat h xs") (simp_all add: assms)
qed simp

lemma rconcat_all: "rconcat g xs = Inr os \<Longrightarrow> (\<And>x a. x \<in> set xs \<Longrightarrow> g x = Inr a \<Longrightarrow> list_all P a) \<Longrightarrow> list_all P os"
proof (induction xs arbitrary: os)
  case (Cons x xs)
  then obtain a b where "g x = Inr a" "rconcat g xs = Inr b" "os = a @ b" by (auto simp: rbind_Inr_iff)
  with Cons.prems(2) [of x a] Cons.IH [of b] Cons.prems(2) show ?case by auto
qed simp

lemma picked_subset: "set (picked c f es) \<subseteq> set es"
  by (induction c f es rule: picked.induct) auto

lemma rbind_assoc: "rbind (rbind r f) g = rbind r (\<lambda>x. rbind (f x) g)"
  by (cases r) simp_all

definition file_record :: "coincidence_event \<Rightarrow> coincidence_row out_record" where
  "file_record e = Packed (packed (coincidence_fields e))"

lemma outs_binary:
  "coincidence_outs step1 step2 Tps tMin e (FILE_BINARY, l) =
     rbind (pair_events Tps tMin l e) (\<lambda>es. Inr (map file_record es))"
proof -
  have pair: "(if m \<noteq> 0 \<and> n \<noteq> 0 then Inr []
      else rbind (hit_at p1 m) (\<lambda>h1. rbind (hit_at p2 n) (\<lambda>h2.
        rbind (coincidence_record FILE_BINARY step1 step2 Tps tMin p1 p2 m n h1 h2) (\<lambda>out. Inr [out])))) =
    rbind (if m \<noteq> 0 \<and> n \<noteq> 0 then Inr []
      else rbind (hit_at p1 m) (\<lambda>h1. rbind (hit_at p2 n) (\<lambda>h2.
        rbind (coincidence_packed Tps tMin p1 p2 m n h1 h2) (\<lambda>r. Inr [r])))) (\<lambda>a. Inr (map file_record a))" for m n p1 p2
    by (cases "m \<noteq> 0 \<and> n \<noteq> 0") (simp_all only: if_True if_False rbind_assoc coincidence_record_def FILE_TYPE.case
        file_record_def rbind_simps list.map simp_thms)
  show ?thesis
    unfolding coincidence_outs_def pair_events_def fst_conv snd_conv rconcat_map [OF rconcat_map [OF pair]]
    by (simp add: rbind_assoc)
qed

lemma puts_Cons: "puts D (out # os) w = puts D os (put D out w)"
  by (simp add: puts_def)

lemma puts_file: "puts D (map file_record es) w = w\<lparr>wr_dataFile := wr_dataFile w @ concat (map (\<lambda>e. packed (coincidence_fields e)) es)\<rparr>"
proof (induction es arbitrary: w)
  case (Cons e es)
  have "put D (file_record e) w = w\<lparr>wr_dataFile := wr_dataFile w @ packed (coincidence_fields e)\<rparr>"
    by (simp add: file_record_def put_bytes_def)
  with Cons show ?case by (simp add: puts_Cons)
qed simp

text \<open>Every energy of the buffer is a value of the type \<open>float\<close>.\<close>

definition float_energies :: "Coincidence EventBuffer \<Rightarrow> bool" where
  "float_energies b \<longleftrightarrow> (\<forall>e \<in> set (contents b). \<forall>p. Some p \<in> set (c_photons e) \<longrightarrow>
     (\<forall>h. Some h \<in> set (g_hits p) \<longrightarrow> representable F32 (h_energy h)))"

lemma deref_idx: "rbind (idx xs i) deref = Inr a \<Longrightarrow> Some a \<in> set xs"
  by (auto simp: rbind_Inr_iff idx_Inr_iff deref_def split: option.splits dest: sym)

lemma pair_events_ok:
  assumes "e \<in> set (contents b)" "float_energies b" "pair_events Tps tMin l e = Inr es"
  shows "list_all event_ok es"
proof -
  have ok: "op_result (h_energy h)" if "Some p \<in> set (c_photons e)" "hit_at p m = Inr h" for p m h
    using that assms(1,2) deref_idx [of "g_hits p" m h] unfolding float_energies_def hit_at_def
    by (metis representable_op)
  show ?thesis
  proof (cases "\<not> c_valid e \<or> c_nPhotons e \<noteq> 2")
    case True
    with assms(3) show ?thesis by (simp add: pair_events_def)
  next
    case False
    with assms(3) obtain p1 p2 where p: "Some p1 \<in> set (c_photons e)" "Some p2 \<in> set (c_photons e)" and
      es: "rconcat (\<lambda>m. rconcat (\<lambda>n.
          if m \<noteq> 0 \<and> n \<noteq> 0 then Inr []
          else rbind (hit_at p1 m) (\<lambda>h1. rbind (hit_at p2 n) (\<lambda>h2.
               rbind (coincidence_packed Tps tMin p1 p2 m n h1 h2) (\<lambda>r. Inr [r]))))
          [0..<nat (hit_limit l p2)]) [0..<nat (hit_limit l p1)] = Inr es"
      unfolding pair_events_def by (auto elim!: rbind_E dest!: deref_idx)
    from es show ?thesis
    proof (elim rconcat_all)
      fix m n a assume "(if m \<noteq> 0 \<and> n \<noteq> 0 then Inr []
          else rbind (hit_at p1 m) (\<lambda>h1. rbind (hit_at p2 n) (\<lambda>h2.
               rbind (coincidence_packed Tps tMin p1 p2 m n h1 h2) (\<lambda>r. Inr [r])))) = Inr a"
      then show "list_all event_ok a"
        by (auto elim!: rbind_E split: if_splits; metis packed_event_ok [OF _ ok [OF p(1)] ok [OF p(2)]])
    qed
  qed
qed

text \<open>
  C26: In binary mode the writer appends, for the picked events of a buffer in order, the records of their pairs
  of hits and nothing else, or stops at the first record that cannot be formed; a reader of the packed
  structures gets exactly these records back, times, channel identifiers and energies included.
\<close>

theorem coincidence_file:
  assumes "wf_buffer b" "wr_fileType w = FILE_BINARY" "float_energies b"
  shows "case buffer_events (wr_frequency w) (wr_hitLimitToWrite w) (wr_eventFractionToWrite w) (wr_eventCounter w) b of
      Inl f \<Rightarrow> coincidence_addEvents D step1 step2 b w = Inl f
    | Inr es \<Rightarrow> \<exists>bs. coincidence_addEvents D step1 step2 b w = Inr (w\<lparr>wr_dataFile := wr_dataFile w @ bs,
          wr_eventCounter := wr_eventCounter w + int (getSize b)\<rparr>) \<and>
        map event_of_fields (records_of coincidence_layout bs) = es"
proof -
  let ?Tps = "Tps_of (wr_frequency w)"
  let ?es = "picked (wr_eventCounter w) (wr_eventFractionToWrite w) (contents b)"
  have c: "cfg w = (FILE_BINARY, wr_hitLimitToWrite w)" and r: "ready w"
    using assms(2) by (simp_all add: cfg_def ready_def)
  show ?thesis
  proof (cases "tMin_of ?Tps b")
    case (Inr tMin)
    have loop: "coincidence_addEvents D step1 step2 b w =
        rbind (rconcat (pair_events ?Tps tMin (wr_hitLimitToWrite w)) ?es)
          (\<lambda>es. Inr ((puts D (map file_record es) w)\<lparr>wr_eventCounter := wr_eventCounter w + int (getSize b)\<rparr>))"
      by (simp add: coincidence_addEvents_def Inr cb.loop_writes [OF assms(1) r] c outs_binary rbind_assoc
          rconcat_map [of _ "pair_events ?Tps tMin (wr_hitLimitToWrite w)" file_record, OF refl])
    show ?thesis
    proof (cases "rconcat (pair_events ?Tps tMin (wr_hitLimitToWrite w)) ?es")
      case es: (Inr es)
      then have "list_all event_ok es"
      proof (rule rconcat_all)
        fix e a assume "e \<in> set ?es" "pair_events ?Tps tMin (wr_hitLimitToWrite w) e = Inr a"
        with picked_subset [of "wr_eventCounter w" "wr_eventFractionToWrite w" "contents b"]
        show "list_all event_ok a" by (intro pair_events_ok [OF _ assms(3)]) auto
      qed
      then have "map event_of_fields (records_of coincidence_layout (concat (map (\<lambda>e. packed (coincidence_fields e)) es))) = es"
        by (simp add: ce.records_file list_all_iff event_of_event map_idI)
      then show ?thesis
        using loop es
        by (simp add: buffer_events_def Inr puts_file)
          (rule exI [of _ "concat (map (\<lambda>e. packed (coincidence_fields e)) es)"], simp)
    qed (simp add: buffer_events_def Inr loop)
  qed (simp add: buffer_events_def coincidence_addEvents_def)
qed

lemma convert_steps_type:
  fixes w w' :: "('d, 'x, 'z) DataFileWriter_scheme" and D :: "('r, 'd) root_ops" and X :: "(index_row, 'x) root_ops"
    and r r' :: 'u
  assumes add: "\<And>s1 s2 b w. grows w (add s1 s2 b w)"
    and run: "convert_steps R c0 chain add (closeStep D X) r w = Inr (r', w')"
  shows "wr_fileType w' = wr_fileType w"
proof -
  define P where "P ft st \<longleftrightarrow> wr_fileType (snd st) = ft" for ft and st :: "'u \<times> ('d, 'x, 'z) DataFileWriter_scheme"
  have push: "wr_fileType w2 = wr_fileType w1" if "rfold (push_buffer chain (add s1 s2)) calls (c, w1) = Inr (c', w2)" for s1 s2 calls c c' w1 w2
  proof -
    have "wr_fileType (snd (c', w2)) = wr_fileType w1"
      using that
    proof (rule rfold_inv [where P = "\<lambda>st. wr_fileType (snd st) = wr_fileType w1"])
      fix call st st' assume "wr_fileType (snd st) = wr_fileType w1" "push_buffer chain (add s1 s2) call st = Inr st'"
      then show "wr_fileType (snd st') = wr_fileType w1"
        using add by (cases call) (auto simp: push_buffer_def grows_def extends_def elim!: rbind_E split: prod.splits)
    qed simp
    then show ?thesis by simp
  qed
  have close: "wr_fileType w2 = wr_fileType w1" if "closeStep D X s1 s2 w1 = Inr w2" for s1 s2 and w1 w2 :: "('d, 'x, 'z) DataFileWriter_scheme"
    using that by (auto simp: closeStep_def Let_def split: FILE_TYPE.splits option.splits)
  have "P (wr_fileType w) (r', w')"
    using run unfolding convert_steps_def
  proof (rule rfold_inv)
    fix k st st' assume "P (wr_fileType w) st" "convert_step R c0 chain add (closeStep D X) k st = Inr st'"
    then show "P (wr_fileType w) st'"
      by (auto simp: P_def convert_step_def dest!: push close elim!: rbind_E split: prod.splits)
  qed (simp add: P_def)
  then show ?thesis by (simp add: P_def)
qed


definition list_tree :: "('r, 'r list) root_ops" where
  "list_tree = \<lparr>ro_new = (\<lambda>_. []), ro_Fill = (\<lambda>r t. t @ [r]), ro_GetEntries = (\<lambda>t. int (length t))\<rparr>"

definition example_pair_hit :: "int \<Rightarrow> Hit" where
  "example_pair_hit t = (example_grouped_hit 5)\<lparr>h_raw := Some (example_raw True 70000), h_time := fp_of_int F64 t\<rparr>"

definition example_pair_photon :: "int \<Rightarrow> GammaPhoton" where
  "example_pair_photon t = example_photon\<lparr>g_valid := True, g_nHits := 1,
     g_hits := Some (example_pair_hit t) # replicate 255 None\<rparr>"

definition example_pair_buffer :: "Coincidence EventBuffer" where
  "example_pair_buffer = \<lparr>bufferTMin = 1000, bufferTMax = 0,
     buf = (\<lambda>i. \<lparr>c_valid = True, c_time = NaN, c_nPhotons = 2,
       c_photons = [Some (example_pair_photon 7), Some (example_pair_photon 9)]\<rparr>), capacity = 1024, used = 1\<rparr>"

definition example_binary_writer :: "(coincidence_row list, index_row list) DataFileWriter" where
  "example_binary_writer = \<lparr>wr_frequency = fp_of_int F64 200000000, wr_fileType = FILE_BINARY, wr_hitLimitToWrite = 1,
     wr_eventFractionToWrite = 1024, wr_eventCounter = 0, wr_dataName = ''d.ldat'', wr_indexName = Some ''d.lidx'',
     wr_dataFile = [], wr_indexFile = [], wr_stepBegin = 0, wr_hData = None, wr_hIndex = None\<rparr>"

definition example_pair_event :: coincidence_event where
  "example_pair_event = \<lparr>ce_mh_n1 = 1, ce_mh_j1 = 0, ce_time1 = 5035000, ce_e1 = fp_of_int F32 5, ce_id1 = 70000,
     ce_mh_n2 = 1, ce_mh_j2 = 0, ce_time2 = 5045000, ce_e2 = fp_of_int F32 5, ce_id2 = 70000\<rparr>"

lemma example_pair_events:
  "buffer_events (fp_of_int F64 200000000) 1 1024 0 example_pair_buffer = Inr [example_pair_event]"
  by code_simp

theorem coincidence_file_witness:
  "\<exists>bs. coincidence_addEvents list_tree (fp_of_int F32 0) (fp_of_int F32 0) example_pair_buffer example_binary_writer =
       Inr (example_binary_writer\<lparr>wr_dataFile := bs, wr_eventCounter := 1\<rparr>)
     \<and> map event_of_fields (records_of coincidence_layout bs) = [example_pair_event]"
proof -
  have c: "contents example_pair_buffer = [\<lparr>c_valid = True, c_time = NaN, c_nPhotons = 2,
       c_photons = [Some (example_pair_photon 7), Some (example_pair_photon 9)]\<rparr>]"
    by (simp add: contents_def example_pair_buffer_def)
  have b: "wf_buffer example_pair_buffer" "getSize example_pair_buffer = 1"
    by (simp_all add: wf_buffer_def example_pair_buffer_def getSize_def)
  have five: "representable F32 (fp_of_int F32 5)" unfolding fp_of_int_def by (rule round_representable) simp
  have f: "float_energies example_pair_buffer"
    by (auto simp: float_energies_def c example_pair_photon_def example_pair_hit_def example_grouped_hit_def five
        simp del: representable.simps)
  have w: "wr_fileType example_binary_writer = FILE_BINARY" "wr_dataFile example_binary_writer = []"
    "wr_eventCounter example_binary_writer = 0"
    by (simp_all add: example_binary_writer_def)
  have e: "buffer_events (wr_frequency example_binary_writer) (wr_hitLimitToWrite example_binary_writer)
     (wr_eventFractionToWrite example_binary_writer) (wr_eventCounter example_binary_writer) example_pair_buffer
     = Inr [example_pair_event]"
    using example_pair_events by (simp add: example_binary_writer_def)
  show ?thesis
    using coincidence_file [OF b(1) w(1) f, of list_tree "fp_of_int F32 0" "fp_of_int F32 0", unfolded e, unfolded w(2,3) b(2) sum.case] by simp
qed

definition example_env :: "RawReader \<Rightarrow> (RawReader, 'row, 'row list, index_row list) tool_env" where
  "example_env r = \<lparr>te_externals = example_externals,
     te_parsers = \<lparr>lexical_cast_int = (\<lambda>_. None), lexical_cast_float = (\<lambda>_. None)\<rparr>,
     te_memory = example_memory, te_data = list_tree, te_index = list_tree, te_can_open = (\<lambda>_. True),
     te_reader = raw_reader_ops (\<lambda>_ _. example_raw True 0) \<lparr>data = replicate 2048 0\<rparr> (\<lambda>_. 16),
     te_open_raw = (\<lambda>_. Inr r), te_open_v1 = (\<lambda>_. Inl (Exit 1)), te_sort = ins_sort,
     te_rawHits = (\<lambda>_ _. example_raw True 0), te_hits = (\<lambda>_ _. example_grouped_hit 0),
     te_photons = (\<lambda>_ _. example_photon), te_coincidences = (\<lambda>_ _. example_coincidence), te_tmax = 0\<rparr>"

definition example_steps_reader :: RawReader where
  "example_steps_reader = \<lparr>rr_steps = map (\<lambda>v. \<lparr>st_step1 = fp_of_int F32 v, st_step2 = fp_of_int F32 0, st_stepBegin = 64,
       st_stepEnd = 64, st_stepFirstFrame = 0, st_stepLastFrame = 0\<rparr>) [1, 2],
     rr_dataFile = replicate 64 0, rr_filePos = 64, rr_buffered = [], rr_frequency = 200000000,
     rr_qdcMode = (\<lambda>_. False), rr_triggerID = -1\<rparr>"

definition example_args :: "getopt list" where
  "example_args = [LongOpt 1 ''cfg'', ShortOpt CHR ''i'' ''raw'', ShortOpt CHR ''o'' ''out'', LongOpt 2 []]"

lemma example_config: "\<exists>s. fromFile_mask example_externals example_memory ''cfg'' LOAD_ALL 4 = Inr s"
proof -
  have e: "required_entry example_externals cfg k = Inr (if k = ''main:trigger_map'' then ''t'' else ''x'')" for cfg k
    by (simp add: required_entry_def example_externals_def)
  have n: "length ''x'' < PATH_MAX" "length ''t'' < PATH_MAX" "length ''cfg'' < PATH_MAX" by (simp_all add: PATH_MAX_def)
  have s: "sprintf_int ''x'' a = Inr ''x''" for a by simp
  have i: "ini_getstring example_externals cfg ''main:energy_calibration_table'' = Some ''x''" for cfg
    by (simp add: example_externals_def)
  show ?thesis
    using n(3) by (simp add: fromFile_mask_def LOAD_ALL_def LOAD_MAPPING_def LOAD_TDC_CALIBRATION_def LOAD_QDC_CALIBRATION_def
        Let_def load_tdc_section_def load_qdc_section_def load_mapping_section_def example_replace [OF n(1)]
        example_replace [OF n(2)] loadChannelMap_def loadTDCCalibration_def loadQDCCalibration_def
        loadEnergyCalibration_def loadTriggerMap_def example_empty example_trigger_map e s i n(1)
        del: sprintf_int.simps)
qed

lemma example_empty_step:
  "n < 2 \<Longrightarrow> \<exists>r. rd_processStep (te_reader (example_env example_steps_reader)) example_steps_reader n =
     Inr ([PushT0 (fp_of_int F64 0), Finish], r) \<and> rr_steps r = rr_steps example_steps_reader"
  by (auto simp: example_env_def raw_reader_ops_def processStep_def example_steps_reader_def idx_def less_2_cases_iff
      frame_loop.simps start_state_def)

lemma example_env_fields:
  "te_externals (example_env r) = example_externals" "te_memory (example_env r) = example_memory"
  "te_open_raw (example_env r) p = Inr r"
  by (simp_all add: example_env_def)

lemma example_conversion:
  "\<exists>r' w'. convert_raw_to_coincidence (example_env example_steps_reader) example_args = Inr (r', w') \<and> wr_fileType w' = FILE_BINARY"
proof -
  let ?T = "example_env example_steps_reader :: (RawReader, coincidence_row, coincidence_row list, index_row list) tool_env" and ?r = example_steps_reader
  obtain s where s: "fromFile_mask example_externals example_memory ''cfg'' LOAD_ALL 4 = Inr s" using example_config by blast
  have o: "rfold (coincidence_option (te_parsers ?T)) example_args (default_options 1) =
      Inr ((default_options 1)\<lparr>op_configFileName := Some ''cfg'', op_inputFilePrefix := Some ''raw'',
        op_outputFileName := Some ''out'', op_fileType := FILE_BINARY\<rparr>)"
    by (simp add: example_args_def coincidence_option_def default_options_def)
  have step: "\<exists>r2 w2. convert_step (te_reader ?T) newChain ch (coincidence_addEvents D) (closeStep D X) n (r1, w1) = Inr (r2, w2)
      \<and> rr_steps r2 = rr_steps ?r \<and> wr_fileType w2 = FILE_BINARY"
    if "wr_fileType w1 = FILE_BINARY" "n < 2" "rr_steps r1 = rr_steps ?r" for w1 ch D X n r1
  proof -
    have "\<exists>r. rd_processStep (te_reader ?T) r1 n = Inr ([PushT0 (fp_of_int F64 0), Finish], r) \<and> rr_steps r = rr_steps ?r"
      using that(2,3) by (auto simp: example_env_def raw_reader_ops_def processStep_def example_steps_reader_def idx_def
          less_2_cases_iff frame_loop.simps start_state_def)
    with that show ?thesis
      by (auto simp: convert_step_def example_env_def raw_reader_ops_def getStepValue_def idx_def example_steps_reader_def
          less_2_cases_iff push_buffer_def closeStep_def Let_def)
  qed
  define w where "w = \<lparr>wr_frequency = fp_of_int F64 200000000, wr_fileType = FILE_BINARY, wr_hitLimitToWrite = 1,
     wr_eventFractionToWrite = to_int 1024, wr_eventCounter = 0, wr_dataName = ''out.ldat'', wr_indexName = Some ''out.lidx'',
     wr_dataFile = [], wr_indexFile = [], wr_stepBegin = 0, wr_hData = None :: coincidence_row list option, wr_hIndex = None :: index_row list option\<rparr>"
  have w: "coincidence_newDataFileWriter ?T ''out'' (rd_getFrequency (te_reader ?T) ?r) FILE_BINARY 1 (to_int 1024) = Inr w"
    by (simp add: coincidence_newDataFileWriter_def newDataFileWriter_def w_def example_env_def raw_reader_ops_def
        getFrequency_def example_steps_reader_def)
  have wb: "wr_fileType w = FILE_BINARY" by (simp add: w_def)
  have n: "rd_getNSteps (te_reader ?T) ?r = 2"
    by (simp add: example_env_def raw_reader_ops_def getNSteps_def example_steps_reader_def)
  have two: "[0..<2] = [0, 1::nat]" by (simp add: upt_rec)
  have "convert_raw_to_coincidence ?T example_args =
    convert_steps (te_reader ?T) newChain (coincidence_chain ?T s (rd_getTriggerID (te_reader ?T) ?r))
      (coincidence_addEvents (te_data ?T)) (closeStep (te_data ?T) (te_index ?T)) ?r w"
    unfolding convert_raw_to_coincidence_def o rbind_simps
    using s w by (simp add: default_options_def required_options_def open_reader_def coincidence_closeStep_def example_env_fields)
  moreover obtain r1 w1 where 1: "convert_step (te_reader ?T) newChain (coincidence_chain ?T s (rd_getTriggerID (te_reader ?T) ?r))
      (coincidence_addEvents (te_data ?T)) (closeStep (te_data ?T) (te_index ?T)) 0 (?r, w) = Inr (r1, w1)"
      "rr_steps r1 = rr_steps ?r" "wr_fileType w1 = FILE_BINARY"
    using step [OF wb, of 0 ?r] by fastforce
  moreover obtain r2 w2 where 2: "convert_step (te_reader ?T) newChain (coincidence_chain ?T s (rd_getTriggerID (te_reader ?T) ?r))
      (coincidence_addEvents (te_data ?T)) (closeStep (te_data ?T) (te_index ?T)) 1 (r1, w1) = Inr (r2, w2)"
      "wr_fileType w2 = FILE_BINARY"
    using step [OF 1(3), of 1 r1] 1(2) by fastforce
  ultimately show ?thesis by (simp add: convert_steps_def n two)
qed


end
