(* ===== verification/Convert_Hits.thy ===== *)
theory Convert_Hits
  imports Convert_Coincidence
begin

text \<open>
  The programs petsys_util/convert_raw_to_group.cpp, which writes the hits of photons, and
  petsys_util/convert_raw_to_singles.cpp, which writes single hits. The lemmas give the records of
  the files as those of the picked events, and show where the branches of the trees lose information: the time
  of a hit relative to the first of its group is cut to whole clock periods, and the time since the previous event
  to 16 bits.
\<close>

section \<open>Groups\<close>

record group_row =
  gr_step1 :: fp
  gr_step2 :: fp
  gr_N :: u16
  gr_J :: u16
  gr_Time :: int
  gr_TimeDelta :: int
  gr_ChannelID :: u32
  gr_ToT :: fp
  gr_Energy :: fp
  gr_TacID :: u16
  gr_X :: fp
  gr_Y :: fp
  gr_Z :: fp
  gr_Xi :: int
  gr_Yi :: int
  gr_PrevEventTime :: u16
  gr_PrevEventFlags :: u16

record group_event =
  ge_mh_n :: u8
  ge_mh_j :: u8
  ge_time :: int
  ge_e :: fp
  ge_id :: int

definition group_branches :: "string list" where
  "group_branches =
     [''step1'', ''step2'', ''mh_n'', ''mh_j'', ''tot'', ''time'', ''timeDelta'', ''channelID'', ''energy'', ''tacID'', ''xi'', ''yi'',
      ''x'', ''y'', ''z'', ''prevEventTime'', ''prevEventFlags'']"

definition group_newDataFileWriter ::
  "('r, 'row, 'd, 'x) tool_env \<Rightarrow> string \<Rightarrow> fp \<Rightarrow> FILE_TYPE \<Rightarrow> int \<Rightarrow> int \<Rightarrow> fault + ('d, 'x) DataFileWriter" where
  "group_newDataFileWriter T = newDataFileWriter (te_data T) (te_index T) (te_can_open T) group_branches"

definition group_closeStep ::
  "('r, 'row, 'd, 'x) tool_env \<Rightarrow> fp \<Rightarrow> fp \<Rightarrow> ('d, 'x) DataFileWriter \<Rightarrow> fault + ('d, 'x) DataFileWriter" where
  "group_closeStep T = closeStep (te_data T) (te_index T)"

definition group_layout :: "nat list" where
  "group_layout = [1, 1, 8, 4, 4]"

definition group_fields :: "group_event \<Rightarrow> (nat \<times> u64) list" where
  "group_fields e = [f8 (ge_mh_n e), f8 (ge_mh_j e), f64 (ge_time e), ffloat (ge_e e), f32 (ge_id e)]"

interpretation ge: packed_record group_layout group_fields
  by unfold_locales (simp_all add: group_layout_def group_fields_def)

text \<open>\<open>(long long)(h.time - h0.time) * Tps\<close>: the cast binds tighter than the product.\<close>

definition time_delta :: "fp \<Rightarrow> Hit \<Rightarrow> Hit \<Rightarrow> fault + int" where
  "time_delta Tps h h0 =
     rbind (fp_to_signed 64 (fp_sub F64 (h_time h) (h_time h0))) (\<lambda>d. fp_to_signed 64 (fp_mul F64 (fp_of_int F64 d) Tps))"

definition group_row_of :: "fp \<Rightarrow> fp \<Rightarrow> fp \<Rightarrow> int \<Rightarrow> GammaPhoton \<Rightarrow> Hit \<Rightarrow> nat \<Rightarrow> Hit \<Rightarrow> fault + group_row" where
  "group_row_of step1 step2 Tps tMin p h0 m h =
     rbind (hit_time Tps tMin h) (\<lambda>t.
     rbind (time_delta Tps h h0) (\<lambda>dt.
     rbind (deref (h_raw h)) (\<lambda>raw.
     rbind (prev_event_time Tps raw) (\<lambda>pt.
     Inr \<lparr>gr_step1 = step1, gr_step2 = step2, gr_N = word_of_int (g_nHits p), gr_J = of_nat m, gr_Time = t, gr_TimeDelta = dt,
          gr_ChannelID = rh_channelID raw, gr_ToT = hit_tot Tps h, gr_Energy = hit_energy h, gr_TacID = rh_tacID raw,
          gr_X = h_x h, gr_Y = h_y h, gr_Z = h_z h, gr_Xi = h_xi h, gr_Yi = h_yi h,
          gr_PrevEventTime = word_of_int pt, gr_PrevEventFlags = rh_prevEventFlags raw\<rparr>))))"

definition group_packed :: "fp \<Rightarrow> int \<Rightarrow> GammaPhoton \<Rightarrow> nat \<Rightarrow> Hit \<Rightarrow> fault + group_event" where
  "group_packed Tps tMin p m h =
     rbind (hit_time Tps tMin h) (\<lambda>t.
     rbind (deref (h_raw h)) (\<lambda>raw.
     Inr \<lparr>ge_mh_n = word_of_int (g_nHits p), ge_mh_j = of_nat m, ge_time = t, ge_e = hit_energy h,
          ge_id = to_i32 (rh_channelID raw)\<rparr>))"

definition group_line :: "fp \<Rightarrow> int \<Rightarrow> GammaPhoton \<Rightarrow> nat \<Rightarrow> Hit \<Rightarrow> fault + string" where
  "group_line Tps tMin p m h =
     rbind (hit_time Tps tMin h) (\<lambda>t.
     rbind (deref (h_raw h)) (\<lambda>raw.
     Inr (fields_line [show_int (g_nHits p), show_int (int m), show_int t, show_fixed (hit_energy h),
       show_int (to_i32 (rh_channelID raw))])))"

definition group_record ::
  "FILE_TYPE \<Rightarrow> fp \<Rightarrow> fp \<Rightarrow> fp \<Rightarrow> int \<Rightarrow> GammaPhoton \<Rightarrow> Hit \<Rightarrow> nat \<Rightarrow> Hit \<Rightarrow> fault + group_row out_record" where
  "group_record ft step1 step2 Tps tMin p h0 m h =
     (case ft of
        FILE_ROOT \<Rightarrow> rbind (group_row_of step1 step2 Tps tMin p h0 m h) (\<lambda>r. Inr (Row r))
      | FILE_BINARY \<Rightarrow> rbind (group_packed Tps tMin p m h) (\<lambda>e. Inr (Packed (packed (group_fields e))))
      | FILE_TEXT \<Rightarrow> rbind (group_line Tps tMin p m h) (\<lambda>s. Inr (Line s)))"

definition group_hit ::
  "(group_row, 'd) root_ops \<Rightarrow> fp \<Rightarrow> fp \<Rightarrow> fp \<Rightarrow> int \<Rightarrow> GammaPhoton \<Rightarrow> Hit \<Rightarrow> FILE_TYPE \<Rightarrow> nat \<Rightarrow>
   ('d, 'x) DataFileWriter \<Rightarrow> fault + ('d, 'x) DataFileWriter" where
  "group_hit D step1 step2 Tps tMin p h0 ft m w =
     rbind (hit_at p m) (\<lambda>h.
     rbind (group_record ft step1 step2 Tps tMin p h0 m h) (\<lambda>out. emit D out w))"

definition group_body ::
  "(group_row, 'd) root_ops \<Rightarrow> fp \<Rightarrow> fp \<Rightarrow> fp \<Rightarrow> int \<Rightarrow> GammaPhoton \<Rightarrow>
   ('d, 'x) DataFileWriter \<Rightarrow> fault + ('d, 'x) DataFileWriter" where
  "group_body D step1 step2 Tps tMin p w =
     (if \<not> g_valid p then Inr w
      else
        rbind (hit_at p 0) (\<lambda>h0.
        let limit = hit_limit (wr_hitLimitToWrite w) p
        in rfold (group_hit D step1 step2 Tps tMin p h0 (wr_fileType w)) [0..<nat limit] w))"

definition group_addEvents ::
  "(group_row, 'd) root_ops \<Rightarrow> fp \<Rightarrow> fp \<Rightarrow> GammaPhoton EventBuffer \<Rightarrow> ('d, 'x) DataFileWriter \<Rightarrow> fault + ('d, 'x) DataFileWriter" where
  "group_addEvents D step1 step2 buffer w =
     (let Tps = Tps_of (wr_frequency w)
      in rbind (tMin_of Tps buffer) (\<lambda>tMin. event_loop (group_body D step1 step2 Tps tMin) buffer w))"

definition group_option :: "parsers \<Rightarrow> getopt \<Rightarrow> options \<Rightarrow> fault + options" where
  "group_option P opt p =
     (case opt of
        ShortOpt c s \<Rightarrow>
          if c = CHR ''i'' then Inr (p\<lparr>op_inputFilePrefix := Some s\<rparr>)
          else if c = CHR ''o'' then Inr (p\<lparr>op_outputFileName := Some s\<rparr>)
          else Inl (Exit 1)
      | LongOpt n s \<Rightarrow>
          if n = 0 then Inl (Exit 0)
          else if n = 1 then Inr (p\<lparr>op_configFileName := Some s\<rparr>)
          else if n = 2 then Inr (p\<lparr>op_fileType := FILE_BINARY\<rparr>)
          else if n = 3 then Inr (p\<lparr>op_fileType := FILE_ROOT\<rparr>)
          else if n = 4 then rbind (parse_int P s) (\<lambda>v. Inr (p\<lparr>op_hitLimitToWrite := v\<rparr>))
          else if n = 5 then rbind (parse_fraction P s) (\<lambda>v. Inr (p\<lparr>op_eventFractionToWrite := v\<rparr>))
          else if n = 6 then Inr (p\<lparr>op_parser_type := 1\<rparr>)
          else if n = 7 then rbind (atoi s) (\<lambda>v. Inr (p\<lparr>op_att := v\<rparr>))
          else Inl (Exit 1))"

definition convert_raw_to_group ::
  "('r, group_row, 'd, 'x) tool_env \<Rightarrow> getopt list \<Rightarrow> fault + 'r \<times> ('d, 'x) DataFileWriter" where
  "convert_raw_to_group T args =
     rbind (rfold (group_option (te_parsers T)) args (default_options 1)) (\<lambda>p.
     rbind (required_options p) (\<lambda>(configFileName, inputFilePrefix, outputFileName).
     rbind (open_reader T p inputFilePrefix) (\<lambda>reader.
     rbind (fromFile_mask (te_externals T) (te_memory T) configFileName LOAD_ALL (op_att p)) (\<lambda>config.
     rbind (group_newDataFileWriter T outputFileName (rd_getFrequency (te_reader T) reader) (op_fileType p)
              (op_hitLimitToWrite p) (to_int (op_eventFractionToWrite p))) (\<lambda>w.
     convert_steps (te_reader T) newChain (photon_chain T config (rd_getTriggerID (te_reader T) reader))
       (group_addEvents (te_data T)) (group_closeStep T) reader w)))))"

section \<open>Single hits\<close>

record singles_row =
  sg_step1 :: fp
  sg_step2 :: fp
  sg_Time :: int
  sg_ChannelID :: u32
  sg_ToT :: fp
  sg_T1Coarse :: fp
  sg_T1Fine :: fp
  sg_T2Coarse :: fp
  sg_T2Fine :: fp
  sg_QCoarse :: fp
  sg_QFine :: fp
  sg_Energy :: fp
  sg_QT1 :: fp
  sg_QT2 :: fp
  sg_TacID :: u16
  sg_TQT :: fp
  sg_TQE :: fp
  sg_X :: fp
  sg_Y :: fp
  sg_Z :: fp
  sg_Xi :: int
  sg_Yi :: int
  sg_PrevEventTime :: int
  sg_PrevEventFlags :: u16

record singles_event =
  se_time :: int
  se_e :: fp
  se_id :: int

definition singles_branches :: "string list" where
  "singles_branches =
     [''step1'', ''step2'', ''time'', ''channelID'', ''tot'', ''t1coarse'', ''t1fine'', ''t2coarse'', ''t2fine'', ''qcoarse'', ''qfine'',
      ''energy'', ''qT1'', ''qT2'', ''tacID'', ''xi'', ''yi'', ''x'', ''y'', ''z'', ''tqT'', ''tqE'', ''prevEventTime'', ''prevEventFlags'']"

text \<open>This tool has no limit on hits.\<close>

definition singles_newDataFileWriter ::
  "('r, 'row, 'd, 'x) tool_env \<Rightarrow> string \<Rightarrow> fp \<Rightarrow> FILE_TYPE \<Rightarrow> int \<Rightarrow> fault + ('d, 'x) DataFileWriter" where
  "singles_newDataFileWriter T fName frequency fileType eventFraction =
     newDataFileWriter (te_data T) (te_index T) (te_can_open T) singles_branches fName frequency fileType 0 eventFraction"

definition singles_closeStep ::
  "('r, 'row, 'd, 'x) tool_env \<Rightarrow> fp \<Rightarrow> fp \<Rightarrow> ('d, 'x) DataFileWriter \<Rightarrow> fault + ('d, 'x) DataFileWriter" where
  "singles_closeStep T = closeStep (te_data T) (te_index T)"

definition singles_layout :: "nat list" where
  "singles_layout = [8, 4, 4]"

definition singles_fields :: "singles_event \<Rightarrow> (nat \<times> u64) list" where
  "singles_fields e = [f64 (se_time e), ffloat (se_e e), f32 (se_id e)]"

interpretation se: packed_record singles_layout singles_fields
  by unfold_locales (simp_all add: singles_layout_def singles_fields_def)

text \<open>Integers stored to a \<open>float\<close> branch.\<close>

definition to_float :: "int \<Rightarrow> fp" where
  "to_float i = fp_of_int F32 i"

definition singles_row_of :: "fp \<Rightarrow> fp \<Rightarrow> fp \<Rightarrow> int \<Rightarrow> Hit \<Rightarrow> fault + singles_row" where
  "singles_row_of step1 step2 Tps tMin h =
     rbind (hit_time Tps tMin h) (\<lambda>t.
     rbind (deref (h_raw h)) (\<lambda>raw.
     rbind (prev_event_time Tps raw) (\<lambda>pt.
     Inr \<lparr>sg_step1 = step1, sg_step2 = step2, sg_Time = t, sg_ChannelID = rh_channelID raw, sg_ToT = hit_tot Tps h,
          sg_T1Coarse = to_float (rh_time raw AND 0x1FFF), sg_T1Fine = to_float (int (unat (rh_t1fine raw))),
          sg_T2Coarse = to_float (rh_timeEnd raw AND 0x3FF), sg_T2Fine = to_float (int (unat (rh_t2fine raw))),
          sg_QCoarse = to_float (rh_timeEndQ raw AND 0x3FF), sg_QFine = to_float (int (unat (rh_qfine raw))),
          sg_Energy = hit_energy h, sg_QT1 = h_qT1 h, sg_QT2 = h_qT2 h, sg_TacID = rh_tacID raw,
          sg_TQT = fp_convert F32 (fp_sub F64 (fp_of_int F64 (rh_time raw)) (h_time h)),
          sg_TQE = fp_convert F32 (fp_sub F64 (fp_of_int F64 (rh_timeEnd raw)) (h_timeEnd h)),
          sg_X = h_x h, sg_Y = h_y h, sg_Z = h_z h, sg_Xi = h_xi h, sg_Yi = h_yi h,
          sg_PrevEventTime = pt, sg_PrevEventFlags = rh_prevEventFlags raw\<rparr>)))"

definition singles_packed :: "fp \<Rightarrow> int \<Rightarrow> Hit \<Rightarrow> fault + singles_event" where
  "singles_packed Tps tMin h =
     rbind (hit_time Tps tMin h) (\<lambda>t.
     rbind (deref (h_raw h)) (\<lambda>raw.
     Inr \<lparr>se_time = t, se_e = hit_energy h, se_id = to_i32 (rh_channelID raw)\<rparr>))"

definition singles_line :: "fp \<Rightarrow> int \<Rightarrow> Hit \<Rightarrow> fault + string" where
  "singles_line Tps tMin h =
     rbind (hit_time Tps tMin h) (\<lambda>t.
     rbind (deref (h_raw h)) (\<lambda>raw.
     Inr (fields_line [show_int t, show_fixed (hit_energy h), show_int (to_i32 (rh_channelID raw))])))"

definition singles_record ::
  "FILE_TYPE \<Rightarrow> fp \<Rightarrow> fp \<Rightarrow> fp \<Rightarrow> int \<Rightarrow> Hit \<Rightarrow> fault + singles_row out_record" where
  "singles_record ft step1 step2 Tps tMin h =
     (case ft of
        FILE_ROOT \<Rightarrow> rbind (singles_row_of step1 step2 Tps tMin h) (\<lambda>r. Inr (Row r))
      | FILE_BINARY \<Rightarrow> rbind (singles_packed Tps tMin h) (\<lambda>e. Inr (Packed (packed (singles_fields e))))
      | FILE_TEXT \<Rightarrow> rbind (singles_line Tps tMin h) (\<lambda>s. Inr (Line s)))"

definition singles_body ::
  "(singles_row, 'd) root_ops \<Rightarrow> fp \<Rightarrow> fp \<Rightarrow> fp \<Rightarrow> int \<Rightarrow> Hit \<Rightarrow> ('d, 'x) DataFileWriter \<Rightarrow> fault + ('d, 'x) DataFileWriter" where
  "singles_body D step1 step2 Tps tMin hit w =
     (if \<not> h_valid hit then Inr w
      else rbind (singles_record (wr_fileType w) step1 step2 Tps tMin hit) (\<lambda>out. emit D out w))"

definition singles_addEvents ::
  "(singles_row, 'd) root_ops \<Rightarrow> fp \<Rightarrow> fp \<Rightarrow> Hit EventBuffer \<Rightarrow> ('d, 'x) DataFileWriter \<Rightarrow> fault + ('d, 'x) DataFileWriter" where
  "singles_addEvents D step1 step2 buffer w =
     (let Tps = Tps_of (wr_frequency w)
      in rbind (tMin_of Tps buffer) (\<lambda>tMin. event_loop (singles_body D step1 step2 Tps tMin) buffer w))"

definition singles_option :: "parsers \<Rightarrow> getopt \<Rightarrow> options \<Rightarrow> fault + options" where
  "singles_option P opt p =
     (case opt of
        ShortOpt c s \<Rightarrow>
          if c = CHR ''i'' then Inr (p\<lparr>op_inputFilePrefix := Some s\<rparr>)
          else if c = CHR ''o'' then Inr (p\<lparr>op_outputFileName := Some s\<rparr>)
          else Inl (Exit 1)
      | LongOpt n s \<Rightarrow>
          if n = 0 then Inl (Exit 0)
          else if n = 1 then Inr (p\<lparr>op_configFileName := Some s\<rparr>)
          else if n = 2 then Inr (p\<lparr>op_fileType := FILE_BINARY\<rparr>)
          else if n = 3 then Inr (p\<lparr>op_fileType := FILE_ROOT\<rparr>)
          else if n = 4 then rbind (parse_fraction P s) (\<lambda>v. Inr (p\<lparr>op_eventFractionToWrite := v\<rparr>))
          else if n = 5 then Inr (p\<lparr>op_parser_type := 1\<rparr>)
          else if n = 6 then rbind (atoi s) (\<lambda>v. Inr (p\<lparr>op_att := v\<rparr>))
          else Inl (Exit 1))"

definition convert_raw_to_singles ::
  "('r, singles_row, 'd, 'x) tool_env \<Rightarrow> getopt list \<Rightarrow> fault + 'r \<times> ('d, 'x) DataFileWriter" where
  "convert_raw_to_singles T args =
     rbind (rfold (singles_option (te_parsers T)) args (default_options 0)) (\<lambda>p.
     rbind (required_options p) (\<lambda>(configFileName, inputFilePrefix, outputFileName).
     rbind (open_reader T p inputFilePrefix) (\<lambda>reader.
     rbind (fromFile_mask (te_externals T) (te_memory T) configFileName LOAD_ALL (op_att p)) (\<lambda>config.
     rbind (singles_newDataFileWriter T outputFileName (rd_getFrequency (te_reader T) reader) (op_fileType p)
              (to_int (op_eventFractionToWrite p))) (\<lambda>w.
     convert_steps (te_reader T) newChain (hit_chain T config (rd_getTriggerID (te_reader T) reader))
       (singles_addEvents (te_data T)) (singles_closeStep T) reader w)))))"

section \<open>What the files hold\<close>

definition group_outs ::
  "fp \<Rightarrow> fp \<Rightarrow> fp \<Rightarrow> int \<Rightarrow> GammaPhoton \<Rightarrow> FILE_TYPE \<times> int \<Rightarrow> fault + group_row out_record list" where
  "group_outs step1 step2 Tps tMin p c =
     (if \<not> g_valid p then Inr []
      else rbind (hit_at p 0) (\<lambda>h0.
           rconcat (\<lambda>m. rbind (hit_at p m) (\<lambda>h. rbind (group_record (fst c) step1 step2 Tps tMin p h0 m h) (\<lambda>out. Inr [out])))
             [0..<nat (hit_limit (snd c) p)]))"

lemma group_record_row: "group_record ft step1 step2 Tps tMin p h0 m h = Inr (Row r) \<Longrightarrow> ft = FILE_ROOT"
  by (cases ft) (auto simp: group_record_def rbind_Inr_iff)

interpretation gb: event_body D "group_body D step1 step2 Tps tMin" "group_outs step1 step2 Tps tMin"
  for D step1 step2 Tps tMin
proof (unfold_locales, goal_cases)
  case (1 c p)
  obtain ft lim where c: "c = (ft, lim)" by fastforce
  show ?case
    unfolding group_outs_def c fst_conv snd_conv
  proof (rule appends_cong)
    fix w :: "('a, 'b) DataFileWriter" assume "cfg w = (ft, lim)"
    then show "group_body D step1 step2 Tps tMin p w =
      (if \<not> g_valid p then Inr w
       else rbind (hit_at p 0) (\<lambda>h0. rfold (group_hit D step1 step2 Tps tMin p h0 ft) [0..<nat (hit_limit lim p)] w))"
      by (simp add: group_body_def cfg_def)
  qed (unfold group_hit_def [abs_def], intro append_rules, simp add: group_record_row)
qed

definition singles_outs ::
  "fp \<Rightarrow> fp \<Rightarrow> fp \<Rightarrow> int \<Rightarrow> Hit \<Rightarrow> FILE_TYPE \<times> int \<Rightarrow> fault + singles_row out_record list" where
  "singles_outs step1 step2 Tps tMin h c =
     (if \<not> h_valid h then Inr []
      else rbind (singles_record (fst c) step1 step2 Tps tMin h) (\<lambda>out. Inr [out]))"

lemma singles_record_row: "singles_record ft step1 step2 Tps tMin h = Inr (Row r) \<Longrightarrow> ft = FILE_ROOT"
  by (cases ft) (auto simp: singles_record_def rbind_Inr_iff)

interpretation sb: event_body D "singles_body D step1 step2 Tps tMin" "singles_outs step1 step2 Tps tMin"
  for D step1 step2 Tps tMin
proof (unfold_locales, goal_cases)
  case (1 c h)
  show ?case
    unfolding singles_outs_def
  proof (rule appends_cong)
    fix w :: "('a, 'b) DataFileWriter" assume "cfg w = c"
    then show "singles_body D step1 step2 Tps tMin h w =
      (if \<not> h_valid h then Inr w else rbind (singles_record (fst c) step1 step2 Tps tMin h) (\<lambda>out. emit D out w))"
      by (auto simp: singles_body_def cfg_def)
  qed (intro append_rules, simp add: singles_record_row)
qed

lemma group_grows: "grows w (group_addEvents D step1 step2 b w)"
  unfolding group_addEvents_def group_body_def group_hit_def Let_def
  by (intro grow_rules)

lemma singles_grows: "grows w (singles_addEvents D step1 step2 b w)"
  unfolding singles_addEvents_def singles_body_def Let_def
  by (intro grow_rules)

text \<open>The index of every binary file cuts it into the parts of the steps.\<close>

lemma steps_partition:
  assumes add: "\<And>s1 s2 b w. grows w (add s1 s2 b w)"
    and w: "newDataFileWriter D X can_open br fName fr FILE_BINARY hl ef = Inr w"
    and run: "convert_steps (raw_reader_ops junk frame0 rd) c0 chain add (closeStep D X) r w = Inr (r', w')"
  shows "\<exists>ps. partitioned ps w' \<and> map (\<lambda>q. Inr (snd q)) ps = map (getStepValue r) [0..<getNSteps r]"
proof -
  have "\<exists>qs. partitioned ([] @ qs) w' \<and>
    map (\<lambda>q. Inr (snd q)) qs = map (rd_getStepValue (raw_reader_ops junk frame0 rd) r) [0..<rd_getNSteps (raw_reader_ops junk frame0 rd) r]"
    by (rule raw.convert_partitions [OF _ run [unfolded convert_steps_def] new_partitioned [OF w]])
      (use add in \<open>simp add: grows_def\<close>)
  then show ?thesis by (simp add: raw_reader_ops_def)
qed

section \<open>Time differences in a group\<close>

lemma trunc_small:
  assumes "op_result a" "fp_lt (fp_abs a) (Fin False 1 0)"
  shows "fp_trunc a = Some 0"
proof (cases a)
  case (Fin s m e)
  have m: "0 \<le> m" using assms(1) Fin by simp
  have lt: "align False m e (min e 0) < align False 1 0 (min e 0)" using assms(2) Fin by (simp add: Let_def)
  show ?thesis
  proof (cases "0 \<le> e")
    case True
    with lt m have "m * 2 ^ nat e < 1" by (simp add: align_def signed_def)
    moreover have "(1::int) \<le> 2 ^ nat e" by simp
    ultimately have "m = 0" using m mult_mono [of 1 m 1 "2 ^ nat e"] by (cases "m = 0") auto
    with Fin True show ?thesis by (simp add: signed_def)
  next
    case False
    with lt have "m < 2 ^ nat (- e)" by (simp add: align_def signed_def)
    with Fin False m show ?thesis by (simp add: signed_def div_pos_pos_trivial)
  qed
qed (use assms in auto)

lemma fp_add_op: "op_result (fp_add f a b)"
proof (cases "(f, a, b)" rule: fp_add.cases)
  case (6 f s m e t n d)
  then show ?thesis
    by (simp add: Let_def) (metis abs_ge_zero representable_op round_representable)
qed auto

lemma mul_zero: "is_finite a \<Longrightarrow> fp_to_signed 64 (fp_mul F64 (fp_of_int F64 0) a) = Inr 0"
  by (cases a) (simp_all add: fp_of_int_def round_fp_def fp_to_signed_def signed_def)

lemma to_signed_finite: "fp_to_signed n (fp_mul f a b) = Inr i \<Longrightarrow> is_finite b"
  by (cases "(f, a, b)" rule: fp_mul.cases) (auto simp: fp_to_signed_def split: if_splits)

text \<open>
  In the tree of groups the branch with the time relative to the first hit of the group holds whole clock
  periods: it is 0 for every hit less than a period away from the first, although the branch with the
  absolute time resolves it.
\<close>

theorem group_time_delta_lost:
  assumes "group_row_of step1 step2 Tps tMin p h0 m h = Inr r"
    and "fp_lt (fp_abs (fp_sub F64 (h_time h) (h_time h0))) (Fin False 1 0)"
  shows "gr_TimeDelta r = 0 \<and> hit_time Tps tMin h = Inr (gr_Time r)"
proof -
  from assms(1) have t: "hit_time Tps tMin h = Inr (gr_Time r)" "time_delta Tps h h0 = Inr (gr_TimeDelta r)"
    by (auto simp: group_row_of_def rbind_Inr_iff)
  then have "is_finite Tps" by (auto simp: hit_time_def rbind_Inr_iff dest: to_signed_finite)
  moreover have "fp_trunc (fp_sub F64 (h_time h) (h_time h0)) = Some 0"
    using assms(2) by (intro trunc_small) (simp add: fp_sub_def fp_add_op)
  then have "fp_to_signed 64 (fp_sub F64 (h_time h) (h_time h0)) = Inr 0" by (simp add: fp_to_signed_def)
  ultimately have "time_delta Tps h h0 = Inr 0" by (simp add: time_delta_def mul_zero)
  with t show ?thesis by simp
qed

definition example_half :: Hit where
  "example_half = (example_pair_hit 7)\<lparr>h_time := Fin False 15 (-1)\<rparr>"

theorem group_time_delta_witness:
  "\<exists>r0 r. group_row_of NaN NaN (Tps_of (fp_of_int F64 200000000)) 0 (example_pair_photon 7) (example_pair_hit 7) 0 (example_pair_hit 7) = Inr r0 \<and>
     group_row_of NaN NaN (Tps_of (fp_of_int F64 200000000)) 0 (example_pair_photon 7) (example_pair_hit 7) 1 example_half = Inr r \<and>
     gr_Time r = gr_Time r0 + 2500 \<and> gr_TimeDelta r = 0"
proof -
  let ?row = "group_row_of NaN NaN (Tps_of (fp_of_int F64 200000000)) 0 (example_pair_photon 7) (example_pair_hit 7)"
  have t: "map (hit_time (Tps_of (fp_of_int F64 200000000)) 0) [example_pair_hit 7, example_half] = [Inr 35000, Inr 37500]"
    by code_simp
  have d: "map (\<lambda>h. time_delta (Tps_of (fp_of_int F64 200000000)) h (example_pair_hit 7)) [example_pair_hit 7, example_half] = [Inr 0, Inr 0]"
    by code_simp
  have pt: "prev_event_time (Tps_of (fp_of_int F64 200000000)) (example_raw True 70000) = Inr 500000" by code_simp
  have lt: "fp_lt (fp_abs (fp_sub F64 (h_time example_half) (h_time (example_pair_hit 7)))) (Fin False 1 0)" by code_simp
  have raw: "h_raw example_half = Some (example_raw True 70000)" "h_raw (example_pair_hit 7) = Some (example_raw True 70000)"
    by (simp_all add: example_half_def example_pair_hit_def)
  obtain r0 where r0: "?row 0 (example_pair_hit 7) = Inr r0" "gr_Time r0 = 35000"
    using t d pt raw by (simp add: group_row_of_def deref_def)
  obtain r where r: "?row 1 example_half = Inr r" "gr_Time r = 37500"
    using t d pt raw by (simp add: group_row_of_def deref_def)
  from group_time_delta_lost [OF r(1) lt] r0 r show ?thesis by simp
qed

end
