(* ===== verification/Convert_Raw.thy ===== *)
theory Convert_Raw
  imports Convert_Coincidence
begin

text \<open>
  The program petsys_util/convert_raw_to_raw.cpp, which writes the raw hits without any processing. Its class has a
  text mode that \<open>main\<close> never selects. The property shows which fields of a hit a row of its tree holds:
  the coarse time of the charge is not among them, since the end time is stored in its place.
\<close>

record raw_row =
  rw_step1 :: fp
  rw_step2 :: fp
  rw_FrameID :: int
  rw_ChannelID :: u32
  rw_TacID :: u16
  rw_T1Coarse :: u16
  rw_T1Fine :: u16
  rw_T2Coarse :: u16
  rw_T2Fine :: u16
  rw_QCoarse :: u16
  rw_QFine :: u16
  rw_PrevEventTime :: u16
  rw_PrevEventFlags :: u16

definition raw_branches :: "string list" where
  "raw_branches =
     [''step1'', ''step2'', ''frameID'', ''channelID'', ''tacID'', ''t1coarse'', ''t1fine'', ''t2coarse'', ''t2fine'', ''qcoarse'',
      ''qfine'', ''prevEventTime'', ''prevEventFlags'']"

text \<open>The class of this tool has no binary mode; a value other than ROOT is text.\<close>

definition raw_newDataFileWriter ::
  "('r, 'row, 'd, 'x) tool_env \<Rightarrow> string \<Rightarrow> FILE_TYPE \<Rightarrow> int \<Rightarrow> fault + ('d, 'x) DataFileWriter" where
  "raw_newDataFileWriter T fName fileType eventFraction =
     newDataFileWriter (te_data T) (te_index T) (te_can_open T) raw_branches fName (fp_of_int F64 0)
       (if fileType = FILE_ROOT then FILE_ROOT else FILE_TEXT) 0 eventFraction"

definition raw_closeStep ::
  "('r, 'row, 'd, 'x) tool_env \<Rightarrow> fp \<Rightarrow> fp \<Rightarrow> ('d, 'x) DataFileWriter \<Rightarrow> fault + ('d, 'x) DataFileWriter" where
  "raw_closeStep T = closeStep (te_data T) (te_index T)"

definition raw_row_of :: "fp \<Rightarrow> fp \<Rightarrow> RawHit \<Rightarrow> raw_row" where
  "raw_row_of step1 step2 hit =
     \<lparr>rw_step1 = step1, rw_step2 = step2, rw_FrameID = drop_bit 10 (rh_time hit), rw_ChannelID = rh_channelID hit,
      rw_TacID = rh_tacID hit, rw_T1Coarse = word_of_int (rh_time hit AND 0x3FF), rw_T1Fine = rh_t1fine hit,
      rw_T2Coarse = word_of_int (rh_timeEnd hit AND 0x3FF), rw_T2Fine = rh_t2fine hit,
      rw_QCoarse = word_of_int (rh_timeEnd hit AND 0x3FF), rw_QFine = rh_qfine hit,
      rw_PrevEventTime = word_of_int (rh_prevEventTime hit), rw_PrevEventFlags = rh_prevEventFlags hit\<rparr>"

text \<open>\<open>%hu\<close> prints the low 16 bits of its argument.\<close>

definition show_hu :: "u16 \<Rightarrow> string" where
  "show_hu v = show_nat (unat v)"

definition raw_line :: "RawHit \<Rightarrow> string" where
  "raw_line hit =
     fields_line [show_int (drop_bit 10 (rh_time hit)), show_hu (ucast (rh_channelID hit)), show_hu (rh_tacID hit),
       show_hu (word_of_int (rh_time hit AND 0x3FF)), show_hu (word_of_int (rh_timeEnd hit AND 0x3FF)),
       show_hu (word_of_int (rh_timeEndQ hit AND 0x3FF)),
       show_hu (rh_t1fine hit), show_hu (rh_t2fine hit), show_hu (rh_qfine hit)]"

definition raw_body ::
  "(raw_row, 'd) root_ops \<Rightarrow> fp \<Rightarrow> fp \<Rightarrow> RawHit \<Rightarrow> ('d, 'x) DataFileWriter \<Rightarrow> fault + ('d, 'x) DataFileWriter" where
  "raw_body D step1 step2 hit w =
     emit D (if wr_fileType w = FILE_ROOT then Row (raw_row_of step1 step2 hit) else Line (raw_line hit)) w"

definition raw_addEvents ::
  "(raw_row, 'd) root_ops \<Rightarrow> fp \<Rightarrow> fp \<Rightarrow> RawHit EventBuffer \<Rightarrow> ('d, 'x) DataFileWriter \<Rightarrow> fault + ('d, 'x) DataFileWriter" where
  "raw_addEvents D step1 step2 buffer w = event_loop (raw_body D step1 step2) buffer w"

record raw_options = options +
  op_decoder_log_name :: "string option"

definition default_raw_options :: raw_options where
  "default_raw_options = options.extend (default_options 0) \<lparr>op_decoder_log_name = None\<rparr>"

definition raw_option :: "parsers \<Rightarrow> getopt \<Rightarrow> raw_options \<Rightarrow> fault + raw_options" where
  "raw_option P opt p =
     (case opt of
        ShortOpt c s \<Rightarrow>
          if c = CHR ''i'' then Inr (p\<lparr>op_inputFilePrefix := Some s\<rparr>)
          else if c = CHR ''o'' then Inr (p\<lparr>op_outputFileName := Some s\<rparr>)
          else Inl (Exit 1)
      | LongOpt n s \<Rightarrow>
          if n = 0 then Inl (Exit 0)
          else if n = 1 then Inr (p\<lparr>op_configFileName := Some s\<rparr>)
          else if n = 2 then rbind (parse_fraction P s) (\<lambda>v. Inr (p\<lparr>op_eventFractionToWrite := v\<rparr>))
          else if n = 3 then Inr (p\<lparr>op_parser_type := 1\<rparr>)
          else if n = 4 then Inr (p\<lparr>op_decoder_log_name := Some s\<rparr>)
          else Inl (Exit 1))"

text \<open>The hits go to the writer as the reader delivers them; the configuration file is required but not read.\<close>

definition raw_chain :: "unit \<Rightarrow> RawHit EventBuffer \<Rightarrow> fault + unit \<times> RawHit EventBuffer" where
  "raw_chain c b = Inr (c, b)"

definition convert_raw_to_raw ::
  "('r, raw_row, 'd, 'x) tool_env \<Rightarrow> getopt list \<Rightarrow> fault + 'r \<times> ('d, 'x) DataFileWriter" where
  "convert_raw_to_raw T args =
     rbind (rfold (raw_option (te_parsers T)) args default_raw_options) (\<lambda>p.
     rbind (required_options (options.truncate p)) (\<lambda>(configFileName, inputFilePrefix, outputFileName).
     rbind (case op_decoder_log_name p of
              None \<Rightarrow> Inr ()
            | Some f \<Rightarrow> if te_can_open T f then Inr () else Inl (Exit 1)) (\<lambda>_.
     rbind (open_reader T (options.truncate p) inputFilePrefix) (\<lambda>reader.
     rbind (raw_newDataFileWriter T outputFileName FILE_ROOT (to_int (op_eventFractionToWrite p))) (\<lambda>w.
     convert_steps (te_reader T) () raw_chain (raw_addEvents (te_data T)) (raw_closeStep T) reader w)))))"

interpretation rb: event_body D "raw_body D step1 step2"
  "\<lambda>hit c. Inr [if fst c = FILE_ROOT then Row (raw_row_of step1 step2 hit) else Line (raw_line hit)]"
  for D step1 step2
proof (unfold_locales, goal_cases)
  case (1 c hit)
  show ?case
  proof (rule appends_cong)
    fix w :: "('a, 'b) DataFileWriter" assume "cfg w = c"
    then show "raw_body D step1 step2 hit w =
      emit D (if fst c = FILE_ROOT then Row (raw_row_of step1 step2 hit) else Line (raw_line hit)) w"
      by (auto simp: raw_body_def cfg_def)
  qed (rule appends_emit, simp split: if_splits)
qed

section \<open>The rows of the tree\<close>

lemma raw_outs: "rconcat (\<lambda>hit. Inr [f hit]) hs = Inr (map f hs)"
  by (induction hs) simp_all

lemma puts_rows:
  assumes "tree_contract D view" "wr_hData w = Some t"
  shows "\<exists>t'. wr_hData (puts D (map (\<lambda>h. Row (f h)) hs) w) = Some t' \<and> view t' = view t @ map f hs"
  using assms(2)
proof (induction hs arbitrary: w t)
  case (Cons h hs)
  have "wr_hData (put D (Row (f h)) w) = Some (ro_Fill D (f h) t)" using Cons.prems by simp
  from Cons.IH [OF this] assms(1) show ?case by (simp add: puts_Cons tree_contract_def)
qed simp

lemma frame_and_coarse: "drop_bit 10 t * 1024 + uint (word_of_int (t AND 0x3FF) :: u16) = (t::int)"
proof -
  have m: "t AND 0x3FF = t mod 1024" using take_bit_eq_mask [of 10 t] by (simp add: take_bit_eq_mod mask_eq_exp_minus_1)
  have "uint (word_of_int (t mod 1024) :: u16) = t mod 1024" by (simp add: uint_word_of_int)
  then show ?thesis unfolding m by (simp add: drop_bit_eq_div)
qed

text \<open>
  C28: The tree gets one row for every picked hit of a buffer, in order; frame and coarse time of a row give the
  time of its hit. The row does not depend on the coarse time of the charge: its branch repeats the coarse
  end time, so hits that differ in it are not told apart.
\<close>

theorem raw_tree_rows:
  assumes "tree_contract D view" "wf_buffer b" "wr_fileType w = FILE_ROOT" "wr_hData w = Some t" "wr_hIndex w \<noteq> None"
  shows "\<exists>w' t' hs. raw_addEvents D step1 step2 b w = Inr w' \<and> wr_hData w' = Some t' \<and>
    hs = picked (wr_eventCounter w) (wr_eventFractionToWrite w) (contents b) \<and>
    view t' = view t @ map (raw_row_of step1 step2) hs \<and>
    map (\<lambda>r. rw_FrameID r * 1024 + uint (rw_T1Coarse r)) (map (raw_row_of step1 step2) hs) = map rh_time hs \<and>
    map (raw_row_of step1 step2) (map (\<lambda>h. h\<lparr>rh_timeEndQ := q\<rparr>) hs) = map (raw_row_of step1 step2) hs"
proof -
  let ?hs = "picked (wr_eventCounter w) (wr_eventFractionToWrite w) (contents b)"
  have r: "ready w" "fst (cfg w) = FILE_ROOT" using assms(3-5) by (simp_all add: ready_def cfg_def)
  obtain t' where t': "wr_hData (puts D (map (\<lambda>h. Row (raw_row_of step1 step2 h)) ?hs) w) = Some t'"
    "view t' = view t @ map (raw_row_of step1 step2) ?hs"
    using puts_rows [OF assms(1,4)] by blast
  have "raw_addEvents D step1 step2 b w =
    Inr ((puts D (map (\<lambda>h. Row (raw_row_of step1 step2 h)) ?hs) w)\<lparr>wr_eventCounter := wr_eventCounter w + int (getSize b)\<rparr>)"
    by (simp add: raw_addEvents_def rb.loop_writes [OF assms(2) r(1)] r(2) raw_outs)
  moreover have "map (\<lambda>r. rw_FrameID r * 1024 + uint (rw_T1Coarse r)) (map (raw_row_of step1 step2) ?hs) = map rh_time ?hs"
    by (simp add: raw_row_of_def comp_def frame_and_coarse)
  moreover have "map (raw_row_of step1 step2) (map (\<lambda>h. h\<lparr>rh_timeEndQ := q\<rparr>) ?hs) = map (raw_row_of step1 step2) ?hs"
    by (simp add: raw_row_of_def comp_def)
  ultimately show ?thesis using t' by (intro exI conjI) (assumption | simp)+
qed

definition example_raw_writer :: "(raw_row list, index_row list) DataFileWriter" where
  "example_raw_writer = \<lparr>wr_frequency = fp_of_int F64 0, wr_fileType = FILE_ROOT, wr_hitLimitToWrite = 0,
     wr_eventFractionToWrite = 1024, wr_eventCounter = 0, wr_dataName = ''out'', wr_indexName = None,
     wr_dataFile = [], wr_indexFile = [], wr_stepBegin = 0, wr_hData = Some [], wr_hIndex = Some []\<rparr>"

theorem raw_tree_witness:
  "\<exists>w' rows. raw_addEvents list_tree NaN NaN example_raw_buffer example_raw_writer = Inr w' \<and> wr_hData w' = Some rows \<and>
     length rows = 3 \<and> map (\<lambda>r. rw_FrameID r * 1024 + uint (rw_T1Coarse r)) rows = [100, 100, 100]"
proof -
  have c: "tree_contract list_tree (\<lambda>t. t)" by (simp add: tree_contract_def list_tree_def)
  have b: "wf_buffer example_raw_buffer" by (simp add: wf_buffer_def example_raw_buffer_def)
  have w: "wr_fileType example_raw_writer = FILE_ROOT" "wr_hData example_raw_writer = Some []" "wr_hIndex example_raw_writer \<noteq> None"
    by (simp_all add: example_raw_writer_def)
  have hs: "picked (wr_eventCounter example_raw_writer) (wr_eventFractionToWrite example_raw_writer) (contents example_raw_buffer)
    = [example_raw True 0, example_raw False 1, example_raw True 2]"
    by (simp add: example_raw_writer_def contents_def example_raw_buffer_def upt_rec not_le cmod_less)
  from raw_tree_rows [OF c b w, of NaN NaN 0] obtain w' t' where
    "raw_addEvents list_tree NaN NaN example_raw_buffer example_raw_writer = Inr w'" "wr_hData w' = Some t'"
    "t' = map (raw_row_of NaN NaN) [example_raw True 0, example_raw False 1, example_raw True 2]"
    "map (\<lambda>r. rw_FrameID r * 1024 + uint (rw_T1Coarse r)) t' = map rh_time [example_raw True 0, example_raw False 1, example_raw True 2]"
    unfolding hs by auto
  then show ?thesis by (simp add: example_raw_def)
qed

end
