(* ===== verification/Convert_Channels.thy ===== *)
theory Convert_Channels
  imports Convert_Hits
begin

text \<open>
  The programs petsys_util/convert_raw_to_event.cpp and convert_raw_to_trigger.cpp, which fill one row of a tree per
  photon, with the first hit of each channel: the first in vectors and a table of 128 channels, the second
  in arrays with a cell for each of 128 channels. Unlike in the other tools the branch variables keep their values
  from event to event and are part of the state. Text and binary files use the records of the group tool.
  The property shows what both do outside ROOT mode, and with channel identifiers from 128 on.
\<close>

section \<open>Settings and pedestals\<close>

record channel_settings =
  cs_coincidence :: bool
  cs_refChannel :: int
  cs_pedestals :: bool

text \<open>
  The profiles of a pedestal file by channel, with the contents of their bins. An absent entry of the
  map \<open>pedValues\<close> reads as 0.
\<close>

type_synonym pedestal_file = "nat \<Rightarrow> (nat \<Rightarrow> fp) option"

definition load_pedestal :: "pedestal_file \<Rightarrow> nat \<Rightarrow> nat \<Rightarrow> (int \<Rightarrow> int \<Rightarrow> int) \<Rightarrow> fault + (int \<Rightarrow> int \<Rightarrow> int)" where
  "load_pedestal file ch jj ped =
     (case file ch of
        None \<Rightarrow> Inr ped
      | Some prof \<Rightarrow>
          rbind (fp_to_signed 32 (prof (jj + 1))) (\<lambda>v. Inr (ped(int ch := (ped (int ch))(int jj := v)))))"

definition load_pedestals :: "pedestal_file option \<Rightarrow> fault + (int \<Rightarrow> int \<Rightarrow> int)" where
  "load_pedestals pedestalFile =
     (case pedestalFile of
        None \<Rightarrow> Inr (\<lambda>_ _. 0)
      | Some file \<Rightarrow> rfold (\<lambda>ch. rfold (load_pedestal file ch) [0..<8]) [0..<128] (\<lambda>_ _. 0))"

text \<open>\<open>h.energy * Eunit\<close>, or the charge above the pedestal.\<close>

definition channel_energy :: "bool \<Rightarrow> (int \<Rightarrow> int \<Rightarrow> int) \<Rightarrow> Hit \<Rightarrow> RawHit \<Rightarrow> fp" where
  "channel_energy pedestals ped h raw =
     (if \<not> pedestals then hit_energy h
      else to_float (int (unat (rh_qfine raw)) - ped (to_i32 (rh_channelID raw)) (int (unat (rh_tacID raw)))))"

definition put_record ::
  "fp \<Rightarrow> int \<Rightarrow> GammaPhoton \<Rightarrow> nat \<Rightarrow> Hit \<Rightarrow> ('d, 'x, 'z) DataFileWriter_scheme \<Rightarrow> fault + ('d, 'x, 'z) DataFileWriter_scheme" where
  "put_record Tps tMin p m h w =
     (case wr_fileType w of
        FILE_BINARY \<Rightarrow> rbind (group_packed Tps tMin p m h) (\<lambda>e. Inr (put_bytes (packed (group_fields e)) w))
      | _ \<Rightarrow> rbind (group_line Tps tMin p m h) (\<lambda>s. Inr (put_bytes (text_bytes s) w)))"

definition fills :: "channel_settings \<Rightarrow> int \<Rightarrow> bool \<Rightarrow> bool" where
  "fills S limit hasRefChannel \<longleftrightarrow>
     \<not> cs_coincidence S \<or> (cs_coincidence S \<and> limit > 1 \<and> (hasRefChannel \<or> cs_refChannel S = -1))"

section \<open>convert_raw_to_event\<close>

text \<open>The vectors of the branches always have the same length; an element is one entry of all of them.\<close>

record event_entry =
  ee_Time :: int
  ee_ChannelID :: u32
  ee_ToT :: fp
  ee_T1Coarse :: u16
  ee_T1Fine :: u16
  ee_T2Coarse :: u16
  ee_T2Fine :: u16
  ee_QCoarse :: u16
  ee_QFine :: u16
  ee_Energy :: fp
  ee_QT1 :: fp
  ee_QT2 :: fp
  ee_TacID :: u16

record event_row =
  er_step1 :: fp
  er_step2 :: fp
  er_PrevEventFlags :: u16
  er_PrevEventTime :: int
  er_TimeLast :: fp
  er_N :: u16
  er_ChannelIdx :: "int list"
  er_entries :: "event_entry list"

record ('d, 'x) EventWriter = "('d, 'x) DataFileWriter" +
  ew_pedValues :: "int \<Rightarrow> int \<Rightarrow> int"
  ew_row :: event_row
  ew_timeLastTmp :: fp
  ew_channelCount :: "u32 \<Rightarrow> u32"

definition event_branches :: "string list" where
  "event_branches =
     [''step1'', ''step2'', ''prevEventFlags'', ''prevEventTime'', ''timeLast'', ''mh_n'', ''channelIdx'', ''tot'', ''t1coarse'',
      ''t1fine'', ''t2coarse'', ''t2fine'', ''qcoarse'', ''qfine'', ''time'', ''channelID'', ''energy'', ''qT1'', ''qT2'', ''tacID'']"

text \<open>The constructor sets \<open>brTimeLast\<close> only: \<open>row0\<close> and \<open>tmp0\<close> are what the memory of the object holds.\<close>

definition event_newDataFileWriter ::
  "('r, event_row, 'd, 'x) tool_env \<Rightarrow> event_row \<Rightarrow> fp \<Rightarrow> string \<Rightarrow> fp \<Rightarrow> FILE_TYPE \<Rightarrow> int \<Rightarrow> int \<Rightarrow> pedestal_file option \<Rightarrow>
   fault + ('d, 'x) EventWriter" where
  "event_newDataFileWriter T row0 tmp0 fName frequency fileType hitLimit eventFraction pedestalFile =
     rbind (load_pedestals pedestalFile) (\<lambda>ped.
     rbind (newDataFileWriter (te_data T) (te_index T) (te_can_open T) event_branches fName frequency fileType hitLimit eventFraction) (\<lambda>w.
     Inr (DataFileWriter.extend w
       \<lparr>ew_pedValues = ped, ew_row = row0\<lparr>er_TimeLast := fp_of_int F64 (-1)\<rparr>, ew_timeLastTmp = tmp0, ew_channelCount = (\<lambda>_. 0)\<rparr>)))"

definition event_closeStep ::
  "('r, event_row, 'd, 'x) tool_env \<Rightarrow> fp \<Rightarrow> fp \<Rightarrow> ('d, 'x) EventWriter \<Rightarrow> fault + ('d, 'x) EventWriter" where
  "event_closeStep T = closeStep (te_data T) (te_index T)"

definition event_clear :: "('d, 'x) EventWriter \<Rightarrow> ('d, 'x) EventWriter" where
  "event_clear w =
     w\<lparr>ew_row := (ew_row w)\<lparr>er_entries := [], er_ChannelIdx := replicate 128 (-1), er_TimeLast := ew_timeLastTmp w\<rparr>,
       ew_channelCount := (\<lambda>_. 0), ew_timeLastTmp := fp_of_int F64 0\<rparr>"

definition event_entry_of :: "fp \<Rightarrow> (int \<Rightarrow> int \<Rightarrow> int) \<Rightarrow> bool \<Rightarrow> int \<Rightarrow> Hit \<Rightarrow> RawHit \<Rightarrow> event_entry" where
  "event_entry_of Tps ped pedestals t h raw =
     \<lparr>ee_Time = t, ee_ChannelID = rh_channelID raw, ee_ToT = hit_tot Tps h,
      ee_T1Coarse = word_of_int (rh_time raw AND 0x1FFF), ee_T1Fine = rh_t1fine raw,
      ee_T2Coarse = word_of_int (rh_timeEnd raw AND 0x3FF), ee_T2Fine = rh_t2fine raw,
      ee_QCoarse = word_of_int (rh_timeEndQ raw AND 0x3FF), ee_QFine = rh_qfine raw,
      ee_Energy = channel_energy pedestals ped h raw, ee_QT1 = h_qT1 h, ee_QT2 = h_qT2 h, ee_TacID = rh_tacID raw\<rparr>"

text \<open>\<open>brTimeLastTmp\<close> becomes the earliest time of the hits so far; 0 stands for none.\<close>

definition earliest :: "fp \<Rightarrow> int \<Rightarrow> fp" where
  "earliest tmp t = (if fp_eq tmp (fp_of_int F64 0) \<or> fp_lt (fp_of_int F64 t) tmp then fp_of_int F64 t else tmp)"

definition event_row_add :: "nat \<Rightarrow> int \<Rightarrow> u16 \<Rightarrow> event_entry \<Rightarrow> event_row \<Rightarrow> event_row" where
  "event_row_add ch pt flags entry row =
     row\<lparr>er_ChannelIdx := (er_ChannelIdx row)[ch := int (length (er_entries row))], er_PrevEventTime := pt,
       er_PrevEventFlags := flags, er_entries := er_entries row @ [entry]\<rparr>"

definition event_first ::
  "fp \<Rightarrow> int \<Rightarrow> bool \<Rightarrow> Hit \<Rightarrow> RawHit \<Rightarrow> ('d, 'x) EventWriter \<Rightarrow> fault + ('d, 'x) EventWriter" where
  "event_first Tps tMin pedestals h raw w =
     (if \<not> unat (rh_channelID raw) < length (er_ChannelIdx (ew_row w)) then Inl OutOfBounds
      else
        rbind (prev_event_time Tps raw) (\<lambda>pt.
        rbind (hit_time Tps tMin h) (\<lambda>t.
        Inr (w\<lparr>ew_row := event_row_add (unat (rh_channelID raw)) pt (rh_prevEventFlags raw)
                 (event_entry_of Tps (ew_pedValues w) pedestals t h raw) (ew_row w),
               ew_timeLastTmp := earliest (ew_timeLastTmp w) t\<rparr>))))"

definition event_branch ::
  "fp \<Rightarrow> fp \<Rightarrow> fp \<Rightarrow> int \<Rightarrow> bool \<Rightarrow> Hit \<Rightarrow> RawHit \<Rightarrow> ('d, 'x) EventWriter \<Rightarrow> fault + ('d, 'x) EventWriter" where
  "event_branch step1 step2 Tps tMin pedestals h raw w =
     (let chID = rh_channelID raw; n = ew_channelCount w chID;
          w = w\<lparr>ew_row := (ew_row w)\<lparr>er_step1 := step1, er_step2 := step2\<rparr>,
                ew_channelCount := (ew_channelCount w)(chID := n + 1)\<rparr>
      in if n = 0 then event_first Tps tMin pedestals h raw w else Inr w)"

definition event_hit ::
  "fp \<Rightarrow> fp \<Rightarrow> fp \<Rightarrow> int \<Rightarrow> channel_settings \<Rightarrow> GammaPhoton \<Rightarrow> nat \<Rightarrow> ('d, 'x) EventWriter \<times> bool \<Rightarrow>
   fault + ('d, 'x) EventWriter \<times> bool" where
  "event_hit step1 step2 Tps tMin S p m st =
     (case st of (w, hasRefChannel) \<Rightarrow>
        rbind (hit_at p m) (\<lambda>h.
        rbind (deref (h_raw h)) (\<lambda>raw.
        rbind (if wr_fileType w = FILE_ROOT then event_branch step1 step2 Tps tMin (cs_pedestals S) h raw w
               else put_record Tps tMin p m h w) (\<lambda>w.
        Inr (w, hasRefChannel \<or> rh_channelID raw = word_of_int (cs_refChannel S))))))"

definition event_body ::
  "(event_row, 'd) root_ops \<Rightarrow> fp \<Rightarrow> fp \<Rightarrow> fp \<Rightarrow> int \<Rightarrow> channel_settings \<Rightarrow> GammaPhoton \<Rightarrow>
   ('d, 'x) EventWriter \<Rightarrow> fault + ('d, 'x) EventWriter" where
  "event_body D step1 step2 Tps tMin S p w =
     (let w = event_clear w
      in if \<not> g_valid p then Inr w
         else
           let w = w\<lparr>ew_row := (ew_row w)\<lparr>er_N := word_of_int (g_nHits p)\<rparr>\<rparr>;
               limit = hit_limit (wr_hitLimitToWrite w) p
           in if cs_coincidence S \<and> limit < 2 then Inr w
              else
                rbind (rfold (event_hit step1 step2 Tps tMin S p) [0..<nat limit] (w, False)) (\<lambda>(w, hasRefChannel).
                if fills S limit hasRefChannel then fill_row D (ew_row w) w else Inr w))"

definition event_addEvents ::
  "(event_row, 'd) root_ops \<Rightarrow> channel_settings \<Rightarrow> fp \<Rightarrow> fp \<Rightarrow> GammaPhoton EventBuffer \<Rightarrow> ('d, 'x) EventWriter \<Rightarrow> fault + ('d, 'x) EventWriter" where
  "event_addEvents D S step1 step2 buffer w =
     (let Tps = Tps_of (wr_frequency w)
      in rbind (tMin_of Tps buffer) (\<lambda>tMin. event_loop (event_body D step1 step2 Tps tMin S) buffer w))"

section \<open>convert_raw_to_trigger\<close>

text \<open>The arrays of the branches have 128 elements each; a cell is one element of all of them.\<close>

record trigger_cell =
  tc_J :: u16
  tc_Time :: int
  tc_TimeDelta :: int
  tc_ChannelID :: u32
  tc_ChannelCount :: u32
  tc_ToT :: fp
  tc_T1Coarse :: fp
  tc_T1Fine :: fp
  tc_T2Coarse :: fp
  tc_T2Fine :: fp
  tc_QCoarse :: fp
  tc_QFine :: fp
  tc_Energy :: fp
  tc_QT1 :: fp
  tc_QT2 :: fp
  tc_TacID :: u16
  tc_X :: fp
  tc_Y :: fp
  tc_Z :: fp
  tc_Xi :: int
  tc_Yi :: int

record trigger_row =
  tr_step1 :: fp
  tr_step2 :: fp
  tr_N :: u16
  tr_cells :: "trigger_cell list"

record ('d, 'x) TriggerWriter = "('d, 'x) DataFileWriter" +
  tw_pedValues :: "int \<Rightarrow> int \<Rightarrow> int"
  tw_row :: trigger_row

definition trigger_branches :: "string list" where
  "trigger_branches =
     [''step1'', ''step2'', ''mh_n'', ''mh_j'', ''tot'', ''t1coarse'', ''t1fine'', ''t2coarse'', ''t2fine'', ''qcoarse'', ''qfine'',
      ''time'', ''timeDelta'', ''channelID'', ''channelCount'', ''energy'', ''qT1'', ''qT2'', ''tacID'', ''xi'', ''yi'',
      ''x'', ''y'', ''z'']"

definition trigger_newDataFileWriter ::
  "('r, trigger_row, 'd, 'x) tool_env \<Rightarrow> trigger_row \<Rightarrow> string \<Rightarrow> fp \<Rightarrow> FILE_TYPE \<Rightarrow> int \<Rightarrow> int \<Rightarrow> pedestal_file option \<Rightarrow>
   fault + ('d, 'x) TriggerWriter" where
  "trigger_newDataFileWriter T row0 fName frequency fileType hitLimit eventFraction pedestalFile =
     rbind (load_pedestals pedestalFile) (\<lambda>ped.
     rbind (newDataFileWriter (te_data T) (te_index T) (te_can_open T) trigger_branches fName frequency fileType hitLimit eventFraction) (\<lambda>w.
     Inr (DataFileWriter.extend w \<lparr>tw_pedValues = ped, tw_row = row0\<rparr>)))"

definition trigger_closeStep ::
  "('r, trigger_row, 'd, 'x) tool_env \<Rightarrow> fp \<Rightarrow> fp \<Rightarrow> ('d, 'x) TriggerWriter \<Rightarrow> fault + ('d, 'x) TriggerWriter" where
  "trigger_closeStep T = closeStep (te_data T) (te_index T)"

definition zero_cell :: trigger_cell where
  "zero_cell = \<lparr>tc_J = 0, tc_Time = 0, tc_TimeDelta = 0, tc_ChannelID = 0, tc_ChannelCount = 0, tc_ToT = to_float 0,
     tc_T1Coarse = to_float 0, tc_T1Fine = to_float 0, tc_T2Coarse = to_float 0, tc_T2Fine = to_float 0,
     tc_QCoarse = to_float 0, tc_QFine = to_float 0, tc_Energy = to_float 0, tc_QT1 = to_float 0, tc_QT2 = to_float 0,
     tc_TacID = 0, tc_X = to_float 0, tc_Y = to_float 0, tc_Z = to_float 0, tc_Xi = 0, tc_Yi = 0\<rparr>"

definition trigger_clear :: "('d, 'x) TriggerWriter \<Rightarrow> ('d, 'x) TriggerWriter" where
  "trigger_clear w = w\<lparr>tw_row := (tw_row w)\<lparr>tr_cells := replicate 128 zero_cell\<rparr>\<rparr>"

definition trigger_cell_of ::
  "fp \<Rightarrow> (int \<Rightarrow> int \<Rightarrow> int) \<Rightarrow> bool \<Rightarrow> nat \<Rightarrow> int \<Rightarrow> int \<Rightarrow> u32 \<Rightarrow> Hit \<Rightarrow> RawHit \<Rightarrow> trigger_cell" where
  "trigger_cell_of Tps ped pedestals m t dt n h raw =
     \<lparr>tc_J = of_nat m, tc_Time = t, tc_TimeDelta = dt, tc_ChannelID = rh_channelID raw, tc_ChannelCount = n,
      tc_ToT = hit_tot Tps h,
      tc_T1Coarse = to_float (rh_time raw AND 0x1FFF), tc_T1Fine = to_float (int (unat (rh_t1fine raw))),
      tc_T2Coarse = to_float (rh_timeEnd raw AND 0x3FF), tc_T2Fine = to_float (int (unat (rh_t2fine raw))),
      tc_QCoarse = to_float (rh_timeEndQ raw AND 0x3FF), tc_QFine = to_float (int (unat (rh_qfine raw))),
      tc_Energy = channel_energy pedestals ped h raw, tc_QT1 = h_qT1 h, tc_QT2 = h_qT2 h, tc_TacID = rh_tacID raw,
      tc_X = h_x h, tc_Y = h_y h, tc_Z = h_z h, tc_Xi = h_xi h, tc_Yi = h_yi h\<rparr>"

definition trigger_branch ::
  "fp \<Rightarrow> fp \<Rightarrow> fp \<Rightarrow> int \<Rightarrow> bool \<Rightarrow> GammaPhoton \<Rightarrow> Hit \<Rightarrow> nat \<Rightarrow> Hit \<Rightarrow> RawHit \<Rightarrow> ('d, 'x) TriggerWriter \<Rightarrow>
   fault + ('d, 'x) TriggerWriter" where
  "trigger_branch step1 step2 Tps tMin pedestals p h0 m h raw w =
     (let ch = unat (rh_channelID raw);
          row = (tw_row w)\<lparr>tr_step1 := step1, tr_step2 := step2\<rparr>
      in rbind (idx (tr_cells row) ch) (\<lambda>cell.
         let n = tc_ChannelCount cell in
         if n = 0 then
           rbind (hit_time Tps tMin h) (\<lambda>t.
           rbind (time_delta Tps h h0) (\<lambda>dt.
           let new = trigger_cell_of Tps (tw_pedValues w) pedestals m t dt (n + 1) h raw
           in Inr (w\<lparr>tw_row := row\<lparr>tr_N := word_of_int (g_nHits p), tr_cells := (tr_cells row)[ch := new]\<rparr>\<rparr>)))
         else Inr (w\<lparr>tw_row := row\<lparr>tr_cells := (tr_cells row)[ch := cell\<lparr>tc_ChannelCount := n + 1\<rparr>]\<rparr>\<rparr>)))"

definition trigger_event_hit ::
  "fp \<Rightarrow> fp \<Rightarrow> fp \<Rightarrow> int \<Rightarrow> channel_settings \<Rightarrow> GammaPhoton \<Rightarrow> Hit \<Rightarrow> nat \<Rightarrow> ('d, 'x) TriggerWriter \<times> bool \<Rightarrow>
   fault + ('d, 'x) TriggerWriter \<times> bool" where
  "trigger_event_hit step1 step2 Tps tMin S p h0 m st =
     (case st of (w, hasRefChannel) \<Rightarrow>
        rbind (hit_at p m) (\<lambda>h.
        rbind (deref (h_raw h)) (\<lambda>raw.
        rbind (if wr_fileType w = FILE_ROOT then trigger_branch step1 step2 Tps tMin (cs_pedestals S) p h0 m h raw w
               else put_record Tps tMin p m h w) (\<lambda>w.
        Inr (w, hasRefChannel \<or> rh_channelID raw = word_of_int (cs_refChannel S))))))"

definition trigger_body ::
  "(trigger_row, 'd) root_ops \<Rightarrow> fp \<Rightarrow> fp \<Rightarrow> fp \<Rightarrow> int \<Rightarrow> channel_settings \<Rightarrow> GammaPhoton \<Rightarrow>
   ('d, 'x) TriggerWriter \<Rightarrow> fault + ('d, 'x) TriggerWriter" where
  "trigger_body D step1 step2 Tps tMin S p w =
     (let w = trigger_clear w
      in if \<not> g_valid p then Inr w
         else
           rbind (hit_at p 0) (\<lambda>h0.
           let limit = hit_limit (wr_hitLimitToWrite w) p
           in rbind (rfold (trigger_event_hit step1 step2 Tps tMin S p h0) [0..<nat limit] (w, False)) (\<lambda>(w, hasRefChannel).
              if fills S limit hasRefChannel then fill_row D (tw_row w) w else Inr w)))"

definition trigger_addEvents ::
  "(trigger_row, 'd) root_ops \<Rightarrow> channel_settings \<Rightarrow> fp \<Rightarrow> fp \<Rightarrow> GammaPhoton EventBuffer \<Rightarrow> ('d, 'x) TriggerWriter \<Rightarrow> fault + ('d, 'x) TriggerWriter" where
  "trigger_addEvents D S step1 step2 buffer w =
     (let Tps = Tps_of (wr_frequency w)
      in rbind (tMin_of Tps buffer) (\<lambda>tMin. event_loop (trigger_body D step1 step2 Tps tMin S) buffer w))"

section \<open>The programs\<close>

record channel_options = options +
  op_coincidence :: bool
  op_refChannel :: int
  op_pedestals :: bool

text \<open>The variable \<open>pedestals\<close> is not initialised: \<open>junk\<close> is its value.\<close>

definition default_channel_options :: "bool \<Rightarrow> channel_options" where
  "default_channel_options junk =
     options.extend (default_options 128) \<lparr>op_coincidence = False, op_refChannel = -1, op_pedestals = junk\<rparr>"

definition event_option :: "parsers \<Rightarrow> getopt \<Rightarrow> channel_options \<Rightarrow> fault + channel_options" where
  "event_option P opt p =
     (case opt of
        ShortOpt c s \<Rightarrow>
          if c = CHR ''i'' then Inr (p\<lparr>op_inputFilePrefix := Some s\<rparr>)
          else if c = CHR ''o'' then Inr (p\<lparr>op_outputFileName := Some s\<rparr>)
          else Inl (Exit 1)
      | LongOpt n s \<Rightarrow>
          if n = 0 then Inl (Exit 0)
          else if n = 1 then Inr (p\<lparr>op_configFileName := Some s\<rparr>)
          else if n = 2 then Inr (p\<lparr>op_fileType := FILE_BINARY\<rparr>)
          else if n = 3 then Inr (p\<lparr>op_fileType := FILE_ROOT\<rparr>)
          else if n = 4 then rbind (parse_int P s) (\<lambda>v. Inr (p\<lparr>op_hitLimitToWrite := v\<rparr>))
          else if n = 5 then rbind (parse_fraction P s) (\<lambda>v. Inr (p\<lparr>op_eventFractionToWrite := v\<rparr>))
          else if n = 6 then Inr (p\<lparr>op_coincidence := True\<rparr>)
          else if n = 7 then rbind (parse_int P s) (\<lambda>v. Inr (p\<lparr>op_refChannel := v\<rparr>))
          else if n = 8 then Inr (p\<lparr>op_pedestals := True\<rparr>)
          else if n = 9 then Inr (p\<lparr>op_parser_type := 1\<rparr>)
          else if n = 10 then rbind (atoi s) (\<lambda>v. Inr (p\<lparr>op_att := v\<rparr>))
          else Inl (Exit 1))"

definition trigger_option :: "parsers \<Rightarrow> getopt \<Rightarrow> channel_options \<Rightarrow> fault + channel_options" where
  "trigger_option = event_option"

definition settings_of :: "channel_options \<Rightarrow> channel_settings" where
  "settings_of p = \<lparr>cs_coincidence = op_coincidence p, cs_refChannel = op_refChannel p, cs_pedestals = op_pedestals p\<rparr>"

text \<open>
  The name of the pedestal file: the first ``raw'' of the name becomes ``reco''; when there is none, the
  replacement throws. \<open>open_ped\<close> opens it, \<open>None\<close> when it cannot.
\<close>

fun replace_raw :: "string \<Rightarrow> string option" where
  "replace_raw s =
     (if take 3 s = ''raw'' then Some (''reco'' @ drop 3 s)
      else case s of [] \<Rightarrow> None | c # t \<Rightarrow> map_option ((#) c) (replace_raw t))"

definition open_pedestals :: "(string \<Rightarrow> pedestal_file option) \<Rightarrow> bool \<Rightarrow> string \<Rightarrow> fault + pedestal_file option" where
  "open_pedestals open_ped pedestals prefix =
     (if pedestals then
        (case replace_raw (prefix @ ''_pedestals.root'') of None \<Rightarrow> Inl AssertFail | Some f \<Rightarrow> Inr (open_ped f))
      else Inr None)"

definition convert_raw_to_event ::
  "('r, event_row, 'd, 'x) tool_env \<Rightarrow> (string \<Rightarrow> pedestal_file option) \<Rightarrow> bool \<Rightarrow> event_row \<Rightarrow> fp \<Rightarrow> getopt list \<Rightarrow>
   fault + 'r \<times> ('d, 'x) EventWriter" where
  "convert_raw_to_event T open_ped junk row0 tmp0 args =
     rbind (rfold (event_option (te_parsers T)) args (default_channel_options junk)) (\<lambda>p.
     rbind (required_options (options.truncate p)) (\<lambda>(configFileName, inputFilePrefix, outputFileName).
     rbind (open_pedestals open_ped (op_pedestals p) inputFilePrefix) (\<lambda>pedestalFile.
     rbind (open_reader T (options.truncate p) inputFilePrefix) (\<lambda>reader.
     rbind (fromFile_mask (te_externals T) (te_memory T) configFileName LOAD_ALL (op_att p)) (\<lambda>config.
     rbind (event_newDataFileWriter T row0 tmp0 outputFileName (rd_getFrequency (te_reader T) reader) (op_fileType p)
              (op_hitLimitToWrite p) (to_int (op_eventFractionToWrite p)) pedestalFile) (\<lambda>w.
     convert_steps (te_reader T) newChain (photon_chain T config (rd_getTriggerID (te_reader T) reader))
       (event_addEvents (te_data T) (settings_of p)) (event_closeStep T) reader w))))))"

definition convert_raw_to_trigger ::
  "('r, trigger_row, 'd, 'x) tool_env \<Rightarrow> (string \<Rightarrow> pedestal_file option) \<Rightarrow> bool \<Rightarrow> trigger_row \<Rightarrow> getopt list \<Rightarrow>
   fault + 'r \<times> ('d, 'x) TriggerWriter" where
  "convert_raw_to_trigger T open_ped junk row0 args =
     rbind (rfold (trigger_option (te_parsers T)) args (default_channel_options junk)) (\<lambda>p.
     rbind (required_options (options.truncate p)) (\<lambda>(configFileName, inputFilePrefix, outputFileName).
     rbind (open_pedestals open_ped (op_pedestals p) inputFilePrefix) (\<lambda>pedestalFile.
     rbind (open_reader T (options.truncate p) inputFilePrefix) (\<lambda>reader.
     rbind (fromFile_mask (te_externals T) (te_memory T) configFileName LOAD_ALL (op_att p)) (\<lambda>config.
     rbind (trigger_newDataFileWriter T row0 outputFileName (rd_getFrequency (te_reader T) reader) (op_fileType p)
              (op_hitLimitToWrite p) (to_int (op_eventFractionToWrite p)) pedestalFile) (\<lambda>w.
     convert_steps (te_reader T) newChain (photon_chain T config (rd_getTriggerID (te_reader T) reader))
       (trigger_addEvents (te_data T) (settings_of p)) (trigger_closeStep T) reader w))))))"

section \<open>Output other than ROOT\<close>

text \<open>\<open>w'\<close> has the counters and the tree of \<open>w\<close>.\<close>

definition same_tree :: "('d, 'x, 'z) DataFileWriter_scheme \<Rightarrow> ('d, 'x, 'z) DataFileWriter_scheme \<Rightarrow> bool" where
  "same_tree w w' \<longleftrightarrow> wr_hData w' = wr_hData w \<and> wr_eventCounter w' = wr_eventCounter w \<and>
     wr_eventFractionToWrite w' = wr_eventFractionToWrite w"

lemma same_tree_refl [simp]: "same_tree w w"
  by (simp add: same_tree_def)

lemma same_tree_trans: "same_tree u v \<Longrightarrow> same_tree v w \<Longrightarrow> same_tree u w"
  by (simp add: same_tree_def)

lemma put_record_tree: "put_record Tps tMin p m h w = Inr w' \<Longrightarrow> same_tree w w'"
  by (auto simp: put_record_def put_bytes_def same_tree_def rbind_Inr_iff split: FILE_TYPE.splits)

lemma event_first_tree: "event_first Tps tMin q h raw w = Inr w' \<Longrightarrow> same_tree w w'"
  by (auto simp: event_first_def same_tree_def rbind_Inr_iff split: if_splits)

lemma event_branch_tree: "event_branch s1 s2 Tps tMin q h raw w = Inr w' \<Longrightarrow> same_tree w w'"
  by (auto simp: event_branch_def Let_def same_tree_def split: if_splits dest!: event_first_tree)

lemma trigger_branch_tree:
  assumes "trigger_branch s1 s2 Tps tMin q p h0 m h raw w = Inr w'" shows "same_tree w w'"
  using assms unfolding trigger_branch_def Let_def
  by (elim rbind_E; simp split: if_split_asm; (elim rbind_E)?; auto simp: same_tree_def)

lemma hits_tree:
  assumes "rfold f ms (w, b) = Inr (w', b')" "\<And>m st st'. f m st = Inr st' \<Longrightarrow> same_tree (fst st) (fst st')"
  shows "same_tree w w'"
proof -
  have "same_tree w (fst (w', b'))"
    using assms(1)
    by (rule rfold_inv [where P = "\<lambda>st. same_tree w (fst st)"]) (use assms(2) in \<open>auto intro: same_tree_trans\<close>)
  then show ?thesis by simp
qed

lemma event_hit_tree:
  assumes "event_hit s1 s2 Tps tMin S p m st = Inr st'" shows "same_tree (fst st) (fst st')"
proof -
  obtain w r where st: "st = (w, r)" by fastforce
  from assms show ?thesis
    unfolding st event_hit_def prod.case
    by (elim rbind_E) (auto dest: event_branch_tree put_record_tree split: if_split_asm)
qed

lemma trigger_event_hit_tree:
  assumes "trigger_event_hit s1 s2 Tps tMin S p h0 m st = Inr st'" shows "same_tree (fst st) (fst st')"
proof -
  obtain w r where st: "st = (w, r)" by fastforce
  from assms show ?thesis
    unfolding st trigger_event_hit_def prod.case
    by (elim rbind_E) (auto dest: trigger_branch_tree put_record_tree split: if_split_asm)
qed

lemma fill_none: "wr_hData w = None \<Longrightarrow> fill_row D r w = Inl Unspecified"
  by (simp add: fill_row_def)

lemma event_body_tree:
  assumes "wr_hData w = None" "\<not> cs_coincidence S" "event_body D s1 s2 Tps tMin S p w = Inr w'"
  shows "\<not> g_valid p \<and> same_tree w w'"
proof (cases "g_valid p")
  case True
  let ?w = "event_clear w\<lparr>ew_row := (ew_row (event_clear w))\<lparr>er_N := word_of_int (g_nHits p)\<rparr>\<rparr>"
  from assms(2,3) True obtain v h where v: "rfold (event_hit s1 s2 Tps tMin S p) [0..<nat (hit_limit (wr_hitLimitToWrite ?w) p)] (?w, False) = Inr (v, h)"
    "fill_row D (ew_row v) v = Inr w'"
    by (auto simp: event_body_def fills_def Let_def rbind_Inr_iff)
  have "same_tree ?w v" by (rule hits_tree [OF v(1) event_hit_tree])
  with assms(1) have "wr_hData v = None" by (simp add: same_tree_def event_clear_def)
  with v(2) show ?thesis by (simp add: fill_none)
next
  case False
  with assms(3) show ?thesis by (auto simp: event_body_def event_clear_def same_tree_def)
qed

lemma trigger_body_tree:
  assumes "wr_hData w = None" "\<not> cs_coincidence S" "trigger_body D s1 s2 Tps tMin S p w = Inr w'"
  shows "\<not> g_valid p \<and> same_tree w w'"
proof (cases "g_valid p")
  case True
  from assms(2,3) True obtain v h h0 where
    v: "rfold (trigger_event_hit s1 s2 Tps tMin S p h0) [0..<nat (hit_limit (wr_hitLimitToWrite (trigger_clear w)) p)] (trigger_clear w, False) = Inr (v, h)"
    "fill_row D (tw_row v) v = Inr w'"
    by (auto simp: trigger_body_def fills_def Let_def rbind_Inr_iff)
  have "same_tree (trigger_clear w) v" by (rule hits_tree [OF v(1) trigger_event_hit_tree])
  with assms(1) have "wr_hData v = None" by (simp add: same_tree_def trigger_clear_def)
  with v(2) show ?thesis by (simp add: fill_none)
next
  case False
  with assms(3) show ?thesis by (auto simp: trigger_body_def trigger_clear_def same_tree_def)
qed

text \<open>A loop whose body refuses the events of \<open>bad\<close> cannot pass a picked event of this kind.\<close>

lemma loop_passes:
  assumes body: "\<And>e w w'. wr_hData w = None \<Longrightarrow> body e w = Inr w' \<Longrightarrow> \<not> bad e \<and> same_tree w w'"
    and b: "wf_buffer b" and w: "wr_hData w = None"
    and run: "event_loop body b w = Inr w'"
  shows "\<forall>e \<in> set (picked (wr_eventCounter w) (wr_eventFractionToWrite w) (contents b)). \<not> bad e"
proof -
  have "i \<le> getSize b \<Longrightarrow> rfold (event_step body b) [i..<getSize b] w = Inr w' \<Longrightarrow> wr_hData w = None \<Longrightarrow>
    \<forall>e \<in> set (picked (wr_eventCounter w) (wr_eventFractionToWrite w) (drop i (contents b))). \<not> bad e" for i w
  proof (induction i arbitrary: w rule: inc_induct)
    case base
    then show ?case by (simp add: getSize_contents)
  next
    case (step i)
    have rng: "[i..<getSize b] = i # [Suc i..<getSize b]" using step.hyps by (simp add: upt_conv_Cons)
    have e: "drop i (contents b) = contents b ! i # drop (Suc i) (contents b)"
      using step.hyps by (simp add: Cons_nth_drop_Suc getSize_contents)
    have g: "get b i = Inr (contents b ! i)" using get_contents [OF b] step.hyps by simp
    from step.prems(1) rng obtain w1 where w1: "event_step body b i w = Inr w1" "rfold (event_step body b) [Suc i..<getSize b] w1 = Inr w'"
      by (auto simp: rbind_Inr_iff)
    let ?w = "w\<lparr>wr_eventCounter := wr_eventCounter w + 1\<rparr>"
    show ?case
    proof (cases "wr_eventFractionToWrite w \<le> Prelude.cmod (wr_eventCounter w) 1024")
      case True
      with w1(1) have "w1 = ?w" by (simp add: event_step_def)
      with step.IH [OF w1(2)] step.prems(2) True show ?thesis by (simp add: e)
    next
      case False
      with w1(1) have "body (contents b ! i) ?w = Inr w1" by (simp add: event_step_def g)
      with body [of ?w "contents b ! i" w1] step.prems(2) have "\<not> bad (contents b ! i)" "same_tree ?w w1" by simp_all
      with step.IH [OF w1(2)] step.prems(2) False show ?thesis by (simp add: e same_tree_def)
    qed
  qed
  from this [of 0 w] run w show ?thesis by (simp add: event_loop_def)
qed

lemma event_passes:
  assumes "event_addEvents D S step1 step2 b w = Inr w'" "\<not> cs_coincidence S" "wf_buffer b" "wr_hData w = None"
  shows "\<forall>p \<in> set (picked (wr_eventCounter w) (wr_eventFractionToWrite w) (contents b)). \<not> g_valid p"
proof -
  from assms(1) obtain tMin where "event_loop (event_body D step1 step2 (Tps_of (wr_frequency w)) tMin S) b w = Inr w'"
    by (auto simp: event_addEvents_def rbind_Inr_iff Let_def)
  from loop_passes [where bad = g_valid, OF event_body_tree [OF _ assms(2)] assms(3,4) this] show ?thesis by simp
qed

lemma trigger_passes:
  assumes "trigger_addEvents D S step1 step2 b w = Inr w'" "\<not> cs_coincidence S" "wf_buffer b" "wr_hData w = None"
  shows "\<forall>p \<in> set (picked (wr_eventCounter w) (wr_eventFractionToWrite w) (contents b)). \<not> g_valid p"
proof -
  from assms(1) obtain tMin where "event_loop (trigger_body D step1 step2 (Tps_of (wr_frequency w)) tMin S) b w = Inr w'"
    by (auto simp: trigger_addEvents_def rbind_Inr_iff Let_def)
  from loop_passes [where bad = g_valid, OF trigger_body_tree [OF _ assms(2)] assms(3,4) this] show ?thesis by simp
qed

text \<open>
  Without ROOT output and without the option that selects coincidences, neither program gets past the first
  valid photon that is picked: after its hits were written to the file, \<open>Fill\<close> is called on a tree that was never
  created.
\<close>

theorem channel_tools_need_root:
  assumes "event_newDataFileWriter T row0 tmp0 fName frequency ft hl ef ped = Inr w"
    and "trigger_newDataFileWriter U row1 fName frequency ft hl ef ped = Inr v"
    and "ft \<noteq> FILE_ROOT" "\<not> cs_coincidence S" "wf_buffer b"
    and "\<exists>p \<in> set (picked 0 ef (contents b)). g_valid p"
  shows "(\<nexists>w'. event_addEvents (te_data T) S step1 step2 b w = Inr w') \<and>
    (\<nexists>v'. trigger_addEvents (te_data U) S step1 step2 b v = Inr v')"
proof (intro conjI)
  have w: "wr_hData w = None" "wr_eventCounter w = 0" "wr_eventFractionToWrite w = ef"
    using assms(1,3) by (auto simp: event_newDataFileWriter_def newDataFileWriter_def rbind_Inr_iff Let_def DataFileWriter.defs
        split: FILE_TYPE.splits if_splits)
  have v: "wr_hData v = None" "wr_eventCounter v = 0" "wr_eventFractionToWrite v = ef"
    using assms(2,3) by (auto simp: trigger_newDataFileWriter_def newDataFileWriter_def rbind_Inr_iff Let_def DataFileWriter.defs
        split: FILE_TYPE.splits if_splits)
  show "\<nexists>w'. event_addEvents (te_data T) S step1 step2 b w = Inr w'"
    using event_passes [OF _ assms(4,5) w(1)] assms(6) unfolding w(2,3) by blast
  show "\<nexists>v'. trigger_addEvents (te_data U) S step1 step2 b v = Inr v'"
    using trigger_passes [OF _ assms(4,5) v(1)] assms(6) unfolding v(2,3) by blast
qed

text \<open>A first hit of a channel with an identifier from 128 on, in ROOT mode.\<close>

lemma channel_out_of_range:
  assumes "128 \<le> unat (rh_channelID raw)" "length (er_ChannelIdx (ew_row w)) = 128" "ew_channelCount w (rh_channelID raw) = 0"
    and "length (tr_cells (tw_row v)) = 128"
  shows "event_branch step1 step2 Tps tMin q h raw w = Inl OutOfBounds"
    and "trigger_branch step1 step2 Tps tMin q p h0 m h raw v = Inl OutOfBounds"
  using assms by (simp_all add: event_branch_def event_first_def trigger_branch_def idx_def Let_def)

definition example_group_buffer :: "GammaPhoton EventBuffer" where
  "example_group_buffer = \<lparr>bufferTMin = 1000, bufferTMax = 0, buf = (\<lambda>i. example_pair_photon 7), capacity = 1024, used = 1\<rparr>"

definition example_event_row :: event_row where
  "example_event_row = \<lparr>er_step1 = NaN, er_step2 = NaN, er_PrevEventFlags = 0, er_PrevEventTime = 0, er_TimeLast = NaN,
     er_N = 0, er_ChannelIdx = [], er_entries = []\<rparr>"

definition example_settings :: channel_settings where
  "example_settings = \<lparr>cs_coincidence = False, cs_refChannel = -1, cs_pedestals = False\<rparr>"

theorem channel_tools_witness:
  "\<exists>w v. event_newDataFileWriter (example_env example_steps_reader) example_event_row NaN ''out'' (fp_of_int F64 200000000) FILE_TEXT 128 1024 None = Inr w
     \<and> trigger_newDataFileWriter (example_env example_steps_reader) \<lparr>tr_step1 = NaN, tr_step2 = NaN, tr_N = 0, tr_cells = []\<rparr> ''out''
         (fp_of_int F64 200000000) FILE_TEXT 128 1024 None = Inr v
     \<and> (\<nexists>w'. event_addEvents list_tree example_settings NaN NaN example_group_buffer w = Inr w')
     \<and> (\<nexists>v'. trigger_addEvents list_tree example_settings NaN NaN example_group_buffer v = Inr v')"
proof -
  obtain w where w: "event_newDataFileWriter (example_env example_steps_reader) example_event_row NaN ''out''
      (fp_of_int F64 200000000) FILE_TEXT 128 1024 None = Inr w"
    by (simp add: event_newDataFileWriter_def load_pedestals_def newDataFileWriter_def example_env_def)
  obtain v where v: "trigger_newDataFileWriter (example_env example_steps_reader) \<lparr>tr_step1 = NaN, tr_step2 = NaN, tr_N = 0, tr_cells = []\<rparr> ''out''
      (fp_of_int F64 200000000) FILE_TEXT 128 1024 None = Inr v"
    by (simp add: trigger_newDataFileWriter_def load_pedestals_def newDataFileWriter_def example_env_def)
  have s: "\<not> cs_coincidence example_settings" by (simp add: example_settings_def)
  have b: "wf_buffer example_group_buffer" by (simp add: wf_buffer_def example_group_buffer_def)
  have p: "\<exists>p \<in> set (picked 0 1024 (contents example_group_buffer)). g_valid p"
    by (simp add: picked_all contents_def example_group_buffer_def example_pair_photon_def not_le cmod_less)
  have d: "te_data (example_env r) = list_tree" for r by (simp add: example_env_def)
  show ?thesis
    using channel_tools_need_root [OF w v _ s b p, unfolded d] w v by auto
qed

end
