(* ===== verification/Merge_Raw.thy ===== *)
theory Merge_Raw
  imports Data_Set Event_Writer
begin

text \<open>
  Joining data sets: petsys_util/merge_raw.cpp copies the headers and the steps of several data sets to one, with an index for the
  new positions. What the writer of raw data left in each of them is then read from the joined one, step by step.
\<close>

section \<open>The program\<close>

text \<open>What has been written to the two output files.\<close>

record merger =
  mg_raw :: "u8 list"
  mg_idx :: string

definition copyBufferSize :: nat where
  "copyBufferSize = 128 * 1024"

text \<open>The copying loop at the file position \<open>pos\<close>; at the end of the file \<open>fread\<close> returns 0 and the loop does not end.\<close>

function copy_range :: "u8 list \<Rightarrow> nat \<Rightarrow> nat \<Rightarrow> nat \<Rightarrow> u8 list \<Rightarrow> fault + nat \<times> u8 list" where
  "copy_range raw pos current stepEnd out =
     (if current < stepEnd then
        (let r = take (min copyBufferSize (stepEnd - current)) (drop pos raw)
         in if r = [] then Inl Diverges else copy_range raw (pos + length r) (current + length r) stepEnd (out @ r))
      else Inr (pos, out))"
  by pat_completeness auto
termination
  by (relation "measure (\<lambda>(raw, pos, current, stepEnd, out). stepEnd - current)") auto

declare copy_range.simps [simp del]

text \<open>An offset that is negative as a \<open>long\<close> is refused by \<open>fseek\<close>.\<close>

definition seek_set :: "nat \<Rightarrow> nat \<Rightarrow> nat" where
  "seek_set off pos = (if off < 2 ^ 63 then off else pos)"

definition merge_step :: "u8 list \<Rightarrow> Step \<Rightarrow> nat \<times> merger \<Rightarrow> fault + nat \<times> merger" where
  "merge_step raw s = (\<lambda>(pos, m).
     rbind (copy_range raw (seek_set (st_stepBegin s) pos) (st_stepBegin s) (st_stepEnd s) (mg_raw m)) (\<lambda>(pos, out).
     Inr (pos, \<lparr>mg_raw = out, mg_idx = mg_idx m @ index_line (length (mg_raw m)) (length out) (st_stepFirstFrame s) (st_stepLastFrame s)
       (st_step1 s) (st_step2 s)\<rparr>)))"

text \<open>The 64 bytes written as a header come from the new buffer where the file is shorter; \<open>junk\<close> is what that holds.\<close>

definition merge_input :: "u8 list \<Rightarrow> data_set \<Rightarrow> merger \<Rightarrow> fault + merger" where
  "merge_input junk d m =
     (case ds_rawf d of
        None \<Rightarrow> Inl NullDeref
      | Some raw \<Rightarrow>
        (case ds_idxf d of
           None \<Rightarrow> Inl NullDeref
         | Some index \<Rightarrow>
             let header = take 64 raw @ drop (length raw) (take 64 junk) in
             rbind (scan_records idx_format 6 index) (\<lambda>rs.
             rbind (rfold (merge_step raw) (map step_of_args rs) (min 64 (length raw), m\<lparr>mg_raw := mg_raw m @ header\<rparr>)) (\<lambda>(_, m).
             Inr m))))"

text \<open>
  The arguments are the prefix of the output, the number of inputs and their prefixes; \<open>files\<close> gives the files of a prefix. The output
  files can be created and are none of the inputs. Missing arguments are null pointers to \<open>sprintf\<close>, and names are stored in 1024 bytes.
\<close>

definition name_fits :: "string \<Rightarrow> bool" where
  "name_fits prefix \<longleftrightarrow> length prefix + 5 < 1024"

definition merge_raw :: "parsers \<Rightarrow> (string \<Rightarrow> data_set) \<Rightarrow> (nat \<Rightarrow> u8 list) \<Rightarrow> string list \<Rightarrow> fault + merger" where
  "merge_raw P files junk argv =
     (case argv of
        outputFilenamePrefix # number # inputs \<Rightarrow>
          if \<not> name_fits outputFilenamePrefix then Inl OutOfBounds
          else rbind (parse_int P number) (\<lambda>nInput.
            rfold (\<lambda>i m.
                if \<not> i < length inputs then Inl Unspecified
                else if \<not> name_fits (inputs ! i) then Inl OutOfBounds
                else merge_input (junk i) (files (inputs ! i)) m)
              [0..<nat nInput] \<lparr>mg_raw = [], mg_idx = []\<rparr>)
      | _ \<Rightarrow> Inl Unspecified)"

section \<open>Copying\<close>

lemma copy_range_ok:
  assumes "pos + (stepEnd - current) \<le> length raw"
  shows "copy_range raw pos current stepEnd out = Inr (pos + (stepEnd - current), out @ take (stepEnd - current) (drop pos raw))"
  using assms
proof (induction raw pos current stepEnd out rule: copy_range.induct)
  case (1 raw pos current stepEnd out)
  show ?case
  proof (cases "current < stepEnd")
    case True
    let ?k = "min copyBufferSize (stepEnd - current)"
    let ?r = "take ?k (drop pos raw)"
    have k: "0 < ?k" "?k \<le> stepEnd - current" using True by (simp_all add: copyBufferSize_def)
    then have l: "length ?r = ?k" "?r \<noteq> []" using 1(2) by (auto simp del: length_0_conv simp flip: length_greater_0_conv)
    have e: "pos + ?k + (stepEnd - (current + ?k)) = pos + (stepEnd - current)" using k(2) True by arith
    have "copy_range raw (pos + ?k) (current + ?k) stepEnd (out @ ?r) =
        Inr (pos + (stepEnd - current), (out @ ?r) @ take (stepEnd - (current + ?k)) (drop (pos + ?k) raw))"
      using 1(1) [OF True refl l(2)] 1(2) unfolding l(1) e by simp
    moreover have "?r @ take (stepEnd - (current + ?k)) (drop (pos + ?k) raw) = take (stepEnd - current) (drop pos raw)"
    proof -
      have "take (stepEnd - current) xs = take ?k xs @ take (stepEnd - current - ?k) (drop ?k xs)" for xs :: "u8 list"
        using take_add [of ?k "stepEnd - current - ?k" xs] k by simp
      then show ?thesis by (simp add: add.commute)
    qed
    ultimately show ?thesis using True l by (subst copy_range.simps) (simp add: Let_def)
  qed (subst copy_range.simps, simp)
qed

text \<open>An index that points behind the end of the data makes the program loop.\<close>

lemma copy_range_short:
  assumes "current < stepEnd" "length raw < pos + (stepEnd - current)"
  shows "copy_range raw pos current stepEnd out = Inl Diverges"
  using assms
proof (induction raw pos current stepEnd out rule: copy_range.induct)
  case (1 raw pos current stepEnd out)
  let ?k = "min copyBufferSize (stepEnd - current)"
  let ?r = "take ?k (drop pos raw)"
  show ?case
  proof (cases "?r = []")
    case True
    then show ?thesis using 1(2) by (subst copy_range.simps) simp
  next
    case False
    have k: "0 < ?k" "?k \<le> stepEnd - current" using 1(2) by (simp_all add: copyBufferSize_def)
    have pos: "pos < length raw" using False k by (metis drop_all not_le_imp_less take_Nil)
    show ?thesis
    proof (cases "current + length ?r < stepEnd")
      case True
      have "length raw < pos + length ?r + (stepEnd - (current + length ?r))" using True 1(3) by linarith
      with 1(1) [OF 1(2) refl False True] show ?thesis using 1(2) False by (subst copy_range.simps) (simp add: Let_def)
    next
      case c: False
      have r: "length ?r \<le> length raw - pos" by simp
      have "stepEnd - current \<le> length ?r" using c by linarith
      then have "stepEnd - current \<le> length raw - pos" using r by (rule le_trans)
      then show ?thesis using 1(3) pos by arith
    qed
  qed
qed


section \<open>The joined set\<close>

text \<open>Printing a value that was read from its printed form meets no negative mantissa.\<close>

lemma round_mant_nonneg: "0 \<le> m \<Longrightarrow> 0 \<le> round_mant m k"
  by (simp add: round_mant_def Let_def pos_imp_zdiv_nonneg_iff add_increasing2)

lemma finish_printable: "0 \<le> q \<Longrightarrow> printable (finish_fp f s q x)"
  by (auto simp: finish_fp_def Let_def micros_def round_mant_nonneg)

lemma round_printable: "0 \<le> m \<Longrightarrow> printable (round_fp f s m e)"
  by (auto simp: round_fp_def Let_def finish_printable round_mant_nonneg micros_def)

lemma printable_reread: "printable a \<Longrightarrow> printable (reread a)"
proof (cases a)
  case (Fin s m e)
  assume "printable a"
  then have q: "0 \<le> micros m e" using Fin by simp
  then have "0 \<le> 2 * (micros m e * 2 ^ k div 10 ^ 6) + (if P then 0 else 1)" for k P by (simp add: pos_imp_zdiv_nonneg_iff)
  then show ?thesis by (simp add: Fin fp_of_decimal_def Let_def round_printable)
qed auto

definition merged_entry :: "nat \<Rightarrow> nat \<Rightarrow> entry \<Rightarrow> entry" where
  "merged_entry b e x = \<lparr>en_begin = b, en_end = e, en_first = en_first x, en_last = en_last x,
     en_step1 = reread (en_step1 x), en_step2 = reread (en_step2 x)\<rparr>"

definition merged_inv :: "entry list \<Rightarrow> RawHit list list \<Rightarrow> merger \<Rightarrow> bool" where
  "merged_inv es hs m \<longleftrightarrow> mg_idx m = concat (map entry_line es) \<and> list_all2 (delimits (mg_raw m)) es hs"

definition step_values :: "entry list \<Rightarrow> (fp \<times> fp) list" where
  "step_values = map (\<lambda>e. (en_step1 e, en_step2 e))"

lemma delimits_bounds: "delimits raw e h \<Longrightarrow> en_begin e \<le> en_end e \<and> en_end e \<le> length raw"
  by (auto simp: delimits_def)

lemma merge_step_ok:
  assumes d: "delimits raw e h" "length raw < 2 ^ 63" and m: "merged_inv es hs m"
  shows "\<exists>pos' m' e'. merge_step raw (entry_step e) (pos, m) = Inr (pos', m') \<and> merged_inv (es @ [e']) (hs @ [h]) m'
     \<and> (\<exists>later. mg_raw m' = mg_raw m @ later \<and> length later \<le> length raw) \<and> step_values [e'] = [(reread (en_step1 e), reread (en_step2 e))]"
proof -
  obtain pre fs post where
    f: "raw = pre @ bytes_of (concat fs) @ post" "en_begin e = length pre"
      "en_end e = length pre + 8 * length (concat fs)" "\<forall>ws \<in> set fs. counted_frame ws" "concat (map frame_hits fs) = h"
    and r: "-1 \<le> en_first e \<and> en_first e < 2 ^ 36 \<and> -1 \<le> en_last e \<and> en_last e < 2 ^ 36"
    using d(1) by (auto simp: delimits_def)
  have sk: "seek_set (length pre) pos = length pre" using d(2) f(1) by (simp add: seek_set_def)
  have n: "en_end e - en_begin e = 8 * length (concat fs)" using f(2,3) by simp
  have c: "copy_range raw (length pre) (en_begin e) (en_end e) (mg_raw m) = Inr (en_end e, mg_raw m @ bytes_of (concat fs))"
    using copy_range_ok [of "length pre" "en_end e" "en_begin e" raw "mg_raw m"] unfolding n using f by simp
  let ?out = "mg_raw m @ bytes_of (concat fs)"
  let ?e = "merged_entry (length (mg_raw m)) (length ?out) e"
  let ?m = "\<lparr>mg_raw = ?out, mg_idx = mg_idx m @ entry_line ?e\<rparr>"
  have s: "merge_step raw (entry_step e) (pos, m) = Inr (en_end e, ?m)"
    using c sk by (simp add: merge_step_def entry_step_def f(2) entry_line_def merged_entry_def)
  have "delimits ?out ?e h" unfolding delimits_def
    using f(4,5) r by (intro conjI exI [of _ "mg_raw m"] exI [of _ fs] exI [of _ "[]"]) (simp_all add: merged_entry_def)
  then have "merged_inv (es @ [?e]) (hs @ [h]) ?m"
    using m by (auto simp: merged_inv_def intro!: list_all2_appendI intro: list_all2_mono delimits_append)
  with s show ?thesis
    by (intro exI [of _ "en_end e"] exI [of _ ?m] exI [of _ ?e]) (auto simp: step_values_def merged_entry_def f(1))
qed

lemma merge_steps_ok:
  assumes "list_all2 (delimits raw) xs gs" "length raw < 2 ^ 63" "merged_inv es hs m"
  shows "\<exists>pos' m' es'. rfold (merge_step raw) (map entry_step xs) (pos, m) = Inr (pos', m') \<and> merged_inv (es @ es') (hs @ gs) m'
     \<and> (\<exists>later. mg_raw m' = mg_raw m @ later \<and> length later \<le> length xs * length raw) \<and> step_values es' = map (\<lambda>x. (reread (en_step1 x), reread (en_step2 x))) xs"
  using assms
proof (induction xs gs arbitrary: es hs pos m rule: list_all2_induct)
  case Nil
  then show ?case by (intro exI [of _ "[]"] exI conjI) (auto simp: step_values_def)
next
  case (Cons x xs g gs)
  from merge_step_ok [OF Cons(1,4,5), of pos] obtain p1 m1 e1 l1 where 1: "merge_step raw (entry_step x) (pos, m) = Inr (p1, m1)"
    "merged_inv (es @ [e1]) (hs @ [g]) m1" "mg_raw m1 = mg_raw m @ l1" "length l1 \<le> length raw" "step_values [e1] = [(reread (en_step1 x), reread (en_step2 x))]"
    by blast
  from Cons.IH [OF Cons(4) 1(2), of p1] obtain p2 m2 es2 l2 where 2: "rfold (merge_step raw) (map entry_step xs) (p1, m1) = Inr (p2, m2)"
    "merged_inv ((es @ [e1]) @ es2) ((hs @ [g]) @ gs) m2" "mg_raw m2 = mg_raw m1 @ l2" "length l2 \<le> length xs * length raw"
    "step_values es2 = map (\<lambda>x. (reread (en_step1 x), reread (en_step2 x))) xs" by blast
  show ?case using 1 2 by (intro exI [of _ p2] exI [of _ m2] exI [of _ "e1 # es2"]) (simp add: step_values_def)
qed


text \<open>A data set whose index cuts its data into steps of whole frames.\<close>

definition holds_steps :: "data_set \<Rightarrow> entry list \<Rightarrow> RawHit list list \<Rightarrow> u8 list \<Rightarrow> bool" where
  "holds_steps d xs hs raw \<longleftrightarrow> ds_rawf d = Some raw \<and> ds_idxf d = Some (concat (map entry_line xs)) \<and> 64 \<le> length raw
     \<and> length raw < 2 ^ 63 \<and> list_all entry_ok xs \<and> list_all2 (delimits raw) xs hs"

definition reread_values :: "entry list \<Rightarrow> (fp \<times> fp) list" where
  "reread_values = map (\<lambda>x. (reread (en_step1 x), reread (en_step2 x)))"

lemma merge_input_ok:
  assumes d: "holds_steps d xs gs raw" and m: "merged_inv es hs m"
  shows "\<exists>m' es'. merge_input junk d m = Inr m' \<and> merged_inv (es @ es') (hs @ gs) m'
     \<and> (\<exists>later. mg_raw m' = mg_raw m @ take 64 raw @ later \<and> length later \<le> length gs * length raw) \<and> step_values es' = reread_values xs"
proof -
  let ?m = "m\<lparr>mg_raw := mg_raw m @ take 64 raw\<rparr>"
  have d': "ds_rawf d = Some raw" "ds_idxf d = Some (concat (map entry_line xs))" "64 \<le> length raw" "length raw < 2 ^ 63"
    "list_all entry_ok xs" "list_all2 (delimits raw) xs gs" using d by (simp_all add: holds_steps_def)
  have len: "length xs = length gs" using d'(6) by (rule list_all2_lengthD)
  have "merged_inv es hs ?m" using m by (auto simp: merged_inv_def intro: list_all2_mono delimits_append)
  from merge_steps_ok [OF d'(6,4) this, of 64] obtain pos' m' es' l where
    s: "rfold (merge_step raw) (map entry_step xs) (64, ?m) = Inr (pos', m')" "merged_inv (es @ es') (hs @ gs) m'"
      "mg_raw m' = (mg_raw m @ take 64 raw) @ l" "length l \<le> length xs * length raw"
      "step_values es' = map (\<lambda>x. (reread (en_step1 x), reread (en_step2 x))) xs" by auto
  have "scan_records idx_format 6 (concat (map entry_line xs)) = Inr (map entry_args xs)" using scan_entries [OF d'(5), of "[]"] by simp
  then have "merge_input junk d m = Inr m'" using d'(1-3) s(1) by (simp add: merge_input_def comp_def step_of_entry Let_def)
  with s len show ?thesis by (intro exI [of _ m'] exI [of _ es']) (auto simp: reread_values_def)
qed

text \<open>Inputs as their data set, index, steps and data.\<close>

type_synonym input_set = "data_set \<times> entry list \<times> RawHit list list \<times> u8 list"

definition input_steps :: "input_set list \<Rightarrow> RawHit list list" where
  "input_steps ins = concat (map (\<lambda>(d, xs, hs, raw). hs) ins)"

definition input_values :: "input_set list \<Rightarrow> (fp \<times> fp) list" where
  "input_values ins = concat (map (\<lambda>(d, xs, hs, raw). reread_values xs) ins)"

definition input_size :: "input_set list \<Rightarrow> nat" where
  "input_size ins = sum_list (map (\<lambda>(d, xs, hs, raw). 64 + length hs * length raw) ins)"

lemma merge_inputs_ok:
  assumes "\<forall>(d, xs, hs, raw) \<in> set ins. holds_steps d xs hs raw" "\<forall>i < length ins. files (names ! i) = fst (ins ! i)"
    "length names = length ins" "\<forall>n \<in> set names. name_fits n" "k \<le> length ins"
  shows "\<exists>m es. rfold (\<lambda>i m. if \<not> i < length names then Inl Unspecified else if \<not> name_fits (names ! i) then Inl OutOfBounds
        else merge_input (junk i) (files (names ! i)) m) [0..<k] \<lparr>mg_raw = [], mg_idx = []\<rparr> = Inr m
     \<and> merged_inv es (input_steps (take k ins)) m \<and> step_values es = input_values (take k ins) \<and> length (mg_raw m) \<le> input_size (take k ins)
     \<and> (0 < k \<longrightarrow> take 64 (mg_raw m) = take 64 (snd (snd (snd (ins ! 0)))))"
  using assms(5)
proof (induction k)
  case 0
  show ?case
    by (intro exI [of _ "\<lparr>mg_raw = [], mg_idx = []\<rparr>"] exI [of _ "[]"])
      (simp add: merged_inv_def input_steps_def input_values_def step_values_def)
next
  case (Suc k)
  let ?f = "\<lambda>i m. if \<not> i < length names then Inl Unspecified else if \<not> name_fits (names ! i) then Inl OutOfBounds
        else merge_input (junk i) (files (names ! i)) m"
  obtain d xs gs raw where i: "ins ! k = (d, xs, gs, raw)" by (metis prod_cases4)
  have k: "k < length ins" using Suc.prems by simp
  have h: "holds_steps d xs gs raw" using assms(1) nth_mem [OF k] i by auto
  have t: "take (Suc k) ins = take k ins @ [(d, xs, gs, raw)]" using k i by (simp add: take_Suc_conv_app_nth)
  from Suc obtain m es where m: "rfold ?f [0..<k] \<lparr>mg_raw = [], mg_idx = []\<rparr> = Inr m" "merged_inv es (input_steps (take k ins)) m"
    "step_values es = input_values (take k ins)" "length (mg_raw m) \<le> input_size (take k ins)"
    "0 < k \<longrightarrow> take 64 (mg_raw m) = take 64 (snd (snd (snd (ins ! 0))))" by (meson Suc_leD)
  from merge_input_ok [OF h m(2), of "junk k"] obtain m' es' l where n: "merge_input (junk k) d m = Inr m'"
    "merged_inv (es @ es') (input_steps (take k ins) @ gs) m'" "mg_raw m' = mg_raw m @ take 64 raw @ l" "length l \<le> length gs * length raw"
    "step_values es' = reread_values xs" by blast
  have f: "?f k m = Inr m'" using n(1) assms(2-4) k i by simp
  have l64: "length (take 64 raw) = 64" using h by (simp add: holds_steps_def)
  have head: "take 64 (mg_raw m') = take 64 (snd (snd (snd (ins ! 0))))"
  proof (cases k)
    case 0
    then have "mg_raw m = []" using m(1) by auto
    then show ?thesis using n(3) l64 i 0 by simp
  next
    case (Suc j)
    then have e: "take 64 (mg_raw m) = take 64 (snd (snd (snd (ins ! 0))))" using m(5) by simp
    have "0 < length ins" using k by linarith
    then have "ins ! 0 \<in> set ins" by (rule nth_mem)
    with assms(1) have "64 \<le> length (snd (snd (snd (ins ! 0))))" by (cases "ins ! 0") (auto simp: holds_steps_def)
    then have "64 \<le> length (mg_raw m)" using arg_cong [OF e, of length] by simp
    then show ?thesis using n(3) e by simp
  qed
  show ?case
    using m(1,3,4) n(2-5) f l64 head
    by (intro exI [of _ m'] exI [of _ "es @ es'"])
      (simp add: t rfold_append input_steps_def input_values_def input_size_def step_values_def)
qed

text \<open>The two files of the joined set.\<close>

definition merged_set :: "merger \<Rightarrow> data_set" where
  "merged_set m = \<lparr>ds_idxf = Some (mg_idx m), ds_rawf = Some (mg_raw m), ds_modf = None\<rparr>"

lemma reread_printable: "list_all entry_ok xs \<Longrightarrow> v \<in> set (reread_values xs) \<Longrightarrow> printable (fst v) \<and> printable (snd v)"
  by (auto simp: reread_values_def list_all_iff entry_ok_def printable_reread)

lemma merged_entries_ok:
  assumes "merged_inv es hs m" "\<forall>v \<in> set (step_values es). printable (fst v) \<and> printable (snd v)" "length (mg_raw m) < 2 ^ 64"
  shows "list_all entry_ok es"
proof -
  have "entry_ok e" if e: "e \<in> set es" for e
  proof -
    obtain h where "delimits (mg_raw m) e h" using assms(1) e by (auto simp: merged_inv_def list_all2_conv_all_nth in_set_conv_nth)
    then have "en_begin e \<le> length (mg_raw m)" "en_end e \<le> length (mg_raw m)" "-1 \<le> en_first e" "en_first e < 2 ^ 36"
      "-1 \<le> en_last e" "en_last e < 2 ^ 36" by (auto simp: delimits_def)
    with assms(2,3) e show ?thesis by (auto simp: entry_ok_def step_values_def)
  qed
  then show ?thesis by (simp add: list_all_iff)
qed

text \<open>A joined set that holds steps, read with the header of the first input.\<close>

lemma merged_read:
  assumes inv: "merged_inv es hs m" and eok: "list_all entry_ok es"
    and hd: "take 64 (mg_raw m) = bytes_of hdr" "length hdr = 8" "hdr ! 3 = 0" and rd: "wf_frame frame0" "\<forall>q. 1 \<le> rd q"
  shows "\<exists>r. openFile E junk (merged_set m) = Inr r \<and> getNSteps r = length hs \<and> rr_frequency r = ucast (hdr ! 0 AND 0xFFFFFFFF)
     \<and> (\<forall>k < length hs. getStepValue r k = Inr (reread (fst (step_values es ! k)), reread (snd (step_values es ! k)))
       \<and> (\<exists>st bufs. processStep junkb frame0 rd r k = Inr st
         \<and> ps_sink st = PushT0 (fp_of_int F64 0) # map PushEvents bufs @ [Finish] \<and> concat (map abs_contents bufs) = hs ! k))"
proof -
  have all: "list_all2 (delimits (mg_raw m)) es hs" and mi: "mg_idx m = concat (map entry_line es)" using inv by (simp_all add: merged_inv_def)
  obtain r where r: "openFile E junk (merged_set m) = Inr r" "rr_steps r = map entry_step es" "rr_dataFile r = mg_raw m"
    "rr_frequency r = ucast (hdr ! 0 AND 0xFFFFFFFF)"
    using open_index [OF eok hd] by (simp add: merged_set_def mi)
  have len: "length es = length hs" using all by (rule list_all2_lengthD)
  have step: "getStepValue r k = Inr (reread (fst (step_values es ! k)), reread (snd (step_values es ! k)))
       \<and> (\<exists>st bufs. processStep junkb frame0 rd r k = Inr st
         \<and> ps_sink st = PushT0 (fp_of_int F64 0) # map PushEvents bufs @ [Finish] \<and> concat (map abs_contents bufs) = hs ! k)"
    if k: "k < length hs" for k
  proof -
    have i: "idx (rr_steps r) k = Inr (entry_step (es ! k))" using k len by (simp add: r(2))
    have "delimits (rr_dataFile r) (es ! k) (hs ! k)" using list_all2_nthD2 [OF all k] by (simp add: r(3))
    from delimited_step_read [OF this i rd, of junkb] show ?thesis
      using i k len by (simp add: getStepValue_def entry_step_def step_values_def)
  qed
  then show ?thesis using r(1,2,4) len by (intro exI [of _ r]) (simp add: getNSteps_def)
qed

section \<open>From the acquisition to the joined set\<close>

text \<open>A run of the writer of raw data: its arguments, its blocks, and what it leaves.\<close>

type_synonym acquisition = "arguments \<times> (BlockHeader \<times> SHM_RAW) list \<times> writer"

definition acquired :: "u8 list \<Rightarrow> acquisition \<Rightarrow> bool" where
  "acquired pad = (\<lambda>(a, bs, w). acqStdMode a \<and> list_all good_block bs
     \<and> list_all (\<lambda>(h, ring). printable (bh_step1 h) \<and> printable (bh_step2 h)) bs
     \<and> write_raw pad a bs = Inr w \<and> length (w_dataFile w) < 2 ^ 63)"

definition acquired_steps :: "acquisition list \<Rightarrow> RawHit list list" where
  "acquired_steps acqs = concat (map (\<lambda>(a, bs, w). steps_of [] bs) acqs)"

text \<open>The values of a step after the given number of times they were printed and read.\<close>

definition acquired_values :: "acquisition list \<Rightarrow> (fp \<times> fp) list" where
  "acquired_values acqs = concat (map (\<lambda>(a, bs, w). map (\<lambda>(h, _). (bh_step1 h, bh_step2 h)) (filter (\<lambda>b. bh_endOfStep (fst b) \<noteq> 0) bs)) acqs)"

definition acquired_size :: "acquisition list \<Rightarrow> nat" where
  "acquired_size acqs = sum_list (map (\<lambda>(a, bs, w). 64 + length (steps_of [] bs) * length (w_dataFile w)) acqs)"

lemma acquired_holds:
  assumes "acquired pad (a, bs, w)"
  shows "\<exists>xs. holds_steps (written_set w) xs (steps_of [] bs) (w_dataFile w) \<and> take 64 (w_dataFile w) = bytes_of (file_header a)
     \<and> step_values xs = map (\<lambda>(h, _). (bh_step1 h, bh_step2 h)) (filter (\<lambda>b. bh_endOfStep (fst b) \<noteq> 0) bs)"
proof -
  have a: "acqStdMode a" "list_all good_block bs" "\<forall>(h, ring) \<in> set bs. printable (bh_step1 h) \<and> printable (bh_step2 h)"
    "write_raw pad a bs = Inr w" "length (w_dataFile w) < 2 ^ 63" "length (w_dataFile w) < 2 ^ 64"
    using assms by (auto simp: acquired_def list_all_iff)
  obtain es cur where inv: "steps_inv (bytes_of (file_header a)) es (steps_of [] bs) cur w" and eok: "list_all entry_ok es" and
    vals: "map (\<lambda>e. (en_step1 e, en_step2 e)) es = map (\<lambda>(h, _). (bh_step1 h, bh_step2 h)) (filter (\<lambda>b. bh_endOfStep (fst b) \<noteq> 0) bs)"
    using a(1-4,6) by (rule written_entries)
  have "64 \<le> length (w_dataFile w)" using inv by (auto simp: steps_inv_def open_step_def)
  then have "holds_steps (written_set w) es (steps_of [] bs) (w_dataFile w)"
    using inv eok a(5) by (simp add: holds_steps_def written_set_def steps_inv_def)
  with inv vals show ?thesis by (intro exI [of _ es]) (simp add: steps_inv_def step_values_def)
qed

definition represents :: "acquisition \<Rightarrow> input_set \<Rightarrow> bool" where
  "represents = (\<lambda>(a, bs, w) (d, xs, hs, raw). d = written_set w \<and> raw = w_dataFile w \<and> hs = steps_of [] bs
     \<and> take 64 raw = bytes_of (file_header a)
     \<and> step_values xs = map (\<lambda>(h, _). (bh_step1 h, bh_step2 h)) (filter (\<lambda>b. bh_endOfStep (fst b) \<noteq> 0) bs)
     \<and> holds_steps d xs hs raw)"

lemma acquired_inputs: "list_all (acquired pad) acqs \<Longrightarrow> \<exists>ins. list_all2 represents acqs ins"
proof (induction acqs)
  case Nil
  show ?case by (rule exI [of _ "[]"]) simp
next
  case (Cons x acqs)
  obtain a bs w where x: "x = (a, bs, w)" by (cases x)
  from Cons obtain ins where ins: "list_all2 represents acqs ins" by auto
  from acquired_holds [of pad a bs w] Cons.prems x obtain xs where
    "holds_steps (written_set w) xs (steps_of [] bs) (w_dataFile w)" "take 64 (w_dataFile w) = bytes_of (file_header a)"
    "step_values xs = map (\<lambda>(h, _). (bh_step1 h, bh_step2 h)) (filter (\<lambda>b. bh_endOfStep (fst b) \<noteq> 0) bs)" by auto
  with ins show ?case
    by (intro exI [of _ "(written_set w, xs, steps_of [] bs, w_dataFile w) # ins"]) (simp add: x represents_def)
qed

abbreviation reread_pair :: "fp \<times> fp \<Rightarrow> fp \<times> fp" where
  "reread_pair \<equiv> map_prod reread reread"

lemma represented:
  assumes "list_all2 represents acqs ins"
  shows "input_steps ins = acquired_steps acqs" "input_values ins = map reread_pair (acquired_values acqs)"
    "input_size ins = acquired_size acqs" "\<forall>(d, xs, hs, raw) \<in> set ins. holds_steps d xs hs raw" "length ins = length acqs"
proof -
  have v: "reread_values xs = map reread_pair (step_values xs)" for xs by (simp add: reread_values_def step_values_def)
  show "input_steps ins = acquired_steps acqs" using assms
    by (induction rule: list_all2_induct) (auto simp: represents_def input_steps_def acquired_steps_def)
  show "input_values ins = map reread_pair (acquired_values acqs)" using assms
    by (induction rule: list_all2_induct) (auto simp: represents_def input_values_def acquired_values_def v)
  show "input_size ins = acquired_size acqs" using assms
    by (induction rule: list_all2_induct) (auto simp: represents_def input_size_def acquired_size_def)
  show "\<forall>(d, xs, hs, raw) \<in> set ins. holds_steps d xs hs raw" using assms
    by (induction rule: list_all2_induct) (auto simp: represents_def)
  show "length ins = length acqs" using assms by (simp add: list_all2_lengthD)
qed

text \<open>
  C31: Data sets that were written one by one are read from the joined set as one: joining any number of runs of the writer of raw data ends
  without a fault, and the reader opens the result with the frequency of the first, finds the steps of all of them one after another with their
  step values (printed and read twice), and hands on for each step exactly the events the ring held.
\<close>

theorem merged_sets_are_read:
  assumes acqs: "list_all (acquired pad) acqs" "acqs \<noteq> []" "acqMode (fst (hd acqs)) \<noteq> ''mixed''" "acquired_size acqs < 2 ^ 64"
    and args: "parse_int P number = Inr (int (length acqs))" "list_all name_fits (prefix # names)"
      "map files names = map (\<lambda>(a, bs, w). written_set w) acqs"
    and rd: "wf_frame frame0" "\<forall>q. 1 \<le> rd q"
  shows "\<exists>m r. merge_raw P files junk (prefix # number # names) = Inr m \<and> openFile E junkq (merged_set m) = Inr r
     \<and> getNSteps r = length (acquired_steps acqs) \<and> rr_frequency r = word_of_int (systemFrequency (fst (hd acqs)))
     \<and> (\<forall>k < length (acquired_steps acqs). (let (v1, v2) = acquired_values acqs ! k
         in getStepValue r k = Inr (reread (reread v1), reread (reread v2)))
       \<and> (\<exists>st bufs. processStep junkb frame0 rd r k = Inr st
         \<and> ps_sink st = PushT0 (fp_of_int F64 0) # map PushEvents bufs @ [Finish]
         \<and> concat (map abs_contents bufs) = acquired_steps acqs ! k))"
proof -
  obtain ins where ins: "list_all2 represents acqs ins" using acquired_inputs [OF acqs(1)] by blast
  note rp = represented [OF ins]
  have ln: "length names = length ins" using arg_cong [OF args(3), of length] rp(5) by simp
  have fl: "\<forall>i < length ins. files (names ! i) = fst (ins ! i)"
  proof (intro allI impI)
    fix i assume i: "i < length ins"
    then have "files (names ! i) = (case acqs ! i of (a, bs, w) \<Rightarrow> written_set w)"
      using arg_cong [OF args(3), of "\<lambda>l. l ! i"] ln rp(5) by simp
    moreover have "represents (acqs ! i) (ins ! i)" using list_all2_nthD2 [OF ins i] .
    ultimately show "files (names ! i) = fst (ins ! i)" by (cases "ins ! i") (auto simp: represents_def split: prod.splits)
  qed
  have nf: "\<forall>n \<in> set names. name_fits n" using args(2) by (simp add: list_all_iff)
  from merge_inputs_ok [OF rp(4) fl ln nf order.refl, of junk] obtain m es where
    m1: "rfold (\<lambda>i m. if \<not> i < length names then Inl Unspecified else if \<not> name_fits (names ! i) then Inl OutOfBounds
        else merge_input (junk i) (files (names ! i)) m) [0..<length ins] \<lparr>mg_raw = [], mg_idx = []\<rparr> = Inr m"
      "merged_inv es (input_steps (take (length ins) ins)) m" "step_values es = input_values (take (length ins) ins)"
      "length (mg_raw m) \<le> input_size (take (length ins) ins)"
      "0 < length ins \<longrightarrow> take 64 (mg_raw m) = take 64 (snd (snd (snd (ins ! 0))))" by blast
  have m: "merged_inv es (acquired_steps acqs) m" "step_values es = map reread_pair (acquired_values acqs)" "length (mg_raw m) < 2 ^ 64"
    using m1(2-4) acqs(4) by (simp_all add: rp)
  have run: "merge_raw P files junk (prefix # number # names) = Inr m" using args(1,2) m1(1) by (simp add: merge_raw_def rp(5))
  obtain a bs w where a: "hd acqs = (a, bs, w)" by (cases "hd acqs")
  have "0 < length ins" using acqs(2) rp(5) by simp
  from list_all2_nthD2 [OF ins this] have "represents (a, bs, w) (ins ! 0)" using a acqs(2) by (simp add: hd_conv_nth)
  then have "take 64 (snd (snd (snd (ins ! 0)))) = bytes_of (file_header a)" by (cases "ins ! 0") (simp add: represents_def)
  then have hd: "take 64 (mg_raw m) = bytes_of (file_header a)" "length (file_header a) = 8" "file_header a ! 3 = 0"
    using m1(5) \<open>0 < length ins\<close> acqs(3) a by (auto simp: file_header_def Let_def header_fields(1))
  have "\<forall>v \<in> set (input_values ins). printable (fst v) \<and> printable (snd v)"
    using rp(4) reread_printable by (fastforce simp: input_values_def holds_steps_def)
  then have eok: "list_all entry_ok es" using merged_entries_ok [OF m(1) _ m(3)] m(2) rp(2) by simp
  from merged_read [OF m(1) eok hd rd, of E junkq junkb] obtain r where
    r: "openFile E junkq (merged_set m) = Inr r" "getNSteps r = length (acquired_steps acqs)"
      "rr_frequency r = word_of_int (systemFrequency a)"
      "\<forall>k < length (acquired_steps acqs). getStepValue r k = Inr (reread (fst (step_values es ! k)), reread (snd (step_values es ! k)))
       \<and> (\<exists>st bufs. processStep junkb frame0 rd r k = Inr st
         \<and> ps_sink st = PushT0 (fp_of_int F64 0) # map PushEvents bufs @ [Finish] \<and> concat (map abs_contents bufs) = acquired_steps acqs ! k)"
    unfolding header_frequency by blast
  have "length (acquired_values acqs) = length (acquired_steps acqs)"
    using arg_cong [OF m(2), of length] m(1) list_all2_lengthD [of "delimits (mg_raw m)" es "acquired_steps acqs"]
    by (simp add: step_values_def merged_inv_def)
  then have "let (v1, v2) = acquired_values acqs ! k in getStepValue r k = Inr (reread (reread v1), reread (reread v2))"
    if "k < length (acquired_steps acqs)" for k
    using that r(4) by (simp add: m(2) split: prod.split)
  with run r a show ?thesis by (intro exI [of _ m] exI [of _ r]) simp
qed

lemma merged_sets_witness:
  "\<exists>w m r st bufs. write_raw [] example_arguments example_blocks = Inr w
     \<and> merge_raw \<lparr>lexical_cast_int = (\<lambda>_. Some 2), lexical_cast_float = (\<lambda>_. None)\<rparr> (\<lambda>_. written_set w) (\<lambda>_. [])
         [''all'', ''2'', ''run1'', ''run2''] = Inr m
     \<and> openFile std_externals (\<lambda>_. False) (merged_set m) = Inr r \<and> getNSteps r = 2
     \<and> processStep (\<lambda>_ _. abs_hit 0 (RawEventWord 0)) \<lparr>data = replicate 2048 0\<rparr> (\<lambda>q. q mod 3 + 1) r 1 = Inr st
     \<and> concat (map abs_contents bufs) = frame_hits example_words \<and> length (frame_hits example_words) = 1"
proof -
  obtain w where w: "write_raw [] example_arguments example_blocks = Inr w" "length (w_dataFile w) \<le> 128"
    using example_written_size by blast
  let ?acqs = "[(example_arguments, example_blocks, w), (example_arguments, example_blocks, w)]"
  let ?P = "\<lparr>lexical_cast_int = (\<lambda>_. Some 2), lexical_cast_float = (\<lambda>_. None)\<rparr>"
  have a: "list_all (acquired []) ?acqs" "?acqs \<noteq> []" "acqMode (fst (hd ?acqs)) \<noteq> ''mixed''" "acquired_size ?acqs < 2 ^ 64"
    using w example_blocks_facts by (auto simp: acquired_def example_arguments_def list_all_iff acquired_size_def)
  have b: "parse_int ?P ''2'' = Inr (int (length ?acqs))" "list_all name_fits [''all'', ''run1'', ''run2'']"
    "map (\<lambda>_. written_set w) [''run1'', ''run2''] = map (\<lambda>(a, bs, w). written_set w) ?acqs"
    by (simp_all add: parse_int_def fit_signed_def name_fits_def)
  have c: "wf_frame \<lparr>data = replicate 2048 0\<rparr>" "\<forall>q :: nat. 1 \<le> q mod 3 + 1" by (simp_all add: wf_frame_def MaxRawDataFrameSize_def)
  have s: "acquired_steps ?acqs = [frame_hits example_words, frame_hits example_words]"
    by (simp add: acquired_steps_def example_blocks_facts(2))
  from merged_sets_are_read [OF a b c, of "\<lambda>_. []" std_externals "\<lambda>_. False" "\<lambda>_ _. abs_hit 0 (RawEventWord 0)"] obtain m r where
    "merge_raw ?P (\<lambda>_. written_set w) (\<lambda>_. []) [''all'', ''2'', ''run1'', ''run2''] = Inr m"
    "openFile std_externals (\<lambda>_. False) (merged_set m) = Inr r" "getNSteps r = length (acquired_steps ?acqs)"
    "\<exists>st bufs. processStep (\<lambda>_ _. abs_hit 0 (RawEventWord 0)) \<lparr>data = replicate 2048 0\<rparr> (\<lambda>q. q mod 3 + 1) r 1 = Inr st
         \<and> concat (map abs_contents bufs) = acquired_steps ?acqs ! 1" unfolding s by force
  then show ?thesis unfolding s using w(1) example_frame_facts(3) by auto
qed

end
