(* ===== verification/Calibration_Sort.thy ===== *)
theory Calibration_Sort
  imports Data_Set
begin

text \<open>
  What petsys_util/process_tdc_calibration.cpp and petsys_util/process_qdc_calibration.cpp share: \<open>sortData\<close>, which splits the records of
  calibration data among temporary files, one per chip, and lists these in another file, the loop that calibrates the chips in
  processes of their own, and the removal of the temporary files. What is kept of an event is an argument.
\<close>

section \<open>Reading calibration data\<close>

definition MAX_N_ASIC :: nat where
  "MAX_N_ASIC = 32 * 32 * 64"

definition sizeof_RawCalibrationData :: nat where
  "sizeof_RawCalibrationData = 32"

text \<open>The event word and its count, from 32 bytes of memory.\<close>

definition raw_record :: "u8 list \<Rightarrow> CalibrationData" where
  "raw_record bs =
     \<lparr>cd_eventWord = RawEventWord (ucast (of_le (take 8 bs)) OR push_bit 64 (ucast (of_le (take 8 (drop 8 bs))))),
      cd_freq = sint (ucast (of_le (take 4 (drop 16 bs))) :: u32)\<rparr>"

function raw_records :: "u8 list \<Rightarrow> CalibrationData list" where
  "raw_records bs =
     (if length bs < sizeof_RawCalibrationData then []
      else raw_record (take sizeof_RawCalibrationData bs) # raw_records (drop sizeof_RawCalibrationData bs))"
  by pat_completeness auto
termination
  by (relation "measure length") (auto simp: sizeof_RawCalibrationData_def)

declare raw_records.simps [simp del]

text \<open>
  The block of a step: \<open>junk\<close> is the memory allocated for it, which a short \<open>fread\<close> leaves as it was, and \<open>pos\<close> the position of the data
  file, which a seek to a negative offset does not change. The difference of the offsets is divided as an unsigned number, so
  a negative one is far too large for \<open>new\<close>.
\<close>

definition read_block :: "(nat \<Rightarrow> u8) \<Rightarrow> u8 list \<Rightarrow> int \<Rightarrow> int \<Rightarrow> nat \<Rightarrow> fault + CalibrationData list \<times> nat" where
  "read_block junk raw startOffset endOffset pos =
     (if endOffset < startOffset then Inl AssertFail
      else
        let pos = (if startOffset < 0 then pos else nat startOffset);
            n = nat (endOffset - startOffset) div sizeof_RawCalibrationData * sizeof_RawCalibrationData;
            bs = take n (drop pos raw)
        in Inr (raw_records (bs @ map junk [length bs..<n]), pos + length bs))"

section \<open>The temporary files\<close>

text \<open>The file of a chip by its number: its name and the records written.\<close>

record 'r sorting =
  so_files :: "nat \<Rightarrow> (string \<times> 'r list) option"
  so_maxgAsicID :: nat
  so_pos :: nat

definition maxWorkFiles :: nat where
  "maxWorkFiles = MAX_N_ASIC * 32 div 32"

definition show_02u :: "nat \<Rightarrow> string" where
  "show_02u n = (if n < 10 then ''0'' else []) @ show_nat n"

definition tmp_name :: "string \<Rightarrow> u32 \<Rightarrow> string" where
  "tmp_name prefix gChannelID =
     (let chipID = drop_bit 5 gChannelID mod 64; slaveID = drop_bit 11 gChannelID mod 32; portID = drop_bit 16 gChannelID mod 32
      in prefix @ ''_'' @ show_02u (unat portID) @ ''_'' @ show_02u (unat slaveID) @ ''_'' @ show_02u (unat chipID) @ ''_data.tmp'')"

text \<open>Temporary files can be created. \<open>rec step1 c\<close> are the records written for the raw record \<open>c\<close>.\<close>

definition sort_record :: "(fp \<Rightarrow> CalibrationData \<Rightarrow> 'r list) \<Rightarrow> string \<Rightarrow> fp \<Rightarrow> CalibrationData \<Rightarrow> 'r sorting \<Rightarrow> fault + 'r sorting" where
  "sort_record rec prefix step1 c s =
     (let gChannelID = getChannelID (cd_eventWord c);
          gAsicID = unat (drop_bit 5 gChannelID);
          s = s\<lparr>so_maxgAsicID := max (so_maxgAsicID s) gAsicID\<rparr>
      in if \<not> gAsicID < maxWorkFiles then Inl OutOfBounds
         else
           case so_files s gAsicID of
             Some (fn, rs) \<Rightarrow> Inr (s\<lparr>so_files := (so_files s)(gAsicID \<mapsto> (fn, rs @ rec step1 c))\<rparr>)
           | None \<Rightarrow>
               let fn = tmp_name prefix gChannelID in
               if \<not> length fn < 1024 then Inl OutOfBounds
               else Inr (s\<lparr>so_files := (so_files s)(gAsicID \<mapsto> (fn, rec step1 c))\<rparr>))"

definition calibration_format :: "directive list" where
  "calibration_format = [DInt 64, WS, DInt 64, WS, Skip (DInt 64), WS, Skip (DInt 64), WS, DFloat, WS, DFloat, WS]"

definition sort_step ::
  "(fp \<Rightarrow> CalibrationData \<Rightarrow> 'r list) \<Rightarrow> string \<Rightarrow> (nat \<Rightarrow> u8) \<Rightarrow> u8 list \<Rightarrow> arg list \<Rightarrow> 'r sorting \<Rightarrow> fault + 'r sorting" where
  "sort_step rec prefix junk raw as s =
     rbind (read_block junk raw (arg_i (as ! 0)) (arg_i (as ! 1)) (so_pos s)) (\<lambda>(cs, pos).
     rfold (sort_record rec prefix (arg_f (as ! 2))) cs (s\<lparr>so_pos := pos\<rparr>))"

text \<open>What is left on disk: the list file, and the temporary files by name.\<close>

record 'r temporary =
  tf_list :: string
  tf_data :: "string \<Rightarrow> 'r list option"

definition list_line :: "nat \<Rightarrow> string \<Rightarrow> string" where
  "list_line gAsicID fn = show_nat gAsicID @ '' '' @ fn @ [NL]"

definition write_list :: "'r sorting \<Rightarrow> string" where
  "write_list s =
     concat (map (\<lambda>gAsicID. case so_files s gAsicID of None \<Rightarrow> [] | Some (fn, rs) \<Rightarrow> list_line gAsicID fn) [0..<so_maxgAsicID s + 1])"

definition named_file :: "'r sorting \<Rightarrow> string \<Rightarrow> 'r list option" where
  "named_file s name =
     map_of (concat (map (\<lambda>gAsicID. case so_files s gAsicID of None \<Rightarrow> [] | Some f \<Rightarrow> [f]) [0..<so_maxgAsicID s + 1])) name"

definition sortData :: "(fp \<Rightarrow> CalibrationData \<Rightarrow> 'r list) \<Rightarrow> (nat \<Rightarrow> nat \<Rightarrow> u8) \<Rightarrow> data_set \<Rightarrow> string \<Rightarrow> fault + 'r temporary" where
  "sortData rec junk d tmpFilePrefix =
     (case ds_idxf d of
        None \<Rightarrow> Inl (Exit 1)
      | Some index \<Rightarrow>
        (case ds_rawf d of
           None \<Rightarrow> Inl (Exit 1)
         | Some raw \<Rightarrow>
             if \<not> length tmpFilePrefix + 9 < 1024 then Inl OutOfBounds
             else
             rbind (scan_records calibration_format 4 index) (\<lambda>rs.
             rbind (rfold (\<lambda>(n, as). sort_step rec tmpFilePrefix (junk n) raw as) (enumerate 0 rs)
                \<lparr>so_files = (\<lambda>_. None), so_maxgAsicID = 0, so_pos = 0\<rparr>) (\<lambda>s.
             Inr \<lparr>tf_list = write_list s, tf_data = named_file s\<rparr>))))"

section \<open>The chips one by one\<close>

definition list_format :: "directive list" where
  "list_format = [DUInt 64, WS, DSet (\<lambda>c. c \<noteq> NL), WS]"

text \<open>The entries of the list file; a name of 1024 characters or more overflows its array.\<close>

definition list_entries :: "'r temporary \<Rightarrow> fault + (nat \<times> string) list" where
  "list_entries t =
     rbind (scan_records list_format 2 (tf_list t)) (\<lambda>rs.
       if list_all (\<lambda>as. length (arg_str (as ! 1)) < 1024) rs
       then Inr (map (\<lambda>as. (nat (arg_i (as ! 0)), arg_str (as ! 1))) rs) else Inl OutOfBounds)"

text \<open>
  The number of processes that run at the same time. The memory is divided by a gigabyte more than the largest file; the products
  and quotients stay within 64 bits.
\<close>

definition maxWorkers :: "int \<Rightarrow> nat \<Rightarrow> nat \<Rightarrow> int" where
  "maxWorkers nCPU memory max_tmp_file_size =
     (let byMem = sint (word_of_int (int (memory div (1024 * 1024 * 1024 + max_tmp_file_size))) :: u32);
          m = (if nCPU < byMem then nCPU else byMem)
      in if m > 1 then m else 1)"

text \<open>
  Starting the processes: \<open>ws\<close> are the results of the successive calls of \<open>wait\<close>, a process number or a failure. The result is the number of
  processes still running and the calls left; without enough calls the program waits for ever.
\<close>

primrec await_workers :: "int \<Rightarrow> int list \<Rightarrow> int \<Rightarrow> fault + int \<times> int list" where
  "await_workers mx [] n = (if n \<ge> mx then Inl Diverges else Inr (n, []))"
| "await_workers mx (r # ws) n =
     (if n \<ge> mx then if r > 0 then await_workers mx ws (n - 1) else if r < 0 then Inl (Exit 1) else await_workers mx ws n
      else Inr (n, r # ws))"

primrec run_workers :: "int \<Rightarrow> nat \<Rightarrow> int \<Rightarrow> int list \<Rightarrow> fault + int list" where
  "run_workers mw 0 n ws = rbind (await_workers 1 ws n) (\<lambda>(n, ws). Inr ws)"
| "run_workers mw (Suc k) n ws = rbind (await_workers mw ws (n + 1)) (\<lambda>(n, ws). run_workers mw k n ws)"

text \<open>
  The processes share the calibration table but each writes the entries of its own chip only, so that they are taken one after another here.
  \<open>calibrate gAsicID rs\<close> is what one of them does; one that ends abnormally stops only itself.
\<close>

definition calibrate_file :: "(nat \<Rightarrow> 'r list \<Rightarrow> 't \<Rightarrow> 't) \<Rightarrow> 'r temporary \<Rightarrow> nat \<times> string \<Rightarrow> 't \<Rightarrow> fault + 't" where
  "calibrate_file calibrate t = (\<lambda>(gAsicID, fn) table.
     case tf_data t fn of None \<Rightarrow> Inl (Exit 1) | Some rs \<Rightarrow> Inr (calibrate gAsicID rs table))"

definition max_tmp_file_size :: "nat \<Rightarrow> 'r temporary \<Rightarrow> (nat \<times> string) list \<Rightarrow> nat" where
  "max_tmp_file_size recordSize t es =
     fold (\<lambda>(gAsicID, fn) m. case tf_data t fn of None \<Rightarrow> m | Some rs \<Rightarrow> if recordSize * length rs > m then recordSize * length rs else m) es 0"

definition calibrateAllAsics ::
  "(nat \<Rightarrow> 'r list \<Rightarrow> 't \<Rightarrow> 't) \<Rightarrow> nat \<Rightarrow> int \<times> nat \<Rightarrow> int list \<Rightarrow> 'r temporary \<Rightarrow> 't \<Rightarrow> fault + 't" where
  "calibrateAllAsics calibrate recordSize = (\<lambda>(nCPU, memory) ws t table.
     rbind (list_entries t) (\<lambda>es.
     rbind (rfold (calibrate_file calibrate t) es table) (\<lambda>table.
     rbind (run_workers (maxWorkers nCPU memory (max_tmp_file_size recordSize t es)) (length es) 0 ws) (\<lambda>_. Inr table))))"

section \<open>The command line\<close>

record calibration_options =
  co_configFileName :: "string option"
  co_inputFilePrefix :: "string option"
  co_outputFilePrefix :: "string option"
  co_tmpFilePrefix :: "string option"
  co_doSorting :: bool
  co_keepTemporary :: bool
  co_doFake :: bool

definition default_calibration :: calibration_options where
  "default_calibration = \<lparr>co_configFileName = None, co_inputFilePrefix = None, co_outputFilePrefix = None, co_tmpFilePrefix = None,
     co_doSorting = True, co_keepTemporary = False, co_doFake = False\<rparr>"

text \<open>
  What the programs find: the files by their prefix, the temporary files of an earlier run, the number of processors and the memory,
  and the results of \<open>wait\<close>. A null pointer printed with \<open>%s\<close> has no specified result.
\<close>

record 'r calibration_env =
  cv_bins :: "string \<Rightarrow> string option"
  cv_trim :: "string \<Rightarrow> string option"
  cv_data :: "string \<Rightarrow> data_set"
  cv_tmp :: "string \<Rightarrow> 'r temporary option"
  cv_machine :: "int \<times> nat"
  cv_waits :: "int list"
  cv_junk :: "nat \<Rightarrow> nat \<Rightarrow> u8"

definition given :: "string option \<Rightarrow> fault + string" where
  "given s = (case s of None \<Rightarrow> Inl Unspecified | Some s \<Rightarrow> Inr s)"

text \<open>Names of files are made in arrays of 1024 characters; the names of the plots of a chip are left out with these.\<close>

definition path_prefix :: "string option \<Rightarrow> string \<Rightarrow> fault + string" where
  "path_prefix s extension = rbind (given s) (\<lambda>s. if length (s @ extension) < 1024 then Inr s else Inl OutOfBounds)"

definition bins_format :: "directive list" where
  "bins_format = [DInt 32, WS, DFloat, WS, DFloat, WS]"

definition read_bins :: "'r calibration_env \<Rightarrow> string \<Rightarrow> fault + int \<times> fp \<times> fp" where
  "read_bins V inputFilePrefix =
     (case cv_bins V inputFilePrefix of
        None \<Rightarrow> Inl (Exit 1)
      | Some f \<Rightarrow>
          rbind (scanf bins_format f) (\<lambda>(as, _).
          if length as \<noteq> 3 then Inl (Exit 1) else Inr (arg_i (as ! 0), arg_f (as ! 1), arg_f (as ! 2))))"

text \<open>The data files that are left after the removal of those in the list.\<close>

definition deleteTemporaryFiles :: "'r temporary \<Rightarrow> fault + (string \<Rightarrow> 'r list option)" where
  "deleteTemporaryFiles t =
     rbind (list_entries t) (\<lambda>es. Inr (\<lambda>fn. if List.member (map snd es) fn then None else tf_data t fn))"


text \<open>The temporary files, made by this run or found, and the table after the calibration of all chips in them.\<close>

definition calibrate_sorted ::
  "((nat \<Rightarrow> nat \<Rightarrow> u8) \<Rightarrow> data_set \<Rightarrow> string \<Rightarrow> fault + 'r temporary) \<Rightarrow>
   (int \<times> nat \<Rightarrow> int list \<Rightarrow> 'r temporary \<Rightarrow> 't \<Rightarrow> fault + 't) \<Rightarrow> 'r calibration_env \<Rightarrow> calibration_options \<Rightarrow>
   string \<Rightarrow> 't \<Rightarrow> fault + 't \<times> 'r temporary" where
  "calibrate_sorted sortAll calibrateAll V p inputFilePrefix table =
     rbind (path_prefix (if co_tmpFilePrefix p = None then co_outputFilePrefix p else co_tmpFilePrefix p) ''_list.tmp'') (\<lambda>tmpFilePrefix.
     rbind (if co_doSorting p then sortAll (cv_junk V) (cv_data V inputFilePrefix) tmpFilePrefix
            else case cv_tmp V tmpFilePrefix of None \<Rightarrow> Inl (Exit 1) | Some t \<Rightarrow> Inr t) (\<lambda>t.
     rbind (calibrateAll (cv_machine V) (cv_waits V) t table) (\<lambda>table. Inr (table, t))))"

section \<open>Reading back what the writer stored\<close>

lemma of_le_half: "(ucast (of_le (take 4 (le_bytes w))) :: u32) = ucast w"
proof (rule bit_eqI)
  fix n :: nat
  have "8 * (n div 8) + n mod 8 = n" by simp
  then show "bit (ucast (of_le (take 4 (le_bytes w))) :: u32) n = bit (ucast w :: u32) n"
    by (cases "n < 32") (auto simp: bit_of_le le_bytes_def byte_of_def bit_simps)
qed

lemma halves_128: "(ucast (ucast w :: u64) OR push_bit 64 (ucast (ucast (drop_bit 64 w) :: u64)) :: u128) = w"
  by (rule bit_eqI) (auto simp: bit_simps dest: bit_imp_le_length)

lemma sint_low: "0 \<le> i \<Longrightarrow> i < 2 ^ 31 \<Longrightarrow> sint (ucast (word_of_int i :: u64) :: u32) = i"
  by (transfer, simp add: take_bit_int_eq_self signed_take_bit_int_eq_self_iff)

definition record_ok :: "CalibrationData \<Rightarrow> bool" where
  "record_ok c \<longleftrightarrow> 0 \<le> cd_freq c \<and> cd_freq c < 2 ^ 31"

lemma length_calibration_bytes: "length pad = 12 \<Longrightarrow> length (calibration_bytes pad c) = sizeof_RawCalibrationData"
  by (simp add: calibration_bytes_def Let_def sizeof_RawCalibrationData_def)

lemma raw_record_bytes:
  assumes "length pad = 12" "record_ok c"
  shows "raw_record (calibration_bytes pad c) = c"
proof -
  let ?w = "word (cd_eventWord c)"
  have f: "sint (ucast (word_of_int (cd_freq c) :: u64) :: u32) = cd_freq c"
    using assms(2) unfolding record_ok_def by (intro sint_low) auto
  have d: "take 8 (calibration_bytes pad c) = le_bytes (ucast ?w)"
    "take 8 (drop 8 (calibration_bytes pad c)) = le_bytes (ucast (drop_bit 64 ?w))"
    "take 4 (drop 16 (calibration_bytes pad c)) = take 4 (le_bytes (word_of_int (cd_freq c)))"
    by (simp_all add: calibration_bytes_def Let_def)
  show ?thesis unfolding raw_record_def d of_le_bytes of_le_half halves_128 f by simp
qed

lemma raw_records_bytes:
  assumes "length pad = 12" "list_all record_ok cs"
  shows "raw_records (concat (map (calibration_bytes pad) cs)) = cs"
  using assms(2)
proof (induction cs)
  case Nil
  show ?case by (subst raw_records.simps) (simp add: sizeof_RawCalibrationData_def)
next
  case (Cons c cs)
  note l = length_calibration_bytes [OF assms(1), of c]
  show ?case using Cons l raw_record_bytes [OF assms(1), of c] by (subst raw_records.simps) simp
qed

lemma length_calibrations: "length pad = 12 \<Longrightarrow> length (concat (map (calibration_bytes pad) cs)) = sizeof_RawCalibrationData * length cs"
  by (induction cs) (simp_all add: length_calibration_bytes)

text \<open>A step of a calibration file, and its entry in the index.\<close>

definition cal_delimits :: "u8 list \<Rightarrow> u8 list \<Rightarrow> entry \<Rightarrow> CalibrationData list \<Rightarrow> bool" where
  "cal_delimits pad file e cs \<longleftrightarrow>
     (\<exists>pre post. file = pre @ concat (map (calibration_bytes pad) cs) @ post \<and> en_begin e = length pre
       \<and> en_end e = length pre + length (concat (map (calibration_bytes pad) cs)))
     \<and> -1 \<le> en_first e \<and> en_first e < 2 ^ 36 \<and> -1 \<le> en_last e \<and> en_last e < 2 ^ 36"

lemma cal_delimits_append: "cal_delimits pad file e cs \<Longrightarrow> cal_delimits pad (file @ later) e cs"
  unfolding cal_delimits_def by (metis append.assoc)

lemma read_block_ok:
  assumes d: "cal_delimits pad file e cs" and p: "length pad = 12" "list_all record_ok cs"
  shows "\<exists>pos'. read_block junk file (int (en_begin e)) (int (en_end e)) pos = Inr (cs, pos')"
proof -
  let ?bs = "concat (map (calibration_bytes pad) cs)"
  obtain pre post where f: "file = pre @ ?bs @ post" "en_begin e = length pre" "en_end e = length pre + length ?bs"
    using d by (auto simp: cal_delimits_def)
  have n: "nat (int (en_end e) - int (en_begin e)) div sizeof_RawCalibrationData * sizeof_RawCalibrationData = length ?bs"
    using length_calibrations [OF p(1), of cs] by (simp add: f(2,3) sizeof_RawCalibrationData_def nat_mult_distrib)
  have k: "length ?bs div sizeof_RawCalibrationData * sizeof_RawCalibrationData = length ?bs"
    using n by (simp add: f(2,3))
  have t: "take (length ?bs) (drop (length pre) file) = ?bs" by (simp add: f(1))
  have m: "min (length file - length pre) (length ?bs) = length ?bs" by (simp add: f(1) del: length_concat)
  show ?thesis
    unfolding read_block_def f(2,3) using k t m raw_records_bytes [OF p] by (simp add: Let_def del: length_concat length_map)
qed

section \<open>The index of a calibration file\<close>

definition cal_args :: "entry \<Rightarrow> arg list" where
  "cal_args e = [AInt (int (en_begin e)), AInt (int (en_end e)), AFloat (reread (en_step1 e)), AFloat (reread (en_step2 e))]"

definition cal_entry_ok :: "entry \<Rightarrow> bool" where
  "cal_entry_ok e \<longleftrightarrow> entry_ok e \<and> en_begin e < 2 ^ 63 \<and> en_end e < 2 ^ 63"

lemma skip_ws_entry: "skip_ws (entry_line e @ rest) = entry_line e @ rest"
  using skip_ws_digits [OF show_nat_digits show_nat_nonempty] by (simp add: entry_line_def index_line_def show_int_def)

lemma skip_ws_entries: "skip_ws (concat (map entry_line es)) = concat (map entry_line es)"
  by (cases es) (simp_all add: skip_ws_entry, simp add: skip_ws_def)

lemma scan_cal_entry:
  assumes "cal_entry_ok e"
  shows "scanf calibration_format (entry_line e @ concat (map entry_line es)) = Inr (cal_args e, concat (map entry_line es))"
proof -
  have i: "scan_int (show_int i @ TAB # t) = Some (i, TAB # t)" for i t
    using scan_int_show [of "TAB # t" i] by simp
  have f: "scan_float F32 (show_fixed a @ TAB # t) = Inr (Some (reread a, TAB # t))"
    "scan_float F32 (show_fixed a @ NL # t) = Inr (Some (reread a, NL # t))" if "printable a" for a t
    using scan_float_show [OF that, of TAB t] scan_float_show [OF that, of NL t] by (simp_all add: num_end_def)
  have e: "en_begin e < 2 ^ 63" "en_end e < 2 ^ 63" "\<bar>en_first e\<bar> < 2 ^ 63" "\<bar>en_last e\<bar> < 2 ^ 63"
    "printable (en_step1 e)" "printable (en_step2 e)" using assms(1) by (simp_all add: entry_ok_def cal_entry_ok_def)
  have u: "fit_signed 64 (int (en_begin e)) = Inr (int (en_begin e))" "fit_signed 64 (int (en_end e)) = Inr (int (en_end e))"
    "fit_signed 64 (en_first e) = Inr (en_first e)" "fit_signed 64 (en_last e) = Inr (en_last e)"
    using e by (auto simp: fit_signed_def)
  show ?thesis
    unfolding calibration_format_def entry_line_def [of e] index_line_def cal_args_def
    using i f [OF e(5)] f [OF e(6)] u e by (simp add: skip_ws_show_fixed skip_ws_entries)
qed

lemma scan_cal_entries:
  "list_all cal_entry_ok es \<Longrightarrow> scan_records calibration_format 4 (concat (map entry_line es)) = Inr (map cal_args es)"
proof (induction es)
  case Nil
  have "scan_int [] = None" by (simp add: scan_int_def skip_ws_def)
  then have "scanf calibration_format [] = Inr ([], [])" by (simp add: calibration_format_def)
  then show ?case by (subst scan_records.simps) simp
next
  case (Cons e es)
  then have "scanf calibration_format (concat (map entry_line (e # es))) = Inr (cal_args e, concat (map entry_line es))"
    using scan_cal_entry by simp
  moreover have "length (cal_args e) = 4" by (simp add: cal_args_def)
  ultimately show ?case using Cons by (subst scan_records.simps) simp
qed


section \<open>What is left after sorting\<close>

definition chip_of :: "CalibrationData \<Rightarrow> nat" where
  "chip_of c = unat (drop_bit 5 (getChannelID (cd_eventWord c)))"

definition chip_name :: "string \<Rightarrow> nat \<Rightarrow> string" where
  "chip_name prefix g =
     prefix @ ''_'' @ show_02u (g div 2048 mod 32) @ ''_'' @ show_02u (g div 64 mod 32) @ ''_'' @ show_02u (g mod 64) @ ''_data.tmp''"

lemma tmp_name_chip: "tmp_name prefix ch = chip_name prefix (unat (drop_bit 5 ch))"
proof -
  have "drop_bit 11 ch = drop_bit 6 (drop_bit 5 ch)" "drop_bit 16 ch = drop_bit 11 (drop_bit 5 ch)" by simp_all
  then show ?thesis
    unfolding tmp_name_def chip_name_def Let_def by (simp only: unat_mod unat_drop_bit_eq) (simp add: drop_bit_eq_div)
qed

lemma length_show_02u: "n < 100 \<Longrightarrow> length (show_02u n) = 2"
proof -
  assume "n < 100"
  have one: "length (show_nat k) = 1" if "k < 10" for k using that by (subst show_nat.simps) simp
  show ?thesis
  proof (cases "n < 10")
    case False
    with \<open>n < 100\<close> one [of "n div 10"] show ?thesis by (subst show_02u_def, subst show_nat.simps) simp
  qed (simp add: show_02u_def one)
qed

lemma show_02u_inj: "show_02u m = show_02u n \<Longrightarrow> m = n"
proof -
  have d: "decimal (show_02u k) = int k" for k
    using decimal_concat [of "''0''" "show_nat k"] decimal_zeros [of 1] by (simp add: show_02u_def show_nat_decimal)
  assume "show_02u m = show_02u n"
  then have "decimal (show_02u m) = decimal (show_02u n)" by simp
  then show "m = n" by (simp add: d)
qed

lemma chip_number: "x < 65536 \<Longrightarrow> x div 2048 mod 32 * 2048 + x div 64 mod 32 * 64 + x mod 64 = (x :: nat)"
proof -
  assume "x < 65536"
  then have "x div 2048 < 32" by simp
  then have "x div 2048 mod 32 = x div 2048" by simp
  moreover have "x div 64 = x div 2048 * 32 + x div 64 mod 32" using div_mult_mod_eq [of "x div 64" 32] by (simp add: div_mult2_eq [symmetric])
  ultimately show ?thesis using div_mult_mod_eq [of x 64] by linarith
qed

lemma chip_name_inj:
  assumes "chip_name prefix g = chip_name prefix g'" "g < 65536" "g' < 65536"
  shows "g = g'"
proof -
  have b: "x div 2048 mod 32 < 100" "x div 64 mod 32 < 100" "x mod 64 < 100" for x :: nat
    by (rule less_trans [OF mod_less_divisor], simp_all)+
  have e: "show_02u (g div 2048 mod 32) = show_02u (g' div 2048 mod 32) \<and> show_02u (g div 64 mod 32) = show_02u (g' div 64 mod 32)
      \<and> show_02u (g mod 64) = show_02u (g' mod 64)"
    using assms(1) unfolding chip_name_def
    by (simp only: append_eq_append_conv length_append length_show_02u [OF b(1)] length_show_02u [OF b(2)]
        length_show_02u [OF b(3)] list.size append_assoc [symmetric] simp_thms)
  have "g div 2048 mod 32 = g' div 2048 mod 32" "g div 64 mod 32 = g' div 64 mod 32" "g mod 64 = g' mod 64"
    by (rule show_02u_inj, simp only: e)+
  then show ?thesis using chip_number [OF assms(2)] chip_number [OF assms(3)] by linarith
qed

lemma length_chip_name: "length (chip_name prefix g) = length prefix + 18"
proof -
  have b: "x div 2048 mod 32 < 100" "x div 64 mod 32 < 100" "x mod 64 < 100" for x :: nat
    by (rule less_trans [OF mod_less_divisor], simp_all)+
  show ?thesis by (simp add: chip_name_def length_show_02u b)
qed

text \<open>The records of a chip, in order, and what they become in its file.\<close>

definition chip_rows :: "(fp \<Rightarrow> CalibrationData \<Rightarrow> 'r list) \<Rightarrow> (fp \<times> CalibrationData) list \<Rightarrow> nat \<Rightarrow> 'r list" where
  "chip_rows rec evs g = concat (map (\<lambda>(s, c). rec s c) (filter (\<lambda>(s, c). chip_of c = g) evs))"

definition chips :: "(fp \<times> CalibrationData) list \<Rightarrow> nat list" where
  "chips evs = sorted_list_of_set (chip_of ` snd ` set evs)"

definition sorted_as :: "(fp \<Rightarrow> CalibrationData \<Rightarrow> 'r list) \<Rightarrow> string \<Rightarrow> (fp \<times> CalibrationData) list \<Rightarrow> 'r sorting \<Rightarrow> bool" where
  "sorted_as rec prefix evs s \<longleftrightarrow>
     (\<forall>g. so_files s g = (if g \<in> chip_of ` snd ` set evs then Some (chip_name prefix g, chip_rows rec evs g) else None))
     \<and> (\<forall>e \<in> set evs. chip_of (snd e) \<le> so_maxgAsicID s)"

lemma sort_record_ok:
  assumes "sorted_as rec prefix evs s" "chip_of c < 65536" "length prefix < 1000"
  shows "\<exists>s'. sort_record rec prefix step1 c s = Inr s' \<and> sorted_as rec prefix (evs @ [(step1, c)]) s'"
proof -
  have m: "maxWorkFiles = 65536" by (simp add: maxWorkFiles_def MAX_N_ASIC_def)
  have n: "length (chip_name prefix (chip_of c)) < 1024" using assms(3) by (simp add: length_chip_name)
  have r: "chip_rows rec (evs @ [(step1, c)]) g = chip_rows rec evs g @ (if chip_of c = g then rec step1 c else [])" for g
    by (simp add: chip_rows_def)
  have e: "chip_rows rec evs g = []" if "g \<notin> chip_of ` snd ` set evs" for g
    using that by (force simp: chip_rows_def filter_empty_conv)
  show ?thesis
    using assms(1,2) n unfolding sorted_as_def sort_record_def Let_def tmp_name_chip chip_of_def [symmetric] m
    by (auto simp: r e split: option.splits)
qed

lemma sort_records_ok:
  assumes "sorted_as rec prefix evs s" "\<forall>c \<in> set cs. chip_of c < 65536" "length prefix < 1000"
  shows "\<exists>s'. rfold (sort_record rec prefix step1) cs s = Inr s' \<and> sorted_as rec prefix (evs @ map (Pair step1) cs) s'"
  using assms(1,2)
proof (induction cs arbitrary: evs s)
  case (Cons c cs)
  then obtain s1 where s1: "sort_record rec prefix step1 c s = Inr s1" "sorted_as rec prefix (evs @ [(step1, c)]) s1"
    using sort_record_ok [OF _ _ assms(3)] by (metis list.set_intros(1))
  from Cons.IH [OF s1(2)] Cons.prems(2) s1(1) show ?case by simp
qed simp

definition step_events :: "entry list \<Rightarrow> CalibrationData list list \<Rightarrow> (fp \<times> CalibrationData) list" where
  "step_events es css = concat (map2 (\<lambda>e cs. map (Pair (reread (en_step1 e))) cs) es css)"

definition good_records :: "CalibrationData list \<Rightarrow> bool" where
  "good_records cs \<longleftrightarrow> list_all record_ok cs \<and> (\<forall>c \<in> set cs. chip_of c < 65536)"

lemma sort_steps_ok:
  assumes "list_all2 (cal_delimits pad raw) es css" "length pad = 12" "list_all good_records css" "length prefix < 1000"
    "sorted_as rec prefix evs s"
  shows "\<exists>s'. rfold (\<lambda>(n, as). sort_step rec prefix (junk n) raw as) (enumerate k (map cal_args es)) s = Inr s'
    \<and> sorted_as rec prefix (evs @ step_events es css) s'"
  using assms(1,3,5)
proof (induction es css arbitrary: k evs s rule: list_all2_induct)
  case Nil
  then show ?case by (simp add: step_events_def)
next
  case (Cons e es cs css)
  then have g: "list_all record_ok cs" "\<forall>c \<in> set cs. chip_of c < 65536" by (simp_all add: good_records_def)
  obtain pos where rb: "read_block (junk k) raw (int (en_begin e)) (int (en_end e)) (so_pos s) = Inr (cs, pos)"
    using read_block_ok [OF Cons.hyps(1) assms(2) g(1)] by blast
  have "sorted_as rec prefix evs (s\<lparr>so_pos := pos\<rparr>)" using Cons.prems(2) by (simp add: sorted_as_def)
  from sort_records_ok [OF this g(2) assms(4), of "reread (en_step1 e)"] obtain s1 where
    s1: "rfold (sort_record rec prefix (reread (en_step1 e))) cs (s\<lparr>so_pos := pos\<rparr>) = Inr s1"
      "sorted_as rec prefix (evs @ map (Pair (reread (en_step1 e))) cs) s1" by blast
  have "sort_step rec prefix (junk k) raw (cal_args e) s = Inr s1"
    using rb s1(1) by (simp add: sort_step_def cal_args_def numeral_eq_Suc)
  with Cons.IH [OF _ s1(2), of "Suc k"] Cons.prems(1) show ?case by (simp add: step_events_def)
qed


section \<open>The list of the temporary files\<close>

definition name_ok :: "string \<Rightarrow> bool" where
  "name_ok prefix \<longleftrightarrow> length prefix < 1000 \<and> NL \<notin> set prefix \<and> (prefix \<noteq> [] \<longrightarrow> \<not> isspace (hd prefix))"

definition list_args :: "string \<Rightarrow> nat \<Rightarrow> arg list" where
  "list_args prefix g = [AInt (int g), AStr (chip_name prefix g)]"

lemma skip_ws_list: "skip_ws (concat (map (\<lambda>g. list_line g (chip_name prefix g)) gs)) = concat (map (\<lambda>g. list_line g (chip_name prefix g)) gs)"
  by (cases gs) (simp_all add: list_line_def skip_ws_digits [OF show_nat_digits show_nat_nonempty], simp add: skip_ws_def)

lemma chip_name_text:
  assumes "name_ok prefix"
  shows "NL \<notin> set (chip_name prefix g)" "skip_ws (chip_name prefix g @ t) = chip_name prefix g @ t" "chip_name prefix g \<noteq> []"
proof -
  have d: "NL \<notin> set (show_nat n)" for n
    using show_nat_digits [of n] isdigit_sep(2) by (auto simp: list_all_iff)
  have d2: "NL \<notin> set (show_02u n)" for n using d by (simp add: show_02u_def NL_def)
  show "NL \<notin> set (chip_name prefix g)"
    using d2 assms by (simp add: chip_name_def name_ok_def) (simp add: NL_def)
  show "skip_ws (chip_name prefix g @ t) = chip_name prefix g @ t"
    using assms by (cases prefix) (simp_all add: chip_name_def skip_ws_def name_ok_def, simp add: isspace_def)
  show "chip_name prefix g \<noteq> []" by (simp add: chip_name_def)
qed

lemma scan_list_line:
  assumes "name_ok prefix" "g < 65536"
  shows "scanf list_format (list_line g (chip_name prefix g) @ concat (map (\<lambda>g. list_line g (chip_name prefix g)) gs)) =
    Inr (list_args prefix g, concat (map (\<lambda>g. list_line g (chip_name prefix g)) gs))"
proof -
  let ?n = "chip_name prefix g"
  have i: "scan_int (show_nat g @ CHR '' '' # t) = Some (int g, CHR '' '' # t)" for t
    using scan_int_show [of "CHR '' '' # t" "int g"] by (simp add: show_int_def)
  have u: "fit_unsigned 64 (int g) = Inr (int g)" using assms(2) by (simp add: fit_unsigned_def)
  have t: "takeWhile (\<lambda>c. c \<noteq> NL) (?n @ NL # t) = ?n" for t
    using chip_name_text(1) [OF assms(1), of g] by (subst takeWhile_append2) (auto simp: takeWhile.simps)
  have l: "list_line g ?n @ r = show_nat g @ CHR '' '' # (?n @ NL # r)" for r by (simp add: list_line_def)
  show ?thesis unfolding l list_format_def list_args_def
    using i u t chip_name_text(2,3) [OF assms(1), of g] skip_ws_list [of prefix gs] by (simp add: Let_def)
qed

lemma scan_list:
  "name_ok prefix \<Longrightarrow> \<forall>g \<in> set gs. g < 65536 \<Longrightarrow>
   scan_records list_format 2 (concat (map (\<lambda>g. list_line g (chip_name prefix g)) gs)) = Inr (map (list_args prefix) gs)"
proof (induction gs)
  case Nil
  have "scan_int [] = None" by (simp add: scan_int_def skip_ws_def)
  then have "scanf list_format [] = Inr ([], [])" by (simp add: list_format_def)
  then show ?case by (subst scan_records.simps) simp
next
  case (Cons g gs)
  have "scanf list_format (concat (map (\<lambda>g. list_line g (chip_name prefix g)) (g # gs))) =
     Inr (list_args prefix g, concat (map (\<lambda>g. list_line g (chip_name prefix g)) gs))"
    using scan_list_line [OF Cons.prems(1), of g gs] Cons.prems(2) by simp
  moreover have "length (list_args prefix g) = 2" by (simp add: list_args_def)
  ultimately show ?case using Cons by (subst scan_records.simps) simp
qed

lemma concat_options: "concat (map (\<lambda>g. if P g then f g else []) gs) = concat (map f (filter P gs))"
  by (induction gs) simp_all

lemma filter_upt_chips:
  assumes "\<forall>x \<in> S. x < n"
  shows "filter (\<lambda>g. g \<in> S) [0..<n] = sorted_list_of_set S"
proof -
  have "sorted_list_of_set (set (filter (\<lambda>g. g \<in> S) [0..<n])) = filter (\<lambda>g. g \<in> S) [0..<n]"
    by (rule sorted_list_of_set.idem_if_sorted_distinct) (simp_all add: sorted_wrt_filter)
  moreover have "set (filter (\<lambda>g. g \<in> S) [0..<n]) = S" using assms by auto
  ultimately show ?thesis by simp
qed

lemma map_of_find: "map_of (map (\<lambda>x. (f x, h x)) xs) y = map_option h (find (\<lambda>x. f x = y) xs)"
  by (induction xs) auto

lemma sorted_files:
  assumes "sorted_as rec prefix evs s" "\<forall>e \<in> set evs. chip_of (snd e) < 65536" "name_ok prefix"
  defines "t \<equiv> \<lparr>tf_list = write_list s, tf_data = named_file s\<rparr>"
  shows "list_entries t = Inr (map (\<lambda>g. (g, chip_name prefix g)) (chips evs))"
    and "tf_data t name = map_option (chip_rows rec evs) (find (\<lambda>g. chip_name prefix g = name) (chips evs))"
proof -
  let ?S = "chip_of ` snd ` set evs"
  have f: "so_files s g = (if g \<in> ?S then Some (chip_name prefix g, chip_rows rec evs g) else None)" for g
    using assms(1) by (simp add: sorted_as_def)
  have "\<forall>x \<in> ?S. x < so_maxgAsicID s + 1" using assms(1) by (auto simp: sorted_as_def less_Suc_eq_le)
  note c = filter_upt_chips [OF this, folded chips_def]
  have l: "write_list s = concat (map (\<lambda>g. list_line g (chip_name prefix g)) (chips evs))"
  proof -
    have "(case so_files s g of None \<Rightarrow> [] | Some (fn, rs) \<Rightarrow> list_line g fn) = (if g \<in> ?S then list_line g (chip_name prefix g) else [])" for g
      by (simp add: f)
    then show ?thesis unfolding write_list_def by (simp only: concat_options c)
  qed
  have d: "named_file s = map_of (map (\<lambda>g. (chip_name prefix g, chip_rows rec evs g)) (chips evs))"
  proof -
    have "(case so_files s g of None \<Rightarrow> [] | Some f \<Rightarrow> [f]) = (if g \<in> ?S then [(chip_name prefix g, chip_rows rec evs g)] else [])" for g
      by (simp add: f)
    then show ?thesis unfolding named_file_def fun_eq_iff by (simp only: concat_options c) (simp add: comp_def concat_map_singleton)
  qed
  have b: "\<forall>g \<in> set (chips evs). g < 65536" using assms(2) by (auto simp: chips_def)
  have n: "length (chip_name prefix g) < 1024" for g using assms(3) by (simp add: length_chip_name name_ok_def)
  show "list_entries t = Inr (map (\<lambda>g. (g, chip_name prefix g)) (chips evs))"
    using scan_list [OF assms(3) b] by (simp add: list_entries_def t_def l list_all_iff list_args_def n)
  show "tf_data t name = map_option (chip_rows rec evs) (find (\<lambda>g. chip_name prefix g = name) (chips evs))"
    by (simp add: t_def d map_of_find)
qed

text \<open>Each chip's file is found by the name in the list.\<close>

lemma find_chip:
  assumes "\<forall>g \<in> set gs. g < 65536" "g \<in> set gs"
  shows "find (\<lambda>h. chip_name prefix h = chip_name prefix g) gs = Some g"
  using assms
proof (induction gs)
  case (Cons h gs)
  then show ?case using chip_name_inj [of prefix h g] by auto
qed simp

lemma sortData_ok:
  assumes "list_all2 (cal_delimits pad raw) es css" "length pad = 12" "list_all good_records css" "list_all cal_entry_ok es" "name_ok prefix"
  shows "\<exists>t. sortData rec junk \<lparr>ds_idxf = Some (concat (map entry_line es)), ds_rawf = Some raw, ds_modf = m\<rparr> prefix = Inr t
    \<and> list_entries t = Inr (map (\<lambda>g. (g, chip_name prefix g)) (chips (step_events es css)))
    \<and> (\<forall>name. tf_data t name = map_option (chip_rows rec (step_events es css)) (find (\<lambda>g. chip_name prefix g = name) (chips (step_events es css))))"
proof -
  let ?s = "\<lparr>so_files = (\<lambda>_. None), so_maxgAsicID = 0, so_pos = 0\<rparr>"
  have "sorted_as rec prefix [] ?s" by (simp add: sorted_as_def)
  from sort_steps_ok [OF assms(1,2,3) _ this, of junk 0] assms(5) obtain s where
    s: "rfold (\<lambda>(n, as). sort_step rec prefix (junk n) raw as) (enumerate 0 (map cal_args es)) ?s = Inr s"
      "sorted_as rec prefix (step_events es css) s" by (auto simp: name_ok_def)
  have b: "\<forall>e \<in> set (step_events es css). chip_of (snd e) < 65536"
    using assms(3) by (auto simp: step_events_def good_records_def list_all_iff dest!: set_zip_rightD)
  show ?thesis
    using s(1) scan_cal_entries [OF assms(4)] sorted_files [OF s(2) b assms(5)] assms(5) by (simp add: sortData_def name_ok_def)
qed


section \<open>From the acquisition to the chips\<close>

definition cal_inv :: "u8 list \<Rightarrow> entry list \<Rightarrow> CalibrationData list list \<Rightarrow> writer \<Rightarrow> bool" where
  "cal_inv pad es css w \<longleftrightarrow> w_indexFile w = concat (map entry_line es) \<and> list_all2 (cal_delimits pad (w_dataFile w)) es css
     \<and> w_stepStartOffset w = length (w_dataFile w) \<and> ids_ok w"

text \<open>The records of every step that is ended, each with the value of its step.\<close>

fun calibration_events :: "RawEventWord multiset \<Rightarrow> (BlockHeader \<times> SHM_RAW) list \<Rightarrow> (fp \<times> CalibrationData) list" where
  "calibration_events cur [] = []"
| "calibration_events cur (b # bs) =
     (if bh_endOfStep (fst b) \<noteq> 0
      then map (Pair (reread (bh_step1 (fst b)))) (calibration_records (cur + block_event_words b)) @ calibration_events {#} bs
      else calibration_events (cur + block_event_words b) bs)"

lemma cal_inv_step:
  assumes "cal_inv pad es css w" "good_block b"
  shows "\<exists>w' es'. write_block pad False b w = Inr w' \<and>
     (if bh_endOfStep (fst b) \<noteq> 0
      then w_calEventSet w' = {#} \<and> (\<exists>e. es' = [e] \<and> en_step1 e = bh_step1 (fst b) \<and> en_step2 e = bh_step2 (fst b))
        \<and> cal_inv pad (es @ es') (css @ [calibration_records (w_calEventSet w + block_event_words b)]) w'
      else w_calEventSet w' = w_calEventSet w + block_event_words b \<and> cal_inv pad es css w')"
proof -
  from write_block_cal [OF assms(2), of pad w] obtain w' where
    w': "write_block pad False b w = Inr w'" "ids_ok w \<longrightarrow> ids_ok w'" and
    c: "if bh_endOfStep (fst b) \<noteq> 0
      then w_dataFile w' = w_dataFile w @ concat (map (calibration_bytes pad) (calibration_records (w_calEventSet w + block_event_words b)))
        \<and> w_calEventSet w' = {#} \<and> w_stepStartOffset w' = length (w_dataFile w')
        \<and> (\<exists>f l. w_indexFile w' = w_indexFile w @ index_line (w_stepStartOffset w) (length (w_dataFile w')) f l (bh_step1 (fst b)) (bh_step2 (fst b))
            \<and> (ids_ok w \<longrightarrow> -1 \<le> f \<and> f < 2 ^ 36 \<and> -1 \<le> l \<and> l < 2 ^ 36))
      else cal_appended (block_event_words b) w w'" by blast
  have i: "w_indexFile w = concat (map entry_line es)" "list_all2 (cal_delimits pad (w_dataFile w)) es css"
    "w_stepStartOffset w = length (w_dataFile w)" "ids_ok w" using assms(1) by (simp_all add: cal_inv_def)
  show ?thesis
  proof (cases "bh_endOfStep (fst b) = 0")
    case True
    then show ?thesis using w' c i by (intro exI [of _ w']) (simp add: cal_appended_def cal_inv_def)
  next
    case False
    let ?cs = "calibration_records (w_calEventSet w + block_event_words b)"
    obtain f l where d: "w_dataFile w' = w_dataFile w @ concat (map (calibration_bytes pad) ?cs)" "w_calEventSet w' = {#}"
      "w_stepStartOffset w' = length (w_dataFile w')"
      "w_indexFile w' = w_indexFile w @ index_line (w_stepStartOffset w) (length (w_dataFile w')) f l (bh_step1 (fst b)) (bh_step2 (fst b))"
      "-1 \<le> f \<and> f < 2 ^ 36 \<and> -1 \<le> l \<and> l < 2 ^ 36" using c False i(4) by auto
    define e where "e = \<lparr>en_begin = length (w_dataFile w), en_end = length (w_dataFile w'), en_first = f, en_last = l,
      en_step1 = bh_step1 (fst b), en_step2 = bh_step2 (fst b)\<rparr>"
    have "cal_delimits pad (w_dataFile w') e ?cs"
      unfolding cal_delimits_def using d(1,5) by (intro conjI exI [of _ "w_dataFile w"] exI [of _ "[]"]) (simp_all add: e_def)
    moreover have "list_all2 (cal_delimits pad (w_dataFile w')) es css"
      using i(2) unfolding d(1) by (rule list_all2_mono) (rule cal_delimits_append)
    ultimately have "cal_inv pad (es @ [e]) (css @ [?cs]) w'"
      using i w'(2) d(3,4) by (simp add: cal_inv_def list_all2_appendI entry_line_def e_def)
    then show ?thesis using w'(1) d(2) False by (intro exI [of _ w'] exI [of _ "[e]"]) (simp add: e_def)
  qed
qed

lemma cal_inv_blocks:
  assumes "cal_inv pad es css w" "list_all good_block bs"
  shows "\<exists>w' es'. rfold (write_block pad False) bs w = Inr w'
     \<and> cal_inv pad (es @ es') (css @ map calibration_records (step_words (w_calEventSet w) bs)) w'
     \<and> step_events es' (map calibration_records (step_words (w_calEventSet w) bs)) = calibration_events (w_calEventSet w) bs
     \<and> (\<forall>e \<in> set es'. \<exists>b \<in> set bs. en_step1 e = bh_step1 (fst b) \<and> en_step2 e = bh_step2 (fst b))"
  using assms
proof (induction bs arbitrary: es css w)
  case Nil
  then show ?case by (intro exI [of _ w] exI [of _ "[]"]) (simp add: step_events_def)
next
  case (Cons b bs)
  then have g: "good_block b" "list_all good_block bs" by simp_all
  from cal_inv_step [OF Cons.prems(1) g(1)] obtain w1 es1 where w1: "write_block pad False b w = Inr w1" and
    c: "if bh_endOfStep (fst b) \<noteq> 0
      then w_calEventSet w1 = {#} \<and> (\<exists>e. es1 = [e] \<and> en_step1 e = bh_step1 (fst b) \<and> en_step2 e = bh_step2 (fst b))
        \<and> cal_inv pad (es @ es1) (css @ [calibration_records (w_calEventSet w + block_event_words b)]) w1
      else w_calEventSet w1 = w_calEventSet w + block_event_words b \<and> cal_inv pad es css w1" by blast
  show ?case
  proof (cases "bh_endOfStep (fst b) = 0")
    case True
    with c have "cal_inv pad es css w1" by simp
    from Cons.IH [OF this g(2)] c w1 True show ?thesis by auto
  next
    case False
    with c obtain e where e: "es1 = [e]" "en_step1 e = bh_step1 (fst b)" "en_step2 e = bh_step2 (fst b)" by auto
    from c False have i: "cal_inv pad (es @ es1) (css @ [calibration_records (w_calEventSet w + block_event_words b)]) w1"
      "w_calEventSet w1 = {#}" by simp_all
    from Cons.IH [OF i(1) g(2)] obtain w' es' where
      f: "rfold (write_block pad False) bs w1 = Inr w'"
        "cal_inv pad ((es @ es1) @ es') ((css @ [calibration_records (w_calEventSet w + block_event_words b)])
           @ map calibration_records (step_words {#} bs)) w'"
        "step_events es' (map calibration_records (step_words {#} bs)) = calibration_events {#} bs"
        "\<forall>e \<in> set es'. \<exists>b \<in> set bs. en_step1 e = bh_step1 (fst b) \<and> en_step2 e = bh_step2 (fst b)"
      unfolding i(2) by blast
    then show ?thesis using w1 False e by (intro exI [of _ w'] exI [of _ "e # es'"]) (simp add: step_events_def)
  qed
qed


text \<open>The processes are all awaited when as many calls of \<open>wait\<close> succeed as there are chips.\<close>

lemma await_workers_ok:
  assumes "1 \<le> mx" "0 \<le> n" "n \<le> int (length ws)" "list_all (\<lambda>r. 0 < r) ws"
  shows "await_workers mx ws n = Inr (min n (mx - 1), drop (nat (n - min n (mx - 1))) ws)"
  using assms(2-4)
proof (induction ws arbitrary: n)
  case (Cons r ws)
  show ?case
  proof (cases "n \<ge> mx")
    case True
    have "n - min n (mx - 1) = (n - 1 - min (n - 1) (mx - 1)) + 1" using True by (simp add: min_def)
    moreover have "0 \<le> n - 1 - min (n - 1) (mx - 1)" by (simp add: min_def)
    ultimately have "nat (n - min n (mx - 1)) = Suc (nat (n - 1 - min (n - 1) (mx - 1)))" by linarith
    moreover have "min n (mx - 1) = min (n - 1) (mx - 1)" using True by (simp add: min_def)
    ultimately show ?thesis using Cons.IH [of "n - 1"] Cons.prems True assms(1) by simp
  qed (simp add: min_def)
qed (use assms(1) in simp)

lemma run_workers_ok:
  assumes "1 \<le> mw" "0 \<le> n" "n + int k \<le> int (length ws)" "list_all (\<lambda>r. 0 < r) ws"
  shows "run_workers mw k n ws = Inr (drop (nat n + k) ws)"
  using assms(2-4)
proof (induction k arbitrary: n ws)
  case 0
  then show ?case using await_workers_ok [of 1 n ws] by simp
next
  case (Suc k)
  let ?m = "min (n + 1) (mw - 1)"
  have a: "await_workers mw ws (n + 1) = Inr (?m, drop (nat (n + 1 - ?m)) ws)"
    using await_workers_ok [OF assms(1), of "n + 1" ws] Suc.prems by simp
  have "list_all (\<lambda>r. 0 < r) (drop (nat (n + 1 - ?m)) ws)" using Suc.prems(3) by (auto simp: list_all_iff dest: in_set_dropD)
  moreover have "0 \<le> ?m" using assms(1) Suc.prems(1) by simp
  moreover have "?m + int k \<le> int (length (drop (nat (n + 1 - ?m)) ws))" using Suc.prems(1,2) by (auto simp: min_def int_ops(6))
  ultimately have "run_workers mw k ?m (drop (nat (n + 1 - ?m)) ws) = Inr (drop (nat ?m + k) (drop (nat (n + 1 - ?m)) ws))"
    by (intro Suc.IH)
  moreover have "nat ?m + k + nat (n + 1 - ?m) = nat n + Suc k" using \<open>0 \<le> ?m\<close> Suc.prems(1) by simp
  ultimately show ?case using a by (simp add: drop_drop)
qed

lemma maxWorkers_pos: "1 \<le> maxWorkers nCPU memory sz"
  by (simp add: maxWorkers_def Let_def)

lemma calibrate_files:
  assumes "\<forall>g \<in> set gs. tf_data t (chip_name prefix g) = Some (f g)"
  shows "rfold (calibrate_file calibrate t) (map (\<lambda>g. (g, chip_name prefix g)) gs) table = Inr (fold (\<lambda>g. calibrate g (f g)) gs table)"
  using assms by (induction gs arbitrary: table) (simp_all add: calibrate_file_def)

lemma calibrateAllAsics_ok:
  assumes "list_entries t = Inr (map (\<lambda>g. (g, chip_name prefix g)) gs)"
    "\<forall>name. tf_data t name = map_option f (find (\<lambda>g. chip_name prefix g = name) gs)" "\<forall>g \<in> set gs. g < 65536"
    "length gs \<le> length ws" "list_all (\<lambda>r. 0 < r) ws"
  shows "calibrateAllAsics calibrate recordSize machine ws t table = Inr (fold (\<lambda>g. calibrate g (f g)) gs table)"
    and "deleteTemporaryFiles t = Inr (\<lambda>_. None)"
proof -
  have "\<forall>g \<in> set gs. tf_data t (chip_name prefix g) = Some (f g)" using find_chip [OF assms(3)] assms(2) by simp
  moreover have "run_workers (maxWorkers n m k) (length gs) 0 ws = Inr (drop (length gs) ws)" for n m k
    using run_workers_ok [OF maxWorkers_pos, of 0 "length gs" ws] assms(4,5) by simp
  ultimately show "calibrateAllAsics calibrate recordSize machine ws t table = Inr (fold (\<lambda>g. calibrate g (f g)) gs table)"
    using assms(1) calibrate_files [of gs t prefix f calibrate table] by (simp add: calibrateAllAsics_def split: prod.split)
  have "tf_data t fn = None" if "fn \<notin> chip_name prefix ` set gs" for fn
    using that assms(2) by (auto simp: find_None_iff)
  then show "deleteTemporaryFiles t = Inr (\<lambda>_. None)"
    using assms(1) by (auto simp: deleteTemporaryFiles_def List.member_iff comp_def fun_eq_iff image_image)
qed

text \<open>The bounds on the words of a step: chips the tools have room for, and counts of 31 bits.\<close>

definition good_words :: "RawEventWord multiset \<Rightarrow> bool" where
  "good_words m \<longleftrightarrow> size m < 2 ^ 31 \<and> (\<forall>x \<in># m. unat (drop_bit 5 (getChannelID x)) < 65536)"

lemma good_calibration_records: "good_words m \<Longrightarrow> good_records (calibration_records m)"
proof -
  assume g: "good_words m"
  have "int (count m x) < 2 ^ 31" for x
  proof -
    have "count m x \<le> size m" by (rule count_le_size)
    then have "count m x < 2 ^ 31" using g unfolding good_words_def by linarith
    then show ?thesis by simp
  qed
  with g show ?thesis
    by (auto simp: good_records_def record_ok_def list_all_iff calibration_records_def chip_of_def good_words_def)
qed

lemma cal_entries_ok:
  assumes "cal_inv pad es css w" "length (w_dataFile w) < 2 ^ 63" "\<forall>e \<in> set es. printable (en_step1 e) \<and> printable (en_step2 e)"
  shows "list_all cal_entry_ok es"
proof -
  have "cal_entry_ok e" if e: "e \<in> set es" for e
  proof -
    obtain cs where "cal_delimits pad (w_dataFile w) e cs"
      using assms(1) e by (auto simp: cal_inv_def list_all2_conv_all_nth in_set_conv_nth)
    then have "en_begin e \<le> length (w_dataFile w)" "en_end e \<le> length (w_dataFile w)" "-1 \<le> en_first e" "en_first e < 2 ^ 36"
      "-1 \<le> en_last e" "en_last e < 2 ^ 36" by (auto simp: cal_delimits_def)
    with assms(2,3) e show ?thesis by (auto simp: entry_ok_def cal_entry_ok_def)
  qed
  then show ?thesis by (simp add: list_all_iff)
qed

lemma set_chips [simp]: "set (chips evs) = chip_of ` snd ` set evs"
  by (simp add: chips_def)

lemma chips_bounded: "list_all good_records css \<Longrightarrow> \<forall>g \<in> set (chips (step_events es css)). g < 65536"
  by (auto simp: step_events_def good_records_def list_all_iff dest!: set_zip_rightD)



definition example_word :: RawEventWord where
  "example_word = decode_event example_ring_frame 0"

lemma example_step_words: "step_words {#} example_blocks = [{#example_word#}]"
proof -
  have m: "MaxRawDataFrameQueueSize = 16384" by (simp add: MaxRawDataFrameQueueSize_def)
  have "block_frames (hd example_blocks) = [example_ring_frame]"
    by (simp add: example_blocks_def block_frames_def getSizeInFrames_def m Let_def example_pointers)
  moreover have "getNEvents example_ring_frame = 1" by (simp add: getNEvents_def example_ring_frame_def example_words_def)
  ultimately show ?thesis by (simp add: example_blocks_def block_event_words_def frame_event_words_def example_word_def)
qed

lemma example_calibration_events:
  "calibration_events {#} example_blocks = [(reread (Fin False 1 0), \<lparr>cd_eventWord = example_word, cd_freq = 1\<rparr>)]"
proof -
  have "calibration_records {#example_word#} = [\<lparr>cd_eventWord = example_word, cd_freq = 1\<rparr>]" by (simp add: calibration_records_def)
  then show ?thesis using example_step_words by (simp add: example_blocks_def)
qed

lemma example_chip: "unat (drop_bit 5 (getChannelID example_word)) = 0"
proof -
  have u: "unat (word example_word) = 291"
    by (simp add: example_word_def decode_event_def example_ring_frame_def example_words_def unat_assemble)
  have "unat (getChannelID example_word) = 3" using channel_value [of example_word] by (simp add: u)
  then show ?thesis by (simp only: unat_drop_bit_eq) (simp add: drop_bit_eq_div)
qed

lemma example_good_words: "good_words {#example_word#}"
  by (simp add: good_words_def example_chip)


end
