(* ===== verification/Root_Library.thy ===== *)
theory Root_Library
  imports Record_Files
begin

text \<open>
  The classes of the ROOT library that petsys_util/process_tdc_calibration.cpp and petsys_util/process_qdc_calibration.cpp call. The
  library is not part of the repository, so its methods are the fields of a record, an argument of the definitions that use
  them; nothing is assumed of them. An object is a value and a method that changes it returns the new one. Names, titles and drawing
  of the objects are left out. \<open>fp_fmod\<close>, \<open>fp_ceil\<close>, \<open>fp_floor\<close> and \<open>fp_fmin\<close> are the functions of the C library,
  and \<open>show_parameter\<close> is the format of the numbers in the tables that are written.
\<close>

section \<open>The library\<close>

text \<open>
  Two-dimensional histograms \<open>'m\<close> (TH2S, with 1024 bins from 0 to 1024 in the second dimension), histograms \<open>'h\<close> (TH1S, TH1D), profiles \<open>'p\<close>
  (TProfile with the error option s) and functions \<open>'f\<close> (TF1).
\<close>

record ('m, 'h, 'p, 'f) root =
  m_new :: "int \<Rightarrow> fp \<Rightarrow> fp \<Rightarrow> 'm"
  m_Fill :: "fp \<Rightarrow> fp \<Rightarrow> 'm \<Rightarrow> 'm"
  m_GetEntries :: "'m \<Rightarrow> fp"
  m_ProjectionY :: "'m \<Rightarrow> 'h"
  m_ProfileX :: "'m \<Rightarrow> 'p"
  m_GetBinContent :: "'m \<Rightarrow> int \<Rightarrow> int \<Rightarrow> fp"
  m_XBinCenter :: "'m \<Rightarrow> int \<Rightarrow> fp"
  m_YBinLowEdge :: "'m \<Rightarrow> int \<Rightarrow> fp"
  h_new :: "int \<Rightarrow> fp \<Rightarrow> fp \<Rightarrow> 'h"
  h_Fill :: "fp \<Rightarrow> 'h \<Rightarrow> 'h"
  h_Reset :: "'h \<Rightarrow> 'h"
  h_Rebin :: "int \<Rightarrow> 'h \<Rightarrow> 'h"
  h_Smooth :: "int \<Rightarrow> 'h \<Rightarrow> 'h"
  h_GetEntries :: "'h \<Rightarrow> fp"
  h_GetMean :: "'h \<Rightarrow> fp"
  h_FindBin :: "'h \<Rightarrow> fp \<Rightarrow> int"
  h_GetBinContent :: "'h \<Rightarrow> int \<Rightarrow> fp"
  h_FitGaus :: "'h \<Rightarrow> 'h"
  h_GetFunction :: "'h \<Rightarrow> string \<Rightarrow> 'f option"
  p_new :: "int \<Rightarrow> fp \<Rightarrow> fp \<Rightarrow> 'p"
  p_Fill :: "fp \<Rightarrow> fp \<Rightarrow> fp \<Rightarrow> 'p \<Rightarrow> 'p"
  p_Reset :: "'p \<Rightarrow> 'p"
  p_GetEntries :: "'p \<Rightarrow> fp"
  p_GetMean2 :: "'p \<Rightarrow> fp"
  p_GetNbins :: "'p \<Rightarrow> int"
  p_GetXmin :: "'p \<Rightarrow> fp"
  p_GetXmax :: "'p \<Rightarrow> fp"
  p_GetBinContent :: "'p \<Rightarrow> int \<Rightarrow> fp"
  p_GetBinError :: "'p \<Rightarrow> int \<Rightarrow> fp"
  p_GetBinEntries :: "'p \<Rightarrow> int \<Rightarrow> fp"
  p_GetBinCenter :: "'p \<Rightarrow> int \<Rightarrow> fp"
  p_GetBinLowEdge :: "'p \<Rightarrow> int \<Rightarrow> fp"
  p_FitPol :: "nat \<Rightarrow> fp \<Rightarrow> fp \<Rightarrow> 'p \<Rightarrow> 'p"
  p_Fit :: "'f \<Rightarrow> fp \<Rightarrow> fp \<Rightarrow> 'p \<Rightarrow> 'f \<times> 'p"
  p_GetFunction :: "'p \<Rightarrow> string \<Rightarrow> 'f option"
  f_new :: "string \<Rightarrow> (fp \<Rightarrow> fp list \<Rightarrow> fp) \<Rightarrow> fp \<Rightarrow> fp \<Rightarrow> nat \<Rightarrow> 'f"
  f_SetParameter :: "nat \<Rightarrow> fp \<Rightarrow> 'f \<Rightarrow> 'f"
  f_SetParLimits :: "nat \<Rightarrow> fp \<Rightarrow> fp \<Rightarrow> 'f \<Rightarrow> 'f"
  f_GetParameter :: "'f \<Rightarrow> nat \<Rightarrow> fp"
  f_GetChisquare :: "'f \<Rightarrow> fp"
  f_GetNDF :: "'f \<Rightarrow> int"
  f_Eval :: "'f \<Rightarrow> fp \<Rightarrow> fp"

section \<open>Numbers\<close>

definition flt :: "fp \<Rightarrow> fp" where
  "flt = fp_convert F32"

definition dbl :: "fp \<Rightarrow> fp" where
  "dbl = fp_convert F64"

definition int32 :: "int \<Rightarrow> fp" where
  "int32 = fp_of_int F32"

definition int64 :: "int \<Rightarrow> fp" where
  "int64 = fp_of_int F64"

text \<open>A constant of type \<open>double\<close>: \<open>m\<close> times a power of ten.\<close>

definition lit :: "int \<Rightarrow> int \<Rightarrow> fp" where
  "lit m k = fp_of_decimal F64 False m k"

fun fp_fmod :: "fp \<Rightarrow> fp \<Rightarrow> fp" where
  "fp_fmod NaN _ = NaN"
| "fp_fmod (Inf s) _ = NaN"
| "fp_fmod (Fin s m e) NaN = NaN"
| "fp_fmod (Fin s m e) (Inf t) = Fin s m e"
| "fp_fmod (Fin s m e) (Fin t n d) =
     (if n = 0 then NaN else let x = min e d in round_fp F64 s ((m * 2 ^ nat (e - x)) mod (n * 2 ^ nat (d - x))) x)"

fun fp_floor :: "fmt \<Rightarrow> fp \<Rightarrow> fp" where
  "fp_floor f (Fin s m e) =
     (if 0 \<le> e then Fin s m e else round_fp f s \<bar>signed s m div 2 ^ nat (- e)\<bar> 0)"
| "fp_floor f a = a"

definition fp_ceil :: "fmt \<Rightarrow> fp \<Rightarrow> fp" where
  "fp_ceil f a = fp_neg (fp_floor f (fp_neg a))"

definition fp_fmin :: "fp \<Rightarrow> fp \<Rightarrow> fp" where
  "fp_fmin a b = (if a = NaN then b else if fp_lt b a then b else a)"

text \<open>\<open>int\<close> from a floating point number.\<close>

definition to_i :: "fp \<Rightarrow> fault + int" where
  "to_i = fp_to_signed 32"

text \<open>\<open>%8.7e\<close>: only what is not a finite number is shorter than eight characters.\<close>

definition show_parameter :: "fp \<Rightarrow> string" where
  "show_parameter a = (let s = show_sci 7 a in replicate (8 - length s) (CHR '' '') @ s)"

end
