(* ===== verification/Chip_Processes.thy ===== *)
theory Chip_Processes
  imports Prelude
begin

text \<open>
  The processes that calibrate the chips. They share a table of entries in memory, each works on the entries of its own chip, and what one
  has written stays when it ends abnormally. The contract \<open>chip_updates\<close> of such a process says that it neither reads nor changes
  entries of other chips; its consequences are that every entry is made by the process of its chip alone, and that the
  order in which the processes run does not matter.
\<close>

section \<open>Computations that leave their state behind when they stop\<close>

text \<open>
  The calibration of a chip changes a table in shared memory, which stays as it is when the process ends abnormally: a step gives the
  state reached and the fault, if any.
\<close>

type_synonym 's outcome = "fault option \<times> 's"

fun attempt :: "('a \<Rightarrow> 's \<Rightarrow> fault + 's) \<Rightarrow> 'a list \<Rightarrow> 's \<Rightarrow> 's outcome" where
  "attempt f [] s = (None, s)"
| "attempt f (x # xs) s = (case f x s of Inl e \<Rightarrow> (Some e, s) | Inr s' \<Rightarrow> attempt f xs s')"

definition proceed :: "'s outcome \<Rightarrow> ('s \<Rightarrow> 's outcome) \<Rightarrow> 's outcome" where
  "proceed r f = (case r of (Some e, s) \<Rightarrow> (Some e, s) | (None, s) \<Rightarrow> f s)"

section \<open>Steps on a part of the table\<close>

text \<open>
  A step is local to the entries \<open>G\<close> when putting these entries into another table commutes with it: then it does not look at other
  entries, and leaves them alone.
\<close>

definition local_on :: "'k set \<Rightarrow> (('k \<Rightarrow> 'e) \<Rightarrow> 'f + ('k \<Rightarrow> 'e)) \<Rightarrow> bool" where
  "local_on G f \<longleftrightarrow> (\<forall>t u. f (override_on u t G) = map_sum id (\<lambda>t'. override_on u t' G) (f t))"

lemma override_update: "k \<in> G \<Longrightarrow> override_on u (t(k := e)) G = (override_on u t G)(k := e)"
  by (auto simp: override_on_def)

lemma local_entry: "k \<in> G \<Longrightarrow> local_on G (\<lambda>t. rbind (F (t k)) (\<lambda>e. Inr (t(k := e))))"
  by (auto simp: local_on_def rbind_def override_update split: sum.split)

lemma local_rfold: "\<forall>x \<in> set xs. local_on G (f x) \<Longrightarrow> local_on G (rfold f xs)"
proof (induction xs)
  case (Cons x xs)
  then have "rfold f (x # xs) (override_on u t G) = map_sum id (\<lambda>t'. override_on u t' G) (rfold f (x # xs) t)" for t u
    by (cases "f x t") (auto simp: local_on_def)
  then show ?case by (simp add: local_on_def)
qed (simp add: local_on_def)

lemma attempt_override:
  "\<forall>x \<in> set xs. local_on G (f x) \<Longrightarrow> attempt f xs (override_on u t G) = map_prod id (\<lambda>t'. override_on u t' G) (attempt f xs t)"
proof (induction xs arbitrary: t)
  case (Cons x xs)
  then have "f x (override_on u t G) = map_sum id (\<lambda>t'. override_on u t' G) (f x t)" by (simp add: local_on_def)
  with Cons show ?case by (cases "f x t") simp_all
qed simp

text \<open>The same with another part of the state beside the table.\<close>

definition local_pair :: "'k set \<Rightarrow> (('k \<Rightarrow> 'e) \<times> 'h \<Rightarrow> 'f + ('k \<Rightarrow> 'e) \<times> 'h) \<Rightarrow> bool" where
  "local_pair G f \<longleftrightarrow> (\<forall>t u h. f (override_on u t G, h) = map_sum id (map_prod (\<lambda>t'. override_on u t' G) id) (f (t, h)))"

lemma local_pair_rfold: "\<forall>x \<in> set xs. local_pair G (f x) \<Longrightarrow> local_pair G (rfold f xs)"
proof (induction xs)
  case (Cons x xs)
  then have "rfold f (x # xs) (override_on u t G, h) = map_sum id (map_prod (\<lambda>t'. override_on u t' G) id) (rfold f (x # xs) (t, h))" for t u h
    by (cases "f x (t, h)") (auto simp: local_pair_def)
  then show ?case by (simp add: local_pair_def)
qed (simp add: local_pair_def)

lemma fold_override: "\<forall>x \<in> set xs. \<forall>t. f x (override_on u t G) = override_on u (f x t) G \<Longrightarrow> fold f xs (override_on u t G) = override_on u (fold f xs t) G"
  by (induction xs arbitrary: t) simp_all

lemma override_in [simp]: "k \<in> G \<Longrightarrow> override_on u t G k = t k"
  by (simp add: override_on_def)

section \<open>The contract\<close>

locale chip_updates =
  fixes upd :: "nat \<Rightarrow> 'r \<Rightarrow> (nat \<Rightarrow> 'e) \<Rightarrow> (nat \<Rightarrow> 'e)" and entries :: "nat \<Rightarrow> nat set"
  assumes upd_override: "upd g rs (override_on u t (entries g)) = override_on u (upd g rs t) (entries g)"
    and entries_disjoint: "g \<noteq> h \<Longrightarrow> entries g \<inter> entries h = {}"
begin

lemma upd_other: "k \<notin> entries g \<Longrightarrow> upd g rs t k = t k"
  using upd_override [of g rs t t] by (simp add: override_on_def fun_eq_iff) metis

lemma upd_cong: "\<forall>k \<in> entries g. t k = t' k \<Longrightarrow> k \<in> entries g \<Longrightarrow> upd g rs t k = upd g rs t' k"
proof -
  assume a: "\<forall>k \<in> entries g. t k = t' k" "k \<in> entries g"
  then have "override_on t' t (entries g) = t'" by (auto simp: override_on_def)
  then have "upd g rs t' = override_on t' (upd g rs t) (entries g)" using upd_override [of g rs t' t] by simp
  then show ?thesis using a(2) by (simp add: override_on_def)
qed

lemma all_chips:
  "distinct gs \<Longrightarrow> fold (\<lambda>g. upd g (f g)) gs t k = (if \<exists>g \<in> set gs. k \<in> entries g then upd (THE g. k \<in> entries g) (f (THE g. k \<in> entries g)) t k else t k)"
proof (induction gs arbitrary: t)
  case (Cons g gs)
  have one: "(THE h. k \<in> entries h) = h" if "k \<in> entries h" for h
    using that entries_disjoint by (intro the_equality) auto
  note IH = Cons.IH [of "upd g (f g) t"]
  show ?case
  proof (cases "\<exists>h \<in> set gs. k \<in> entries h")
    case True
    then obtain h where h: "h \<in> set gs" "k \<in> entries h" by blast
    with Cons.prems have "g \<noteq> h" by auto
    then have "\<forall>k \<in> entries h. upd g (f g) t k = t k" using entries_disjoint [of g h] upd_other by blast
    then have "upd h (f h) (upd g (f g) t) k = upd h (f h) t k" using h(2) by (rule upd_cong)
    with IH h one [OF h(2)] Cons.prems show ?thesis by auto
  next
    case False
    with IH Cons.prems show ?thesis using upd_other [of k g] one [of g] by auto
  qed
qed simp

lemma any_order:
  assumes "distinct gs" "distinct hs" "set gs = set hs"
  shows "fold (\<lambda>g. upd g (f g)) gs t = fold (\<lambda>g. upd g (f g)) hs t"
  using all_chips [OF assms(1), of f t] all_chips [OF assms(2), of f t] assms(3) by (simp add: fun_eq_iff)

lemma entry_of_chip: "distinct gs \<Longrightarrow> g \<in> set gs \<Longrightarrow> k \<in> entries g \<Longrightarrow> fold (\<lambda>g. upd g (f g)) gs t k = upd g (f g) t k"
proof -
  assume a: "distinct gs" "g \<in> set gs" "k \<in> entries g"
  have "(THE h. k \<in> entries h) = g" using a(3) entries_disjoint by (intro the_equality) auto
  with all_chips [OF a(1), of f t k] a(2,3) show ?thesis by auto
qed

lemma other_entries: "distinct gs \<Longrightarrow> \<forall>g \<in> set gs. k \<notin> entries g \<Longrightarrow> fold (\<lambda>g. upd g (f g)) gs t k = t k"
  using all_chips [of gs f t k] by auto

end

end
