(* ===== verification/Tdc_Calibration.thy ===== *)
theory Tdc_Calibration
  imports Calibration_Sort Root_Library Chip_Processes Event_Writer "HOL-Library.While_Combinator"
begin

text \<open>
  The calibration of the time to digital converters, petsys_util/process_tdc_calibration.cpp: the records of the temporary files, the fits of one chip
  (\<open>calibrateAsic\<close>), the common adjustment and the table that is written. The fits themselves are the argument \<open>R\<close>, a record
  of the methods of the ROOT library; the histogram of the coarse times and the plots, which go to files of ROOT and pictures only,
  are left out.
\<close>

section \<open>The records of the temporary files\<close>

record TdcData =
  td_gid :: u64
  td_coarse :: u16
  td_fine :: u16
  td_freq :: int
  td_phase :: fp

definition tdc_records :: "fp \<Rightarrow> CalibrationData \<Rightarrow> TdcData list" where
  "tdc_records step1 c =
     (let eWord = cd_eventWord c; gChannelID = getChannelID eWord; tacID = ucast (getTacID eWord) :: u32
      in [\<lparr>td_gid = ucast (push_bit 4 gChannelID OR push_bit 1 tacID OR 0), td_coarse = getT1Coarse eWord, td_fine = getT1Fine eWord,
           td_freq = cd_freq c, td_phase = step1\<rparr>,
          \<lparr>td_gid = ucast (push_bit 4 gChannelID OR push_bit 1 tacID OR 1), td_coarse = getT2Coarse eWord, td_fine = getT2Fine eWord,
           td_freq = cd_freq c, td_phase = step1\<rparr>])"

section \<open>The model functions of the fits\<close>

definition TDC_PERIOD :: int where
  "TDC_PERIOD = 1"

definition TDC_SYNC_OFFSET :: fp where
  "TDC_SYNC_OFFSET = flt (lit 5 (-1))"

definition periodicF1 :: "fp \<Rightarrow> fp list \<Rightarrow> fp" where
  "periodicF1 xx pp =
     (let x = flt (fp_fmod (fp_sub F64 (fp_add F64 (int64 1024) xx) (pp ! 0)) (int64 TDC_PERIOD))
      in fp_sub F64 (fp_add F64 (pp ! 1) (fp_mul F64 (pp ! 2) (int64 TDC_PERIOD))) (fp_mul F64 (pp ! 2) (dbl x)))"

definition periodicF2 :: "fp \<Rightarrow> fp list \<Rightarrow> fp" where
  "periodicF2 tDelay pp =
     (let tEdge = pp ! 0; a0 = pp ! 1; a1 = pp ! 2; a2 = pp ! 3;
          tQ = fp_sub F64 (dbl (fp_add F32 (int32 TDC_PERIOD) TDC_SYNC_OFFSET))
                 (fp_fmod (fp_sub F64 (fp_add F64 (int64 1024) tDelay) tEdge) (int64 TDC_PERIOD))
      in fp_add F64 (fp_add F64 a0 (fp_mul F64 a1 tQ)) (fp_mul F64 (fp_mul F64 a2 tQ) tQ))"

section \<open>One converter\<close>

text \<open>The search for the ends of the range moves a bin number until the bin is low; the ends found are not used again.\<close>

function walk_bins :: "(int \<Rightarrow> fp) \<Rightarrow> fp \<Rightarrow> bool \<Rightarrow> int \<Rightarrow> fault + int" where
  "walk_bins f low up i =
     (if fp_gt (f i) low then
        (if up then (if i + 1 < 2 ^ 31 then walk_bins f low up (i + 1) else Inl Unspecified)
         else (if - (2 ^ 31) \<le> i - 1 then walk_bins f low up (i - 1) else Inl Unspecified))
      else Inr i)"
  by pat_completeness auto
termination
  by (relation "measure (\<lambda>(f, low, up, i). if up then nat (2 ^ 31 - i) else nat (i + 2 ^ 31))") auto

declare walk_bins.simps [simp del]

definition adc_range :: "('m, 'h, 'p, 'f) root \<Rightarrow> 'm \<Rightarrow> fault + int \<times> int" where
  "adc_range R hFine2 =
     (let hFine = h_Smooth R 4 (h_Rebin R 8 (m_ProjectionY R hFine2));
          adcMean = flt (h_GetMean R hFine);
          adcMeanBin = h_FindBin R hFine (dbl adcMean)
      in rbind (to_i (h_GetBinContent R hFine adcMeanBin)) (\<lambda>adcMeanCount.
         let low = fp_mul F64 (lit 20 (-2)) (int64 adcMeanCount)
         in rbind (walk_bins (h_GetBinContent R hFine) low False adcMeanBin) (\<lambda>adcMinBin.
            rbind (walk_bins (h_GetBinContent R hFine) low True adcMeanBin) (\<lambda>adcMaxBin.
            Inr (adcMinBin, adcMaxBin)))))"

record edge =
  ed_tEdge :: fp
  ed_lowerT0 :: fp
  ed_upperT0 :: fp
  ed_maxSlope :: fp
  ed_adcMin :: fp

definition newEdge :: edge where
  "newEdge = \<lparr>ed_tEdge = int32 0, ed_lowerT0 = int32 0, ed_upperT0 = int32 0, ed_maxSlope = int32 0, ed_adcMin = int32 1024\<rparr>"

definition edge_bins :: "('m, 'h, 'p, 'f) root \<Rightarrow> 'p \<Rightarrow> int \<times> int \<Rightarrow> edge \<Rightarrow> fault + edge" where
  "edge_bins R pFine = (\<lambda>(n, j) s.
     let v1 = flt (p_GetBinContent R pFine j); v2 = flt (p_GetBinContent R pFine (j + n));
         e1 = flt (p_GetBinError R pFine j); e2 = flt (p_GetBinError R pFine (j + n))
     in rbind (to_i (p_GetBinEntries R pFine j)) (\<lambda>c1.
        rbind (to_i (p_GetBinEntries R pFine (j + n))) (\<lambda>c2.
        let t1 = flt (p_GetBinCenter R pFine j); t2 = flt (p_GetBinCenter R pFine (j + n))
        in if c1 = 0 \<or> c2 = 0 then Inr s
           else if fp_gt e1 (int64 5) \<or> fp_gt e2 (int64 5) then Inr s
           else
             let slope = fp_div F32 (fp_sub F32 v2 v1) (fp_sub F32 t2 t1)
             in if fp_gt slope (ed_maxSlope s)
                then Inr \<lparr>ed_tEdge = fp_div F32 (fp_add F32 t2 t1) (int32 2), ed_lowerT0 = t1, ed_upperT0 = t2, ed_maxSlope = slope,
                          ed_adcMin = fp_fmin (ed_adcMin s) v1\<rparr>
                else Inr s)))"

definition edge_pairs :: "int \<Rightarrow> (int \<times> int) list" where
  "edge_pairs nBinsX = concat (map (\<lambda>n. map (Pair n) [1..nBinsX - 2 - n]) (rev [1..10]))"

text \<open>The edge is moved to the first period. Numbers too large to change by one period are never reduced.\<close>

definition first_period :: "fp \<times> fp \<times> fp \<Rightarrow> (fp \<times> fp \<times> fp) option" where
  "first_period =
     while_option (\<lambda>(lowerT0, tEdge, upperT0). fp_gt lowerT0 (int32 TDC_PERIOD) \<and> fp_gt tEdge (int32 TDC_PERIOD) \<and> fp_gt upperT0 (int32 TDC_PERIOD))
       (\<lambda>(lowerT0, tEdge, upperT0). (fp_sub F32 lowerT0 (int32 TDC_PERIOD), fp_sub F32 tEdge (int32 TDC_PERIOD), fp_sub F32 upperT0 (int32 TDC_PERIOD)))"

text \<open>The first fit; \<open>b\<close> and \<open>m\<close> have no value before a fit improves.\<close>

record ('p, 'f) first_fit =
  ff_tEdge :: fp
  ff_bm :: "(fp \<times> fp) option"
  ff_currChi2 :: fp
  ff_prevChi2 :: fp
  ff_pf :: 'f
  ff_pFine :: 'p
  ff_found :: "'f option"

definition reduced_chi2 :: "('m, 'h, 'p, 'f) root \<Rightarrow> 'f \<Rightarrow> fp" where
  "reduced_chi2 R f = flt (fp_div F64 (f_GetChisquare R f) (int64 (f_GetNDF R f)))"

definition first_try ::
  "('m, 'h, 'p, 'f) root \<Rightarrow> fp \<times> fp \<Rightarrow> fp \<times> fp \<Rightarrow> fp \<Rightarrow> fp \<Rightarrow> ('p, 'f) first_fit \<Rightarrow> ('p, 'f) first_fit" where
  "first_try R = (\<lambda>(lowerT0, upperT0) (xMin, xMax) adcMin estimatedM s.
     let tEdgeTolerance = fp_sub F32 upperT0 lowerT0;
         pf = f_SetParLimits R 0 (dbl lowerT0) (dbl upperT0) (f_SetParameter R 0 (dbl (ff_tEdge s)) (ff_pf s));
         pf = f_SetParLimits R 1 (dbl (fp_sub F32 adcMin (fp_mul F32 estimatedM tEdgeTolerance))) (dbl adcMin) (f_SetParameter R 1 (dbl adcMin) pf);
         pf = f_SetParLimits R 2 (fp_mul F64 (lit 98 (-2)) (dbl estimatedM)) (fp_mul F64 (lit 102 (-2)) (dbl estimatedM))
                (f_SetParameter R 2 (dbl estimatedM) pf);
         (pf, pFine) = p_Fit R pf (dbl xMin) (dbl xMax) (ff_pFine s);
         s = s\<lparr>ff_pf := pf, ff_pFine := pFine, ff_found := p_GetFunction R pFine ''periodicF1''\<rparr>
     in case ff_found s of
          None \<Rightarrow> s
        | Some pf' \<Rightarrow>
            let s = s\<lparr>ff_prevChi2 := ff_currChi2 s, ff_currChi2 := reduced_chi2 R pf'\<rparr>
            in if fp_lt (ff_currChi2 s) (ff_prevChi2 s)
               then s\<lparr>ff_tEdge := flt (f_GetParameter R pf 0), ff_bm := Some (flt (f_GetParameter R pf 1), flt (f_GetParameter R pf 2))\<rparr>
               else s)"

text \<open>The tries that are left are the first argument.\<close>

primrec first_loop :: "nat \<Rightarrow> (('p, 'f) first_fit \<Rightarrow> ('p, 'f) first_fit) \<Rightarrow> ('p, 'f) first_fit \<Rightarrow> ('p, 'f) first_fit" where
  "first_loop 0 try s = s"
| "first_loop (Suc k) try s =
     (let s = try s in if fp_le (dbl (ff_currChi2 s)) (fp_mul F64 (lit 95 (-2)) (dbl (ff_prevChi2 s))) then first_loop k try s else s)"

text \<open>The deviations from the fit, filled for every bin that has counts.\<close>

definition inl_column :: "('m, 'h, 'p, 'f) root \<Rightarrow> 'm \<Rightarrow> 'f option \<Rightarrow> int \<Rightarrow> 'p \<Rightarrow> fault + 'p" where
  "inl_column R hFine2 pf' i pINL =
     (case pf' of
        None \<Rightarrow> Inl NullDeref
      | Some f \<Rightarrow>
          let expectedADC = flt (f_Eval R f (dbl (flt (m_XBinCenter R hFine2 i))))
          in Inr (fold (\<lambda>j pINL.
               let count = flt (m_GetBinContent R hFine2 i j); adc = flt (m_YBinLowEdge R hFine2 j)
               in if fp_eq count (int32 0) then pINL else p_Fill R (dbl adc) (dbl (fp_sub F32 adc expectedADC)) (dbl count) pINL)
             [1..1024] pINL))"

function max_inl :: "('m, 'h, 'p, 'f) root \<Rightarrow> 'p \<Rightarrow> fp \<Rightarrow> int \<Rightarrow> fp \<Rightarrow> fault + fp" where
  "max_inl R pINL upper j maxINL =
     (if \<not> fp_le (int32 j) upper then Inr maxINL
      else
        rbind (to_i (p_GetBinEntries R pINL j)) (\<lambda>c.
        let e = flt (p_GetBinError R pINL j); v = flt (fp_abs (p_GetBinContent R pINL j));
            maxINL = (if c < 100 then maxINL else if fp_gt e (int32 5) then maxINL else if fp_lt v maxINL then maxINL else v)
        in if j + 1 < 2 ^ 31 then max_inl R pINL upper (j + 1) maxINL else Inl Unspecified))"
  by pat_completeness auto
termination
  by (relation "measure (\<lambda>(R, pINL, upper, j, maxINL). nat (2 ^ 31 - j))") auto

declare max_inl.simps [simp del]

text \<open>The second fit.\<close>

record ('p, 'f) second_fit =
  sf_tE :: fp
  sf_currChi2 :: fp
  sf_prevChi2 :: fp
  sf_minChi2 :: fp
  sf_pf2 :: 'f
  sf_pFine :: 'p

definition second_try ::
  "('m, 'h, 'p, 'f) root \<Rightarrow> fp \<times> fp \<Rightarrow> fp \<times> fp \<Rightarrow> bool \<Rightarrow> ('p, 'f) second_fit \<Rightarrow> ('p, 'f) second_fit" where
  "second_try R = (\<lambda>(b, m) (xMin, xMax) first s.
     let pf2 = f_SetParLimits R 0 (fp_sub F64 (dbl (sf_tE s)) (lit 6 (-2))) (fp_add F64 (dbl (sf_tE s)) (lit 6 (-2)))
                 (f_SetParameter R 0 (dbl (sf_tE s)) (sf_pf2 s));
         pf2 = f_SetParameter R 2 (dbl m) (f_SetParameter R 1 (dbl b) pf2);
         pf2 = f_SetParLimits R 3 (int64 (-20)) (fp_neg (lit 1 (-2))) (f_SetParameter R 3 (int64 (-1)) pf2);
         (pf2, pFine) = p_Fit R pf2 (dbl xMin) (dbl xMax) (sf_pFine s);
         s = s\<lparr>sf_pf2 := pf2, sf_pFine := pFine\<rparr>;
         s = (case p_GetFunction R pFine ''periodicF2'' of
                None \<Rightarrow> s
              | Some pf' \<Rightarrow> s\<lparr>sf_prevChi2 := sf_currChi2 s, sf_currChi2 := reduced_chi2 R pf',
                               sf_tE := flt (fp_add F64 (dbl (sf_tE s)) (lit 1 (-3)))\<rparr>)
     in if first \<and> fp_lt (sf_currChi2 s) (sf_minChi2 s) then s\<lparr>sf_minChi2 := sf_currChi2 s\<rparr> else s)"

primrec second_loop :: "nat \<Rightarrow> fp \<Rightarrow> (('p, 'f) second_fit \<Rightarrow> ('p, 'f) second_fit) \<Rightarrow> ('p, 'f) second_fit \<Rightarrow> ('p, 'f) second_fit" where
  "second_loop 0 goal try s = s"
| "second_loop (Suc k) goal try s = (let s = try s in if fp_gt (dbl (sf_currChi2 s)) goal then second_loop k goal try s else s)"


record TdcEntry =
  ce_t0 :: fp
  ce_tEdge :: fp
  ce_a0 :: fp
  ce_a1 :: fp
  ce_a2 :: fp
  ce_valid :: bool
  ce_maxINL :: fp
  ce_sigma :: fp

definition newTdcEntry :: TdcEntry where
  "newTdcEntry = \<lparr>ce_t0 = int32 0, ce_tEdge = int32 0, ce_a0 = int32 0, ce_a1 = int32 0, ce_a2 = int32 0, ce_valid = False,
     ce_maxINL = int32 0, ce_sigma = int32 0\<rparr>"

text \<open>The second fit, and the entry made of it unless both the last fits are bad.\<close>

definition second_part :: "('m, 'h, 'p, 'f) root \<Rightarrow> 'p \<Rightarrow> fp \<times> fp \<Rightarrow> fp \<Rightarrow> fp \<times> fp \<Rightarrow> fp \<Rightarrow> TdcEntry \<Rightarrow> TdcEntry" where
  "second_part R pFine = (\<lambda>(xMin, xMax) tEdge (b, m) maxINL entry.
     let tE = flt (fp_sub F64 (dbl tEdge) (lit 5 (-2)));
         s = \<lparr>sf_tE = tE, sf_currChi2 = Inf False, sf_prevChi2 = Inf False, sf_minChi2 = Inf False,
              sf_pf2 = f_new R ''periodicF2'' periodicF2 (dbl xMin) (dbl xMax) 4, sf_pFine = pFine\<rparr>;
         s = second_loop 100 (int64 2) (second_try R (b, m) (xMin, xMax) True) s;
         s = (if fp_gt (sf_currChi2 s) (int32 2)
              then second_loop 100 (fp_add F64 (dbl (sf_minChi2 s)) (lit 1 (-4))) (second_try R (b, m) (xMin, xMax) False)
                     (s\<lparr>sf_currChi2 := Inf False, sf_prevChi2 := Inf False, sf_tE := tE\<rparr>)
              else s);
         maxChi2 = flt (lit 2 4)
     in if fp_gt (sf_prevChi2 s) maxChi2 \<and> fp_gt (sf_currChi2 s) maxChi2 then entry
        else entry\<lparr>ce_t0 := int32 0, ce_tEdge := flt (f_GetParameter R (sf_pf2 s) 0), ce_a0 := flt (f_GetParameter R (sf_pf2 s) 1),
               ce_a1 := flt (f_GetParameter R (sf_pf2 s) 2), ce_a2 := flt (f_GetParameter R (sf_pf2 s) 3),
               ce_maxINL := maxINL, ce_valid := True\<rparr>)"

definition tdc_fit ::
  "('m, 'h, 'p, 'f) root \<Rightarrow> 'm \<Rightarrow> 'p \<Rightarrow> fp \<times> fp \<times> fp \<Rightarrow> fp \<Rightarrow> TdcEntry \<Rightarrow> fault + TdcEntry" where
  "tdc_fit R hFine2 pFine = (\<lambda>(lowerT0, tEdge, upperT0) adcMin entry.
     let nBinsX = p_GetNbins R pFine; xMin = flt (p_GetXmin R pFine); xMax = flt (p_GetXmax R pFine);
         tEdgeTolerance = fp_sub F32 upperT0 lowerT0;
         pFine = p_FitPol R 1 (dbl (fp_add F32 tEdge tEdgeTolerance)) (dbl (fp_sub F32 (fp_add F32 tEdge (int32 TDC_PERIOD)) tEdgeTolerance)) pFine
     in case p_GetFunction R pFine ''pol1'' of
          None \<Rightarrow> Inr entry
        | Some fPol \<Rightarrow>
            let estimatedM = flt (fp_neg (f_GetParameter R fPol 1))
            in if fp_lt estimatedM (int64 400) \<or> fp_gt estimatedM (int64 650) then Inr entry
               else
                 let s = first_loop 10 (first_try R (lowerT0, upperT0) (xMin, xMax) adcMin estimatedM)
                       \<lparr>ff_tEdge = tEdge, ff_bm = None, ff_currChi2 = Inf False, ff_prevChi2 = Inf False,
                        ff_pf = f_new R ''periodicF1'' periodicF1 (dbl xMin) (dbl xMax) 3, ff_pFine = pFine, ff_found = None\<rparr>
                 in rbind (rfold (inl_column R hFine2 (ff_found s)) [1..nBinsX] (p_new R 1024 (int64 0) (int64 1024))) (\<lambda>pINL.
                    case ff_bm s of
                      None \<Rightarrow> Inl Unspecified
                    | Some (b, m) \<Rightarrow>
                        rbind (to_i (fp_add F32 (fp_ceil F32 b) (int32 5))) (\<lambda>j.
                        rbind (max_inl R pINL (fp_sub F32 (fp_floor F32 (fp_add F32 b m)) (int32 5)) j (int32 0)) (\<lambda>maxINL.
                        Inr (second_part R (ff_pFine s) (xMin, xMax) (ff_tEdge s) (b, m) maxINL entry)))))"

definition tdc_tac :: "('m, 'h, 'p, 'f) root \<Rightarrow> 'm \<Rightarrow> TdcEntry \<Rightarrow> fault + TdcEntry" where
  "tdc_tac R hFine2 entry =
     (if fp_lt (m_GetEntries R hFine2) (int64 1000) then Inr entry
      else
        rbind (adc_range R hFine2) (\<lambda>_.
        let pFine = m_ProfileX R hFine2
        in rbind (rfold (edge_bins R pFine) (edge_pairs (p_GetNbins R pFine)) newEdge) (\<lambda>s.
           if fp_eq (ed_adcMin s) (int64 1024) then Inr entry
           else
             case first_period (ed_lowerT0 s, ed_tEdge s, ed_upperT0 s) of
               None \<Rightarrow> Inl Diverges
             | Some e \<Rightarrow> tdc_fit R hFine2 pFine e (ed_adcMin s) entry)))"

section \<open>One chip\<close>

text \<open>The calibration table by the number of the converter: port, slave, chip, channel, analogue buffer and branch.\<close>

type_synonym tdc_table = "nat \<Rightarrow> TdcEntry"

definition MAX_N_T1AC :: nat where
  "MAX_N_T1AC = MAX_N_ASIC * 32 * 2 * 8"

definition tdc_gids :: "nat \<Rightarrow> nat list" where
  "tdc_gids gAsicID = [gAsicID * 32 * 2 * 8..<(gAsicID + 1) * 32 * 2 * 8]"

definition tdc_fill :: "('m, 'h, 'p, 'f) root \<Rightarrow> nat \<Rightarrow> TdcData \<Rightarrow> (nat \<Rightarrow> 'm) \<times> bool \<Rightarrow> fault + (nat \<Rightarrow> 'm) \<times> bool" where
  "tdc_fill R gidStart calData = (\<lambda>(hFine2_list, asicPresent).
     let i = unat (td_gid calData - of_nat gidStart)
     in if \<not> i < 32 * 2 * 8 then Inl OutOfBounds
        else Inr (hFine2_list(i := (m_Fill R (dbl (td_phase calData)) (int64 (int (unat (td_fine calData)))) ^^ nat (td_freq calData)) (hFine2_list i)), True))"

text \<open>The control histograms of the valid converters.\<close>

type_synonym ('p, 'h) control = "nat \<Rightarrow> ('p \<times> 'h) option"

definition new_control :: "('m, 'h, 'p, 'f) root \<Rightarrow> int \<times> fp \<times> fp \<Rightarrow> tdc_table \<Rightarrow> nat \<Rightarrow> ('p, 'h) control \<Rightarrow> fault + ('p, 'h) control" where
  "new_control R = (\<lambda>(nbins, lo, hi) table gid hs.
     if \<not> ce_valid (table gid) then Inr hs
     else rbind (to_i (ce_a1 (table gid))) (\<lambda>n.
          Inr (hs(gid \<mapsto> (p_new R nbins (dbl lo) (dbl hi), h_new R n (fp_neg (lit 5 (-1))) (lit 5 (-1)))))))"

definition time_error :: "TdcEntry \<Rightarrow> TdcData \<Rightarrow> fp option" where
  "time_error entry calData =
     (let delta = fp_sub F32 (fp_mul F32 (ce_a1 entry) (ce_a1 entry))
            (fp_mul F32 (fp_mul F32 (int32 4) (fp_sub F32 (ce_a0 entry) (int32 (int (unat (td_fine calData)))))) (ce_a2 entry))
      in if fp_lt delta (int32 0) then None
         else
           let qEstimate = fp_div F32 (fp_add F32 (fp_neg (ce_a1 entry)) (fp_sqrt F32 delta)) (fp_mul F32 (int32 2) (ce_a2 entry));
               tEstimate = fp_sub F32 (fp_sub F32 (int32 (int (unat (td_coarse calData)))) qEstimate) (ce_t0 entry)
           in Some (fp_sub F32 tEstimate (td_phase calData)))"

definition control_record ::
  "('m, 'h, 'p, 'f) root \<Rightarrow> nat \<Rightarrow> tdc_table \<Rightarrow> TdcData \<Rightarrow> ('p, 'h) control \<Rightarrow> fault + ('p, 'h) control" where
  "control_record R gAsicID table calData hs =
     (let gid = unat (td_gid calData)
      in if gid \<notin> set (tdc_gids gAsicID) then Inl AssertFail
         else if \<not> ce_valid (table gid) then Inr hs
         else
           case time_error (table gid) calData of
             None \<Rightarrow> Inr hs
           | Some tError \<Rightarrow>
               (case hs gid of
                  None \<Rightarrow> Inl NullDeref
                | Some (pControlT, hControlE) \<Rightarrow>
                    let n = nat (td_freq calData);
                        pControlT = (p_Fill R (dbl (td_phase calData)) (dbl tError) (int64 1) ^^ n) pControlT;
                        hControlE = (if fp_lt (fp_abs tError) (flt (lit 5 (-1))) then (h_Fill R (dbl tError) ^^ n) hControlE else hControlE)
                    in Inr (hs(gid \<mapsto> (pControlT, hControlE)))))"

text \<open>The correction of one converter: from the mean of the errors, or better from a fit to their distribution.\<close>

definition control_offset :: "('m, 'h, 'p, 'f) root \<Rightarrow> 'p \<times> 'h \<Rightarrow> fp \<times> 'p \<times> 'h" where
  "control_offset R = (\<lambda>(pControlT, hControlE).
     let offset = (if fp_gt (p_GetEntries R pControlT) (int64 100) then flt (p_GetMean2 R pControlT) else int32 0)
     in if fp_gt (h_GetEntries R hControlE) (int64 1000)
        then let hControlE = h_FitGaus R hControlE
             in (case h_GetFunction R hControlE ''gaus'' of None \<Rightarrow> offset | Some f \<Rightarrow> flt (f_GetParameter R f 1), pControlT, hControlE)
        else (offset, pControlT, hControlE))"

definition correct_t0 :: "('m, 'h, 'p, 'f) root \<Rightarrow> nat \<Rightarrow> tdc_table \<times> ('p, 'h) control \<Rightarrow> fault + tdc_table \<times> ('p, 'h) control" where
  "correct_t0 R gid = (\<lambda>(table, hs).
     if \<not> ce_valid (table gid) then Inr (table, hs)
     else
       case hs gid of
         None \<Rightarrow> Inl NullDeref
       | Some ph \<Rightarrow>
           let (offset, ph) = control_offset R ph; entry = table gid
           in Inr (table(gid := entry\<lparr>ce_t0 := fp_add F32 (ce_t0 entry) offset\<rparr>), hs(gid \<mapsto> ph)))"

definition reset_control :: "('m, 'h, 'p, 'f) root \<Rightarrow> ('p, 'h) control \<Rightarrow> ('p, 'h) control" where
  "reset_control R hs = (\<lambda>gid. map_option (\<lambda>(pControlT, hControlE). (p_Reset R pControlT, h_Reset R hControlE)) (hs gid))"

definition nIterations :: nat where
  "nIterations = 3"

definition control_pass ::
  "('m, 'h, 'p, 'f) root \<Rightarrow> nat \<Rightarrow> TdcData list \<Rightarrow> nat \<Rightarrow> tdc_table \<times> ('p, 'h) control \<Rightarrow> fault + tdc_table \<times> ('p, 'h) control" where
  "control_pass R gAsicID rs iter = (\<lambda>(table, hs).
     rbind (rfold (control_record R gAsicID table) rs (reset_control R hs)) (\<lambda>hs.
     if iter \<ge> nIterations then Inr (table, hs) else rfold (correct_t0 R) (tdc_gids gAsicID) (table, hs)))"

text \<open>A channel with a converter that is not calibrated is cleared.\<close>

definition check_channel :: "nat \<Rightarrow> tdc_table \<Rightarrow> tdc_table" where
  "check_channel gChannelID table =
     (let gids = [gChannelID * 16..<gChannelID * 16 + 16]
      in if list_all (\<lambda>gid. ce_valid (table gid)) gids then table
         else fold (\<lambda>gid table. table(gid := (table gid)\<lparr>ce_valid := False\<rparr>)) gids table)"

definition resolution_order :: "nat \<Rightarrow> nat list" where
  "resolution_order gAsicID =
     concat (map (\<lambda>branchID. concat (map (\<lambda>channelID. map (\<lambda>tacID.
        gAsicID * 32 * 2 * 8 + 16 * channelID + 2 * tacID + branchID) [0..<8]) [0..<32])) [0..<2])"

definition store_resolution ::
  "('m, 'h, 'p, 'f) root \<Rightarrow> ('p, 'h) control \<Rightarrow> nat \<Rightarrow> tdc_table \<Rightarrow> fault + tdc_table" where
  "store_resolution R hs gid table =
     (if \<not> ce_valid (table gid) then Inr table
      else
        case hs gid of
          None \<Rightarrow> Inl NullDeref
        | Some (pControlT, hControlE) \<Rightarrow>
            if fp_lt (h_GetEntries R hControlE) (int64 1000) then Inr table
            else
              case h_GetFunction R (h_FitGaus R hControlE) ''gaus'' of
                None \<Rightarrow> Inr table
              | Some fit \<Rightarrow> Inr (table(gid := (table gid)\<lparr>ce_sigma := flt (f_GetParameter R fit 2)\<rparr>)))"

definition calibrate_tac :: "('m, 'h, 'p, 'f) root \<Rightarrow> nat \<Rightarrow> (nat \<Rightarrow> 'm) \<Rightarrow> nat \<Rightarrow> tdc_table \<Rightarrow> fault + tdc_table" where
  "calibrate_tac R gidStart hFine2_list gid table =
     rbind (tdc_tac R (hFine2_list (gid - gidStart)) (table gid)) (\<lambda>entry. Inr (table(gid := entry)))"

text \<open>
  The control passes cannot stop half way after the first filling: their assertion is the bound that was checked there, and the
  histograms of the valid converters exist.
\<close>

definition control_asic ::
  "('m, 'h, 'p, 'f) root \<Rightarrow> int \<times> fp \<times> fp \<Rightarrow> nat \<Rightarrow> TdcData list \<Rightarrow> tdc_table \<Rightarrow> tdc_table outcome" where
  "control_asic R lin gAsicID rs table =
     (case rbind (rfold (new_control R lin table) (tdc_gids gAsicID) (\<lambda>_. None)) (\<lambda>hs.
           rfold (control_pass R gAsicID rs) [0..<nIterations + 1] (table, hs)) of
        Inl e \<Rightarrow> (Some e, table)
      | Inr (table, hs) \<Rightarrow>
          attempt (store_resolution R hs) (resolution_order gAsicID) (fold check_channel [gAsicID * 32..<gAsicID * 32 + 32] table))"

definition calibrateAsic ::
  "('m, 'h, 'p, 'f) root \<Rightarrow> int \<times> fp \<times> fp \<Rightarrow> nat \<Rightarrow> TdcData list \<Rightarrow> tdc_table \<Rightarrow> tdc_table outcome" where
  "calibrateAsic R lin gAsicID rs table =
     (let (nbins, lo, hi) = lin; gidStart = gAsicID * 32 * 2 * 8
      in case rfold (tdc_fill R gidStart) rs (\<lambda>_. m_new R nbins (dbl lo) (dbl hi), False) of
           Inl e \<Rightarrow> (Some e, table)
         | Inr (hFine2_list, asicPresent) \<Rightarrow>
             if \<not> asicPresent then (None, table)
             else if \<not> gAsicID < MAX_N_ASIC then (Some OutOfBounds, table)
             else proceed (attempt (calibrate_tac R gidStart hFine2_list) (tdc_gids gAsicID) table) (control_asic R lin gAsicID rs))"

section \<open>All chips\<close>

text \<open>Both branches are shifted so that their calibrated offsets have the mean zero.\<close>

definition branch_gids :: "nat \<Rightarrow> nat list" where
  "branch_gids branchID = map (\<lambda>k. branchID + 2 * k) [0..<MAX_N_T1AC div 2]"

definition branch_average :: "nat \<Rightarrow> tdc_table \<Rightarrow> fp" where
  "branch_average branchID table =
     (let (sum, n) = fold (\<lambda>gid (sum, n). if ce_valid (table gid) then (fp_add F64 sum (dbl (ce_t0 (table gid))), n + 1) else (sum, n))
            (branch_gids branchID) (int64 0, 0)
      in fp_div F64 sum (int64 n))"

definition adjust_branch :: "nat \<Rightarrow> tdc_table \<Rightarrow> tdc_table" where
  "adjust_branch branchID table =
     (let average = branch_average branchID table
      in fold (\<lambda>gid table. if ce_valid (table gid)
             then table(gid := (table gid)\<lparr>ce_t0 := flt (fp_sub F64 (dbl (ce_t0 (table gid))) average)\<rparr>) else table)
           (branch_gids branchID) table)"

definition adjustCalibrationTable :: "tdc_table \<Rightarrow> tdc_table" where
  "adjustCalibrationTable table = adjust_branch 1 (adjust_branch 0 table)"

definition tdc_text :: "nat \<Rightarrow> TdcEntry \<Rightarrow> string" where
  "tdc_text gid entry =
     (let branchID = gid mod 2; tacID = gid div 2 mod 8; channelID = gid div 2 ^ 4 mod 32; chipID = gid div 2 ^ 9 mod 64;
          slaveID = gid div 2 ^ 15 mod 32; portID = gid div 2 ^ 20 mod 32
      in fields_line [show_nat portID, show_nat slaveID, show_nat chipID, show_nat channelID, show_nat tacID,
           if branchID = 0 then ''1'' else ''2'', show_parameter (ce_t0 entry), show_parameter (ce_a0 entry),
           show_parameter (ce_a1 entry), show_parameter (ce_a2 entry), show_parameter (ce_sigma entry)])"

definition tdc_header :: string where
  "tdc_header = fields_line [''# portID'', ''slaveID'', ''chipID'', ''channelID'', ''tacID'', ''branch'', ''t0'', ''a0'', ''a1'', ''a2'', ''sigma'']"

definition writeCalibrationTable :: "tdc_table \<Rightarrow> string" where
  "writeCalibrationTable table =
     tdc_header @ concat (map (\<lambda>gid. if ce_valid (table gid) then tdc_text gid (table gid) else []) [0..<MAX_N_T1AC])"

section \<open>The program\<close>

definition tdc_option :: "getopt \<Rightarrow> calibration_options \<Rightarrow> fault + calibration_options" where
  "tdc_option opt p =
     (case opt of
        ShortOpt c s \<Rightarrow>
          if c = CHR ''i'' then Inr (p\<lparr>co_inputFilePrefix := Some s\<rparr>)
          else if c = CHR ''o'' then Inr (p\<lparr>co_outputFilePrefix := Some s\<rparr>)
          else Inl (Exit 1)
      | LongOpt n s \<Rightarrow>
          if n = 0 then Inl (Exit 0)
          else if n = 1 then Inr (p\<lparr>co_configFileName := Some s\<rparr>)
          else if n = 2 then Inr (p\<lparr>co_doSorting := False\<rparr>)
          else if n = 3 then Inr (p\<lparr>co_keepTemporary := True\<rparr>)
          else if n = 4 then Inr (p\<lparr>co_tmpFilePrefix := Some s\<rparr>)
          else Inl (Exit 1))"

definition sizeof_TdcData :: nat where
  "sizeof_TdcData = 24"

text \<open>The text written and the data files that are left. The result of a process that calibrates a chip is not looked at.\<close>

definition process_tdc_calibration ::
  "('m, 'h, 'p, 'f) root \<Rightarrow> TdcData calibration_env \<Rightarrow> getopt list \<Rightarrow> fault + string \<times> (string \<Rightarrow> TdcData list option)" where
  "process_tdc_calibration R V args =
     rbind (rfold tdc_option args default_calibration) (\<lambda>p.
     rbind (path_prefix (co_inputFilePrefix p) ''.bins'') (\<lambda>inputFilePrefix.
     rbind (read_bins V inputFilePrefix) (\<lambda>lin.
     rbind (calibrate_sorted (sortData tdc_records)
              (calibrateAllAsics (\<lambda>gAsicID rs table. snd (calibrateAsic R lin gAsicID rs table)) sizeof_TdcData)
              V p inputFilePrefix (\<lambda>_. newTdcEntry)) (\<lambda>(table, t).
     rbind (path_prefix (co_outputFilePrefix p) ''.tsv'') (\<lambda>outputFilePrefix.
     rbind (if co_keepTemporary p then Inr (tf_data t) else deleteTemporaryFiles t) (\<lambda>left.
     Inr (writeCalibrationTable (adjustCalibrationTable table), left)))))))"


section \<open>The processes of the chips do not disturb each other\<close>

lemma control_record_override: "control_record R g (override_on u t (set (tdc_gids g))) = control_record R g t"
  by (simp add: control_record_def Let_def fun_eq_iff)

lemma new_control_override:
  "set gids \<subseteq> G \<Longrightarrow> rfold (new_control R lin (override_on u t G)) gids hs = rfold (new_control R lin t) gids hs"
proof (induction gids arbitrary: hs)
  case (Cons gid gids)
  then have "new_control R lin (override_on u t G) gid hs = new_control R lin t gid hs"
    by (simp add: new_control_def split: prod.split)
  with Cons show ?case by (cases "new_control R lin t gid hs") simp_all
qed simp

lemma correct_t0_local: "gid \<in> G \<Longrightarrow> local_pair G (correct_t0 R gid)"
  by (auto simp: local_pair_def correct_t0_def Let_def override_update split: option.split prod.split)

lemma control_pass_local: "local_pair (set (tdc_gids g)) (control_pass R g rs iter)"
proof -
  have "local_pair (set (tdc_gids g)) (rfold (correct_t0 R) (tdc_gids g))" by (rule local_pair_rfold) (simp add: correct_t0_local)
  then show ?thesis
    unfolding local_pair_def control_pass_def by (auto simp: control_record_override rbind_def split: sum.split)
qed

lemma check_channel_override:
  assumes "{ch * 16..<ch * 16 + 16} \<subseteq> G"
  shows "check_channel ch (override_on u t G) = override_on u (check_channel ch t) G"
proof -
  have "list_all (\<lambda>gid. ce_valid (override_on u t G gid)) [ch * 16..<ch * 16 + 16] = list_all (\<lambda>gid. ce_valid (t gid)) [ch * 16..<ch * 16 + 16]"
    using assms by (intro list.pred_cong refl) auto
  moreover have "fold (\<lambda>gid t. t(gid := (t gid)\<lparr>ce_valid := False\<rparr>)) [ch * 16..<ch * 16 + 16] (override_on u t G) =
      override_on u (fold (\<lambda>gid t. t(gid := (t gid)\<lparr>ce_valid := False\<rparr>)) [ch * 16..<ch * 16 + 16] t) G"
    using assms by (intro fold_override) (auto simp: override_update)
  ultimately show ?thesis by (simp add: check_channel_def Let_def)
qed

lemma store_resolution_local: "gid \<in> G \<Longrightarrow> local_on G (store_resolution R hs gid)"
  by (auto simp: local_on_def store_resolution_def override_update split: option.split)

lemma resolution_order_in: "gid \<in> set (resolution_order g) \<Longrightarrow> gid \<in> set (tdc_gids g)"
  by (auto simp: resolution_order_def tdc_gids_def)

lemma control_asic_override:
  "control_asic R lin g rs (override_on u t (set (tdc_gids g))) = map_prod id (\<lambda>t'. override_on u t' (set (tdc_gids g))) (control_asic R lin g rs t)"
proof -
  let ?G = "set (tdc_gids g)"
  have c: "fold check_channel [g * 32..<g * 32 + 32] (override_on u t ?G) = override_on u (fold check_channel [g * 32..<g * 32 + 32] t) ?G" for t
    by (intro fold_override ballI allI check_channel_override) (auto simp: tdc_gids_def)
  have s: "attempt (store_resolution R hs) (resolution_order g) (override_on u t ?G) =
      map_prod id (\<lambda>t'. override_on u t' ?G) (attempt (store_resolution R hs) (resolution_order g) t)" for hs t
    by (intro attempt_override ballI store_resolution_local resolution_order_in)
  have "rfold (control_pass R g rs) [0..<nIterations + 1] (override_on u t ?G, hs) =
      map_sum id (map_prod (\<lambda>t'. override_on u t' ?G) id) (rfold (control_pass R g rs) [0..<nIterations + 1] (t, hs))" for hs
    using local_pair_rfold [of "[0..<nIterations + 1]" ?G "control_pass R g rs", OF ballI, OF control_pass_local]
    unfolding local_pair_def by blast
  then have "rbind (rfold (new_control R lin (override_on u t ?G)) (tdc_gids g) (\<lambda>_. None)) (\<lambda>hs.
       rfold (control_pass R g rs) [0..<nIterations + 1] (override_on u t ?G, hs)) =
     map_sum id (map_prod (\<lambda>t'. override_on u t' ?G) id) (rbind (rfold (new_control R lin t) (tdc_gids g) (\<lambda>_. None)) (\<lambda>hs.
       rfold (control_pass R g rs) [0..<nIterations + 1] (t, hs)))"
    by (simp add: new_control_override [OF order.refl] rbind_def split: sum.split)
  then show ?thesis
    unfolding control_asic_def by (cases "rbind (rfold (new_control R lin t) (tdc_gids g) (\<lambda>_. None)) (\<lambda>hs.
       rfold (control_pass R g rs) [0..<nIterations + 1] (t, hs))") (auto simp: c s)
qed

lemma calibrateAsic_override:
  "calibrateAsic R lin g rs (override_on u t (set (tdc_gids g))) = map_prod id (\<lambda>t'. override_on u t' (set (tdc_gids g))) (calibrateAsic R lin g rs t)"
proof -
  let ?G = "set (tdc_gids g)"
  have a: "attempt (calibrate_tac R n f) (tdc_gids g) (override_on u t ?G) =
      map_prod id (\<lambda>t'. override_on u t' ?G) (attempt (calibrate_tac R n f) (tdc_gids g) t)" for n f
    unfolding calibrate_tac_def by (intro attempt_override ballI local_entry)
  have p: "proceed (map_prod id (\<lambda>t'. override_on u t' ?G) r) (control_asic R lin g rs) =
      map_prod id (\<lambda>t'. override_on u t' ?G) (proceed r (control_asic R lin g rs))" for r
    by (cases r; cases "fst r") (simp_all add: proceed_def control_asic_override)
  show ?thesis unfolding calibrateAsic_def Let_def a p by (auto split: sum.split prod.split)
qed

lemma tdc_gids_disjoint: "g \<noteq> h \<Longrightarrow> set (tdc_gids g) \<inter> set (tdc_gids h) = {}"
  by (auto simp: tdc_gids_def)

interpretation tdc: chip_updates "\<lambda>g rs table. snd (calibrateAsic R lin g rs table)" "\<lambda>g. set (tdc_gids g)" for R lin
  by unfold_locales (simp_all add: calibrateAsic_override tdc_gids_disjoint)


text \<open>
  C35: The processes that calibrate the chips do not disturb each other: whatever the library's fits return and wherever a process
  ends, every entry of the table is made from the data of its own chip alone, an entry of a chip without a process stays as it was, and so the order in
  which the processes work on the shared table does not matter.
\<close>

theorem tdc_processes_independent:
  assumes "distinct gs"
  shows "fold (\<lambda>g table. snd (calibrateAsic R lin g (f g) table)) gs table gid =
     (if gid div 512 \<in> set gs then snd (calibrateAsic R lin (gid div 512) (f (gid div 512)) table) gid else table gid)"
proof -
  have g: "gid \<in> set (tdc_gids g) \<longleftrightarrow> g = gid div 512" for g by (auto simp: tdc_gids_def)
  show ?thesis
  proof (cases "gid div 512 \<in> set gs")
    case True
    then show ?thesis using tdc.entry_of_chip [OF assms True, of gid R lin f table] by (simp add: g)
  next
    case False
    then have "\<forall>h \<in> set gs. gid \<notin> set (tdc_gids h)" by (auto simp: g)
    with False show ?thesis using tdc.other_entries [OF assms, of gid R lin f table] by simp
  qed
qed

theorem tdc_processes_witness:
  "\<forall>(R :: (nat, nat, nat, nat) root) f gid.
     fold (\<lambda>g table. snd (calibrateAsic R (90, int32 0, int32 3) g (f g) table)) [5, 2] (\<lambda>_. newTdcEntry) gid =
     fold (\<lambda>g table. snd (calibrateAsic R (90, int32 0, int32 3) g (f g) table)) [2, 5] (\<lambda>_. newTdcEntry) gid"
proof (intro allI)
  fix R :: "(nat, nat, nat, nat) root" and f gid
  have d: "distinct [5, 2 :: nat]" "distinct [2, 5 :: nat]" by simp_all
  show "fold (\<lambda>g table. snd (calibrateAsic R (90, int32 0, int32 3) g (f g) table)) [5, 2] (\<lambda>_. newTdcEntry) gid =
     fold (\<lambda>g table. snd (calibrateAsic R (90, int32 0, int32 3) g (f g) table)) [2, 5] (\<lambda>_. newTdcEntry) gid"
    unfolding tdc_processes_independent [OF d(1)] tdc_processes_independent [OF d(2)] by auto
qed

section \<open>A channel is calibrated as a whole\<close>

definition channel_gids :: "nat \<Rightarrow> nat list" where
  "channel_gids ch = [ch * 16..<ch * 16 + 16]"

definition whole_channel :: "tdc_table \<Rightarrow> nat \<Rightarrow> bool" where
  "whole_channel table ch \<longleftrightarrow>
     list_all (\<lambda>gid. ce_valid (table gid)) (channel_gids ch) \<or> list_all (\<lambda>gid. \<not> ce_valid (table gid)) (channel_gids ch)"

lemma clear_channel:
  "fold (\<lambda>gid t. t(gid := (t gid)\<lparr>ce_valid := False\<rparr>)) gids t = (\<lambda>gid. if gid \<in> set gids then (t gid)\<lparr>ce_valid := False\<rparr> else t gid)"
  by (induction gids arbitrary: t) (auto simp: fun_eq_iff)

lemma check_channel_eq:
  "check_channel ch t = (if list_all (\<lambda>gid. ce_valid (t gid)) (channel_gids ch) then t
     else (\<lambda>gid. if gid \<in> set (channel_gids ch) then (t gid)\<lparr>ce_valid := False\<rparr> else t gid))"
  by (simp add: check_channel_def Let_def clear_channel channel_gids_def)

lemma check_channel_whole: "whole_channel (check_channel ch t) ch"
  by (auto simp: check_channel_eq whole_channel_def list_all_iff)

lemma check_channel_keeps: "whole_channel t ch \<Longrightarrow> whole_channel (check_channel ch' t) ch"
proof -
  assume w: "whole_channel t ch"
  have "check_channel ch' t gid = t gid" if "gid \<in> set (channel_gids ch)" "ch' \<noteq> ch" for gid
    using that by (auto simp: check_channel_eq channel_gids_def)
  with w check_channel_whole [of ch t] show ?thesis by (cases "ch' = ch") (auto simp: whole_channel_def list_all_iff)
qed

lemma check_channels: "ch \<in> set chs \<Longrightarrow> whole_channel (fold check_channel chs t) ch"
proof (induction chs arbitrary: t)
  case (Cons c chs)
  have keep: "whole_channel t ch \<Longrightarrow> whole_channel (fold check_channel cs t) ch" for cs t
    by (induction cs arbitrary: t) (simp_all add: check_channel_keeps)
  from Cons show ?case using keep [OF check_channel_whole] by auto
qed simp

lemma store_resolution_valid: "store_resolution R hs gid t = Inr t' \<Longrightarrow> ce_valid (t' k) = ce_valid (t k)"
  by (auto simp: store_resolution_def split: if_splits option.splits)

lemma attempt_valid: "ce_valid (snd (attempt (store_resolution R hs) gids t) k) = ce_valid (t k)"
  by (induction gids arbitrary: t) (auto split: sum.split simp: store_resolution_valid)

text \<open>
  C36: A process that runs to its end leaves no channel half calibrated: the sixteen converters of a channel have valid entries or
  none of them has, so that a channel that is in the table is complete.
\<close>

theorem tdc_channels_whole:
  "case calibrateAsic R lin g rs (\<lambda>_. newTdcEntry) of
     (Some e, table) \<Rightarrow> True
   | (None, table) \<Rightarrow> list_all (whole_channel table) [g * 32..<g * 32 + 32]"
proof -
  have n: "whole_channel (\<lambda>_. newTdcEntry) ch" for ch by (simp add: whole_channel_def newTdcEntry_def list_all_iff)
  have w: "list_all (whole_channel (snd (attempt (store_resolution R hs) gids (fold check_channel [g * 32..<g * 32 + 32] t)))) [g * 32..<g * 32 + 32]"
    for hs gids t
    using check_channels [of _ "[g * 32..<g * 32 + 32]" t] by (auto simp: list_all_iff whole_channel_def attempt_valid)
  have c: "list_all (whole_channel table) [g * 32..<g * 32 + 32]" if "control_asic R lin g rs t = (None, table)" for lin t table
    using that w unfolding control_asic_def by (auto split: sum.splits) (metis snd_conv)
  show ?thesis
    unfolding calibrateAsic_def proceed_def Let_def
    by (auto simp: list_all_iff n split: sum.split prod.split option.split dest!: c)
qed

end
