(* ===== verification/Qdc_Calibration.thy ===== *)
theory Qdc_Calibration
  imports Calibration_Sort Root_Library Chip_Processes Event_Writer Process_Hit
begin

text \<open>
  The calibration of the charge to digital converters, petsys_util/process_qdc_calibration.cpp: the records of the temporary files, the fit
  of the charge over the integration time, the control pass, the table that is written and the mode that writes a table without
  any fit. The fits are the argument \<open>R\<close>; the largest charges that are noted while the histograms are filled are used in comments
  only and are left out with the plots.
\<close>

section \<open>The records of the temporary files\<close>

record QdcData =
  qd_gid :: u64
  qd_t1coarse :: u16
  qd_t1fine :: u16
  qd_qcoarse :: u16
  qd_qfine :: u16
  qd_freq :: int
  qd_saturation :: bool

definition qdc_records :: "fp \<Rightarrow> CalibrationData \<Rightarrow> QdcData list" where
  "qdc_records step1 c =
     (let eWord = cd_eventWord c; gChannelID = getChannelID eWord; tacID = ucast (getTacID eWord) :: u32
      in [\<lparr>qd_gid = ucast (push_bit 3 gChannelID OR tacID), qd_t1coarse = getT1Coarse eWord, qd_t1fine = getT1Fine eWord,
           qd_qcoarse = getQCoarse eWord, qd_qfine = getQFine eWord, qd_freq = cd_freq c, qd_saturation = fp_eq step1 (int32 (-1))\<rparr>])"

text \<open>The calibrated time of the record, a number of clock periods.\<close>

definition qdc_getTime :: "SystemConfig \<Rightarrow> QdcData \<Rightarrow> fault + fp" where
  "qdc_getTime config d =
     (let channelID = ucast (drop_bit 3 (qd_gid d)) :: u32; tacID = unat (qd_gid d mod 8)
      in rbind (getChannelConfig config channelID) (\<lambda>cc.
         rbind (idx (cc_tac_T cc) tacID) (\<lambda>ct.
         let t1fine = int32 (int (unat (qd_t1fine d))); t1coarse = int32 (int (unat (qd_t1coarse d)));
             delta = fp_sub F32 (fp_mul F32 (tac_a1 ct) (tac_a1 ct))
               (fp_mul F32 (fp_mul F32 (int32 4) (fp_sub F32 (tac_a0 ct) t1fine)) (tac_a2 ct))
         in if fp_lt delta (int32 0) then Inr t1coarse
            else
              let q_T = fp_div F32 (fp_add F32 (fp_neg (tac_a1 ct)) (fp_sqrt F32 delta)) (fp_mul F32 (int32 2) (tac_a2 ct))
              in Inr (fp_sub F32 (fp_sub F32 t1coarse q_T) (tac_t0 ct)))))"

definition integration_time :: "SystemConfig \<Rightarrow> QdcData \<Rightarrow> fault + fp" where
  "integration_time config d =
     rbind (qdc_getTime config d) (\<lambda>time. Inr (fp_sub F32 (int32 (int (unat (qd_qcoarse d)))) time))"

section \<open>One converter\<close>

record QdcEntry =
  qe_p :: "fp list"
  qe_xMin :: fp
  qe_xMax :: fp
  qe_xMax100 :: fp
  qe_trim :: int
  qe_sigma :: fp
  qe_valid :: bool

text \<open>Memory fresh from the system is zero.\<close>

definition newQdcEntry :: QdcEntry where
  "newQdcEntry = \<lparr>qe_p = replicate 10 (int32 0), qe_xMin = int32 0, qe_xMax = int32 0, qe_xMax100 = int32 0, qe_trim = -1, qe_sigma = int32 0,
     qe_valid = False\<rparr>"

text \<open>The first bin with enough entries from bin \<open>b\<close> on whose mean satisfies a condition, or the bin after the last one.\<close>

function find_bin :: "('m, 'h, 'p, 'f) root \<Rightarrow> 'p \<Rightarrow> (fp \<Rightarrow> bool) \<Rightarrow> int \<Rightarrow> int \<Rightarrow> fault + int" where
  "find_bin R pFine stop nBins b =
     (if \<not> b \<le> nBins then Inr b
      else
        rbind (to_i (p_GetBinEntries R pFine b)) (\<lambda>c.
        if c < 10 then find_bin R pFine stop nBins (b + 1)
        else if stop (flt (p_GetBinContent R pFine b)) then Inr b
        else find_bin R pFine stop nBins (b + 1)))"
  by pat_completeness auto
termination
  by (relation "measure (\<lambda>(R, pFine, stop, nBins, b). nat (nBins + 1 - b))") auto

declare find_bin.simps [simp del]

text \<open>A polynomial of the order; \<open>None\<close> ends the loop over the orders.\<close>

definition polynomial_name :: "nat \<Rightarrow> string" where
  "polynomial_name order = ''pol'' @ show_nat order"

definition try_order ::
  "('m, 'h, 'p, 'f) root \<Rightarrow> fp \<times> fp \<Rightarrow> nat \<Rightarrow> QdcEntry \<times> 'p \<times> fp \<Rightarrow> (QdcEntry \<times> 'p \<times> fp) option" where
  "try_order R = (\<lambda>(xMin, xMax) order (entry, pFine, lastChi2).
     let pFine = p_FitPol R order (dbl xMin) (dbl xMax) pFine
     in case p_GetFunction R pFine (polynomial_name order) of
          None \<Rightarrow> None
        | Some polN \<Rightarrow>
            let chi2 = flt (f_GetChisquare R polN)
            in if fp_eq chi2 (int32 0) then None
               else
                 let chi2 = fp_div F32 chi2 (int32 (f_GetNDF R polN))
                 in if fp_gt chi2 lastChi2 then None
                    else Some (entry\<lparr>qe_p := map (\<lambda>k. if k \<le> order then flt (f_GetParameter R polN k) else qe_p entry ! k) [0..<10], qe_valid := True\<rparr>,
                               pFine, chi2))"

fun fit_orders ::
  "('m, 'h, 'p, 'f) root \<Rightarrow> fp \<times> fp \<Rightarrow> nat list \<Rightarrow> QdcEntry \<times> 'p \<times> fp \<Rightarrow> QdcEntry" where
  "fit_orders R bounds [] (entry, pFine, lastChi2) = entry"
| "fit_orders R bounds (order # orders) (entry, pFine, lastChi2) =
     (if qe_valid entry then entry
      else case try_order R bounds order (entry, pFine, lastChi2) of None \<Rightarrow> entry | Some s \<Rightarrow> fit_orders R bounds orders s)"

definition qdc_qac :: "('m, 'h, 'p, 'f) root \<Rightarrow> int \<Rightarrow> 'm \<Rightarrow> QdcEntry \<Rightarrow> fault + QdcEntry" where
  "qdc_qac R nBins hFine2 entry =
     (if fp_lt (m_GetEntries R hFine2) (int64 1000) then Inr entry
      else
        let pFine = m_ProfileX R hFine2
        in rbind (find_bin R pFine (\<lambda>v. fp_le (int32 10) v) nBins 1) (\<lambda>bMin.
           rbind (find_bin R pFine (\<lambda>v. fp_lt v (int32 2) \<or> fp_gt v (int32 1014)) nBins (bMin + 1)) (\<lambda>bMax.
           let xMin = flt (p_GetBinLowEdge R pFine bMin); xMax = flt (p_GetBinLowEdge R pFine (bMax + 1));
               entry = entry\<lparr>qe_p := replicate 10 (int32 0), qe_xMin := xMin, qe_xMax := xMax, qe_xMax100 := xMax, qe_sigma := int32 0,
                         qe_valid := False\<rparr>
           in Inr (fit_orders R (xMin, xMax) [3..<10] (entry, pFine, Inf False)))))"

section \<open>One chip\<close>

type_synonym qdc_table = "nat \<Rightarrow> QdcEntry"

definition MAX_N_QAC :: nat where
  "MAX_N_QAC = MAX_N_ASIC * 32 * 8"

definition qdc_gids :: "nat \<Rightarrow> nat list" where
  "qdc_gids gAsicID = [gAsicID * 32 * 8..<(gAsicID + 1) * 32 * 8]"

text \<open>A charge that was digitised after the counter wrapped gets a turn of the counter more, in this pass only.\<close>

definition unwrap_qcoarse :: "QdcData \<Rightarrow> QdcData" where
  "unwrap_qcoarse d =
     (if int (unat (qd_qcoarse d)) - int (unat (qd_t1coarse d)) < -256 then d\<lparr>qd_qcoarse := qd_qcoarse d + 1024\<rparr> else d)"

definition qdc_fill ::
  "('m, 'h, 'p, 'f) root \<Rightarrow> SystemConfig \<Rightarrow> nat \<Rightarrow> QdcData \<Rightarrow> (nat \<Rightarrow> 'm) \<Rightarrow> fault + (nat \<Rightarrow> 'm)" where
  "qdc_fill R config gidStart d hFine2_list =
     (let i = unat (qd_gid d - of_nat gidStart)
      in if \<not> i < 32 * 8 then Inl OutOfBounds
         else if qd_saturation d then Inr hFine2_list
         else
           rbind (integration_time config (unwrap_qcoarse d)) (\<lambda>ti.
           Inr (hFine2_list(i := (m_Fill R (dbl ti) (int64 (int (unat (qd_qfine d)))) ^^ nat (qd_freq d)) (hFine2_list i)))))"

text \<open>The control histograms exist for the valid converters, and are filled for the times within the range of the fit.\<close>

definition qac_of :: "QdcEntry \<Rightarrow> QacConfig" where
  "qac_of e =
     (let p = qe_p e in \<lparr>qac_p0 = p ! 0, qac_p1 = p ! 1, qac_p2 = p ! 2, qac_p3 = p ! 3, qac_p4 = p ! 4, qac_p5 = p ! 5, qac_p6 = p ! 6,
        qac_p7 = p ! 7, qac_p8 = p ! 8, qac_p9 = p ! 9\<rparr>)"

definition qdc_control_record ::
  "('m, 'h, 'p, 'f) root \<Rightarrow> SystemConfig \<Rightarrow> nat \<Rightarrow> qdc_table \<Rightarrow> QdcData \<Rightarrow> (nat \<Rightarrow> 'p \<times> 'h) \<Rightarrow> fault + (nat \<Rightarrow> 'p \<times> 'h)" where
  "qdc_control_record R config gAsicID table d hs =
     (let gid = unat (qd_gid d)
      in if gid \<notin> set (qdc_gids gAsicID) then Inl AssertFail
         else if qd_saturation d \<or> \<not> qe_valid (table gid) then Inr hs
         else
           rbind (integration_time config d) (\<lambda>ti.
           if fp_lt ti (qe_xMin (table gid)) \<or> fp_gt ti (qe_xMax (table gid)) then Inr hs
           else
             let qError = fp_sub F32 (int32 (int (unat (qd_qfine d)))) (pedestal (qac_of (table gid)) ti);
                 (pControlT, hControlE) = hs gid; n = nat (qd_freq d)
             in Inr (hs(gid := ((p_Fill R (dbl ti) (dbl qError) (int64 1) ^^ n) pControlT, (h_Fill R (dbl qError) ^^ n) hControlE)))))"

definition new_qdc_control :: "('m, 'h, 'p, 'f) root \<Rightarrow> nat \<Rightarrow> 'p \<times> 'h" where
  "new_qdc_control R gid = (p_new R 128 (int64 0) (int64 (128 * 4)), h_new R 32 (int64 (-10)) (int64 10))"

definition store_sigma :: "('m, 'h, 'p, 'f) root \<Rightarrow> (nat \<Rightarrow> 'p \<times> 'h) \<Rightarrow> nat \<Rightarrow> qdc_table \<Rightarrow> qdc_table" where
  "store_sigma R hs gid table =
     (if \<not> qe_valid (table gid) then table
      else
        let (pControlT, hControlE) = hs gid
        in if fp_lt (h_GetEntries R hControlE) (int64 1000) then table
           else
             case h_GetFunction R (h_FitGaus R hControlE) ''gaus'' of
               None \<Rightarrow> table
             | Some fit \<Rightarrow> table(gid := (table gid)\<lparr>qe_sigma := flt (f_GetParameter R fit 2)\<rparr>))"

definition qdc_tac :: "('m, 'h, 'p, 'f) root \<Rightarrow> int \<Rightarrow> nat \<Rightarrow> (nat \<Rightarrow> 'm) \<Rightarrow> nat \<Rightarrow> qdc_table \<Rightarrow> fault + qdc_table" where
  "qdc_tac R nBins gidStart hFine2_list gid table =
     rbind (qdc_qac R nBins (hFine2_list (gid - gidStart)) (table gid)) (\<lambda>entry. Inr (table(gid := entry)))"

definition qdc_control :: "('m, 'h, 'p, 'f) root \<Rightarrow> SystemConfig \<Rightarrow> nat \<Rightarrow> QdcData list \<Rightarrow> qdc_table \<Rightarrow> qdc_table outcome" where
  "qdc_control R config gAsicID rs table =
     (case rfold (qdc_control_record R config gAsicID table) rs (new_qdc_control R) of
        Inl e \<Rightarrow> (Some e, table)
      | Inr hs \<Rightarrow> (None, fold (store_sigma R hs) (qdc_gids gAsicID) table))"

definition qdc_calibrateAsic ::
  "('m, 'h, 'p, 'f) root \<Rightarrow> SystemConfig \<Rightarrow> int \<times> fp \<times> fp \<Rightarrow> nat \<Rightarrow> QdcData list \<Rightarrow> qdc_table \<Rightarrow> qdc_table outcome" where
  "qdc_calibrateAsic R config lin gAsicID rs table =
     (let (nBins, xMin, xMax) = lin; gidStart = gAsicID * 32 * 8
      in case rfold (qdc_fill R config gidStart) rs (\<lambda>_. m_new R nBins (dbl xMin) (dbl xMax)) of
           Inl e \<Rightarrow> (Some e, table)
         | Inr hFine2_list \<Rightarrow>
             if \<not> gAsicID < MAX_N_ASIC then (Some OutOfBounds, table)
             else proceed (attempt (qdc_tac R nBins gidStart hFine2_list) (qdc_gids gAsicID) table) (qdc_control R config gAsicID rs))"


section \<open>The settings of the channels and the table\<close>

definition trim_format :: "directive list" where
  "trim_format = [DUInt 32, WS, DUInt 32, WS, DUInt 32, WS, DUInt 32, WS, DUInt 32, WS]"

text \<open>The setting of a channel is stored for its eight converters.\<close>

definition trim_gids :: "arg list \<Rightarrow> nat list" where
  "trim_gids as =
     (let w = (\<lambda>k. word_of_int (arg_i (as ! k)) :: u32);
          gidStart = push_bit 19 (w 0) OR push_bit 14 (w 1) OR push_bit 8 (w 2) OR push_bit 3 (w 3)
      in [unat gidStart..<unat (gidStart + 8)])"

definition set_trim :: "int \<Rightarrow> nat \<Rightarrow> qdc_table \<Rightarrow> fault + qdc_table" where
  "set_trim trim gid table = (if gid < MAX_N_QAC then Inr (table(gid := (table gid)\<lparr>qe_trim := trim\<rparr>)) else Inl OutOfBounds)"

definition read_trim :: "string option \<Rightarrow> qdc_table \<Rightarrow> fault + qdc_table" where
  "read_trim trimFile table =
     (case trimFile of
        None \<Rightarrow> Inl NullDeref
      | Some f \<Rightarrow>
          rbind (scan_records trim_format 5 f) (\<lambda>rs.
          rfold (\<lambda>as. rfold (set_trim (to_i32 (word_of_int (arg_i (as ! 4)) :: u32))) (trim_gids as)) rs table))"

text \<open>Without a fit, every converter with a setting is valid.\<close>

definition fake_table :: "qdc_table \<Rightarrow> qdc_table" where
  "fake_table table = (\<lambda>gid. if gid < MAX_N_QAC then (table gid)\<lparr>qe_valid := (qe_trim (table gid) \<noteq> -1)\<rparr> else table gid)"

definition qdc_text :: "nat \<Rightarrow> QdcEntry \<Rightarrow> string" where
  "qdc_text gid entry =
     (let tacID = gid mod 8; channelID = gid div 2 ^ 3 mod 32; chipID = gid div 2 ^ 8 mod 64; slaveID = gid div 2 ^ 14 mod 32;
          portID = gid div 2 ^ 19 mod 32
      in fields_line ([show_nat portID, show_nat slaveID, show_nat chipID, show_nat channelID, show_nat tacID, show_int (qe_trim entry)]
           @ map (\<lambda>k. show_parameter (qe_p entry ! k)) [0..<10] @ [show_parameter (qe_sigma entry)]))"

definition qdc_header :: string where
  "qdc_header = fields_line [''# portID'', ''slaveID'', ''chipID'', ''channelID'', ''tacID'', ''trim'', ''p0'', ''p1'', ''p2'', ''p3'', ''p4'',
     ''p5'', ''p6'', ''p7'', ''p8'', ''p9'', ''sigma'']"

definition qdc_writeCalibrationTable :: "qdc_table \<Rightarrow> string" where
  "qdc_writeCalibrationTable table =
     qdc_header @ concat (map (\<lambda>gid. if qe_valid (table gid) then qdc_text gid (table gid) else []) [0..<MAX_N_QAC])"

section \<open>The program\<close>

definition qdc_option :: "getopt \<Rightarrow> calibration_options \<Rightarrow> fault + calibration_options" where
  "qdc_option opt p =
     (case opt of
        ShortOpt c s \<Rightarrow>
          if c = CHR ''i'' then Inr (p\<lparr>co_inputFilePrefix := Some s\<rparr>)
          else if c = CHR ''o'' then Inr (p\<lparr>co_outputFilePrefix := Some s\<rparr>)
          else Inl (Exit 1)
      | LongOpt n s \<Rightarrow>
          if n = 0 then Inl (Exit 0)
          else if n = 1 then Inr (p\<lparr>co_configFileName := Some s\<rparr>)
          else if n = 2 then Inr (p\<lparr>co_doSorting := False\<rparr>)
          else if n = 3 then Inr (p\<lparr>co_keepTemporary := True\<rparr>)
          else if n = 4 then Inr (p\<lparr>co_tmpFilePrefix := Some s\<rparr>)
          else if n = 5 then Inr (p\<lparr>co_doFake := True\<rparr>)
          else Inl (Exit 1))"

definition sizeof_QdcData :: nat where
  "sizeof_QdcData = 24"

text \<open>The sorting, the loop over the chips and the removal of the temporary files are those of the other calibration program.\<close>

definition qdc_sortData :: "(nat \<Rightarrow> nat \<Rightarrow> u8) \<Rightarrow> data_set \<Rightarrow> string \<Rightarrow> fault + QdcData temporary" where
  "qdc_sortData = sortData qdc_records"

definition qdc_calibrateAllAsics ::
  "('m, 'h, 'p, 'f) root \<Rightarrow> SystemConfig \<Rightarrow> int \<times> fp \<times> fp \<Rightarrow> int \<times> nat \<Rightarrow> int list \<Rightarrow> QdcData temporary \<Rightarrow> qdc_table \<Rightarrow> fault + qdc_table" where
  "qdc_calibrateAllAsics R config lin =
     calibrateAllAsics (\<lambda>gAsicID rs table. snd (qdc_calibrateAsic R config lin gAsicID rs table)) sizeof_QdcData"

definition qdc_deleteTemporaryFiles :: "QdcData temporary \<Rightarrow> fault + (string \<Rightarrow> QdcData list option)" where
  "qdc_deleteTemporaryFiles = deleteTemporaryFiles"

text \<open>What happens after the settings are read: the fits, or the table without any; with the data files that are left.\<close>

definition qdc_run ::
  "('m, 'h, 'p, 'f) root \<Rightarrow> SystemConfig \<Rightarrow> QdcData calibration_env \<Rightarrow> calibration_options \<Rightarrow> string \<Rightarrow> int \<times> fp \<times> fp \<Rightarrow> qdc_table \<Rightarrow>
   fault + string \<times> (string \<Rightarrow> QdcData list option)" where
  "qdc_run R config V p inputFilePrefix lin table =
     (if co_doFake p then rbind (path_prefix (co_outputFilePrefix p) ''.tsv'') (\<lambda>_. Inr (qdc_writeCalibrationTable (fake_table table), (\<lambda>_. None)))
      else
        rbind (calibrate_sorted qdc_sortData (qdc_calibrateAllAsics R config lin) V p inputFilePrefix table) (\<lambda>(table, t).
        rbind (path_prefix (co_outputFilePrefix p) ''.tsv'') (\<lambda>outputFilePrefix.
        rbind (if co_keepTemporary p then Inr (tf_data t) else qdc_deleteTemporaryFiles t) (\<lambda>left.
        Inr (qdc_writeCalibrationTable table, left)))))"

definition process_qdc_calibration ::
  "('m, 'h, 'p, 'f) root \<Rightarrow> externals \<Rightarrow> SystemConfig \<Rightarrow> QdcData calibration_env \<Rightarrow> getopt list \<Rightarrow>
   fault + string \<times> (string \<Rightarrow> QdcData list option)" where
  "process_qdc_calibration R E junk V args =
     rbind (rfold qdc_option args default_calibration) (\<lambda>p.
     rbind (case co_configFileName p of None \<Rightarrow> Inl NullDeref | Some fn \<Rightarrow> fromFile_mask E junk fn LOAD_TDC_CALIBRATION 4) (\<lambda>config.
     rbind (path_prefix (co_inputFilePrefix p) ''.bins'') (\<lambda>inputFilePrefix.
     rbind (read_bins V inputFilePrefix) (\<lambda>lin.
     rbind (read_trim (cv_trim V inputFilePrefix) (\<lambda>_. newQdcEntry)) (\<lambda>table.
     qdc_run R config V p inputFilePrefix lin table)))))"


section \<open>The processes of the chips do not disturb each other\<close>

lemma qdc_control_override:
  "qdc_control R config g rs (override_on u t (set (qdc_gids g))) =
     map_prod id (\<lambda>t'. override_on u t' (set (qdc_gids g))) (qdc_control R config g rs t)"
proof -
  let ?G = "set (qdc_gids g)"
  have "qdc_control_record R config g (override_on u t ?G) = qdc_control_record R config g t"
    by (simp add: qdc_control_record_def Let_def fun_eq_iff cong: if_cong)
  moreover have "fold (store_sigma R hs) (qdc_gids g) (override_on u t ?G) = override_on u (fold (store_sigma R hs) (qdc_gids g) t) ?G" for hs
    by (intro fold_override ballI allI) (auto simp: store_sigma_def override_update Let_def split: option.split prod.split)
  ultimately show ?thesis by (simp add: qdc_control_def split: sum.split)
qed

lemma qdc_override:
  "qdc_calibrateAsic R config lin g rs (override_on u t (set (qdc_gids g))) =
     map_prod id (\<lambda>t'. override_on u t' (set (qdc_gids g))) (qdc_calibrateAsic R config lin g rs t)"
proof -
  let ?G = "set (qdc_gids g)"
  have a: "attempt (qdc_tac R nBins n f) (qdc_gids g) (override_on u t ?G) =
      map_prod id (\<lambda>t'. override_on u t' ?G) (attempt (qdc_tac R nBins n f) (qdc_gids g) t)" for nBins n f
    unfolding qdc_tac_def by (intro attempt_override ballI local_entry)
  have p: "proceed (map_prod id (\<lambda>t'. override_on u t' ?G) r) (qdc_control R config g rs) =
      map_prod id (\<lambda>t'. override_on u t' ?G) (proceed r (qdc_control R config g rs))" for r
    by (cases r; cases "fst r") (simp_all add: proceed_def qdc_control_override)
  show ?thesis unfolding qdc_calibrateAsic_def Let_def a p by (auto split: sum.split prod.split)
qed

lemma qdc_gids_disjoint: "g \<noteq> h \<Longrightarrow> set (qdc_gids g) \<inter> set (qdc_gids h) = {}"
  by (auto simp: qdc_gids_def)

interpretation qdc: chip_updates "\<lambda>g rs table. snd (qdc_calibrateAsic R config lin g rs table)" "\<lambda>g. set (qdc_gids g)" for R config lin
  by unfold_locales (simp_all add: qdc_override qdc_gids_disjoint)

text \<open>In whatever order the processes run, the table is the same.\<close>

lemma qdc_processes_independent:
  "distinct gs \<Longrightarrow> distinct hs \<Longrightarrow> set gs = set hs \<Longrightarrow>
     fold (\<lambda>g table. snd (qdc_calibrateAsic R config lin g (f g) table)) gs table =
     fold (\<lambda>g table. snd (qdc_calibrateAsic R config lin g (f g) table)) hs table"
  by (rule qdc.any_order)

section \<open>The order of the polynomial\<close>

text \<open>The first fit that succeeds ends the loop over the orders, and so does the first that fails: only the third order is ever tried.\<close>

definition third_order :: "QdcEntry \<Rightarrow> bool" where
  "third_order e \<longleftrightarrow> length (qe_p e) = 10 \<and> (\<forall>k < 10. 3 < k \<longrightarrow> qe_p e ! k = int32 0)"

lemma fit_orders_once:
  "\<not> qe_valid entry \<Longrightarrow> fit_orders R bounds (order # orders) (entry, pFine, lastChi2) =
     (case try_order R bounds order (entry, pFine, lastChi2) of None \<Rightarrow> entry | Some (entry, _) \<Rightarrow> entry)"
proof -
  have "try_order R bounds order (entry, pFine, lastChi2) = Some (e, p, c) \<Longrightarrow> qe_valid e" for e p c
    by (auto simp: try_order_def Let_def split: prod.splits option.splits if_splits)
  moreover have "qe_valid e \<Longrightarrow> fit_orders R bounds orders (e, p, c) = e" for e p c by (cases orders) simp_all
  ultimately show "\<not> qe_valid entry \<Longrightarrow> ?thesis" by (auto split: option.split)
qed

lemma qdc_qac_third_order: "third_order entry \<Longrightarrow> qdc_qac R nBins hFine2 entry = Inr entry' \<Longrightarrow> third_order entry'"
proof (cases "fp_lt (m_GetEntries R hFine2) (int64 1000)")
  case False
  assume "qdc_qac R nBins hFine2 entry = Inr entry'"
  with False obtain xMin xMax where e: "entry' = fit_orders R (xMin, xMax) [3..<10]
      (entry\<lparr>qe_p := replicate 10 (int32 0), qe_xMin := xMin, qe_xMax := xMax, qe_xMax100 := xMax, qe_sigma := int32 0, qe_valid := False\<rparr>,
       m_ProfileX R hFine2, Inf False)"
    by (auto simp: qdc_qac_def Let_def rbind_Inr_iff)
  have o: "[3..<10] = 3 # [4..<10 :: nat]" by (simp add: upt_rec)
  show "third_order entry'"
    unfolding e o by (subst fit_orders_once) (auto simp: third_order_def try_order_def Let_def split: option.split)
qed (simp add: qdc_qac_def)

lemma third_order_kept:
  assumes "\<And>gid. third_order (table gid)"
  shows "third_order (fold (\<lambda>g table. snd (qdc_calibrateAsic R config lin g (f g) table)) gs table gid)"
proof -
  have a: "\<forall>k. third_order (snd (attempt (qdc_tac R nBins n h) gids t) k)" if "\<forall>k. third_order (t k)" for nBins n h gids t
    using that
  proof (induction gids arbitrary: t)
    case (Cons gid gids)
    show ?case
    proof (cases "qdc_tac R nBins n h gid t")
      case (Inr t')
      then obtain e where "qdc_qac R nBins (h (gid - n)) (t gid) = Inr e" "t' = t(gid := e)" by (auto simp: qdc_tac_def rbind_Inr_iff)
      then have "\<forall>k. third_order (t' k)" using Cons.prems qdc_qac_third_order [of "t gid" R nBins "h (gid - n)" e] by simp
      with Cons.IH Inr show ?thesis by simp
    qed (use Cons.prems in simp)
  qed simp
  have s: "\<forall>k. third_order (fold (store_sigma R hs) gids t k)" if "\<forall>k. third_order (t k)" for hs gids t
    using that
  proof (induction gids arbitrary: t)
    case (Cons gid gids)
    have "third_order (store_sigma R hs gid t k)" for k
      using Cons.prems by (auto simp: store_sigma_def Let_def third_order_def split: option.split prod.split)
    with Cons.IH show ?case by simp
  qed simp
  have c: "\<forall>k. third_order (snd (qdc_control R config g rs t) k)" if "\<forall>k. third_order (t k)" for g rs t
    using s [OF that] that by (auto simp: qdc_control_def split: sum.split)
  have q: "\<forall>k. third_order (snd (qdc_calibrateAsic R config lin g rs t) k)" if t: "\<forall>k. third_order (t k)" for g rs t
  proof -
    have "\<forall>k. third_order (snd (proceed (attempt (qdc_tac R nBins n h) gids t) (qdc_control R config g rs)) k)" for nBins n h gids
      using a [OF t, of nBins n h gids] c by (cases "attempt (qdc_tac R nBins n h) gids t"; cases "fst (attempt (qdc_tac R nBins n h) gids t)")
        (auto simp: proceed_def)
    with t show ?thesis unfolding qdc_calibrateAsic_def Let_def by (auto split: sum.split prod.split)
  qed
  have "\<forall>k. third_order (fold (\<lambda>g table. snd (qdc_calibrateAsic R config lin g (f g) table)) gs t k)" if "\<forall>k. third_order (t k)" for t
    using that by (induction gs arbitrary: t) (simp_all add: q)
  with assms show ?thesis by blast
qed

text \<open>
  C37: Although the loop goes from the third order to the ninth, every entry of the table is a polynomial of the third order: whatever
  the settings of the channels, the order in which chips are calibrated, the results of the fits and the point where a process ends, the
  coefficients from the fourth on stay zero.
\<close>

theorem qdc_third_order:
  "third_order (fold (\<lambda>g table. snd (qdc_calibrateAsic R config lin g (f g) table)) gs (\<lambda>gid. newQdcEntry\<lparr>qe_trim := trim gid\<rparr>) gid)"
proof (rule third_order_kept)
  show "third_order (newQdcEntry\<lparr>qe_trim := trim k\<rparr>)" for k by (simp add: third_order_def newQdcEntry_def nth_Cons' numeral_eq_Suc)
qed

end
