(* ===== verification/Calibration_Tables.thy ===== *)
theory Calibration_Tables
  imports Tdc_Calibration Qdc_Calibration System_Config Data_Set
begin

text \<open>
  The tables the calibration programs write are the tables that \<open>SystemConfig\<close> loads: the lemmas follow a number
  through \<open>%8.7e\<close> and \<open>sscanf\<close>, and a line through the normalisation and the format of the loader; the theorems say which entries
  of the configuration a table sets, and to which values.
\<close>


section \<open>Numbers in scientific notation\<close>

lemma show_nat_bounds: "0 < n \<Longrightarrow> 10 ^ (length (show_nat n) - 1) \<le> n \<and> n < 10 ^ length (show_nat n)"
proof (induction n rule: show_nat.induct)
  case (1 n)
  show ?case
  proof (cases "n < 10")
    case True
    with 1(2) show ?thesis by (subst (1 2) show_nat.simps) simp
  next
    case False
    have l: "length (show_nat n) = Suc (length (show_nat (n div 10)))" using False by (subst show_nat.simps) simp
    obtain k where k: "length (show_nat (n div 10)) = Suc k" by (cases "show_nat (n div 10)") auto
    from 1(1) [OF False] False have "10 ^ k \<le> n div 10" "n div 10 < 10 ^ Suc k" by (simp_all add: k)
    then have "10 * 10 ^ k \<le> n" "n < 10 * 10 ^ Suc k"
      by (simp_all add: div_less_iff_less_mult less_eq_div_iff_mult_less_eq mult.commute)
    then show ?thesis by (simp add: l k)
  qed
qed

lemma scale_up_bounds: "0 < n \<Longrightarrow> n < d \<Longrightarrow> d \<le> n * 10 ^ scale_up n d \<and> n * 10 ^ scale_up n d < 10 * d"
proof (induction n d rule: scale_up.induct)
  case (1 n d)
  have s: "scale_up n d = Suc (scale_up (10 * n) d)" using 1(2,3) by (subst scale_up.simps) simp
  show ?case
  proof (cases "10 * n < d")
    case True
    with 1 show ?thesis by (simp add: s)
  next
    case False
    then have "scale_up (10 * n) d = 0" by (subst scale_up.simps) simp
    with 1(3) False show ?thesis by (simp add: s)
  qed
qed

text \<open>The decimal exponent \<open>x\<close> of \<open>n / d\<close>.\<close>

lemma decimal_exponent_bounds:
  assumes "0 < n" "0 < d"
  shows "d * 10 ^ nat (decimal_exponent n d) \<le> n * 10 ^ nat (- decimal_exponent n d)
    \<and> n * 10 ^ nat (- decimal_exponent n d) < 10 * (d * 10 ^ nat (decimal_exponent n d))"
proof (cases "d \<le> n")
  case True
  let ?l = "length (show_nat (nat (n div d)))"
  have p: "0 < n div d" using True assms by (simp add: pos_imp_zdiv_pos_iff)
  obtain k where k: "?l = Suc k" by (cases "show_nat (nat (n div d))") auto
  have "0 < nat (n div d)" using p by simp
  from show_nat_bounds [OF this] have "10 ^ k \<le> nat (n div d)" "nat (n div d) < 10 ^ Suc k" by (simp_all add: k)
  then have b: "10 ^ k \<le> n div d" "n div d < 10 ^ Suc k" using p by (simp_all add: nat_less_iff le_nat_iff)
  have x: "decimal_exponent n d = int k" using True by (simp add: decimal_exponent_def k)
  have m: "d * (n div d) + n mod d = n" "n mod d < d" "0 \<le> n mod d" using assms by simp_all
  have "d * 10 ^ k \<le> d * (n div d)" using b(1) assms(2) by simp
  then have lo: "d * 10 ^ k \<le> n" using m by linarith
  have "d * (n div d + 1) \<le> d * 10 ^ Suc k" using b(2) assms(2) by (intro mult_left_mono) simp_all
  then have "n < d * 10 ^ Suc k" using m unfolding distrib_left mult_1_right by linarith
  with lo show ?thesis by (simp add: x)
next
  case False
  then have "decimal_exponent n d = - int (scale_up n d)" by (simp add: decimal_exponent_def)
  with scale_up_bounds [of n d] False assms show ?thesis by simp
qed

lemma round_div_bounds:
  assumes "0 < d" "a * d \<le> n" "n < b * d"
  shows "a \<le> round_div n d \<and> round_div n d \<le> b"
proof -
  have m: "n div d * d + n mod d = n" "n mod d < d" "0 \<le> n mod d" using assms(1) by simp_all
  have "a * d < (n div d + 1) * d" using assms(2) m unfolding distrib_right mult_1_left by linarith
  then have "a \<le> n div d" using assms(1) by simp
  moreover have "n div d * d < b * d" using assms(3) m by linarith
  then have "n div d < b" using assms(1) by simp
  ultimately show ?thesis by (auto simp: round_div_def Let_def)
qed

text \<open>The digits and the exponent that are printed.\<close>

definition sci_parts :: "nat \<Rightarrow> int \<Rightarrow> int \<Rightarrow> int \<times> int" where
  "sci_parts k m e =
     (if m = 0 then (0, 0)
      else
        let n = m * 2 ^ nat e; d = 2 ^ nat (- e); x = decimal_exponent n d;
            q = round_div (n * 10 ^ nat (int k - x)) (d * 10 ^ nat (x - int k))
        in if q = 10 ^ (k + 1) then (10 ^ k, x + 1) else (q, x))"

lemma scaled:
  assumes "0 < n" "0 < (d :: int)" "d * 10 ^ nat x \<le> n * 10 ^ nat (- x)" "n * 10 ^ nat (- x) < 10 * (d * 10 ^ nat x)"
  shows "10 ^ k * (d * 10 ^ nat (x - int k)) \<le> n * 10 ^ nat (int k - x)"
    "n * 10 ^ nat (int k - x) < 10 ^ (k + 1) * (d * 10 ^ nat (x - int k))"
proof -
  consider (a) j where "x = int k + int j" | (b) i j where "x = int i" "k = i + j" | (c) j where "x = - int j"
    by (metis int_cases2 nat_le_linear le_Suc_ex of_nat_add)
  then have "10 ^ k * (d * 10 ^ nat (x - int k)) \<le> n * 10 ^ nat (int k - x) \<and> n * 10 ^ nat (int k - x) < 10 ^ (k + 1) * (d * 10 ^ nat (x - int k))"
  proof cases
    case a
    then show ?thesis using assms(3,4) by (simp add: nat_add_distrib power_add algebra_simps)
  next
    case b
    have "d * 10 ^ i * 10 ^ j \<le> n * 10 ^ j" "n * 10 ^ j < 10 * (d * 10 ^ i) * 10 ^ j" using assms(3,4) b by simp_all
    then show ?thesis using b by (simp add: power_add algebra_simps)
  next
    case c
    have "d * 10 ^ k \<le> n * 10 ^ j * 10 ^ k" "n * 10 ^ j * 10 ^ k < 10 * d * 10 ^ k" using assms(3,4) c by simp_all
    then show ?thesis using c by (simp add: nat_add_distrib power_add algebra_simps)
  qed
  then show "10 ^ k * (d * 10 ^ nat (x - int k)) \<le> n * 10 ^ nat (int k - x)"
    "n * 10 ^ nat (int k - x) < 10 ^ (k + 1) * (d * 10 ^ nat (x - int k))" by blast+
qed

lemma sci_digits:
  assumes "0 < m"
  shows "10 ^ k \<le> fst (sci_parts k m e) \<and> fst (sci_parts k m e) < 10 ^ (k + 1)"
proof -
  let ?n = "m * 2 ^ nat e" and ?d = "2 ^ nat (- e) :: int"
  let ?x = "decimal_exponent ?n ?d"
  have p: "0 < ?n" "0 < ?d" using assms by simp_all
  note b = decimal_exponent_bounds [OF p]
  have "10 ^ k \<le> round_div (?n * 10 ^ nat (int k - ?x)) (?d * 10 ^ nat (?x - int k)) \<and>
      round_div (?n * 10 ^ nat (int k - ?x)) (?d * 10 ^ nat (?x - int k)) \<le> 10 ^ (k + 1)"
    using scaled [OF p b [THEN conjunct1] b [THEN conjunct2], of k] by (intro round_div_bounds) simp_all
  then show ?thesis using assms by (auto simp: sci_parts_def Let_def)
qed

lemma show_sci_Fin:
  "show_sci 7 (Fin s m e) = (if s then ''-'' else '''') @
     (if m = 0 then ''0.0000000'' else show_mantissa (fst (sci_parts 7 m e))) @ ''e'' @ show_exponent (snd (sci_parts 7 m e))"
proof -
  have z: "show_exponent 0 = ''+00''" by code_simp
  have "replicate 7 (CHR ''0'') = ''0000000''" by (simp add: numeral_eq_Suc)
  then show ?thesis by (simp add: show_sci_def sci_parts_def z Let_def)
qed


text \<open>The value that is read back: the decimal number printed, rounded to a \<open>float\<close>.\<close>

fun reread_sci :: "fp \<Rightarrow> fp" where
  "reread_sci (Fin s m e) = fp_of_decimal F32 s (fst (sci_parts 7 m e)) (snd (sci_parts 7 m e) - 7)"
| "reread_sci a = a"

lemma scan_exponent_show:
  assumes "\<not> isdigit c"
  shows "scan_exponent (CHR ''e'' # show_exponent x @ c # rest) = Some (x, c # rest)"
proof -
  define ds where "ds = (if \<bar>x\<bar> < 10 then ''0'' else '''') @ show_nat (nat \<bar>x\<bar>)"
  have d: "list_all isdigit ds" using show_nat_digits [of "nat \<bar>x\<bar>"] by (simp add: ds_def isdigit_def)
  have v: "decimal ds = \<bar>x\<bar>" and n: "ds \<noteq> []"
    using decimal_concat [of "''0''" "show_nat (nat \<bar>x\<bar>)"] decimal_zeros [of 1] by (simp_all add: ds_def show_nat_decimal)
  have t: "takeWhile isdigit (ds @ c # rest) = ds" "dropWhile isdigit (ds @ c # rest) = c # rest"
    using digits_span [OF d, of "c # rest"] assms by simp_all
  have e: "show_exponent x @ c # rest = (if x < 0 then CHR ''-'' else CHR ''+'') # (ds @ c # rest)" by (simp add: show_exponent_def ds_def)
  have g: "scan_sign ((if x < 0 then CHR ''-'' else CHR ''+'') # u) = (x < 0, u)" for u by simp
  have l: "tolower CHR ''e'' = CHR ''e''" by (simp add: tolower_def)
  show ?thesis unfolding scan_exponent_def e list.case l g Let_def t by (simp add: t n v)
qed

lemma scan_decimal_sci:
  assumes "list_all isdigit ds" "ds \<noteq> []" "list_all isdigit fs" "\<not> isdigit c"
  shows "scan_decimal f s (ds @ ''.'' @ fs @ CHR ''e'' # show_exponent x @ c # rest) =
     Some (fp_of_decimal f s (decimal (ds @ fs)) (x - int (length fs)), c # rest)"
proof -
  let ?t = "CHR ''e'' # show_exponent x @ c # rest"
  have d: "takeWhile isdigit (ds @ ''.'' @ fs @ ?t) = ds" "dropWhile isdigit (ds @ ''.'' @ fs @ ?t) = ''.'' @ fs @ ?t"
    using digits_span [OF assms(1), of "''.'' @ fs @ ?t"] by simp_all
  have "\<not> isdigit CHR ''e''" by (simp add: isdigit_def)
  then have g: "takeWhile isdigit (fs @ ?t) = fs" "dropWhile isdigit (fs @ ?t) = ?t" using digits_span [OF assms(3), of ?t] by simp_all
  show ?thesis unfolding scan_decimal_def Let_def d using assms(2) by (simp add: g scan_exponent_show [OF assms(4)])
qed

lemma mantissa_digits:
  assumes "10 ^ 7 \<le> q" "q < 10 ^ 8"
  obtains d fs where "show_mantissa q = d # ''.'' @ fs" "isdigit d" "list_all isdigit fs" "length fs = 7" "decimal (d # fs) = q"
proof -
  let ?ds = "show_nat (nat q)"
  obtain d fs where d: "?ds = d # fs" by (cases ?ds) auto
  have q: "0 < nat q" "int (nat q) = q" using assms(1) by simp_all
  have "nat q < 10 ^ 8" "10 ^ 7 \<le> nat q" using assms by simp_all
  then have "length ?ds \<le> 8" by (intro length_show_nat) simp_all
  moreover have "10 ^ 7 < (10 :: nat) ^ length ?ds" using show_nat_bounds [OF q(1)] \<open>10 ^ 7 \<le> nat q\<close> by linarith
  then have "7 < length ?ds" by (rule power_less_imp_less_exp [rotated]) simp
  ultimately have "length fs = 7" using d by simp
  moreover have "list_all isdigit (d # fs)" "decimal (d # fs) = q" using show_nat_digits [of "nat q"] show_nat_decimal [of "nat q"] q by (simp_all add: d)
  moreover have "show_mantissa q = d # ''.'' @ fs" by (simp add: show_mantissa_def d)
  ultimately show thesis using that by simp
qed

lemma sci_text:
  assumes "0 \<le> m"
  obtains d fs where "show_sci 7 (Fin s m e) = (if s then ''-'' else '''') @ d # ''.'' @ fs @ CHR ''e'' # show_exponent (snd (sci_parts 7 m e))"
    "isdigit d" "list_all isdigit fs" "length fs = 7" "decimal (d # fs) = fst (sci_parts 7 m e)"
proof (cases "m = 0")
  case True
  have "decimal (CHR ''0'' # ''0000000'') = 0" using decimal_zeros [of 8] by (simp add: numeral_eq_Suc)
  then show thesis using that [of "CHR ''0''" "''0000000''"] True by (simp add: show_sci_Fin isdigit_def sci_parts_def)
next
  case False
  then have "10 ^ 7 \<le> fst (sci_parts 7 m e)" "fst (sci_parts 7 m e) < 10 ^ 8" using sci_digits [of m 7 e] assms by simp_all
  from mantissa_digits [OF this] obtain d fs where
    "show_mantissa (fst (sci_parts 7 m e)) = d # ''.'' @ fs" "isdigit d" "list_all isdigit fs" "length fs = 7" "decimal (d # fs) = fst (sci_parts 7 m e)" .
  with that False show thesis by (simp add: show_sci_Fin)
qed

lemma scan_float_sci:
  assumes "0 \<le> m" "num_end c"
  shows "scan_float F32 (show_sci 7 (Fin s m e) @ c # rest) = Inr (Some (reread_sci (Fin s m e), c # rest))"
proof -
  obtain d fs where d: "show_sci 7 (Fin s m e) = (if s then ''-'' else '''') @ d # ''.'' @ fs @ CHR ''e'' # show_exponent (snd (sci_parts 7 m e))"
    "isdigit d" "list_all isdigit fs" "length fs = 7" "decimal (d # fs) = fst (sci_parts 7 m e)" using sci_text [OF assms(1)] by blast
  let ?t = "fs @ CHR ''e'' # show_exponent (snd (sci_parts 7 m e)) @ c # rest"
  have ds: "list_all isdigit [d]" "[d] \<noteq> []" using d(2) by simp_all
  note p = digit_prefix [OF ds, of ?t]
  have m: "skip_ws (CHR ''-'' # t) = CHR ''-'' # t" for t by (simp add: skip_ws_def isspace_def)
  have x: "scan_decimal F32 s ([d] @ ''.'' @ ?t) = Some (fp_of_decimal F32 s (fst (sci_parts 7 m e)) (snd (sci_parts 7 m e) - 7), c # rest)"
    using scan_decimal_sci [OF ds d(3) num_end_simps(1) [OF assms(2)], of F32 s "snd (sci_parts 7 m e)" rest] d(4,5) by simp
  show ?thesis using p x unfolding d(1) by (cases s) (simp_all add: scan_float_def Let_def m)
qed


section \<open>Lines of fields\<close>

definition field_char :: "char \<Rightarrow> bool" where
  "field_char c \<longleftrightarrow> isdigit c \<or> c \<in> {CHR ''-'', CHR ''+'', CHR ''.'', CHR ''e''}"

definition text_field :: "string \<Rightarrow> bool" where
  "text_field f \<longleftrightarrow> f \<noteq> [] \<and> list_all field_char f"

lemma field_char_props: "field_char c \<Longrightarrow> \<not> isspace c" "field_char c \<Longrightarrow> c \<noteq> CHR ''#''" "field_char c \<Longrightarrow> c \<noteq> CHR 0x00"
  "field_char c \<Longrightarrow> c \<noteq> CR" "field_char c \<Longrightarrow> c \<noteq> NL" "field_char c \<Longrightarrow> c \<noteq> TAB"
  by (auto simp: field_char_def isdigit_def isspace_def CR_def NL_def TAB_def)

lemma join_tab_Cons: "join_tab (w # ws) = (if ws = [] then w else w @ TAB # join_tab ws)"
  by (cases ws) simp_all

lemma words_join: "list_all text_field fs \<Longrightarrow> words_of (join_tab fs) = fs"
proof (induction fs)
  case Nil
  show ?case by (subst words_of.simps) simp
next
  case (Cons f fs)
  then have f: "f \<noteq> []" "\<forall>c \<in> set f. \<not> isspace c" by (auto simp: text_field_def list_all_iff field_char_props)
  have t: "words_of (TAB # u) = words_of u" for u by (subst (1 2) words_of.simps) simp
  have d: "dropWhile isspace (f @ u) = f @ u" for u using f by (cases f) simp_all
  have w: "takeWhile (\<lambda>c. \<not> isspace c) (f @ TAB # u) = f" "dropWhile (\<lambda>c. \<not> isspace c) (f @ TAB # u) = TAB # u" for u
    using f by (auto simp: takeWhile_append dropWhile_append)
  have e: "takeWhile (\<lambda>c. \<not> isspace c) f = f" "dropWhile (\<lambda>c. \<not> isspace c) f = []" using f(2) by simp_all
  have Nil: "words_of [] = []" by (subst words_of.simps) simp
  show ?case
  proof (cases "fs = []")
    case True
    then show ?thesis using d [of "[]"] f(1) by (subst words_of.simps) (simp add: e Nil)
  next
    case False
    then show ?thesis using Cons d [of "TAB # join_tab fs"] f(1) by (subst words_of.simps) (simp add: join_tab_Cons w t)
  qed
qed

lemma join_tab_chars: "list_all text_field fs \<Longrightarrow> c \<in> set (join_tab fs) \<Longrightarrow> field_char c \<or> c = TAB"
  by (induction fs) (auto simp: join_tab_Cons text_field_def list_all_iff split: if_splits)

lemma TAB_props: "TAB \<noteq> CHR ''#''" "TAB \<noteq> CHR 0x00" "TAB \<noteq> CR" "TAB \<noteq> NL"
  by (simp_all add: TAB_def CR_def NL_def)

lemma normal_line:
  assumes "regex_laws E" "list_all text_field fs"
  shows "normalizeLine E (join_tab fs) = join_tab fs"
proof -
  let ?l = "join_tab fs"
  have c: "c \<noteq> CHR ''#'' \<and> c \<noteq> CHR 0x00 \<and> c \<noteq> CR \<and> c \<noteq> NL" if "c \<in> set ?l" for c
    using join_tab_chars [OF assms(2) that] field_char_props TAB_props by metis
  have "c_str ?l = ?l" using c by (simp add: c_str_def)
  moreover have "filter (\<lambda>c. c \<noteq> CR) ?l = ?l" using c by simp
  moreover have "takeWhile (\<lambda>c. c \<noteq> CHR ''#'') ?l = ?l" using c by (simp add: takeWhile_eq_all_conv)
  ultimately have "line_words ?l = words_of ?l" unfolding line_words_def by metis
  then have "line_words ?l = fs" by (simp add: words_join [OF assms(2)])
  moreover have "NL \<notin> set ?l" using c by blast
  ultimately show ?thesis using normalizeLine_words [OF assms(1)] by simp
qed

lemma fields_line_join: "fs \<noteq> [] \<Longrightarrow> fields_line fs = join_tab fs @ [NL]"
proof (induction fs)
  case (Cons f fs)
  then show ?case by (cases fs) (simp_all add: fields_line_def)
qed simp

lemma digits_field: "list_all isdigit ds \<Longrightarrow> list_all field_char ds"
  by (auto simp: list_all_iff field_char_def)

lemma field_show_nat: "text_field (show_nat n)"
  using digits_field [OF show_nat_digits] by (simp add: text_field_def)

lemma field_exponent: "list_all field_char (show_exponent x)"
proof -
  have "field_char CHR ''-''" "field_char CHR ''+''" "field_char CHR ''0''" by (simp_all add: field_char_def isdigit_def)
  then show ?thesis using digits_field [OF show_nat_digits, of "nat \<bar>x\<bar>"] by (simp add: show_exponent_def)
qed

lemma show_parameter_Fin:
  assumes "0 \<le> m"
  shows "show_parameter (Fin s m e) = show_sci 7 (Fin s m e)" "text_field (show_sci 7 (Fin s m e))"
proof -
  obtain d fs where d: "show_sci 7 (Fin s m e) = (if s then ''-'' else '''') @ d # ''.'' @ fs @ CHR ''e'' # show_exponent (snd (sci_parts 7 m e))"
    "isdigit d" "list_all isdigit fs" "length fs = 7" using sci_text [OF assms] by metis
  have "8 - length (show_sci 7 (Fin s m e)) = 0" by (simp add: d(1,4))
  then show "show_parameter (Fin s m e) = show_sci 7 (Fin s m e)" by (simp add: show_parameter_def)
  have "field_char CHR ''-''" "field_char CHR ''.''" "field_char CHR ''e''" "field_char d" using d(2) by (simp_all add: field_char_def)
  then show "text_field (show_sci 7 (Fin s m e))"
    using digits_field [OF d(3)] field_exponent by (simp add: d(1) text_field_def)
qed


text \<open>The numbers a table holds: finite values of type \<open>float\<close>.\<close>

definition table_number :: "fp \<Rightarrow> bool" where
  "table_number a \<longleftrightarrow> is_finite a \<and> representable F32 a"

lemma sci_exponent:
  assumes "0 \<le> m" "m < 2 ^ 24" "-149 \<le> e" "e \<le> 104"
  shows "\<bar>snd (sci_parts 7 m e)\<bar> < 100"
proof (cases "m = 0")
  case False
  let ?n = "m * 2 ^ nat e" and ?d = "2 ^ nat (- e) :: int"
  let ?x = "decimal_exponent ?n ?d"
  have p: "0 < ?n" "0 < ?d" using assms(1) False by simp_all
  note b = decimal_exponent_bounds [OF p]
  have "(2 :: int) ^ nat e \<le> 2 ^ 104" "?d \<le> 2 ^ 149" using assms(3,4) by (intro power_increasing; simp)+
  then have n: "?n < 2 ^ 24 * 2 ^ 104" using assms(2) p(1) by (intro mult_less_le_imp_less) (use assms(1) False in simp_all)
  have "?x < 99"
  proof (rule ccontr)
    assume "\<not> ?x < 99"
    then have "99 \<le> nat ?x" "nat (- ?x) = 0" by simp_all
    then have "(10 :: int) ^ 99 \<le> 10 ^ nat ?x" by (intro power_increasing) simp_all
    moreover have "10 ^ nat ?x \<le> ?d * 10 ^ nat ?x" by (simp add: mult_le_cancel_right1)
    moreover have "?d * 10 ^ nat ?x \<le> ?n" using b \<open>nat (- ?x) = 0\<close> by simp
    ultimately have "(10 :: int) ^ 99 \<le> ?n" by linarith
    with n show False by simp
  qed
  moreover have "- 99 < ?x"
  proof (rule ccontr)
    assume "\<not> - 99 < ?x"
    then have "99 \<le> nat (- ?x)" "nat ?x = 0" by simp_all
    then have "(10 :: int) ^ 99 \<le> 10 ^ nat (- ?x)" by (intro power_increasing) simp_all
    moreover have "1 * 10 ^ nat (- ?x) \<le> ?n * 10 ^ nat (- ?x)" using p(1) by (intro mult_right_mono) (linarith, simp)
    moreover have "?n * 10 ^ nat (- ?x) < 10 * ?d" using b \<open>nat ?x = 0\<close> by simp
    ultimately have "(10 :: int) ^ 99 < 10 * ?d" by linarith
    with \<open>?d \<le> 2 ^ 149\<close> have "(10 :: int) ^ 99 < 10 * 2 ^ 149" by linarith
    then show False by simp
  qed
  ultimately show ?thesis by (auto simp: sci_parts_def Let_def abs_less_iff)
qed (simp add: sci_parts_def)

lemma parameter_text:
  assumes "table_number a"
  shows "text_field (show_parameter a)" "length (show_parameter a) \<le> 20"
    "scan_float F32 (show_parameter a @ TAB # rest) = Inr (Some (reread_sci a, TAB # rest))"
proof -
  obtain s m e where a: "a = Fin s m e" "0 \<le> m" "m < 2 ^ 24" "-149 \<le> e" "e \<le> 104" using assms by (cases a) (auto simp: table_number_def)
  note p = show_parameter_Fin [OF a(2), of s e]
  obtain d fs where d: "show_sci 7 (Fin s m e) = (if s then ''-'' else '''') @ d # ''.'' @ fs @ CHR ''e'' # show_exponent (snd (sci_parts 7 m e))"
    "length fs = 7" using sci_text [OF a(2)] by metis
  have "nat \<bar>snd (sci_parts 7 m e)\<bar> < 10 ^ 2" using sci_exponent [OF a(2-5)] by simp
  then have "length (show_nat (nat \<bar>snd (sci_parts 7 m e)\<bar>)) \<le> 2" by (rule length_show_nat) simp
  moreover have "length (show_exponent x) \<le> 2 + length (show_nat (nat \<bar>x\<bar>))" for x
  proof -
    have "length ((if \<bar>x\<bar> < 10 then ''0'' else '''') @ show_nat (nat \<bar>x\<bar>)) \<le> 1 + length (show_nat (nat \<bar>x\<bar>))" by simp
    then show ?thesis by (simp only: show_exponent_def length_append) simp
  qed
  ultimately have "length (show_exponent (snd (sci_parts 7 m e))) \<le> 4" by (metis add_left_mono numeral_Bit0 order.trans)
  then show "length (show_parameter a) \<le> 20" by (simp add: a(1) p d)
  show "text_field (show_parameter a)" using p by (simp add: a(1))
  show "scan_float F32 (show_parameter a @ TAB # rest) = Inr (Some (reread_sci a, TAB # rest))"
    using scan_float_sci [OF a(2), of TAB s e rest] p by (simp add: a(1) num_end_def)
qed

lemma skip_field: "text_field f \<Longrightarrow> skip_ws (f @ t) = f @ t"
  by (cases f) (auto simp: text_field_def skip_ws_def field_char_props)

lemma join_c_str: "list_all text_field fs \<Longrightarrow> c_str (join_tab fs) = join_tab fs"
  unfolding c_str_def takeWhile_eq_all_conv using join_tab_chars field_char_props(3) TAB_props(2) by metis

lemma scan_nat_tab: "scan_int (show_nat n @ TAB # t) = Some (int n, TAB # t)"
  using scan_int_show [of "TAB # t" "int n"] by (simp add: show_int_def)

section \<open>The table of the time to digital converters\<close>

definition tdc_fields :: "nat \<Rightarrow> TdcEntry \<Rightarrow> string list" where
  "tdc_fields gid entry =
     [show_nat (gid div 2 ^ 20 mod 32), show_nat (gid div 2 ^ 15 mod 32), show_nat (gid div 2 ^ 9 mod 64), show_nat (gid div 2 ^ 4 mod 32),
      show_nat (gid div 2 mod 8), if gid mod 2 = 0 then ''1'' else ''2'', show_parameter (ce_t0 entry), show_parameter (ce_a0 entry),
      show_parameter (ce_a1 entry), show_parameter (ce_a2 entry), show_parameter (ce_sigma entry)]"

lemma tdc_text_fields: "tdc_text gid entry = join_tab (tdc_fields gid entry) @ [NL]"
  unfolding tdc_text_def Let_def tdc_fields_def by (rule fields_line_join) simp

definition tdc_entry_ok :: "TdcEntry \<Rightarrow> bool" where
  "tdc_entry_ok e \<longleftrightarrow> list_all table_number [ce_t0 e, ce_a0 e, ce_a1 e, ce_a2 e, ce_sigma e]"

lemma tdc_fields_ok: "tdc_entry_ok e \<Longrightarrow> list_all text_field (tdc_fields gid e)"
proof -
  assume "tdc_entry_ok e"
  moreover have "text_field ''1''" "text_field ''2''" by (simp_all add: text_field_def field_char_def isdigit_def)
  ultimately show ?thesis by (simp add: tdc_fields_def field_show_nat tdc_entry_ok_def parameter_text)
qed

definition tdc_line_args :: "nat \<Rightarrow> TdcEntry \<Rightarrow> arg list" where
  "tdc_line_args gid e =
     [AInt (int (gid div 2 ^ 20 mod 32)), AInt (int (gid div 2 ^ 15 mod 32)), AInt (int (gid div 2 ^ 9 mod 64)),
      AInt (int (gid div 2 ^ 4 mod 32)), AInt (int (gid div 2 mod 8)), AChar (if gid mod 2 = 0 then CHR ''1'' else CHR ''2''),
      AFloat (reread_sci (ce_t0 e)), AFloat (reread_sci (ce_a0 e)), AFloat (reread_sci (ce_a1 e)), AFloat (reread_sci (ce_a2 e))]"

lemma fit_small: "n < 64 \<Longrightarrow> fit_signed 32 (int n) = Inr (int n)" "n < 64 \<Longrightarrow> fit_unsigned 32 (int n) = Inr (int n)"
  by (simp_all add: fit_signed_def fit_unsigned_def)

lemma sscanf_tdc:
  assumes "tdc_entry_ok e"
  shows "sscanf tdc_format (join_tab (tdc_fields gid e)) = Inr (tdc_line_args gid e)"
proof -
  have f: "table_number (ce_t0 e)" "table_number (ce_a0 e)" "table_number (ce_a1 e)" "table_number (ce_a2 e)" "table_number (ce_sigma e)"
    using assms by (simp_all add: tdc_entry_ok_def)
  note sf = parameter_text(3) [OF f(1)] parameter_text(3) [OF f(2)] parameter_text(3) [OF f(3)] parameter_text(3) [OF f(4)]
  note sk = skip_field [OF field_show_nat] skip_field [OF parameter_text(1) [OF f(1)]] skip_field [OF parameter_text(1) [OF f(2)]]
    skip_field [OF parameter_text(1) [OF f(3)]] skip_field [OF parameter_text(1) [OF f(4)]] skip_field [OF parameter_text(1) [OF f(5)]]
  have m: "k mod 32 < 64" "k mod 64 < 64" "k mod 8 < 64" for k :: nat
    using mod_less_divisor [of 32 k] mod_less_divisor [of 64 k] mod_less_divisor [of 8 k] by linarith+
  have "skip_ws (CHR ''1'' # t) = CHR ''1'' # t" "skip_ws (CHR ''2'' # t) = CHR ''2'' # t" for t by (simp_all add: skip_ws_def isspace_def)
  then have "scanf tdc_format (join_tab (tdc_fields gid e)) = Inr (tdc_line_args gid e, TAB # show_parameter (ce_sigma e))"
    unfolding tdc_format_def tdc_fields_def tdc_line_args_def join_tab.simps
    by (simp add: scan_nat_tab sf sk fit_small m)
  then show ?thesis unfolding sscanf_def join_c_str [OF tdc_fields_ok [OF assms]] by simp
qed


text \<open>The channel identifiers of the table are those of the configuration.\<close>

lemma channel_gid:
  assumes "g < 2 ^ 21"
  shows "MAKE_GID (of_nat (g div 2 ^ 16 mod 32)) (of_nat (g div 2 ^ 11 mod 32)) (of_nat (g div 2 ^ 5 mod 64)) (of_nat (g mod 32)) = of_nat g"
proof (rule bit_word_eqI)
  fix n assume n: "n < LENGTH(32)"
  have g: "\<not> bit g k" if "21 \<le> k" for k
  proof -
    have "g < 2 ^ k" using assms that by (meson one_le_numeral order.strict_trans2 power_increasing)
    then show ?thesis by (simp add: bit_iff_odd)
  qed
  have e: "16 + (n - 16) = (if 16 \<le> n then n else 16)" "11 + (n - 11) = (if 11 \<le> n then n else 11)"
    "5 + (n - 5) = (if 5 \<le> n then n else 5)" by simp_all
  have d: "x div 2 ^ k = drop_bit k x" "x mod 32 = take_bit 5 x" "x mod 64 = take_bit 6 x" for x k :: nat
    by (simp_all add: drop_bit_eq_div take_bit_eq_mod)
  show "bit (MAKE_GID (of_nat (g div 2 ^ 16 mod 32)) (of_nat (g div 2 ^ 11 mod 32)) (of_nat (g div 2 ^ 5 mod 64)) (of_nat (g mod 32))) n =
      bit (of_nat g :: u32) n"
    unfolding MAKE_GID_def Let_def d using n g by (auto simp: bit_simps e split: if_splits)
qed


lemma ucast_small: "n < 64 \<Longrightarrow> (ucast (of_nat n :: u32) :: u64) = of_nat n"
  by (rule word_unat_eq_iff [THEN iffD2]) (simp add: unsigned_ucast_eq unat_of_nat take_bit_nat_eq_self)

lemma gid_of_tdc_args:
  assumes "gid < 2 ^ 25"
  shows "gid_of_args (tdc_line_args gid e) = of_nat (gid div 16)"
proof -
  have m: "k mod 32 < 64" "k mod 64 < 64" for k :: nat
    using mod_less_divisor [of 32 k] mod_less_divisor [of 64 k] by linarith+
  have d: "gid div 2 ^ 20 = gid div 16 div 2 ^ 16" "gid div 2 ^ 15 = gid div 16 div 2 ^ 11" "gid div 2 ^ 9 = gid div 16 div 2 ^ 5"
    "gid div 2 ^ 4 = gid div 16" by (simp_all add: div_mult2_eq [symmetric])
  have "gid div 16 < 2 ^ 21" using assms by (simp add: div_less_iff_less_mult)
  from channel_gid [OF this] show ?thesis unfolding gid_of_args_def tdc_line_args_def d by (simp add: ucast_small m)
qed

definition tdc_values :: "TdcEntry \<Rightarrow> TacConfig" where
  "tdc_values e = \<lparr>tac_t0 = reread_sci (ce_t0 e), tac_a0 = reread_sci (ce_a0 e), tac_a1 = reread_sci (ce_a1 e), tac_a2 = reread_sci (ce_a2 e)\<rparr>"

lemma tdc_line_text:
  assumes "tdc_entry_ok e" "gid < 2 ^ 25"
  shows "tdc_line (join_tab (tdc_fields gid e)) s = modifyChannel (of_nat (gid div 16)) (set_tac (even gid) (gid div 2 mod 8) (tdc_values e)) s"
proof -
  have a: "length (tdc_line_args gid e) = 10" "arg_int (tdc_line_args gid e ! 4) = int (gid div 2 mod 8)"
    "arg_float (tdc_line_args gid e ! 6) = reread_sci (ce_t0 e)" "arg_float (tdc_line_args gid e ! 7) = reread_sci (ce_a0 e)"
    "arg_float (tdc_line_args gid e ! 8) = reread_sci (ce_a1 e)" "arg_float (tdc_line_args gid e ! 9) = reread_sci (ce_a2 e)"
    "arg_char (tdc_line_args gid e ! 5) = (if gid mod 2 = 0 then CHR ''1'' else CHR ''2'')"
    by (simp_all add: tdc_line_args_def)
  have c: "((if gid mod 2 = 0 then CHR ''1'' else CHR ''2'') = CHR ''1'') = even gid" unfolding even_iff_mod_2_eq_zero by simp
  show ?thesis
    unfolding tdc_line_def sscanf_tdc [OF assms(1)] rbind_simps a gid_of_tdc_args [OF assms(2)] c by (simp add: tdc_values_def)
qed

text \<open>The values a configuration has for a converter.\<close>

definition tac_slot :: "SystemConfig \<Rightarrow> nat \<Rightarrow> fault + TacConfig" where
  "tac_slot s gid =
     rbind (getChannelConfig s (of_nat (gid div 16))) (\<lambda>c. idx (if even gid then cc_tac_T c else cc_tac_E c) (gid div 2 mod 8))"

lemma channel_of_nat: "i < 2 ^ 21 \<Longrightarrow> gid_ok (of_nat i)"
  "i < 2 ^ 21 \<Longrightarrow> j < 2 ^ 21 \<Longrightarrow> (of_nat i :: u32) = of_nat j \<longleftrightarrow> i = j"
  by (simp_all add: gid_ok_def indexH_def unat_div unat_of_nat take_bit_nat_eq_self PATH_MAX_def div_less_iff_less_mult
      word_unat_eq_iff)

lemma gid_parts: "16 * (x div 16) + 2 * (x div 2 mod 8) + x mod 2 = (x :: nat)"
proof -
  have "x div 16 = x div 2 div 8" by (simp add: div_mult2_eq [symmetric])
  then show ?thesis using mult_div_mod_eq [of 2 x] mult_div_mod_eq [of 8 "x div 2"] by linarith
qed

lemma set_slot:
  assumes "wf_config s" "gid < 2 ^ 25"
  shows "\<exists>s'. modifyChannel (of_nat (gid div 16)) (set_tac (even gid) (gid div 2 mod 8) v) s = Inr s' \<and> wf_config s'
     \<and> (\<forall>g < 2 ^ 25. tac_slot s' g = (if g = gid then Inr v else tac_slot s g))"
proof -
  have r: "g div 16 < 2 ^ 21" if "g < 2 ^ 25" for g :: nat using that by (simp add: div_less_iff_less_mult)
  note ok = channel_of_nat(1) [OF r [OF assms(2)]]
  obtain c where c: "getChannelConfig s (of_nat (gid div 16)) = Inr c" "wf_channel c" using getChannelConfig_ok [OF assms(1) ok] by blast
  let ?n = "gid div 2 mod 8"
  have n: "?n < 8" by simp
  define d where "d = (if even gid then c\<lparr>cc_tac_T := (cc_tac_T c)[?n := v]\<rparr> else c\<lparr>cc_tac_E := (cc_tac_E c)[?n := v]\<rparr>)"
  have d: "set_tac (even gid) ?n v c = Inr d" using c(2) n by (simp add: set_tac_def set_entry_def wf_channel_def d_def)
  from modify_law [where f = "set_tac (even gid) ?n v", OF assms(1) ok c(1) d setters_wf(1) [OF c(2) d]] obtain s' where
    s': "modifyChannel (of_nat (gid div 16)) (set_tac (even gid) ?n v) s = Inr s'" "wf_config s'" "getChannelConfig s' (of_nat (gid div 16)) = Inr d"
      "\<forall>j. j \<noteq> of_nat (gid div 16) \<longrightarrow> getChannelConfig s' j = getChannelConfig s j" by blast
  have "tac_slot s' g = (if g = gid then Inr v else tac_slot s g)" if g: "g < 2 ^ 25" for g
  proof (cases "g div 16 = gid div 16")
    case True
    have e: "g = gid \<longleftrightarrow> even g = even gid \<and> g div 2 mod 8 = gid div 2 mod 8"
      using True by (metis gid_parts mod2_eq_if)
    have l: "length (cc_tac_T c) = 8" "length (cc_tac_E c) = 8" using c(2) by (simp_all add: wf_channel_def)
    have m: "g div 2 mod 8 < 8" by simp
    have k: "getChannelConfig s' (of_nat (g div 16)) = Inr d" "getChannelConfig s (of_nat (g div 16)) = Inr c"
      using s'(3) c(1) by (simp_all only: True)
    show ?thesis unfolding tac_slot_def k rbind_simps e d_def
      by (cases "even gid"; cases "even g") (simp_all add: nth_list_update idx_def l)
  next
    case False
    then have "(of_nat (g div 16) :: u32) \<noteq> of_nat (gid div 16)" using channel_of_nat(2) [OF r [OF g] r [OF assms(2)]] by simp
    with s'(4) False show ?thesis by (auto simp: tac_slot_def)
  qed
  with s'(1,2) show ?thesis by blast
qed

lemma set_slots:
  assumes "wf_config s" "\<forall>gid \<in> set gids. gid < 2 ^ 25"
  shows "\<exists>s'. rfold (\<lambda>gid. modifyChannel (of_nat (gid div 16)) (set_tac (even gid) (gid div 2 mod 8) (v gid))) gids s = Inr s' \<and> wf_config s'
     \<and> (\<forall>g < 2 ^ 25. tac_slot s' g = (if g \<in> set gids then Inr (v g) else tac_slot s g))"
  using assms
proof (induction gids arbitrary: s)
  case (Cons gid gids)
  then obtain s1 where s1: "modifyChannel (of_nat (gid div 16)) (set_tac (even gid) (gid div 2 mod 8) (v gid)) s = Inr s1" "wf_config s1"
    "\<forall>g < 2 ^ 25. tac_slot s1 g = (if g = gid then Inr (v gid) else tac_slot s g)" using set_slot [of s gid "v gid"] by auto
  from Cons.IH [OF s1(2)] Cons.prems(2) obtain s2 where
    "rfold (\<lambda>gid. modifyChannel (of_nat (gid div 16)) (set_tac (even gid) (gid div 2 mod 8) (v gid))) gids s1 = Inr s2" "wf_config s2"
    "\<forall>g < 2 ^ 25. tac_slot s2 g = (if g \<in> set gids then Inr (v g) else tac_slot s1 g)" by auto
  with s1 show ?case by (intro exI [of _ s2]) auto
qed simp


text \<open>A table as a text: a header that is a comment, and a line for every valid entry.\<close>

lemma length_join_tab: "length (join_tab fs) \<le> sum_list (map length fs) + length fs"
  by (induction fs) (simp_all add: join_tab_Cons)

lemma text_join:
  assumes "list_all text_field fs" "fs \<noteq> []" "list_all (\<lambda>f. length f \<le> 20) fs" "length fs \<le> 20"
  shows "text_line PATH_MAX (join_tab fs)"
proof -
  obtain f gs where f: "fs = f # gs" using assms(2) by (cases fs) auto
  obtain c cs where c: "f = c # cs" "\<not> isspace c" using assms(1) f by (cases f) (auto simp: text_field_def field_char_props)
  have "sum_list (map length fs) \<le> length fs * 20" using assms(3) by (induction fs) auto
  then have "length (join_tab fs) < PATH_MAX" using length_join_tab [of fs] assms(4) by (simp add: PATH_MAX_def)
  moreover have "NL \<notin> set (join_tab fs)" using join_tab_chars [OF assms(1), of NL] field_char_props(5) TAB_props(4) by metis
  moreover have "join_tab fs \<noteq> [] \<and> \<not> isspace (hd (join_tab fs))" using c by (simp add: f join_tab_Cons)
  ultimately show ?thesis by (simp add: text_line_def)
qed

lemma short_nat: "n < 64 \<Longrightarrow> length (show_nat n) \<le> 20"
  using length_show_nat [of n 2] by simp

lemma tdc_fields_line: "tdc_entry_ok e \<Longrightarrow> text_line PATH_MAX (join_tab (tdc_fields gid e))"
proof (rule text_join)
  assume e: "tdc_entry_ok e"
  show "list_all text_field (tdc_fields gid e)" by (rule tdc_fields_ok [OF e])
  have m: "k mod 32 < 64" "k mod 64 < 64" "k mod 8 < 64" for k :: nat
    using mod_less_divisor [of 32 k] mod_less_divisor [of 64 k] mod_less_divisor [of 8 k] by linarith+
  show "list_all (\<lambda>f. length f \<le> 20) (tdc_fields gid e)"
    using e by (simp add: tdc_fields_def short_nat m tdc_entry_ok_def parameter_text)
qed (simp_all add: tdc_fields_def)

definition normal_step :: "externals \<Rightarrow> (string \<Rightarrow> SystemConfig \<Rightarrow> fault + SystemConfig) \<Rightarrow> string \<Rightarrow> SystemConfig \<Rightarrow> fault + SystemConfig" where
  "normal_step E step line s = (let line = normalizeLine E line in if line = [] then Inr s else step line s)"

lemma load_text:
  assumes "regex_laws E" "fopen E fn = Some (unlines (header # ls))" "\<forall>l \<in> set (header # ls). text_line PATH_MAX l" "hd header = CHR ''#''"
  shows "load_lines E PATH_MAX step fn s = rfold (normal_step E step) ls s"
proof -
  obtain h where h: "header = CHR ''#'' # h" using assms(3,4) by (cases header) (auto simp: text_line_def)
  have "NL \<notin> set header" using assms(3) by (simp add: text_line_def)
  moreover have "line_words header = []"
  proof -
    have "c_str header = CHR ''#'' # c_str h" by (simp add: h c_str_def)
    moreover have "CHR ''#'' \<noteq> CR" by (simp add: CR_def)
    ultimately show ?thesis by (simp add: line_words_def) (subst words_of.simps, simp)
  qed
  ultimately have "normalizeLine E header = []" using normalizeLine_words [OF assms(1)] by simp
  then have "normal_step E step header s = Inr s" by (simp add: normal_step_def)
  moreover have "load_lines E PATH_MAX step fn s = rfold (normal_step E step) (header # ls) s"
    using for_lines_unlines [OF assms(3), of "normal_step E step" s]
    by (simp add: load_lines_def assms(2) normal_step_def [abs_def])
  ultimately show ?thesis by simp
qed

lemma tdc_header_line: "\<exists>h. tdc_header = h @ [NL] \<and> text_line PATH_MAX h \<and> hd h = CHR ''#''"
proof -
  let ?h = "join_tab [''# portID'', ''slaveID'', ''chipID'', ''channelID'', ''tacID'', ''branch'', ''t0'', ''a0'', ''a1'', ''a2'', ''sigma'']"
  have "tdc_header = ?h @ [NL]" unfolding tdc_header_def by (rule fields_line_join) simp
  moreover have "text_line PATH_MAX ?h" by (simp add: text_line_def PATH_MAX_def TAB_def NL_def isspace_def)
  ultimately show ?thesis by (intro exI [of _ ?h]) simp
qed

lemma concat_if_filter: "concat (map (\<lambda>x. if P x then f x else []) xs) = concat (map f (filter P xs))"
  by (induction xs) simp_all

lemma rfold_map: "rfold f (map g xs) s = rfold (\<lambda>x. f (g x)) xs s"
  by (induction xs arbitrary: s) (simp_all add: rbind_def split: sum.split)

lemma rfold_cong: "(\<And>x s. x \<in> set xs \<Longrightarrow> f x s = g x s) \<Longrightarrow> rfold f xs s = rfold g xs s"
proof (induction xs arbitrary: s)
  case (Cons x xs)
  then have "f x s = g x s" "\<And>s. rfold f xs s = rfold g xs s" by simp_all
  then show ?case by (simp add: rbind_def split: sum.split)
qed simp

text \<open>
  C33: The table written for the calibrated converters is the table that the configuration loads: loading it succeeds and gives
  every converter with a valid entry the values of this entry, rounded to eight digits, under the same channel, branch and analogue
  buffer, and leaves the values of all others as they were.
\<close>

theorem tdc_table_loaded:
  assumes "regex_laws E" and "fopen E fn = Some (writeCalibrationTable table)" and "wf_config s"
    and "\<forall>gid < MAX_N_T1AC. ce_valid (table gid) \<longrightarrow> tdc_entry_ok (table gid)"
  shows "\<exists>s'. loadTDCCalibration E fn s = Inr s' \<and> wf_config s'
     \<and> (\<forall>gid < MAX_N_T1AC. tac_slot s' gid = (if ce_valid (table gid) then Inr (tdc_values (table gid)) else tac_slot s gid))"
proof -
  have M: "MAX_N_T1AC = 2 ^ 25" by (simp add: MAX_N_T1AC_def MAX_N_ASIC_def)
  let ?gids = "filter (\<lambda>gid. ce_valid (table gid)) [0..<MAX_N_T1AC]" and ?line = "\<lambda>gid. join_tab (tdc_fields gid (table gid))"
  have v: "gid < 2 ^ 25 \<and> tdc_entry_ok (table gid)" if "gid \<in> set ?gids" for gid using that assms(4) by (simp add: M)
  obtain h where h: "tdc_header = h @ [NL]" "text_line PATH_MAX h" "hd h = CHR ''#''" using tdc_header_line by blast
  have "concat (map (\<lambda>gid. tdc_text gid (table gid)) ?gids) = unlines (map ?line ?gids)"
    by (simp only: tdc_text_fields unlines_def map_map comp_def)
  then have t: "writeCalibrationTable table = unlines (h # map ?line ?gids)"
    unfolding writeCalibrationTable_def concat_if_filter h(1) by (simp add: unlines_def)
  have l: "\<forall>l \<in> set (h # map ?line ?gids). text_line PATH_MAX l"
  proof
    fix l assume "l \<in> set (h # map ?line ?gids)"
    then consider "l = h" | gid where "gid \<in> set ?gids" "l = ?line gid" by (auto simp del: set_filter)
    then show "text_line PATH_MAX l" using h(2) tdc_fields_line v by cases blast+
  qed
  have step: "normal_step E tdc_line (?line gid) s = modifyChannel (of_nat (gid div 16)) (set_tac (even gid) (gid div 2 mod 8) (tdc_values (table gid))) s"
    if g: "gid \<in> set ?gids" for gid s
  proof -
    have e: "tdc_entry_ok (table gid)" "gid < 2 ^ 25" using v [OF g] by simp_all
    have "?line gid \<noteq> []" using tdc_fields_line [OF e(1), of gid] by (simp add: text_line_def)
    then show ?thesis using normal_line [OF assms(1) tdc_fields_ok [OF e(1), of gid]] tdc_line_text [OF e, of s] by (simp add: normal_step_def)
  qed
  have "loadTDCCalibration E fn s = rfold (normal_step E tdc_line) (map ?line ?gids) s"
    unfolding loadTDCCalibration_def using load_text [OF assms(1) assms(2) [unfolded t] l h(3)] .
  also have "\<dots> = rfold (\<lambda>gid. modifyChannel (of_nat (gid div 16)) (set_tac (even gid) (gid div 2 mod 8) (tdc_values (table gid)))) ?gids s"
    unfolding rfold_map by (rule rfold_cong) (rule step)
  finally have r: "loadTDCCalibration E fn s = \<dots>" .
  have "\<forall>gid \<in> set ?gids. gid < 2 ^ 25" using v by blast
  from set_slots [OF assms(3) this, of "\<lambda>gid. tdc_values (table gid)"] show ?thesis
    unfolding r M by (simp add: M)
qed

definition example_tdc_entry :: TdcEntry where
  "example_tdc_entry = \<lparr>ce_t0 = Fin True 8388608 (-25), ce_tEdge = Fin False 0 (-149), ce_a0 = Fin False 13107200 (-16), ce_a1 = Fin False 16384000 (-15),
     ce_a2 = Fin True 8388608 (-21), ce_valid = True, ce_maxINL = Fin False 0 (-149), ce_sigma = Fin False 0 (-149)\<rparr>"

definition example_tdc_table :: tdc_table where
  "example_tdc_table = (\<lambda>gid. if gid = 5000 then example_tdc_entry else newTdcEntry)"

theorem tdc_table_witness:
  "\<exists>s'. loadTDCCalibration (std_externals\<lparr>fopen := (\<lambda>_. Some (writeCalibrationTable example_tdc_table))\<rparr>) ''tdc.tsv'' (newSystemConfig example_memory) = Inr s'
     \<and> tac_slot s' 5000 = Inr \<lparr>tac_t0 = Fin True 8388608 (-25), tac_a0 = Fin False 13107200 (-16), tac_a1 = Fin False 16384000 (-15), tac_a2 = Fin True 8388608 (-21)\<rparr>
     \<and> tac_slot s' 5001 = tac_slot (newSystemConfig example_memory) 5001"
proof -
  let ?E = "std_externals\<lparr>fopen := (\<lambda>_. Some (writeCalibrationTable example_tdc_table))\<rparr>"
  have wf: "wf_config (newSystemConfig example_memory)" using loaded_new [OF example_wf] by (simp add: loaded_def)
  have E: "regex_laws ?E" "fopen ?E ''tdc.tsv'' = Some (writeCalibrationTable example_tdc_table)"
    using std_regex_laws by (simp_all add: regex_laws_def)
  have e: "tdc_entry_ok example_tdc_entry" by (simp add: tdc_entry_ok_def example_tdc_entry_def table_number_def)
  have v: "tdc_values example_tdc_entry = \<lparr>tac_t0 = Fin True 8388608 (-25), tac_a0 = Fin False 13107200 (-16), tac_a1 = Fin False 16384000 (-15), tac_a2 = Fin True 8388608 (-21)\<rparr>"
    by code_simp
  have t: "\<forall>gid < MAX_N_T1AC. ce_valid (example_tdc_table gid) \<longrightarrow> tdc_entry_ok (example_tdc_table gid)"
    using e by (auto simp: example_tdc_table_def newTdcEntry_def)
  have m: "5000 < MAX_N_T1AC" "5001 < MAX_N_T1AC" by (simp_all add: MAX_N_T1AC_def MAX_N_ASIC_def)
  have x: "example_tdc_table 5000 = example_tdc_entry" "ce_valid example_tdc_entry" "\<not> ce_valid (example_tdc_table 5001)"
    by (simp_all add: example_tdc_table_def newTdcEntry_def example_tdc_entry_def)
  from tdc_table_loaded [OF E wf t] m x v show ?thesis by auto
qed


section \<open>The table of the charge to digital converters\<close>

definition qdc_fields :: "nat \<Rightarrow> QdcEntry \<Rightarrow> string list" where
  "qdc_fields gid entry =
     [show_nat (gid div 2 ^ 19 mod 32), show_nat (gid div 2 ^ 14 mod 32), show_nat (gid div 2 ^ 8 mod 64), show_nat (gid div 2 ^ 3 mod 32),
      show_nat (gid mod 8), show_int (qe_trim entry)]
     @ map (\<lambda>k. show_parameter (qe_p entry ! k)) [0..<10] @ [show_parameter (qe_sigma entry)]"

lemma qdc_text_fields: "qdc_text gid entry = join_tab (qdc_fields gid entry) @ [NL]"
  unfolding qdc_text_def Let_def qdc_fields_def by (rule fields_line_join) simp

definition qdc_entry_ok :: "QdcEntry \<Rightarrow> bool" where
  "qdc_entry_ok e \<longleftrightarrow> (\<forall>k < 10. table_number (qe_p e ! k)) \<and> table_number (qe_sigma e) \<and> - (2 ^ 31) \<le> qe_trim e \<and> qe_trim e < 2 ^ 31"

lemma field_show_int: "text_field (show_int i)"
proof -
  have "field_char CHR ''-''" by (simp add: field_char_def)
  then show ?thesis using field_show_nat by (simp add: show_int_def text_field_def)
qed

lemma length_show_int: "- (2 ^ 31) \<le> i \<Longrightarrow> i < 2 ^ 31 \<Longrightarrow> length (show_int i) \<le> 20"
proof -
  assume "- (2 ^ 31) \<le> i" "i < 2 ^ 31"
  then have "nat i < 10 ^ 10" "nat (- i) < 10 ^ 10" by simp_all
  then have "length (show_nat (nat i)) \<le> 10" "length (show_nat (nat (- i))) \<le> 10" by (intro length_show_nat; simp)+
  then show ?thesis by (simp add: show_int_def)
qed

lemma qdc_fields_ok:
  assumes "qdc_entry_ok e"
  shows "list_all text_field (qdc_fields gid e)" "text_line PATH_MAX (join_tab (qdc_fields gid e))"
proof -
  have m: "k mod 32 < 64" "k mod 64 < 64" "k mod 8 < 64" for k :: nat
    using mod_less_divisor [of 32 k] mod_less_divisor [of 64 k] mod_less_divisor [of 8 k] by linarith+
  have p: "text_field (show_parameter (qe_p e ! k))" "length (show_parameter (qe_p e ! k)) \<le> 20" if "k < 10" for k
    using parameter_text assms that by (simp_all add: qdc_entry_ok_def)
  have s: "text_field (show_parameter (qe_sigma e))" "length (show_parameter (qe_sigma e)) \<le> 20"
    using parameter_text assms by (simp_all add: qdc_entry_ok_def)
  show f: "list_all text_field (qdc_fields gid e)" using p s by (auto simp: qdc_fields_def field_show_nat field_show_int list_all_iff)
  have "list_all (\<lambda>f. length f \<le> 20) (qdc_fields gid e)"
    using p s assms by (auto simp: qdc_fields_def short_nat m length_show_int qdc_entry_ok_def list_all_iff)
  then show "text_line PATH_MAX (join_tab (qdc_fields gid e))" by (intro text_join f) (simp_all add: qdc_fields_def)
qed

definition qdc_line_args :: "nat \<Rightarrow> QdcEntry \<Rightarrow> arg list" where
  "qdc_line_args gid e =
     [AInt (int (gid div 2 ^ 19 mod 32)), AInt (int (gid div 2 ^ 14 mod 32)), AInt (int (gid div 2 ^ 8 mod 64)),
      AInt (int (gid div 2 ^ 3 mod 32)), AInt (int (gid mod 8)), AInt (qe_trim e)]
     @ map (\<lambda>k. AFloat (reread_sci (qe_p e ! k))) [0..<10]"

lemma ten: "[0..<10] = [0, 1, 2, 3, 4, 5, 6, 7, 8, 9 :: nat]"
  by (simp add: upt_rec)

text \<open>The ten numbers of a line, one after another.\<close>

fun float_formats :: "nat \<Rightarrow> directive list" where
  "float_formats 0 = []"
| "float_formats (Suc n) = DFloat # (if n = 0 then [] else WS # float_formats n)"

lemma scan_floats:
  assumes "\<forall>a \<in> set as. table_number a" "table_number b"
  shows "scanf (float_formats (length as)) (join_tab (map show_parameter (as @ [b]))) =
    Inr (map (\<lambda>a. AFloat (reread_sci a)) as, (if as = [] then [] else [TAB]) @ show_parameter b)"
  using assms(1)
proof (induction as)
  case (Cons a as)
  then have a: "table_number a" by simp
  note f = parameter_text(3) [OF a]
  show ?case
  proof (cases as)
    case Nil
    then show ?thesis using f [of "show_parameter b"] by simp
  next
    case (Cons a' as')
    then have a': "table_number a'" using Cons.prems by simp
    have j: "join_tab (map show_parameter (as @ [b])) = show_parameter a' @ TAB # join_tab (map show_parameter (as' @ [b]))"
      by (simp add: Cons join_tab_Cons)
    have "skip_ws (TAB # join_tab (map show_parameter (as @ [b]))) = join_tab (map show_parameter (as @ [b]))"
      unfolding j using skip_field [OF parameter_text(1) [OF a']] by simp
    then show ?thesis using f [of "join_tab (map show_parameter (as @ [b]))"] Cons.IH Cons.prems Cons
      by (simp add: join_tab_Cons)
  qed
qed simp

lemma sscanf_qdc:
  assumes "qdc_entry_ok e"
  shows "sscanf qdc_format (join_tab (qdc_fields gid e)) = Inr (qdc_line_args gid e)"
proof -
  let ?ps = "map (\<lambda>k. qe_p e ! k) [0..<10]" and ?s = "qe_sigma e"
  let ?t = "join_tab (map show_parameter (?ps @ [?s]))"
  have n: "\<forall>a \<in> set ?ps. table_number a" "table_number ?s" using assms by (auto simp: qdc_entry_ok_def)
  have t: "- (2 ^ 31) \<le> qe_trim e" "qe_trim e < 2 ^ 31" using assms by (simp_all add: qdc_entry_ok_def)
  have ff: "float_formats (length ?ps) = [DFloat, WS, DFloat, WS, DFloat, WS, DFloat, WS, DFloat, WS, DFloat, WS, DFloat, WS, DFloat, WS, DFloat, WS, DFloat]"
    by (simp add: numeral_eq_Suc)
  have fmt: "qdc_format = [DInt 32, WS, DUInt 32, WS, DUInt 32, WS, DUInt 32, WS, DUInt 32, WS, DInt 32, WS] @ float_formats (length ?ps)"
    unfolding ff qdc_format_def by simp
  have m: "k mod 32 < 64" "k mod 64 < 64" "k mod 8 < 64" for k :: nat
    using mod_less_divisor [of 32 k] mod_less_divisor [of 64 k] mod_less_divisor [of 8 k] by linarith+
  have j: "join_tab (qdc_fields gid e) = show_nat (gid div 2 ^ 19 mod 32) @ TAB # show_nat (gid div 2 ^ 14 mod 32) @ TAB # show_nat (gid div 2 ^ 8 mod 64)
      @ TAB # show_nat (gid div 2 ^ 3 mod 32) @ TAB # show_nat (gid mod 8) @ TAB # show_int (qe_trim e) @ TAB # ?t"
    unfolding qdc_fields_def by (simp add: join_tab_Cons comp_def)
  have i: "scan_int (show_int (qe_trim e) @ TAB # u) = Some (qe_trim e, TAB # u)" "fit_signed 32 (qe_trim e) = Inr (qe_trim e)" for u
    using scan_int_show [of "TAB # u" "qe_trim e"] t by (simp_all add: fit_signed_def)
  have tn: "table_number (qe_p e ! 0)" using n(1) by (simp add: ten)
  have "?t = show_parameter (qe_p e ! 0) @ TAB # join_tab (map show_parameter (map (\<lambda>k. qe_p e ! k) [1..<10] @ [?s]))"
    by (simp add: upt_conv_Cons join_tab_Cons)
  then have k: "skip_ws ?t = ?t" using skip_field [OF parameter_text(1) [OF tn]] by simp
  have "scanf qdc_format (join_tab (qdc_fields gid e)) = Inr (qdc_line_args gid e, [TAB] @ show_parameter ?s)"
    unfolding fmt j qdc_line_args_def using scan_floats [OF n] i k
    by (simp add: scan_nat_tab skip_field [OF field_show_nat] skip_field [OF field_show_int] fit_small m comp_def)
  then show ?thesis unfolding sscanf_def join_c_str [OF qdc_fields_ok(1) [OF assms]] by simp
qed


lemma gid_of_qdc_args:
  assumes "gid < 2 ^ 24"
  shows "gid_of_args (qdc_line_args gid e) = of_nat (gid div 8)"
proof -
  have m: "k mod 32 < 64" "k mod 64 < 64" for k :: nat
    using mod_less_divisor [of 32 k] mod_less_divisor [of 64 k] by linarith+
  have d: "gid div 2 ^ 19 = gid div 8 div 2 ^ 16" "gid div 2 ^ 14 = gid div 8 div 2 ^ 11" "gid div 2 ^ 8 = gid div 8 div 2 ^ 5"
    "gid div 2 ^ 3 = gid div 8" by (simp_all add: div_mult2_eq [symmetric])
  have "gid div 8 < 2 ^ 21" using assms by (simp add: div_less_iff_less_mult)
  from channel_gid [OF this] show ?thesis unfolding gid_of_args_def qdc_line_args_def d by (simp add: ucast_small m)
qed

definition qdc_values :: "QdcEntry \<Rightarrow> QacConfig" where
  "qdc_values e = (let p = (\<lambda>k. reread_sci (qe_p e ! k)) in
     \<lparr>qac_p0 = p 0, qac_p1 = p 1, qac_p2 = p 2, qac_p3 = p 3, qac_p4 = p 4, qac_p5 = p 5, qac_p6 = p 6, qac_p7 = p 7,
      qac_p8 = p 8, qac_p9 = p 9\<rparr>)"

lemma qdc_line_text:
  assumes "qdc_entry_ok e" "gid < 2 ^ 24"
  shows "qdc_line (join_tab (qdc_fields gid e)) s = modifyChannel (of_nat (gid div 8)) (set_qac (gid mod 8) (qdc_values e)) s"
proof -
  have n: "qdc_line_args gid e ! (6 + k) = AFloat (reread_sci (qe_p e ! k))" if "k < 10" for k
    using that by (simp add: qdc_line_args_def nth_append)
  have a: "length (qdc_line_args gid e) = 16" "arg_int (qdc_line_args gid e ! 4) = int (gid mod 8)"
    by (simp_all add: qdc_line_args_def)
  show ?thesis
    unfolding qdc_line_def sscanf_qdc [OF assms(1)] rbind_simps gid_of_qdc_args [OF assms(2)] a
    using n [of 0] n [of 1] n [of 2] n [of 3] n [of 4] n [of 5] n [of 6] n [of 7] n [of 8] n [of 9]
    by (simp add: qdc_values_def Let_def)
qed

definition qac_slot :: "SystemConfig \<Rightarrow> nat \<Rightarrow> fault + QacConfig" where
  "qac_slot s gid = rbind (getChannelConfig s (of_nat (gid div 8))) (\<lambda>c. idx (cc_qac_Q c) (gid mod 8))"

lemma set_qac_slot:
  assumes "wf_config s" "gid < 2 ^ 24"
  shows "\<exists>s'. modifyChannel (of_nat (gid div 8)) (set_qac (gid mod 8) v) s = Inr s' \<and> wf_config s'
     \<and> (\<forall>g < 2 ^ 24. qac_slot s' g = (if g = gid then Inr v else qac_slot s g))"
proof -
  have r: "g div 8 < 2 ^ 21" if "g < 2 ^ 24" for g :: nat using that by (simp add: div_less_iff_less_mult)
  note ok = channel_of_nat(1) [OF r [OF assms(2)]]
  obtain c where c: "getChannelConfig s (of_nat (gid div 8)) = Inr c" "wf_channel c" using getChannelConfig_ok [OF assms(1) ok] by blast
  let ?n = "gid mod 8"
  define d where "d = c\<lparr>cc_qac_Q := (cc_qac_Q c)[?n := v]\<rparr>"
  have l: "length (cc_qac_Q c) = 8" using c(2) by (simp add: wf_channel_def)
  have d: "set_qac ?n v c = Inr d" using l by (simp add: set_qac_def set_entry_def d_def)
  from modify_law [where f = "set_qac ?n v", OF assms(1) ok c(1) d setters_wf(2) [OF c(2) d]] obtain s' where
    s': "modifyChannel (of_nat (gid div 8)) (set_qac ?n v) s = Inr s'" "wf_config s'" "getChannelConfig s' (of_nat (gid div 8)) = Inr d"
      "\<forall>j. j \<noteq> of_nat (gid div 8) \<longrightarrow> getChannelConfig s' j = getChannelConfig s j" by blast
  have "qac_slot s' g = (if g = gid then Inr v else qac_slot s g)" if g: "g < 2 ^ 24" for g
  proof (cases "g div 8 = gid div 8")
    case True
    have e: "g = gid \<longleftrightarrow> g mod 8 = gid mod 8" using True by (metis div_mult_mod_eq)
    have k: "getChannelConfig s' (of_nat (g div 8)) = Inr d" "getChannelConfig s (of_nat (g div 8)) = Inr c"
      using s'(3) c(1) by (simp_all only: True)
    show ?thesis unfolding qac_slot_def k rbind_simps e d_def by (simp add: nth_list_update idx_def l)
  next
    case False
    then have "(of_nat (g div 8) :: u32) \<noteq> of_nat (gid div 8)" using channel_of_nat(2) [OF r [OF g] r [OF assms(2)]] by simp
    with s'(4) False show ?thesis by (auto simp: qac_slot_def)
  qed
  with s'(1,2) show ?thesis by blast
qed

lemma set_qac_slots:
  assumes "wf_config s" "\<forall>gid \<in> set gids. gid < 2 ^ 24"
  shows "\<exists>s'. rfold (\<lambda>gid. modifyChannel (of_nat (gid div 8)) (set_qac (gid mod 8) (v gid))) gids s = Inr s' \<and> wf_config s'
     \<and> (\<forall>g < 2 ^ 24. qac_slot s' g = (if g \<in> set gids then Inr (v g) else qac_slot s g))"
  using assms
proof (induction gids arbitrary: s)
  case (Cons gid gids)
  then obtain s1 where s1: "modifyChannel (of_nat (gid div 8)) (set_qac (gid mod 8) (v gid)) s = Inr s1" "wf_config s1"
    "\<forall>g < 2 ^ 24. qac_slot s1 g = (if g = gid then Inr (v gid) else qac_slot s g)" using set_qac_slot [of s gid "v gid"] by auto
  from Cons.IH [OF s1(2)] Cons.prems(2) obtain s2 where
    "rfold (\<lambda>gid. modifyChannel (of_nat (gid div 8)) (set_qac (gid mod 8) (v gid))) gids s1 = Inr s2" "wf_config s2"
    "\<forall>g < 2 ^ 24. qac_slot s2 g = (if g \<in> set gids then Inr (v g) else qac_slot s1 g)" by auto
  with s1 show ?case by (intro exI [of _ s2]) auto
qed simp

lemma qdc_header_line: "\<exists>h. qdc_header = h @ [NL] \<and> text_line PATH_MAX h \<and> hd h = CHR ''#''"
proof -
  let ?h = "join_tab [''# portID'', ''slaveID'', ''chipID'', ''channelID'', ''tacID'', ''trim'', ''p0'', ''p1'', ''p2'', ''p3'', ''p4'', ''p5'', ''p6'', ''p7'', ''p8'', ''p9'', ''sigma'']"
  have "qdc_header = ?h @ [NL]" unfolding qdc_header_def by (rule fields_line_join) simp
  moreover have "text_line PATH_MAX ?h" by (simp add: text_line_def PATH_MAX_def TAB_def NL_def isspace_def)
  ultimately show ?thesis by (intro exI [of _ ?h]) simp
qed

text \<open>
  C34: The table written for the calibrated charge converters is the one that the configuration loads: loading it succeeds and gives
  every converter with a valid entry the ten coefficients of this entry, rounded to eight digits, under the same channel and analogue
  buffer, and leaves those of all others as they were.
\<close>

theorem qdc_table_loaded:
  assumes "regex_laws E" and "fopen E fn = Some (qdc_writeCalibrationTable table)" and "wf_config s"
    and "\<forall>gid < MAX_N_QAC. qe_valid (table gid) \<longrightarrow> qdc_entry_ok (table gid)"
  shows "\<exists>s'. loadQDCCalibration E fn s = Inr s' \<and> wf_config s'
     \<and> (\<forall>gid < MAX_N_QAC. qac_slot s' gid = (if qe_valid (table gid) then Inr (qdc_values (table gid)) else qac_slot s gid))"
proof -
  have M: "MAX_N_QAC = 2 ^ 24" by (simp add: MAX_N_QAC_def MAX_N_ASIC_def)
  let ?gids = "filter (\<lambda>gid. qe_valid (table gid)) [0..<MAX_N_QAC]" and ?line = "\<lambda>gid. join_tab (qdc_fields gid (table gid))"
  have v: "gid < 2 ^ 24 \<and> qdc_entry_ok (table gid)" if "gid \<in> set ?gids" for gid using that assms(4) by (simp add: M)
  obtain h where h: "qdc_header = h @ [NL]" "text_line PATH_MAX h" "hd h = CHR ''#''" using qdc_header_line by blast
  have "concat (map (\<lambda>gid. qdc_text gid (table gid)) ?gids) = unlines (map ?line ?gids)"
    by (simp only: qdc_text_fields unlines_def map_map comp_def)
  then have t: "qdc_writeCalibrationTable table = unlines (h # map ?line ?gids)"
    unfolding qdc_writeCalibrationTable_def concat_if_filter h(1) by (simp add: unlines_def)
  have l: "\<forall>l \<in> set (h # map ?line ?gids). text_line PATH_MAX l"
  proof
    fix l assume "l \<in> set (h # map ?line ?gids)"
    then consider "l = h" | gid where "gid \<in> set ?gids" "l = ?line gid" by (auto simp del: set_filter)
    then show "text_line PATH_MAX l" using h(2) qdc_fields_ok(2) v by cases blast+
  qed
  have step: "normal_step E qdc_line (?line gid) s = modifyChannel (of_nat (gid div 8)) (set_qac (gid mod 8) (qdc_values (table gid))) s"
    if g: "gid \<in> set ?gids" for gid s
  proof -
    have e: "qdc_entry_ok (table gid)" "gid < 2 ^ 24" using v [OF g] by simp_all
    have "?line gid \<noteq> []" using qdc_fields_ok(2) [OF e(1), of gid] by (simp add: text_line_def)
    then show ?thesis using normal_line [OF assms(1) qdc_fields_ok(1) [OF e(1), of gid]] qdc_line_text [OF e, of s] by (simp add: normal_step_def)
  qed
  have "loadQDCCalibration E fn s = rfold (normal_step E qdc_line) (map ?line ?gids) s"
    unfolding loadQDCCalibration_def using load_text [OF assms(1) assms(2) [unfolded t] l h(3)] .
  also have "\<dots> = rfold (\<lambda>gid. modifyChannel (of_nat (gid div 8)) (set_qac (gid mod 8) (qdc_values (table gid)))) ?gids s"
    unfolding rfold_map by (rule rfold_cong) (rule step)
  finally have r: "loadQDCCalibration E fn s = \<dots>" .
  have "\<forall>gid \<in> set ?gids. gid < 2 ^ 24" using v by blast
  from set_qac_slots [OF assms(3) this, of "\<lambda>gid. qdc_values (table gid)"] show ?thesis
    unfolding r M by (simp add: M)
qed

definition example_qdc_entry :: QdcEntry where
  "example_qdc_entry = newQdcEntry\<lparr>qe_p := Fin False 9437184 (-23) # Fin True 8388608 (-25) # replicate 8 (Fin False 0 (-149)),
     qe_sigma := Fin False 0 (-149), qe_trim := -2, qe_valid := True\<rparr>"

definition example_qdc_table :: "nat \<Rightarrow> QdcEntry" where
  "example_qdc_table = (\<lambda>gid. if gid = 5000 then example_qdc_entry else newQdcEntry)"

theorem qdc_table_witness:
  "\<exists>s'. loadQDCCalibration (std_externals\<lparr>fopen := (\<lambda>_. Some (qdc_writeCalibrationTable example_qdc_table))\<rparr>) ''qdc.tsv'' (newSystemConfig example_memory) = Inr s'
     \<and> qac_slot s' 5000 = Inr (zero_qac\<lparr>qac_p0 := Fin False 9437184 (-23), qac_p1 := Fin True 8388608 (-25)\<rparr>)
     \<and> qac_slot s' 5001 = qac_slot (newSystemConfig example_memory) 5001"
proof -
  let ?E = "std_externals\<lparr>fopen := (\<lambda>_. Some (qdc_writeCalibrationTable example_qdc_table))\<rparr>"
  have wf: "wf_config (newSystemConfig example_memory)" using loaded_new [OF example_wf] by (simp add: loaded_def)
  have E: "regex_laws ?E" "fopen ?E ''qdc.tsv'' = Some (qdc_writeCalibrationTable example_qdc_table)"
    using std_regex_laws by (simp_all add: regex_laws_def)
  have e: "qdc_entry_ok example_qdc_entry" by (auto simp: qdc_entry_ok_def example_qdc_entry_def table_number_def nth_Cons' numeral_eq_Suc)
  have v: "qdc_values example_qdc_entry = zero_qac\<lparr>qac_p0 := Fin False 9437184 (-23), qac_p1 := Fin True 8388608 (-25)\<rparr>"
    by code_simp
  have t: "\<forall>gid < MAX_N_QAC. qe_valid (example_qdc_table gid) \<longrightarrow> qdc_entry_ok (example_qdc_table gid)"
    using e by (auto simp: example_qdc_table_def newQdcEntry_def)
  have m: "5000 < MAX_N_QAC" "5001 < MAX_N_QAC" by (simp_all add: MAX_N_QAC_def MAX_N_ASIC_def)
  have x: "example_qdc_table 5000 = example_qdc_entry" "qe_valid example_qdc_entry" "\<not> qe_valid (example_qdc_table 5001)"
    by (simp_all add: example_qdc_table_def newQdcEntry_def example_qdc_entry_def)
  from qdc_table_loaded [OF E wf t] m x v show ?thesis by auto
qed

end
