(* ===== verification/Kernel_Driver.thy ===== *)
theory Kernel_Driver
  imports PFP_KX7 "HOL-Library.While_Combinator"
begin

text \<open>
  The kernel module of the acquisition card, kernel/psdaq.c: the registers and the buffer for transfers by the card, set up when a
  card is found and given back when it is removed, the reading of the device, and the requests that access registers. The card
  is an argument, a record of functions; of the functions of the kernel the results are arguments.
\<close>

section \<open>The card\<close>

text \<open>
  \<open>kw_readl\<close> and \<open>kw_writel\<close> access the registers of a region at an offset in bytes, and \<open>kw_memory\<close> is what the card has left in the memory given to
  it. Reading a register may change the card.
\<close>

record 'h hardware =
  kw_readl :: "nat \<Rightarrow> nat \<Rightarrow> 'h \<Rightarrow> u32 \<times> 'h"
  kw_writel :: "u32 \<Rightarrow> nat \<Rightarrow> nat \<Rightarrow> 'h \<Rightarrow> 'h"
  kw_memory :: "'h \<Rightarrow> u8 list"

definition MAX_TLP_COUNT :: nat where
  "MAX_TLP_COUNT = 512"

definition MAX_TLP_SIZE :: nat where
  "MAX_TLP_SIZE = 128"

definition BUF_SIZE :: nat where
  "BUF_SIZE = MAX_TLP_COUNT * MAX_TLP_SIZE"

text \<open>The regions by their numbers 0 and 1: whether the pointer is not null, and the length.\<close>

record psdaq_dev =
  ps_bar_addr :: "nat \<Rightarrow> bool"
  ps_bar_len :: "nat \<Rightarrow> nat"
  ps_dev_index :: nat
  ps_tlp_count :: nat
  ps_tlp_size :: nat
  ps_dma_hwaddr :: u32
  ps_dma_fill :: nat
  ps_dma_used :: nat

definition READ_BAR0_REG :: "'h hardware \<Rightarrow> nat \<Rightarrow> 'h \<Rightarrow> u32 \<times> 'h" where
  "READ_BAR0_REG K reg = kw_readl K 0 (4 * reg)"

definition WRITE_BAR0_REG :: "'h hardware \<Rightarrow> nat \<Rightarrow> u32 \<Rightarrow> 'h \<Rightarrow> 'h" where
  "WRITE_BAR0_REG K reg val = kw_writel K val 0 (4 * reg)"

definition tlp_size_of :: "u32 \<Rightarrow> nat" where
  "tlp_size_of tmpreg =
     (let k = unat (drop_bit 16 tmpreg);
          size = (if k = 1 then 256 else if k = 2 then 512 else if k = 3 then 1024 else if k = 4 then 2048 else if k = 5 then 4096 else 128)
      in if size > MAX_TLP_SIZE then MAX_TLP_SIZE else size)"

definition psdaq_initcard :: "'h hardware \<Rightarrow> psdaq_dev \<Rightarrow> 'h \<Rightarrow> psdaq_dev \<times> 'h" where
  "psdaq_initcard K d h =
     (let (tmpreg, h) = READ_BAR0_REG K 16 h;
          d = d\<lparr>ps_tlp_size := tlp_size_of tmpreg, ps_tlp_count := MAX_TLP_COUNT\<rparr>;
          h = WRITE_BAR0_REG K 0 0 (WRITE_BAR0_REG K 0 1 h);
          h = WRITE_BAR0_REG K 1 0x00800080 h;
          h = WRITE_BAR0_REG K 2 (ps_dma_hwaddr d) h;
          h = WRITE_BAR0_REG K 3 (of_nat (ps_tlp_size d div 4)) h;
          h = WRITE_BAR0_REG K 4 (of_nat (ps_tlp_count d)) h
      in (d, WRITE_BAR0_REG K 5 0 h))"

section \<open>Reading\<close>

text \<open>A transfer: the card is reset and started, and its status read until the transfer is done, which may be never.\<close>

definition start_dma :: "'h hardware \<Rightarrow> 'h \<Rightarrow> 'h" where
  "start_dma K h = WRITE_BAR0_REG K 1 0x00000001 (WRITE_BAR0_REG K 0 0 (WRITE_BAR0_REG K 0 1 h))"

definition await_dma :: "'h hardware \<Rightarrow> 'h \<Rightarrow> 'h option" where
  "await_dma K h =
     map_option snd (while_option (\<lambda>(status, h). status AND 0x100 = 0) (\<lambda>(status, h). READ_BAR0_REG K 1 h) (READ_BAR0_REG K 1 h))"

definition transfer :: "'h hardware \<Rightarrow> 'h \<Rightarrow> 'h option" where
  "transfer K h = await_dma K (start_dma K h)"

definition refill_dma :: "'h hardware \<Rightarrow> psdaq_dev \<times> 'h \<Rightarrow> fault + psdaq_dev \<times> 'h" where
  "refill_dma K = (\<lambda>(d, h).
     if ps_dma_used d = ps_dma_fill d
     then case transfer K h of
            None \<Rightarrow> Inl Diverges
          | Some h \<Rightarrow> Inr (d\<lparr>ps_dma_used := 0, ps_dma_fill := ps_tlp_count d * ps_tlp_size d\<rparr>, h)
     else Inr (d, h))"

text \<open>
  The loop of \<open>psdaq_file_read\<close>. \<open>room\<close> is the number of bytes from the start of the memory of the caller that can be written: a
  copy that goes past it fails, and the bytes copied before are lost to the caller. A transfer of no bytes makes the loop go
  on for ever. The result is the bytes or the error number.
\<close>

definition EFAULT :: int where
  "EFAULT = 14"

definition EINVAL :: int where
  "EINVAL = 22"

definition ENOMEM :: int where
  "ENOMEM = 12"

function read_device :: "'h hardware \<Rightarrow> nat \<Rightarrow> nat \<Rightarrow> u8 list \<Rightarrow> psdaq_dev \<times> 'h \<Rightarrow> fault + (int + u8 list) \<times> psdaq_dev \<times> 'h" where
  "read_device K room cnt out s =
     (if \<not> length out < cnt then Inr (Inr out, s)
      else
        rbind (refill_dma K s) (\<lambda>(d, h).
        let available = ps_dma_fill d - ps_dma_used d;
            n = min (cnt - length out) available;
            bs = take n (drop (ps_dma_used d) (kw_memory K h))
        in if available = 0 then Inl Diverges
           else if length bs < n then Inl OutOfBounds
           else if room < length out + n then Inr (Inl (- EFAULT), d, h)
           else read_device K room cnt (out @ bs) (d\<lparr>ps_dma_used := ps_dma_used d + n\<rparr>, h)))"
  by pat_completeness auto
termination
  by (relation "measure (\<lambda>(K, room, cnt, out, s). cnt - length out)") auto

declare read_device.simps [simp del]

definition psdaq_file_read :: "'h hardware \<Rightarrow> nat \<Rightarrow> nat \<Rightarrow> psdaq_dev \<times> 'h \<Rightarrow> fault + (int + u8 list) \<times> psdaq_dev \<times> 'h" where
  "psdaq_file_read K room cnt s = read_device K room cnt [] s"

definition psdaq_file_write :: "u8 list \<Rightarrow> int" where
  "psdaq_file_write bs = - EINVAL"

section \<open>Registers\<close>

datatype request = READ_REGISTER | WRITE_REGISTER | Other_Request

text \<open>
  The memory of the caller is the register number and the value, or nothing when it cannot be accessed. The offset is not checked, so one
  past the region accesses memory that is not mapped. The result is the error number and the value in the memory of the caller.
\<close>

definition psdaq_ioctl :: "'h hardware \<Rightarrow> request \<Rightarrow> (u32 \<times> u32) option \<Rightarrow> psdaq_dev \<times> 'h \<Rightarrow> fault + (int \<times> (u32 \<times> u32) option) \<times> psdaq_dev \<times> 'h" where
  "psdaq_ioctl K request argp = (\<lambda>(d, h).
     case (request, argp) of
       (Other_Request, _) \<Rightarrow> Inr ((- EINVAL, argp), d, h)
     | (_, None) \<Rightarrow> Inr ((- EFAULT, argp), d, h)
     | (READ_REGISTER, Some (offset, v)) \<Rightarrow>
         if \<not> ps_bar_addr d 1 then Inl NullDeref
         else if ps_bar_len d 1 < unat offset + 4 then Inl OutOfBounds
         else let (v, h) = kw_readl K 1 (unat offset) h in Inr ((0, Some (offset, v)), d, h)
     | (WRITE_REGISTER, Some (offset, v)) \<Rightarrow>
         if \<not> ps_bar_addr d 1 then Inl NullDeref
         else if ps_bar_len d 1 < unat offset + 4 then Inl OutOfBounds
         else Inr ((0, argp), d, kw_writel K v 1 (unat offset) h))"

section \<open>Finding and removing a card\<close>

text \<open>What a card occupies. Giving back what is not occupied is an error; \<open>iounmap\<close> of a null pointer does nothing.\<close>

datatype resource = Device_Struct | Device_Enabled | Regions | Mapping nat | Dma_Memory | Device_Number | Char_Device | Device_Node

definition release :: "resource \<Rightarrow> resource list \<Rightarrow> fault + resource list" where
  "release x held = (if List.member held x then Inr (remove1 x held) else Inl Unspecified)"

definition unmap_bar :: "psdaq_dev \<Rightarrow> nat \<Rightarrow> resource list \<Rightarrow> fault + resource list" where
  "unmap_bar d i held = (if ps_bar_len d i \<noteq> 0 \<and> ps_bar_addr d i then release (Mapping i) held else Inr held)"

text \<open>The labels at the end of \<open>psdaq_dev_probe\<close>, each of which falls through to the next.\<close>

definition failure_pci_enable :: "resource list \<Rightarrow> fault + resource list" where
  "failure_pci_enable held = release Device_Struct held"

definition failure_pci_regions :: "resource list \<Rightarrow> fault + resource list" where
  "failure_pci_regions held = rbind (release Device_Enabled held) failure_pci_enable"

definition failure_ioremap :: "resource list \<Rightarrow> fault + resource list" where
  "failure_ioremap held = rbind (release Regions held) failure_pci_regions"

definition failure_dma_allocation :: "psdaq_dev \<Rightarrow> resource list \<Rightarrow> fault + resource list" where
  "failure_dma_allocation d held = rbind (rfold (unmap_bar d) [0, 1] held) failure_ioremap"

definition failure_alloc_chrdev_region :: "psdaq_dev \<Rightarrow> resource list \<Rightarrow> fault + resource list" where
  "failure_alloc_chrdev_region d held = rbind (release Dma_Memory held) (failure_dma_allocation d)"

definition failure_cdev_add :: "psdaq_dev \<Rightarrow> resource list \<Rightarrow> fault + resource list" where
  "failure_cdev_add d held = rbind (release Device_Number held) (failure_alloc_chrdev_region d)"

definition failure_device_create :: "psdaq_dev \<Rightarrow> resource list \<Rightarrow> fault + resource list" where
  "failure_device_create d held = rbind (release Char_Device held) (failure_cdev_add d)"

definition psdaq_dev_remove :: "psdaq_dev \<Rightarrow> resource list \<Rightarrow> fault + resource list" where
  "psdaq_dev_remove d held = rbind (release Device_Node held) (failure_device_create d)"

text \<open>The results of the functions of the kernel; 0 is success, and a region is mapped to a pointer, a null pointer or one that stands for an error.\<close>

datatype remapped = Address | Null_Address | Error_Pointer int

record probe_results =
  pr_kmalloc :: bool
  pr_enable :: int
  pr_dma_mask :: int
  pr_consistent_mask :: int
  pr_regions :: int
  pr_ioremap :: "nat \<Rightarrow> remapped"
  pr_len :: "nat \<Rightarrow> nat"
  pr_alloc :: "u32 option"
  pr_chrdev :: int
  pr_cdev :: int
  pr_device :: int

text \<open>The regions one after another; the error number of the one that cannot be mapped stops the loop.\<close>

definition map_bar :: "probe_results \<Rightarrow> nat \<Rightarrow> int option \<times> psdaq_dev \<times> resource list \<Rightarrow> int option \<times> psdaq_dev \<times> resource list" where
  "map_bar r i = (\<lambda>(err, d, held).
     if err \<noteq> None then (err, d, held)
     else
       case pr_ioremap r i of
         Error_Pointer e \<Rightarrow> (Some e, d, held)
       | a \<Rightarrow> (None, d\<lparr>ps_bar_addr := (ps_bar_addr d)(i := a = Address), ps_bar_len := (ps_bar_len d)(i := pr_len r i)\<rparr>,
               if a = Address then Mapping i # held else held))"

definition newPsdaq :: "nat \<Rightarrow> psdaq_dev" where
  "newPsdaq device_counter = \<lparr>ps_bar_addr = (\<lambda>_. False), ps_bar_len = (\<lambda>_. 0), ps_dev_index = device_counter, ps_tlp_count = 0, ps_tlp_size = 0,
     ps_dma_hwaddr = 0, ps_dma_fill = 0, ps_dma_used = 0\<rparr>"

text \<open>The second part, from the allocation of the memory for transfers on.\<close>

definition probe_device ::
  "'h hardware \<Rightarrow> probe_results \<Rightarrow> psdaq_dev \<Rightarrow> resource list \<Rightarrow> 'h \<Rightarrow> fault + int \<times> resource list \<times> psdaq_dev \<times> 'h" where
  "probe_device K r d held h =
     (case pr_alloc r of
        None \<Rightarrow> rbind (failure_dma_allocation d held) (\<lambda>held. Inr (- ENOMEM, held, d, h))
      | Some hwaddr \<Rightarrow>
          let held = Dma_Memory # held; d = d\<lparr>ps_dma_hwaddr := hwaddr, ps_dma_fill := 0, ps_dma_used := 0\<rparr>
          in if \<not> ps_bar_addr d 0 then Inl NullDeref
             else
               let (d, h) = psdaq_initcard K d h
               in if pr_chrdev r \<noteq> 0 then rbind (failure_alloc_chrdev_region d held) (\<lambda>held. Inr (pr_chrdev r, held, d, h))
                  else if pr_cdev r \<noteq> 0 then rbind (failure_cdev_add d (Device_Number # held)) (\<lambda>held. Inr (pr_cdev r, held, d, h))
                  else if pr_device r \<noteq> 0
                  then rbind (failure_device_create d (Char_Device # Device_Number # held)) (\<lambda>held. Inr (pr_device r, held, d, h))
                  else Inr (0, Device_Node # Char_Device # Device_Number # held, d, h))"

definition psdaq_dev_probe ::
  "'h hardware \<Rightarrow> probe_results \<Rightarrow> nat \<Rightarrow> 'h \<Rightarrow> fault + int \<times> resource list \<times> psdaq_dev \<times> nat \<times> 'h" where
  "psdaq_dev_probe K r device_counter h =
     (let d = newPsdaq device_counter; fails = (\<lambda>err. rbind err (\<lambda>(err, held). Inr (err, held, d, device_counter, h)))
      in if \<not> pr_kmalloc r then Inr (- ENOMEM, [], d, device_counter, h)
         else if pr_enable r \<noteq> 0 then fails (rbind (failure_pci_enable [Device_Struct]) (\<lambda>held. Inr (pr_enable r, held)))
         else if pr_dma_mask r \<noteq> 0 then fails (rbind (failure_pci_regions [Device_Enabled, Device_Struct]) (\<lambda>held. Inr (pr_dma_mask r, held)))
         else if pr_consistent_mask r \<noteq> 0
         then fails (rbind (failure_pci_regions [Device_Enabled, Device_Struct]) (\<lambda>held. Inr (pr_consistent_mask r, held)))
         else if pr_regions r \<noteq> 0 then fails (rbind (failure_pci_regions [Device_Enabled, Device_Struct]) (\<lambda>held. Inr (pr_regions r, held)))
         else
           case fold (map_bar r) [0, 1] (None, d, [Regions, Device_Enabled, Device_Struct]) of
             (Some e, d, held) \<Rightarrow> rbind (failure_ioremap held) (\<lambda>held. Inr (e, held, d, device_counter, h))
           | (None, d, held) \<Rightarrow>
               rbind (probe_device K r d held h) (\<lambda>(err, held, d, h).
               Inr (err, held, d, if err = 0 then device_counter + 1 else device_counter, h)))"


section \<open>Loading the module\<close>

text \<open>The class of devices and the driver are registered, or neither: the error number, and whether the class exists afterwards.\<close>

definition psdaq_init :: "int \<Rightarrow> int \<Rightarrow> int \<times> bool" where
  "psdaq_init class_error driver_error =
     (if class_error \<noteq> 0 then (class_error, False) else if driver_error \<noteq> 0 then (driver_error, False) else (0, True))"

section \<open>A transfer fits the buffer\<close>

lemma initcard_sizes:
  "ps_tlp_size (fst (psdaq_initcard K d h)) = MAX_TLP_SIZE \<and> ps_tlp_count (fst (psdaq_initcard K d h)) = MAX_TLP_COUNT
     \<and> ps_dma_fill (fst (psdaq_initcard K d h)) = ps_dma_fill d \<and> ps_dma_used (fst (psdaq_initcard K d h)) = ps_dma_used d
     \<and> ps_bar_addr (fst (psdaq_initcard K d h)) = ps_bar_addr d \<and> ps_bar_len (fst (psdaq_initcard K d h)) = ps_bar_len d"
proof -
  have "tlp_size_of w = MAX_TLP_SIZE" for w by (simp add: tlp_size_of_def MAX_TLP_SIZE_def Let_def)
  then show ?thesis by (simp add: psdaq_initcard_def Let_def split: prod.split)
qed

section \<open>The device as a stream of bytes\<close>

text \<open>
  A card that completes its transfers: \<open>ready k h\<close> says that it has made \<open>k\<close> transfers and can make another, which leaves \<open>blk k\<close>
  in memory.
\<close>

definition delivers :: "'h hardware \<Rightarrow> (nat \<Rightarrow> 'h \<Rightarrow> bool) \<Rightarrow> (nat \<Rightarrow> u8 list) \<Rightarrow> bool" where
  "delivers K ready blk \<longleftrightarrow>
     (\<forall>k h. ready k h \<longrightarrow> (\<exists>h'. transfer K h = Some h' \<and> ready (Suc k) h' \<and> kw_memory K h' = blk k)) \<and> (\<forall>k. length (blk k) = BUF_SIZE)"

definition byte_at :: "(nat \<Rightarrow> u8 list) \<Rightarrow> nat \<Rightarrow> u8" where
  "byte_at blk i = blk (i div BUF_SIZE) ! (i mod BUF_SIZE)"

definition bytes_at :: "(nat \<Rightarrow> u8 list) \<Rightarrow> nat \<Rightarrow> nat \<Rightarrow> u8 list" where
  "bytes_at blk p n = map (byte_at blk) [p..<p + n]"

lemma bytes_at_add: "bytes_at blk p (m + n) = bytes_at blk p m @ bytes_at blk (p + m) n"
proof -
  have "[p..<p + (m + n)] = [p..<p + m] @ [p + m..<p + m + n]" using upt_add_eq_append [of p "p + m" n] by (simp add: add.assoc)
  then show ?thesis by (simp add: bytes_at_def)
qed

lemma BUF_SIZE_pos: "0 < BUF_SIZE"
  by (simp add: BUF_SIZE_def MAX_TLP_COUNT_def MAX_TLP_SIZE_def)

lemma bytes_at_block:
  assumes "length (blk k) = BUF_SIZE" "u + n \<le> BUF_SIZE"
  shows "take n (drop u (blk k)) = bytes_at blk (k * BUF_SIZE + u) n"
proof (rule nth_equalityI)
  fix i assume "i < length (take n (drop u (blk k)))"
  then have i: "u + i < BUF_SIZE" "i < n" using assms by simp_all
  then have "(k * BUF_SIZE + u + i) div BUF_SIZE = k" "(k * BUF_SIZE + u + i) mod BUF_SIZE = u + i"
    by (simp_all add: add.assoc)
  with i assms show "take n (drop u (blk k)) ! i = bytes_at blk (k * BUF_SIZE + u) n ! i" by (simp add: bytes_at_def byte_at_def)
qed (use assms in \<open>simp add: bytes_at_def\<close>)

text \<open>The device after \<open>p\<close> bytes of the stream have been read.\<close>

definition dev_at :: "(nat \<Rightarrow> 'h \<Rightarrow> bool) \<Rightarrow> (nat \<Rightarrow> u8 list) \<Rightarrow> 'h hardware \<Rightarrow> nat \<Rightarrow> psdaq_dev \<times> 'h \<Rightarrow> bool" where
  "dev_at ready blk K p = (\<lambda>(d, h).
     ps_tlp_count d * ps_tlp_size d = BUF_SIZE \<and> ps_dma_used d \<le> ps_dma_fill d
     \<and> (\<exists>k. ready k h \<and> p + (ps_dma_fill d - ps_dma_used d) = k * BUF_SIZE
            \<and> (ps_dma_used d < ps_dma_fill d \<longrightarrow> ps_dma_fill d = BUF_SIZE \<and> 0 < k \<and> kw_memory K h = blk (k - 1))))"

lemma refill_dma_ok:
  assumes "delivers K ready blk" "dev_at ready blk K p s"
  shows "\<exists>d h k. refill_dma K s = Inr (d, h) \<and> ps_tlp_count d * ps_tlp_size d = BUF_SIZE \<and> ps_dma_fill d = BUF_SIZE \<and> ps_dma_used d < BUF_SIZE
     \<and> ready (Suc k) h \<and> kw_memory K h = blk k \<and> p = k * BUF_SIZE + ps_dma_used d"
proof -
  obtain d h where s: "s = (d, h)" by (cases s)
  from assms(2) obtain k where d: "ps_tlp_count d * ps_tlp_size d = BUF_SIZE" "ps_dma_used d \<le> ps_dma_fill d" "ready k h"
    "p + (ps_dma_fill d - ps_dma_used d) = k * BUF_SIZE"
    "ps_dma_used d < ps_dma_fill d \<Longrightarrow> ps_dma_fill d = BUF_SIZE \<and> 0 < k \<and> kw_memory K h = blk (k - 1)"
    by (auto simp: s dev_at_def)
  show ?thesis
  proof (cases "ps_dma_used d = ps_dma_fill d")
    case True
    obtain h' where "transfer K h = Some h'" "ready (Suc k) h'" "kw_memory K h' = blk k"
      using assms(1) d(3) unfolding delivers_def by blast
    with True d show ?thesis using BUF_SIZE_pos by (simp add: s refill_dma_def)
  next
    case False
    with d obtain k' where k: "k = Suc k'" "ps_dma_fill d = BUF_SIZE" "kw_memory K h = blk k'" by (cases k) auto
    with False d show ?thesis by (intro exI [of _ d] exI [of _ h] exI [of _ k']) (simp add: s refill_dma_def)
  qed
qed

lemma read_device_ok:
  assumes "delivers K ready blk" "dev_at ready blk K (p + length out) s" "cnt \<le> room" "length out \<le> cnt" "out = bytes_at blk p (length out)"
  shows "\<exists>s'. read_device K room cnt out s = Inr (Inr (bytes_at blk p cnt), s') \<and> dev_at ready blk K (p + cnt) s'"
  using assms(2,4,5)
proof (induction "cnt - length out" arbitrary: out s rule: less_induct)
  case less
  show ?case
  proof (cases "length out < cnt")
    case False
    then show ?thesis using less.prems by (subst read_device.simps) simp
  next
    case True
    obtain d h k where r: "refill_dma K s = Inr (d, h)" "ps_tlp_count d * ps_tlp_size d = BUF_SIZE" "ps_dma_fill d = BUF_SIZE" "ps_dma_used d < BUF_SIZE"
      "ready (Suc k) h" "kw_memory K h = blk k" "p + length out = k * BUF_SIZE + ps_dma_used d"
      using refill_dma_ok [OF assms(1) less.prems(1)] by blast
    define n where "n = min (cnt - length out) (BUF_SIZE - ps_dma_used d)"
    have m: "0 < n" "n \<le> cnt - length out" "ps_dma_used d + n \<le> BUF_SIZE" using r(4) True by (simp_all add: n_def)
    let ?bs = "take n (drop (ps_dma_used d) (blk k))" and ?d = "d\<lparr>ps_dma_used := ps_dma_used d + n\<rparr>"
    have l: "length (blk k) = BUF_SIZE" using assms(1) by (simp add: delivers_def)
    have b: "?bs = bytes_at blk (p + length out) n" unfolding r(7) using bytes_at_block [of blk k "ps_dma_used d" n] l m by simp
    have n: "length ?bs = n" "0 < n" using l m by simp_all
    have g: "\<not> length ?bs < n" "\<not> room < length out + n" "BUF_SIZE - ps_dma_used d \<noteq> 0" using n m assms(3) True r(4) by linarith+
    have "read_device K room cnt out s = read_device K room cnt (out @ ?bs) (?d, h)"
      by (subst read_device.simps) (simp only: True r rbind_simps prod.case Let_def n_def [symmetric] g if_False not_True_eq_False)
    moreover have "dev_at ready blk K (p + length (out @ ?bs)) (?d, h)"
    proof -
      have "p + length (out @ ?bs) = k * BUF_SIZE + ps_dma_used d + n" using r(7) n(1) by simp
      then show ?thesis using r m by (auto simp: dev_at_def intro!: exI [of _ "Suc k"])
    qed
    moreover have "out @ ?bs = bytes_at blk p (length (out @ ?bs))"
      using less.prems(3) b n(1) bytes_at_add [of blk p "length out" n] by simp
    moreover have "cnt - length (out @ ?bs) < cnt - length out" "length (out @ ?bs) \<le> cnt" using n m True by simp_all
    ultimately show ?thesis using less.hyps [of "out @ ?bs" "(?d, h)"] by (simp only:)
  qed
qed

text \<open>Reads one after another, each to memory that is large enough.\<close>

fun device_reads :: "'h hardware \<Rightarrow> nat list \<Rightarrow> psdaq_dev \<times> 'h \<Rightarrow> fault + (int + u8 list) list" where
  "device_reads K [] s = Inr []"
| "device_reads K (n # ns) s = rbind (psdaq_file_read K n n s) (\<lambda>(r, s). rbind (device_reads K ns s) (\<lambda>rs. Inr (r # rs)))"

fun pieces :: "(nat \<Rightarrow> u8 list) \<Rightarrow> nat \<Rightarrow> nat list \<Rightarrow> u8 list list" where
  "pieces blk p [] = []"
| "pieces blk p (n # ns) = bytes_at blk p n # pieces blk (p + n) ns"

lemma concat_pieces: "concat (pieces blk p ns) = bytes_at blk p (sum_list ns)"
  by (induction ns arbitrary: p) (simp_all add: bytes_at_add, simp add: bytes_at_def)

lemma device_reads_ok:
  assumes "delivers K ready blk" "dev_at ready blk K p s"
  shows "device_reads K ns s = Inr (map Inr (pieces blk p ns))"
  using assms(2)
proof (induction ns arbitrary: p s)
  case (Cons n ns)
  obtain s' where "psdaq_file_read K n n s = Inr (Inr (bytes_at blk p n), s')" "dev_at ready blk K (p + n) s'"
    using read_device_ok [OF assms(1), of p "[]" s n n] Cons.prems by (auto simp: psdaq_file_read_def bytes_at_def)
  with Cons.IH [of "p + n" s'] show ?case by simp
qed simp

text \<open>
  C38: Once the card has been set up, the device is the stream of bytes of its transfers: whatever the sizes of the reads, each returns exactly as
  many bytes as were asked for, together they are the stream from its start without a gap or a repetition, and each transfer fills
  exactly the memory allocated for it, whatever size of packets the card reports.
\<close>

theorem device_is_stream:
  assumes "delivers K ready blk" and "ready 0 (snd (psdaq_initcard K d h))" and "ps_dma_fill d = 0" and "ps_dma_used d = 0"
  shows "\<exists>rs. device_reads K ns (psdaq_initcard K d h) = Inr (map Inr rs) \<and> map length rs = ns
     \<and> concat rs = map (byte_at blk) [0..<sum_list ns]
     \<and> ps_tlp_count (fst (psdaq_initcard K d h)) * ps_tlp_size (fst (psdaq_initcard K d h)) = BUF_SIZE"
proof -
  obtain d' h' where i: "psdaq_initcard K d h = (d', h')" by (cases "psdaq_initcard K d h")
  have s: "ps_tlp_count d' * ps_tlp_size d' = BUF_SIZE" "ps_dma_fill d' = 0" "ps_dma_used d' = 0"
    using initcard_sizes [of K d h] assms(3,4) by (simp_all add: i BUF_SIZE_def)
  have "dev_at ready blk K 0 (d', h')" using s assms(2) by (auto simp: i dev_at_def intro!: exI [of _ 0])
  note r = device_reads_ok [OF assms(1) this, of ns]
  have "map length (pieces blk p ns) = ns" for p by (induction ns arbitrary: p) (simp_all add: bytes_at_def)
  with r s(1) concat_pieces [of blk 0 ns] show ?thesis by (intro exI [of _ "pieces blk 0 ns"]) (simp add: i bytes_at_def)
qed

text \<open>A card that counts its transfers and fills the memory with numbers from this one on; a transfer is done when the status has been read twice.\<close>

definition example_block :: "nat \<Rightarrow> u8 list" where
  "example_block k = map (\<lambda>i. of_nat (k + i)) [0..<BUF_SIZE]"

definition example_hardware :: "(nat \<times> nat) hardware" where
  "example_hardware =
     \<lparr>kw_readl = (\<lambda>bar reg (k, n). if reg = 4 then (if n = 0 then (0x100, (k, 0)) else (0, (k, n - 1))) else (0x20000, (k, n))),
      kw_writel = (\<lambda>v bar reg (k, n). if reg = 4 \<and> v = 1 then (k + 1, 1) else (k, n)),
      kw_memory = (\<lambda>(k, n). example_block (k - 1))\<rparr>"

lemma example_transfer: "transfer example_hardware (k, n) = Some (k + 1, 0)"
  by (simp add: transfer_def await_dma_def start_dma_def WRITE_BAR0_REG_def READ_BAR0_REG_def example_hardware_def while_option_unfold)

lemma example_delivers: "delivers example_hardware (\<lambda>k h. h = (k, 0)) example_block"
  by (simp add: delivers_def example_transfer) (simp add: example_hardware_def example_block_def)

theorem device_is_stream_witness:
  "device_reads example_hardware [3, 2] (psdaq_initcard example_hardware (newPsdaq 0) (0, 0)) = Inr [Inr [0, 1, 2], Inr [3, 4]]"
proof -
  have i: "snd (psdaq_initcard example_hardware (newPsdaq 0) (0, 0)) = (0, 0)"
    by (simp add: psdaq_initcard_def READ_BAR0_REG_def WRITE_BAR0_REG_def example_hardware_def Let_def)
  have n: "ps_dma_fill (newPsdaq 0) = 0" "ps_dma_used (newPsdaq 0) = 0" by (simp_all add: newPsdaq_def)
  obtain rs where
    rs: "device_reads example_hardware [3, 2] (psdaq_initcard example_hardware (newPsdaq 0) (0, 0)) = Inr (map Inr rs)"
      "map length rs = [3, 2]" "concat rs = map (byte_at example_block) [0..<sum_list [3, 2]]"
    using device_is_stream [OF example_delivers, of "newPsdaq 0" "(0, 0)" "[3, 2]", OF i n] by (elim exE conjE) (rule that)
  have "byte_at example_block i = of_nat i" if "i < 5" for i
    using that by (simp add: byte_at_def example_block_def BUF_SIZE_def MAX_TLP_COUNT_def MAX_TLP_SIZE_def)
  moreover have "[0..<sum_list [3, 2]] = [0, 1, 2, 3, 4 :: nat]" by (simp add: upt_rec)
  ultimately have c: "concat rs = [0, 1, 2, 3, 4]" using rs(3) by simp
  obtain a b where ab: "rs = [a, b]" "length a = length [0, 1, 2 :: u8]" "length b = 2" using rs(2) by (auto simp: map_eq_Cons_conv)
  then have "a = [0, 1, 2] \<and> b = [3, 4]" using c append_eq_append_conv [of a "[0, 1, 2]" b "[3, 4]"] by simp
  then show ?thesis unfolding rs(1) ab(1) by simp
qed


section \<open>What a card occupies is given back\<close>

lemma release_head [simp]: "release x (x # held) = Inr held"
  by (simp add: release_def)

lemma fold_bars:
  "fold (map_bar r) [0, 1] (None, newPsdaq c, held) =
     (case pr_ioremap r 0 of
        Error_Pointer e \<Rightarrow> (Some e, newPsdaq c, held)
      | a \<Rightarrow>
          (let d = (newPsdaq c)\<lparr>ps_bar_addr := (\<lambda>_. False)(0 := a = Address), ps_bar_len := (\<lambda>_. 0)(0 := pr_len r 0)\<rparr>;
               held = (if a = Address then Mapping 0 # held else held)
           in case pr_ioremap r 1 of
                Error_Pointer e \<Rightarrow> (Some e, d, held)
              | b \<Rightarrow> (None, d\<lparr>ps_bar_addr := (ps_bar_addr d)(1 := b = Address), ps_bar_len := (ps_bar_len d)(1 := pr_len r 1)\<rparr>,
                      if b = Address then Mapping 1 # held else held)))"
  by (auto simp: map_bar_def newPsdaq_def Let_def split: remapped.split)

text \<open>The mapped regions are unmapped, whatever order they were mapped in.\<close>

definition bars_of :: "probe_results \<Rightarrow> psdaq_dev \<Rightarrow> bool" where
  "bars_of r d \<longleftrightarrow> (\<forall>i < 2. ps_bar_addr d i = (pr_ioremap r i = Address) \<and> ps_bar_len d i = pr_len r i)"

definition mappings :: "probe_results \<Rightarrow> resource list" where
  "mappings r = (if pr_ioremap r 1 = Address then [Mapping 1] else []) @ (if pr_ioremap r 0 = Address then [Mapping 0] else [])"

definition base_resources :: "resource list" where
  "base_resources = [Regions, Device_Enabled, Device_Struct]"

lemma unmap_all:
  assumes "bars_of r d" "\<forall>i < 2. pr_ioremap r i = Address \<longrightarrow> pr_len r i \<noteq> 0"
  shows "failure_dma_allocation d (mappings r @ base_resources) = Inr []"
proof -
  have "ps_bar_addr d 0 = (pr_ioremap r 0 = Address)" "ps_bar_addr d 1 = (pr_ioremap r 1 = Address)" "ps_bar_len d 0 = pr_len r 0"
    "ps_bar_len d 1 = pr_len r 1" using assms(1) by (simp_all add: bars_of_def)
  moreover have "pr_ioremap r 0 = Address \<longrightarrow> pr_len r 0 \<noteq> 0" "pr_ioremap r 1 = Address \<longrightarrow> pr_len r 1 \<noteq> 0" using assms(2) by simp_all
  ultimately show ?thesis
    by (auto simp: failure_dma_allocation_def unmap_bar_def mappings_def base_resources_def release_def failure_ioremap_def failure_pci_regions_def
        failure_pci_enable_def)
qed

lemma failure_simps:
  assumes "bars_of r d" "\<forall>i < 2. pr_ioremap r i = Address \<longrightarrow> pr_len r i \<noteq> 0"
  shows "failure_alloc_chrdev_region d (Dma_Memory # mappings r @ base_resources) = Inr []"
    "failure_cdev_add d (Device_Number # Dma_Memory # mappings r @ base_resources) = Inr []"
    "failure_device_create d (Char_Device # Device_Number # Dma_Memory # mappings r @ base_resources) = Inr []"
    "psdaq_dev_remove d (Device_Node # Char_Device # Device_Number # Dma_Memory # mappings r @ base_resources) = Inr []"
  using unmap_all [OF assms]
  by (simp_all add: failure_alloc_chrdev_region_def failure_cdev_add_def failure_device_create_def psdaq_dev_remove_def)

lemma bars_kept: "bars_of r d \<Longrightarrow> bars_of r (fst (psdaq_initcard K (d\<lparr>ps_dma_hwaddr := a, ps_dma_fill := 0, ps_dma_used := 0\<rparr>) h))"
  by (simp add: bars_of_def initcard_sizes)

lemma probe_device_ok:
  assumes "bars_of r d" "\<forall>i < 2. pr_ioremap r i = Address \<longrightarrow> pr_len r i \<noteq> 0" "pr_ioremap r 0 = Address"
  shows "\<exists>err held d' h'. probe_device K r d (mappings r @ base_resources) h = Inr (err, held, d', h')
     \<and> (if err = 0 then psdaq_dev_remove d' held = Inr [] \<and> ps_dma_fill d' = 0 \<and> ps_dma_used d' = 0 \<and> ps_tlp_count d' * ps_tlp_size d' = BUF_SIZE
        else held = [])"
proof (cases "pr_alloc r")
  case None
  then show ?thesis using unmap_all [OF assms(1,2)] by (simp add: probe_device_def ENOMEM_def)
next
  case (Some a)
  let ?d = "d\<lparr>ps_dma_hwaddr := a, ps_dma_fill := 0, ps_dma_used := 0\<rparr>"
  obtain d' h' where i: "psdaq_initcard K ?d h = (d', h')" by (cases "psdaq_initcard K ?d h")
  have b: "bars_of r d'" using bars_kept [OF assms(1), of K a h] by (simp add: i)
  have s: "ps_dma_fill d' = 0 \<and> ps_dma_used d' = 0 \<and> ps_tlp_count d' * ps_tlp_size d' = BUF_SIZE"
    using initcard_sizes [of K ?d h] by (simp add: i BUF_SIZE_def)
  have "ps_bar_addr d 0" using assms(1,3) by (simp add: bars_of_def)
  then show ?thesis using failure_simps [OF b assms(2)] s by (simp add: probe_device_def Some Let_def i)
qed


text \<open>A null pointer is how the kernel reports that a region cannot be mapped; it is not recognised, and the registers are used through it.\<close>

lemma null_region_used:
  assumes "pr_kmalloc r" "pr_enable r = 0" "pr_dma_mask r = 0" "pr_consistent_mask r = 0" "pr_regions r = 0" "pr_alloc r \<noteq> None"
    "pr_ioremap r 0 = Null_Address" "pr_ioremap r 1 = a" "a \<noteq> Error_Pointer e" "\<forall>e. a \<noteq> Error_Pointer e"
  shows "psdaq_dev_probe K r n h = Inl NullDeref"
  using assms by (cases a) (auto simp: psdaq_dev_probe_def Let_def map_bar_def newPsdaq_def probe_device_def)

definition example_probe :: probe_results where
  "example_probe = \<lparr>pr_kmalloc = True, pr_enable = 0, pr_dma_mask = 0, pr_consistent_mask = 0, pr_regions = 0, pr_ioremap = (\<lambda>_. Address),
     pr_len = (\<lambda>_. 4096), pr_alloc = Some 0x1000, pr_chrdev = 0, pr_cdev = -12, pr_device = 0\<rparr>"


section \<open>The thread that fills the buffers of the driver\<close>

text \<open>
  \<open>bufferSetThreadRoutine\<close> reads buffers of words. A read is complete, so that one read fills a buffer with the next words of the device, as
  \<open>wait_filled\<close> takes for granted.
\<close>

lemma read_fills_buffer:
  assumes "delivers K ready blk" "dev_at ready blk K p s" "length b = BUFFER_SIZE"
  shows "\<exists>bs s'. psdaq_file_read K (8 * BUFFER_SIZE) (8 * BUFFER_SIZE) s = Inr (Inr bs, s') \<and> dev_at ready blk K (p + 8 * BUFFER_SIZE) s'
     \<and> bs = bytes_at blk p (8 * BUFFER_SIZE) \<and> dma_fill [BUFFER_SIZE] 0 (words_le bs @ later) b = Some (words_le bs, later)"
proof -
  let ?bs = "bytes_at blk p (8 * BUFFER_SIZE)"
  have l: "length ?bs = 8 * BUFFER_SIZE" by (simp add: bytes_at_def)
  then have w: "length (words_le ?bs) = BUFFER_SIZE" by (simp add: length_words_le)
  obtain s' where "psdaq_file_read K (8 * BUFFER_SIZE) (8 * BUFFER_SIZE) s = Inr (Inr ?bs, s')" "dev_at ready blk K (p + 8 * BUFFER_SIZE) s'"
    using read_device_ok [OF assms(1), of p "[]" s "8 * BUFFER_SIZE" "8 * BUFFER_SIZE"] assms(2) by (auto simp: psdaq_file_read_def bytes_at_def)
  moreover have "dma_fill [BUFFER_SIZE] 0 (words_le ?bs @ later) b = Some (words_le ?bs, later)"
    using w assms(3) BUFFER_SIZE_pos by simp
  ultimately show ?thesis by blast
qed

end
