(* ===== verification/Print_Raw.thy ===== *)
theory Print_Raw
  imports Calibration_Sort Event_Writer
begin

text \<open>
  The program that counts frames and events of a raw data set, petsys_util/print_raw.cpp. It reads the data file frame by frame between
  the offsets of the index. What it prints are the three sums of every step and the totals.
\<close>

section \<open>The counters\<close>

text \<open>The sums of a step; the file position and the memory of the frame, as bytes; \<open>firstFrame\<close> is set to true and never changed.\<close>

record print_step =
  pn_pos :: nat
  pn_mem :: "u8 list"
  pn_firstFrame :: bool
  pn_lastFrameID :: u64
  pn_last1FrameLost :: bool
  pn_sumDataFrames :: u64
  pn_sumDataFramesLost :: u64
  pn_sumEvents :: u64

record print_totals =
  pt_nEvents0 :: int
  pt_nEventsL :: int
  pt_nEvents8 :: int
  pt_nEventsH :: int
  pt_wrongCoarseTime :: int
  pt_wrongChannelID :: int
  pt_totalDataFrames :: int
  pt_totalDataFramesLost :: int

definition newTotals :: print_totals where
  "newTotals = \<lparr>pt_nEvents0 = 0, pt_nEventsL = 0, pt_nEvents8 = 0, pt_nEventsH = 0, pt_wrongCoarseTime = 0, pt_wrongChannelID = 0,
     pt_totalDataFrames = 0, pt_totalDataFramesLost = 0\<rparr>"

section \<open>One frame\<close>

text \<open>
  \<open>fread\<close> stores what is left of the file, so that after its end the frame keeps what it had. A frame of fewer than two words asks for a negative
  number of words, and one that is larger than the memory of a frame overruns it.
\<close>

definition fread_into :: "u8 list \<Rightarrow> nat \<Rightarrow> nat \<Rightarrow> print_step \<Rightarrow> print_step" where
  "fread_into file offset n s =
     (let bs = take n (drop (pn_pos s) file)
      in s\<lparr>pn_pos := pn_pos s + length bs, pn_mem := take offset (pn_mem s) @ bs @ drop (offset + length bs) (pn_mem s)\<rparr>)"

definition the_frame :: "print_step \<Rightarrow> RawDataFrame" where
  "the_frame s = \<lparr>data = words_le (pn_mem s)\<rparr>"

definition read_frame :: "u8 list \<Rightarrow> print_step \<Rightarrow> fault + print_step" where
  "read_frame file s =
     (let s = fread_into file 0 16 s; frameSize = unat (getFrameSize (the_frame s))
      in if frameSize < 2 then Inl OutOfBounds
         else
           let s = fread_into file 16 (8 * (frameSize - 2)) s
           in if 8 * MaxRawDataFrameSize < length (pn_mem s) then Inl OutOfBounds else Inr s)"

definition check_event :: "RawDataFrame \<Rightarrow> nat \<Rightarrow> print_totals \<Rightarrow> fault + print_totals" where
  "check_event frame i t =
     rbind (getEventWord frame i) (\<lambda>w.
     let t = (if getChannelID w mod 4 \<noteq> 0 then t\<lparr>pt_wrongChannelID := pt_wrongChannelID t + 1\<rparr> else t)
     in Inr (if getT1Coarse w \<noteq> 29 then t\<lparr>pt_wrongCoarseTime := pt_wrongCoarseTime t + 1\<rparr> else t))"

definition count_size :: "nat \<Rightarrow> print_totals \<Rightarrow> print_totals" where
  "count_size nEvents t =
     (if nEvents = 0 then t\<lparr>pt_nEvents0 := pt_nEvents0 t + 1\<rparr>
      else if nEvents < 8 then t\<lparr>pt_nEventsL := pt_nEventsL t + 1\<rparr>
      else if nEvents = 8 then t\<lparr>pt_nEvents8 := pt_nEvents8 t + 1\<rparr>
      else t\<lparr>pt_nEventsH := pt_nEventsH t + 1\<rparr>)"

definition count_frame :: "print_step \<times> print_totals \<Rightarrow> fault + print_step \<times> print_totals" where
  "count_frame = (\<lambda>(s, t).
     let frame = the_frame s; frameID = getFrameID frame; frameLost = getFrameLost frame; nEvents = getNEvents frame;
         framesCompacted = (if pn_firstFrame s then 0 else to_i32 (frameID - pn_lastFrameID s - 1));
         s = s\<lparr>pn_sumDataFrames := pn_sumDataFrames s + of_int framesCompacted + 1,
               pn_sumDataFramesLost := pn_sumDataFramesLost s + (if pn_last1FrameLost s then of_int framesCompacted else 0) + (if frameLost then 1 else 0),
               pn_sumEvents := pn_sumEvents s + of_nat nEvents\<rparr>;
         t = (if \<not> pn_last1FrameLost s then t\<lparr>pt_nEvents0 := pt_nEvents0 t + framesCompacted\<rparr> else t);
         t = (if \<not> frameLost then count_size nEvents t else t)
     in rbind (rfold (check_event frame) [0..<nEvents] t) (\<lambda>t.
        Inr (s\<lparr>pn_lastFrameID := frameID, pn_last1FrameLost := frameLost\<rparr>, t)))"

section \<open>The steps\<close>

text \<open>At the end of the file the position does not change any more: the loop does not end.\<close>

function print_frames :: "u8 list \<Rightarrow> int \<Rightarrow> print_step \<times> print_totals \<Rightarrow> fault + print_step \<times> print_totals" where
  "print_frames file endOffset st =
     (if \<not> int (pn_pos (fst st)) < endOffset then Inr st
      else
        case rbind (read_frame file (fst st)) (\<lambda>s. count_frame (s, snd st)) of
          Inl e \<Rightarrow> Inl e
        | Inr st' \<Rightarrow> if pn_pos (fst st') \<le> pn_pos (fst st) then Inl Diverges else print_frames file endOffset st')"
  by pat_completeness auto
termination
  by (relation "measure (\<lambda>(file, endOffset, st). nat (endOffset - int (pn_pos (fst st))))") auto

declare print_frames.simps [simp del]

text \<open>The frames that follow the last stored one are taken for empty, and for lost if this one was.\<close>

definition end_sums :: "int \<Rightarrow> print_step \<times> print_totals \<Rightarrow> print_step \<times> print_totals" where
  "end_sums endFrame = (\<lambda>(s, t).
     let w = of_int endFrame - pn_lastFrameID s - 1;
         s = s\<lparr>pn_sumDataFrames := pn_sumDataFrames s + w,
               pn_sumDataFramesLost := pn_sumDataFramesLost s + (if pn_last1FrameLost s then w else 0)\<rparr>;
         t = (if pn_last1FrameLost s then t else t\<lparr>pt_nEvents0 := pt_nEvents0 t + to_i64 w\<rparr>)
     in (s, t\<lparr>pt_totalDataFrames := pt_totalDataFrames t + to_i64 (pn_sumDataFrames s),
              pt_totalDataFramesLost := pt_totalDataFramesLost t + to_i64 (pn_sumDataFramesLost s)\<rparr>))"

definition print_format :: "directive list" where
  "print_format = [DInt 64, WS, DInt 64, WS, DInt 64, WS, DInt 64, WS, DFloat, WS, DFloat, WS]"

text \<open>A step: the sums printed, the position, memory and totals afterwards. A seek to a negative offset fails and does nothing.\<close>

definition start_print :: "int \<Rightarrow> nat \<times> u8 list \<Rightarrow> print_step" where
  "start_print startOffset = (\<lambda>(pos, mem).
     \<lparr>pn_pos = if startOffset < 0 then pos else nat startOffset, pn_mem = mem, pn_firstFrame = True, pn_lastFrameID = 0, pn_last1FrameLost = False,
      pn_sumDataFrames = 0, pn_sumDataFramesLost = 0, pn_sumEvents = 0\<rparr>)"

definition print_one_step ::
  "u8 list \<Rightarrow> arg list \<Rightarrow> (u64 \<times> u64 \<times> u64) list \<times> (nat \<times> u8 list) \<times> print_totals \<Rightarrow>
   fault + (u64 \<times> u64 \<times> u64) list \<times> (nat \<times> u8 list) \<times> print_totals" where
  "print_one_step file as = (\<lambda>(out, pm, t).
     rbind (print_frames file (arg_i (as ! 1)) (start_print (arg_i (as ! 0)) pm, t)) (\<lambda>st.
     let (s, t) = end_sums (arg_i (as ! 3)) st
     in Inr (out @ [(pn_sumDataFrames s, pn_sumDataFramesLost s, pn_sumEvents s)], (pn_pos s, pn_mem s), t)))"

definition print_option :: "getopt \<Rightarrow> string option \<times> bool \<times> bool \<Rightarrow> fault + string option \<times> bool \<times> bool" where
  "print_option opt = (\<lambda>(prefix, suppressEmpty, statsOnly).
     case opt of
       ShortOpt c s \<Rightarrow> if c = CHR ''i'' then Inr (Some s, suppressEmpty, statsOnly) else Inl (Exit 1)
     | LongOpt n s \<Rightarrow>
         if n = 0 then Inr (prefix, True, statsOnly) else if n = 1 then Inr (prefix, suppressEmpty, True) else Inl (Exit 1))"

text \<open>\<open>mem0\<close> is the memory of the frame as it was allocated.\<close>

definition print_data_set :: "u8 list \<Rightarrow> data_set \<Rightarrow> fault + (u64 \<times> u64 \<times> u64) list \<times> print_totals" where
  "print_data_set mem0 d =
     (case (ds_idxf d, ds_rawf d) of
        (Some index, Some file) \<Rightarrow>
          rbind (scan_records print_format 6 index) (\<lambda>rs.
          rbind (rfold (print_one_step file) rs ([], (0, mem0), newTotals)) (\<lambda>(out, pm, t). Inr (out, t)))
      | _ \<Rightarrow> Inl (Exit 1))"

definition print_raw :: "u8 list \<Rightarrow> (string \<Rightarrow> data_set) \<Rightarrow> getopt list \<Rightarrow> fault + (u64 \<times> u64 \<times> u64) list \<times> print_totals" where
  "print_raw mem0 files args =
     rbind (rfold print_option args (None, False, False)) (\<lambda>(prefix, _).
     case prefix of
       None \<Rightarrow> Inl Unspecified
     | Some s \<Rightarrow> if length s + 5 < 1024 then print_data_set mem0 (files s) else Inl OutOfBounds)"

section \<open>The frames of a step\<close>

lemma words_le_prefix: "words_le (bytes_of ws @ bs) = ws @ words_le bs"
  by (induction ws) (simp_all add: bytes_of_def words_le_append)


lemma read_frame_ok:
  assumes "file_frame ws" "file = pre @ bytes_of ws @ post" "pn_pos s = length pre" "length (pn_mem s) = 8 * MaxRawDataFrameSize"
  shows "read_frame file s = Inr (s\<lparr>pn_pos := length pre + 8 * length ws, pn_mem := bytes_of ws @ drop (8 * length ws) (pn_mem s)\<rparr>)"
proof -
  let ?n = "length ws"
  have n: "2 \<le> ?n" "?n < MaxRawDataFrameSize" "unat (getFrameSize \<lparr>data = ws\<rparr>) = ?n" using assms(1) by (simp_all add: file_frame_def)
  have b: "bytes_of ws = bytes_of (take 2 ws) @ bytes_of (drop 2 ws)" by (metis append_take_drop_id bytes_of_append)
  have l: "length (bytes_of (take 2 ws)) = 16" "length (bytes_of (drop 2 ws)) = 8 * (?n - 2)" using n(1) by simp_all
  obtain k where k: "?n = k + 2" using n(1) by (metis add.commute le_Suc_ex)
  let ?s1 = "s\<lparr>pn_pos := length pre + 16, pn_mem := bytes_of (take 2 ws) @ drop 16 (pn_mem s)\<rparr>"
  have r1: "fread_into file 0 16 s = ?s1" using assms(2,3) b l by (simp add: fread_into_def Let_def)
  have z: "unat (getFrameSize (the_frame ?s1)) = ?n"
    using header_prefix(3) [OF n(1)] n(3) by (simp add: the_frame_def words_le_prefix)
  have r2: "fread_into file 16 (8 * (?n - 2)) ?s1 =
      s\<lparr>pn_pos := length pre + 8 * ?n, pn_mem := bytes_of ws @ drop (8 * ?n) (pn_mem s)\<rparr>"
    using assms(2,3) b l k by (simp add: fread_into_def Let_def add.commute)
  have m: "\<not> 8 * MaxRawDataFrameSize < length (bytes_of ws @ drop (8 * ?n) (pn_mem s))" using n(2) assms(4) by simp
  show ?thesis unfolding read_frame_def Let_def r1 z r2 using n(1) m by simp
qed


definition events_in :: "u64 list \<Rightarrow> nat" where
  "events_in ws = (length ws - 2) div 2"

definition lost_frame :: "u64 list \<Rightarrow> bool" where
  "lost_frame ws = getFrameLost \<lparr>data = ws\<rparr>"

definition words_in :: "u64 list \<Rightarrow> RawEventWord list" where
  "words_in ws = map (word_at ws) [0..<events_in ws]"

text \<open>The totals after more frames, by what they count.\<close>

definition add_totals :: "u64 list list \<Rightarrow> print_totals \<Rightarrow> print_totals" where
  "add_totals fs t =
     (let n = (\<lambda>P. int (length (filter (\<lambda>ws. \<not> lost_frame ws \<and> P (events_in ws)) fs)));
          e = (\<lambda>P. int (length (filter P (concat (map words_in fs)))))
      in t\<lparr>pt_nEvents0 := pt_nEvents0 t + n (\<lambda>k. k = 0), pt_nEventsL := pt_nEventsL t + n (\<lambda>k. 0 < k \<and> k < 8),
           pt_nEvents8 := pt_nEvents8 t + n (\<lambda>k. k = 8), pt_nEventsH := pt_nEventsH t + n (\<lambda>k. 8 < k),
           pt_wrongChannelID := pt_wrongChannelID t + e (\<lambda>w. getChannelID w mod 4 \<noteq> 0),
           pt_wrongCoarseTime := pt_wrongCoarseTime t + e (\<lambda>w. getT1Coarse w \<noteq> 29)\<rparr>)"

lemma add_totals_Cons: "add_totals (ws # fs) t = add_totals fs (add_totals [ws] t)"
  by (simp add: add_totals_def Let_def)

lemma add_totals_Nil: "add_totals [] t = t"
  by (simp add: add_totals_def Let_def)

lemma check_events:
  assumes "\<And>i. i < n \<Longrightarrow> getEventWord frame i = Inr (w i)"
  shows "rfold (check_event frame) [0..<n] t =
    Inr (t\<lparr>pt_wrongChannelID := pt_wrongChannelID t + int (length (filter (\<lambda>w. getChannelID w mod 4 \<noteq> 0) (map w [0..<n]))),
           pt_wrongCoarseTime := pt_wrongCoarseTime t + int (length (filter (\<lambda>w. getT1Coarse w \<noteq> 29) (map w [0..<n])))\<rparr>)"
  using assms
proof (induction n)
  case (Suc n)
  then show ?case by (simp add: rfold_append check_event_def Let_def)
qed simp

lemma count_size_totals:
  assumes "n = events_in ws" "\<not> lost_frame ws"
  shows "count_size n t = t\<lparr>pt_nEvents0 := pt_nEvents0 t + (if n = 0 then 1 else 0), pt_nEventsL := pt_nEventsL t + (if 0 < n \<and> n < 8 then 1 else 0),
     pt_nEvents8 := pt_nEvents8 t + (if n = 8 then 1 else 0), pt_nEventsH := pt_nEventsH t + (if 8 < n then 1 else 0)\<rparr>"
  by (simp add: count_size_def)

definition sums_after :: "u64 list list \<Rightarrow> print_step \<Rightarrow> print_step" where
  "sums_after fs s =
     s\<lparr>pn_sumDataFrames := pn_sumDataFrames s + of_nat (length fs),
       pn_sumDataFramesLost := pn_sumDataFramesLost s + of_nat (length (filter lost_frame fs)),
       pn_sumEvents := pn_sumEvents s + of_nat (sum_list (map events_in fs)),
       pn_lastFrameID := (if fs = [] then pn_lastFrameID s else getFrameID \<lparr>data = last fs\<rparr>),
       pn_last1FrameLost := (if fs = [] then pn_last1FrameLost s else lost_frame (last fs))\<rparr>"

lemma count_frame_ok:
  assumes "counted_frame ws" "pn_mem s = bytes_of ws @ rest" "length (pn_mem s) = 8 * MaxRawDataFrameSize" "pn_firstFrame s"
  shows "count_frame (s, t) = Inr (sums_after [ws] s, add_totals [ws] t)"
proof -
  have n: "2 \<le> length ws" using assms(1) by (simp add: counted_frame_def file_frame_def)
  have f: "the_frame s = \<lparr>data = ws @ words_le rest\<rparr>" by (simp add: the_frame_def assms(2) words_le_prefix)
  have "length (words_le (pn_mem s)) = MaxRawDataFrameSize" using assms(3) by (simp add: length_words_le)
  then have wf: "wf_frame \<lparr>data = ws @ words_le rest\<rparr>" by (simp add: wf_frame_def assms(2) words_le_prefix)
  have h: "getNEvents (the_frame s) = events_in ws" "getFrameLost (the_frame s) = lost_frame ws" "getFrameID (the_frame s) = getFrameID \<lparr>data = ws\<rparr>"
    using assms(1) n header_prefix(2) [OF n] unfolding f
    by (auto simp: getNEvents_def getFrameLost_def lost_frame_def counted_frame_def events_in_def nth_append)
  have e: "getEventWord (the_frame s) i = Inr (word_at ws i)" if "i < events_in ws" for i
    using event_of_words [OF refl wf] that unfolding f by (simp add: events_in_def)
  show ?thesis
    unfolding count_frame_def Let_def prod.case h using assms(4)
    by (simp add: check_events [OF e] sums_after_def add_totals_def words_in_def count_size_totals [of _ ws] Let_def)
qed

lemma print_frames_step:
  "int (pn_pos s) < E \<Longrightarrow> read_frame file s = Inr s1 \<Longrightarrow> count_frame (s1, t) = Inr (s2, t2) \<Longrightarrow> pn_pos s < pn_pos s2 \<Longrightarrow>
     print_frames file E (s, t) = print_frames file E (s2, t2)"
  by (subst print_frames.simps) simp

lemma print_frames_ok:
  assumes "\<forall>ws \<in> set fs. counted_frame ws" "file = pre @ bytes_of (concat fs) @ post" "pn_pos s = length pre"
    "length (pn_mem s) = 8 * MaxRawDataFrameSize" "pn_firstFrame s"
  shows "\<exists>mem. print_frames file (int (length pre + 8 * length (concat fs))) (s, t) =
      Inr ((sums_after fs s)\<lparr>pn_pos := length pre + 8 * length (concat fs), pn_mem := mem\<rparr>, add_totals fs t)
    \<and> length mem = 8 * MaxRawDataFrameSize"
  using assms
proof (induction fs arbitrary: pre s t)
  case Nil
  then show ?case by (subst print_frames.simps) (auto simp: sums_after_def add_totals_Nil intro!: exI [of _ "pn_mem s"])
next
  case (Cons ws fs)
  have c: "counted_frame ws" "file_frame ws" "0 < length ws" "length ws < MaxRawDataFrameSize"
    using Cons.prems(1) by (auto simp: counted_frame_def file_frame_def)
  have fl: "file = pre @ bytes_of ws @ bytes_of (concat fs) @ post" using Cons.prems(2) by (simp add: bytes_of_append)
  let ?mem = "bytes_of ws @ drop (8 * length ws) (pn_mem s)"
  let ?s1 = "s\<lparr>pn_pos := length pre + 8 * length ws, pn_mem := ?mem\<rparr>"
  have r: "read_frame file s = Inr ?s1" using read_frame_ok [OF c(2) fl Cons.prems(3,4)] .
  have m: "length ?mem = 8 * MaxRawDataFrameSize" using Cons.prems(4) c(4) by simp
  have k: "count_frame (?s1, t) = Inr (sums_after [ws] ?s1, add_totals [ws] t)"
    by (rule count_frame_ok [OF c(1)]) (use m Cons.prems(5) in simp_all)
  let ?s2 = "sums_after [ws] ?s1"
  have E: "int (length pre + 8 * length (concat (ws # fs))) = int (length (pre @ bytes_of ws) + 8 * length (concat fs))" by simp
  have "print_frames file (int (length pre + 8 * length (concat (ws # fs)))) (s, t) =
      print_frames file (int (length (pre @ bytes_of ws) + 8 * length (concat fs))) (?s2, add_totals [ws] t)"
    unfolding E by (rule print_frames_step [OF _ r k]) (use c(3) Cons.prems(3) in \<open>simp_all add: sums_after_def add_pos_nonneg\<close>)
  moreover obtain mem where "print_frames file (int (length (pre @ bytes_of ws) + 8 * length (concat fs))) (?s2, add_totals [ws] t) =
      Inr ((sums_after fs ?s2)\<lparr>pn_pos := length (pre @ bytes_of ws) + 8 * length (concat fs), pn_mem := mem\<rparr>, add_totals fs (add_totals [ws] t))"
    "length mem = 8 * MaxRawDataFrameSize"
    using Cons.IH [of "pre @ bytes_of ws" ?s2 "add_totals [ws] t"] Cons.prems(1,5) fl m by (auto simp: sums_after_def)
  ultimately show ?case by (intro exI [of _ mem]) (simp add: sums_after_def add_totals_Cons [of ws fs] algebra_simps)
qed

section \<open>A data set\<close>

text \<open>A step of a data file by its frames, with the numbers of its first and last frame.\<close>

definition step_frames :: "u8 list \<Rightarrow> entry \<Rightarrow> u64 list list \<Rightarrow> bool" where
  "step_frames file e fs \<longleftrightarrow>
     (\<exists>pre post. file = pre @ bytes_of (concat fs) @ post \<and> en_begin e = length pre \<and> en_end e = length pre + 8 * length (concat fs))
     \<and> (\<forall>ws \<in> set fs. counted_frame ws)"

definition printed_sums :: "int \<Rightarrow> u64 list list \<Rightarrow> u64 \<times> u64 \<times> u64" where
  "printed_sums endFrame fs =
     (let rest = of_int endFrame - (if fs = [] then 0 else getFrameID \<lparr>data = last fs\<rparr>) - 1
      in (of_nat (length fs) + rest, of_nat (length (filter lost_frame fs)) + (if fs \<noteq> [] \<and> lost_frame (last fs) then rest else 0),
          of_nat (sum_list (map events_in fs))))"

definition print_ok :: "entry \<Rightarrow> bool" where
  "print_ok e \<longleftrightarrow> entry_ok e \<and> en_begin e < 2 ^ 63 \<and> en_end e < 2 ^ 63"

lemma print_one_step_ok:
  assumes "step_frames file e fs" "length mem = 8 * MaxRawDataFrameSize"
  shows "\<exists>pos mem' t'. print_one_step file (entry_args e) (out, (pos0, mem), t) = Inr (out @ [printed_sums (en_last e) fs], (pos, mem'), t')
     \<and> length mem' = 8 * MaxRawDataFrameSize
     \<and> (pt_nEventsL t', pt_nEvents8 t', pt_nEventsH t', pt_wrongChannelID t', pt_wrongCoarseTime t') =
        (let u = add_totals fs t in (pt_nEventsL u, pt_nEvents8 u, pt_nEventsH u, pt_wrongChannelID u, pt_wrongCoarseTime u))"
proof -
  obtain pre post where d: "file = pre @ bytes_of (concat fs) @ post" "en_begin e = length pre" "en_end e = length pre + 8 * length (concat fs)"
    "\<forall>ws \<in> set fs. counted_frame ws" using assms(1) by (auto simp: step_frames_def)
  let ?s = "start_print (int (length pre)) (pos0, mem)"
  obtain m where m: "print_frames file (int (length pre + 8 * length (concat fs))) (?s, t) =
      Inr ((sums_after fs ?s)\<lparr>pn_pos := length pre + 8 * length (concat fs), pn_mem := m\<rparr>, add_totals fs t)" "length m = 8 * MaxRawDataFrameSize"
    using print_frames_ok [OF d(4,1), of ?s t] assms(2) by (auto simp: start_print_def)
  have a: "arg_i (entry_args e ! 0) = int (length pre)" "arg_i (entry_args e ! 1) = int (length pre + 8 * length (concat fs))"
    "arg_i (entry_args e ! 3) = en_last e" by (simp_all add: entry_args_def d(2,3))
  show ?thesis
    unfolding print_one_step_def prod.case a m(1) rbind_simps using m(2)
    by (simp add: end_sums_def Let_def sums_after_def start_print_def printed_sums_def)
qed

lemma print_steps_ok:
  assumes "list_all2 (step_frames file) es fss" "length mem = 8 * MaxRawDataFrameSize"
  shows "\<exists>pm t'. rfold (print_one_step file) (map entry_args es) (out, (pos0, mem), t) =
      Inr (out @ map2 (\<lambda>e. printed_sums (en_last e)) es fss, pm, t')
     \<and> (pt_nEventsL t', pt_nEvents8 t', pt_nEventsH t', pt_wrongChannelID t', pt_wrongCoarseTime t') =
        (let u = add_totals (concat fss) t in (pt_nEventsL u, pt_nEvents8 u, pt_nEventsH u, pt_wrongChannelID u, pt_wrongCoarseTime u))"
  using assms
proof (induction arbitrary: out pos0 mem t rule: list_all2_induct)
  case Nil
  then show ?case by (simp add: add_totals_Nil)
next
  case (Cons e es fs fss)
  obtain pos m t1 where s: "print_one_step file (entry_args e) (out, (pos0, mem), t) = Inr (out @ [printed_sums (en_last e) fs], (pos, m), t1)"
    "length m = 8 * MaxRawDataFrameSize"
    "(pt_nEventsL t1, pt_nEvents8 t1, pt_nEventsH t1, pt_wrongChannelID t1, pt_wrongCoarseTime t1) =
       (let u = add_totals fs t in (pt_nEventsL u, pt_nEvents8 u, pt_nEventsH u, pt_wrongChannelID u, pt_wrongCoarseTime u))"
    using print_one_step_ok [OF Cons.hyps(1) Cons.prems] by blast
  from Cons.IH [OF s(2), of "out @ [printed_sums (en_last e) fs]" pos t1] s(1,3) show ?case
    by (auto simp: add_totals_def Let_def)
qed


lemma scan_print_entry:
  assumes "print_ok e"
  shows "scanf print_format (entry_line e @ concat (map entry_line es)) = Inr (entry_args e, concat (map entry_line es))"
proof -
  have i: "scan_int (show_int i @ TAB # t) = Some (i, TAB # t)" for i t
    using scan_int_show [of "TAB # t" i] by simp
  have f: "scan_float F32 (show_fixed a @ TAB # t) = Inr (Some (reread a, TAB # t))"
    "scan_float F32 (show_fixed a @ NL # t) = Inr (Some (reread a, NL # t))" if "printable a" for a t
    using scan_float_show [OF that, of TAB t] scan_float_show [OF that, of NL t] by (simp_all add: num_end_def)
  have e: "en_begin e < 2 ^ 63" "en_end e < 2 ^ 63" "\<bar>en_first e\<bar> < 2 ^ 63" "\<bar>en_last e\<bar> < 2 ^ 63"
    "printable (en_step1 e)" "printable (en_step2 e)" using assms(1) by (simp_all add: entry_ok_def print_ok_def)
  have u: "fit_signed 64 (int (en_begin e)) = Inr (int (en_begin e))" "fit_signed 64 (int (en_end e)) = Inr (int (en_end e))"
    "fit_signed 64 (en_first e) = Inr (en_first e)" "fit_signed 64 (en_last e) = Inr (en_last e)"
    using e by (auto simp: fit_signed_def)
  show ?thesis
    unfolding print_format_def entry_line_def [of e] index_line_def entry_args_def
    using i f [OF e(5)] f [OF e(6)] u e by (simp add: skip_ws_show_fixed skip_ws_entries)
qed

lemma scan_print_entries:
  "list_all print_ok es \<Longrightarrow> scan_records print_format 6 (concat (map entry_line es)) = Inr (map entry_args es)"
proof (induction es)
  case Nil
  have "scan_int [] = None" by (simp add: scan_int_def skip_ws_def)
  then have "scanf print_format [] = Inr ([], [])" by (simp add: print_format_def)
  then show ?case by (subst scan_records.simps) simp
next
  case (Cons e es)
  then have "scanf print_format (concat (map entry_line (e # es))) = Inr (entry_args e, concat (map entry_line es))"
    using scan_print_entry by simp
  moreover have "length (entry_args e) = 6" by (simp add: entry_args_def)
  ultimately show ?case using Cons by (subst scan_records.simps) simp
qed

text \<open>A stored frame has as many hits as it says.\<close>

lemma frame_hits_words: "frame_hits ws = map (abs_hit (int (unat (getFrameID \<lparr>data = ws\<rparr>)))) (words_in ws)"
  by (simp add: frame_hits_def words_in_def events_in_def comp_def)

lemma delimited_frames:
  assumes "delimits file e hits"
  shows "\<exists>fs. step_frames file e fs \<and> concat (map frame_hits fs) = hits"
  using assms unfolding delimits_def step_frames_def by blast

lemma hits_channels: "map rh_channelID (concat (map frame_hits fs)) = map getChannelID (concat (map words_in fs))"
  by (induction fs) (simp_all add: frame_hits_words abs_hit_def Let_def comp_def)

lemma hits_number: "sum_list (map events_in fs) = length (concat (map frame_hits fs))"
  by (induction fs) (simp_all add: frame_hits_words words_in_def)

lemma filter_channels: "length (filter (\<lambda>w. P (getChannelID w)) (concat (map words_in fs))) = length (filter (\<lambda>h. P (rh_channelID h)) (concat (map frame_hits fs)))"
proof -
  have "length (filter P (map getChannelID (concat (map words_in fs)))) = length (filter P (map rh_channelID (concat (map frame_hits fs))))"
    by (simp only: hits_channels)
  then show ?thesis by (simp only: filter_map length_map comp_def)
qed

lemma list_all2_frames:
  "list_all2 (delimits file) es hs \<Longrightarrow> \<exists>fss. list_all2 (step_frames file) es fss \<and> map (\<lambda>fs. concat (map frame_hits fs)) fss = hs"
proof (induction rule: list_all2_induct)
  case (Cons e es h hs)
  then obtain fs fss where "step_frames file e fs" "concat (map frame_hits fs) = h" "list_all2 (step_frames file) es fss"
    "map (\<lambda>fs. concat (map frame_hits fs)) fss = hs" using delimited_frames by blast
  then show ?case by (intro exI [of _ "fs # fss"]) simp
qed simp

lemma third_sums:
  "length es = length fss \<Longrightarrow> map (\<lambda>(frames, lost, events). events) (map2 (\<lambda>e. printed_sums (en_last e)) es fss) = map (\<lambda>fs. of_nat (sum_list (map events_in fs))) fss"
  by (induction es fss rule: list_induct2) (simp_all add: printed_sums_def Let_def)

text \<open>
  C40: The program ends on every data set that was written for well-formed frames, and counts what the reader would hand on: for each step the
  number of its events, and over all the events whose channel is not a multiple of four.
\<close>

theorem written_events_printed:
  assumes "acqStdMode a" and "list_all good_block bs" and "\<forall>(h, ring) \<in> set bs. printable (bh_step1 h) \<and> printable (bh_step2 h)"
    and "write_raw pad a bs = Inr w" and "length (w_dataFile w) < 2 ^ 63" and "length mem0 = 8 * MaxRawDataFrameSize"
  shows "\<exists>out t. print_data_set mem0 (written_set w) = Inr (out, t)
     \<and> map (\<lambda>(frames, lost, events). events) out = map (\<lambda>hits. of_nat (length hits)) (steps_of [] bs)
     \<and> pt_wrongChannelID t = int (length (filter (\<lambda>h. rh_channelID h mod 4 \<noteq> 0) (concat (steps_of [] bs))))"
proof -
  have l: "length (w_dataFile w) < 2 ^ 64" using assms(5) by simp
  obtain es cur where inv: "steps_inv (bytes_of (file_header a)) es (steps_of [] bs) cur w" and eok: "list_all entry_ok es"
    using written_entries [OF assms(1-4) l] by metis
  have i: "w_indexFile w = concat (map entry_line es)" "list_all2 (delimits (w_dataFile w)) es (steps_of [] bs)"
    using inv by (simp_all add: steps_inv_def)
  obtain fss where f: "list_all2 (step_frames (w_dataFile w)) es fss" "map (\<lambda>fs. concat (map frame_hits fs)) fss = steps_of [] bs"
    using list_all2_frames [OF i(2)] by blast
  have "list_all print_ok es"
  proof -
    have "en_begin e \<le> length (w_dataFile w) \<and> en_end e \<le> length (w_dataFile w)" if "e \<in> set es" for e
      using i(2) that by (auto simp: list_all2_conv_all_nth in_set_conv_nth delimits_def)
    with eok assms(5) show ?thesis by (force simp: print_ok_def list_all_iff)
  qed
  note s = scan_print_entries [OF this]
  obtain pm t where p: "rfold (print_one_step (w_dataFile w)) (map entry_args es) ([], (0, mem0), newTotals) =
      Inr (map2 (\<lambda>e. printed_sums (en_last e)) es fss, pm, t)" "pt_wrongChannelID t = pt_wrongChannelID (add_totals (concat fss) newTotals)"
    using print_steps_ok [OF f(1) assms(6), of "[]" 0 newTotals] by (auto simp: Let_def)
  have "pt_wrongChannelID t = int (length (filter (\<lambda>h. rh_channelID h mod 4 \<noteq> 0) (concat (map frame_hits (concat fss)))))"
    unfolding p(2) using filter_channels [of "\<lambda>c. c mod 4 \<noteq> 0"] by (simp add: add_totals_def newTotals_def Let_def)
  moreover have "concat (map frame_hits (concat fss)) = concat (steps_of [] bs)" unfolding f(2) [symmetric] by (induction fss) simp_all
  moreover have "map (\<lambda>fs. of_nat (sum_list (map events_in fs))) fss = map (\<lambda>hits. of_nat (length hits) :: u64) (steps_of [] bs)"
    unfolding f(2) [symmetric] by (simp add: hits_number)
  ultimately show ?thesis
    using s p(1) third_sums [OF list_all2_lengthD [OF f(1)]] by (simp add: print_data_set_def written_set_def i(1))
qed

theorem written_events_witness:
  "\<exists>w t f l. write_raw [] example_arguments example_blocks = Inr w
     \<and> print_data_set (replicate 16384 0) (written_set w) = Inr ([(f, l, 1)], t) \<and> pt_wrongChannelID t \<le> 1"
proof -
  obtain w where w: "write_raw [] example_arguments example_blocks = Inr w" "length (w_dataFile w) \<le> 128"
    using example_written_size by blast
  have l: "length (w_dataFile w) < 2 ^ 63" "acqStdMode example_arguments" "length (replicate 16384 0 :: u8 list) = 8 * MaxRawDataFrameSize"
    using w(2) by (simp_all add: example_arguments_def MaxRawDataFrameSize_def)
  from written_events_printed [OF l(2) example_blocks_facts(1,3) w(1) l(1,3)] obtain out t where
    o: "print_data_set (replicate 16384 0) (written_set w) = Inr (out, t)" "map (\<lambda>(frames, lost, events). events) out = [1]"
      "pt_wrongChannelID t = int (length (filter (\<lambda>h. rh_channelID h mod 4 \<noteq> 0) (frame_hits example_words)))"
    by (auto simp: example_blocks_facts(2) example_frame_facts(3))
  have "int (length (filter (\<lambda>h. rh_channelID h mod 4 \<noteq> 0) (frame_hits example_words))) \<le> 1"
    using length_filter_le [of "\<lambda>h. rh_channelID h mod 4 \<noteq> 0" "frame_hits example_words"] example_frame_facts(3) by simp
  moreover obtain f l' where "out = [(f, l', 1)]" using o(2) by (auto simp: map_eq_Cons_conv)
  ultimately show ?thesis using w(1) o(1,3) by auto
qed

text \<open>When an index points behind the end of the data, the position does not change there any more and the loop goes on for ever.\<close>

lemma short_file_diverges:
  assumes "length file \<le> pn_pos s" "int (pn_pos s) < E" "read_frame file s = Inr s'" "count_frame (s', t) = Inr st"
  shows "print_frames file E (s, t) = Inl Diverges"
proof -
  have "pn_pos s' = pn_pos s" using assms(1,3) by (auto simp: read_frame_def fread_into_def Let_def split: if_splits)
  moreover have "pn_pos (fst st) = pn_pos s'"
    using assms(4) by (auto simp: count_frame_def Let_def rbind_Inr_iff)
  ultimately show ?thesis using assms(2-4) by (subst print_frames.simps) simp
qed

end
