(* ===== verification/Spec2Isabelle.thy ===== *)
theory Spec2Isabelle
  imports Event_Decode Shm_Raw Fp Event_Buffer Config_Text System_Config Coarse_Sorter Process_Hit Simple_Grouper
    Coincidence_Grouper Thread_Pool Overlapped_Handler Bytes Raw_Reader
    Step_Decoding Write_Raw Data_Set Frame_Server Daq_Stream PFP_KX7 Card_Commands Daq_Command Client_Requests Udp_Frame_Server
    Record_Files Event_Writer Convert_Coincidence Convert_Hits Convert_Raw Convert_Channels Merge_Raw
    Calibration_Sort Root_Library Chip_Processes Tdc_Calibration Qdc_Calibration Calibration_Tables Kernel_Driver Print_Raw
begin

text \<open>
  A model of the C++ programs of sw_daq_tofhir2: the daemon that moves data frames from the acquisition
  hardware to shared memory, the programs that store them, read them back, process them to hits, photons and coincidences
  and write these out, and the programs that calibrate the converters of the chips.

  \<^bold>\<open>How the parts work together.\<close>
  The daemon has a frame server whose worker takes words from a card (\<open>DAQFrameServer\<close> on \<open>PFP_KX7\<close>) or from
  datagrams (\<open>UDPFrameServer\<close>), looks for frames and puts them into a ring in shared memory.
  Clients ask the daemon over a socket for the pointers of the ring, return the read pointer, send commands to the front
  end and switch the acquisition on and off. \<open>write_raw\<close> takes the frames between two pointers and appends them to a raw data file with an
  index of steps, or, for calibrations, counts equal event words. \<open>RawReader\<close> reads a step, decodes its event words to hits and
  hands them to a chain of stages that overlap in a pool of threads: sorting by coarse time, calibration with the tables of
  \<open>SystemConfig\<close>, grouping to photons, search for coincidences, writing. The calibration programs read the counted event words,
  calibrate every chip in a process of its own and write the tables that \<open>SystemConfig\<close> loads.

  \<^bold>\<open>Which theory models which file.\<close> Definitions have the names of the functions they model; where two classes have functions
  of the same name one has a prefix. The paths are under src/.

  \<^item> \<open>Prelude\<close>: faults (exit, failed assertion, access out of bounds, null pointer, non-termination, unspecified value) as the left values of a
    sum type with the bind \<open>rbind\<close> and the loops \<open>rfold\<close>; words cut into fields. \<open>Bytes\<close>: words as bytes. \<open>Fp\<close>: floating-point numbers of
    the formats float and double with the rounding of every operation. \<open>Scanf\<close>: the formatted input of the C library.
  \<^item> \<open>Event_Decode\<close>, \<open>Shm_Raw\<close>: raw_data/event_decode.hpp and shm_raw.hpp, the bits of event words and frames and the ring of frames as its
    readers see it, with shm_raw_py.cpp.
  \<^item> \<open>Event_Buffer\<close>, \<open>Thread_Pool\<close>, \<open>Overlapped_Handler\<close>: the buffers of events, the pool of threads and the stages of base/.
  \<^item> \<open>Config_Text\<close>, \<open>System_Config\<close>: base/SystemConfig.cpp, the normalisation of lines and the loaders of the tables.
  \<^item> \<open>Coarse_Sorter\<close>, \<open>Process_Hit\<close>, \<open>Simple_Grouper\<close>, \<open>Coincidence_Grouper\<close>: the stages of base/ of the same names.
  \<^item> \<open>Raw_Reader\<close>, \<open>Step_Decoding\<close>: raw_data/RawReader.cpp. \<open>Write_Raw\<close>: raw_data/write_raw.cpp. \<open>Data_Set\<close>: what is written is what is
    read. \<open>Merge_Raw\<close>: petsys_util/merge_raw.cpp.
  \<^item> \<open>Frame_Server\<close>: daqd/FrameServer.cpp and the worker of daqd/DAQFrameServer.cpp as a step relation in phases between lock operations.
    \<open>Daq_Command\<close>: the commands of DAQFrameServer.cpp. \<open>PFP_KX7\<close>, \<open>Card_Commands\<close>: daqd/PFP_KX7.cpp. \<open>Daq_Stream\<close>: the frames in a stream of
    words. \<open>Udp_Frame_Server\<close>: daqd/UDPFrameServer.cpp. \<open>Client_Requests\<close>: daqd/Client.cpp.
  \<^item> \<open>Record_Files\<close>, \<open>Event_Writer\<close>: what the converters of petsys_util/ share, packed structures, formatted output, trees and the index of steps.
    \<open>Convert_Coincidence\<close>, \<open>Convert_Hits\<close>, \<open>Convert_Raw\<close>, \<open>Convert_Channels\<close>: the converters convert_raw_to_coincidence, _group and _singles,
    _raw, _event and _trigger.
  \<^item> \<open>Calibration_Sort\<close>: what process_tdc_calibration.cpp and process_qdc_calibration.cpp share. \<open>Root_Library\<close>: the methods of the ROOT
    library as an argument. \<open>Chip_Processes\<close>: processes that share a table. \<open>Tdc_Calibration\<close>, \<open>Qdc_Calibration\<close>: the two programs.
    \<open>Calibration_Tables\<close>: the tables they write are the tables that \<open>SystemConfig\<close> loads.
  \<^item> \<open>Kernel_Driver\<close>: kernel/psdaq.c, the module that gives the card to the daemon. \<open>Print_Raw\<close>: petsys_util/print_raw.cpp, the counts of frames and events.

  \<^bold>\<open>What the lemmas show.\<close>
  \<^item> \<^emph>\<open>The acquisition.\<close> The device of the card is a gapless stream of bytes, and its driver gives back what it occupied. The ring of frames refines a queue for all interleavings of worker, readers and control, on a card and on
    the network; the worker stores exactly the frames of the word stream; commands are appended to the queue in the card's registers and
    answered, refused or timed out; a complete request of a client is never fatal; what lies between the pointers is what the
    writer of raw data can handle.
  \<^item> \<^emph>\<open>The data files.\<close> What the writer stores is what the reader hands on, step by step, also after joining data sets; the buffered reader
    returns the bytes asked for; decoding inverts the layout of event words and delivers all hits in order in buffers of bounded size, with
    times within the windows of the hardware. The program that prints counts ends on every data set written and counts its events.
  \<^item> \<^emph>\<open>The stages.\<close> Each stage against a specification: the sorter sorts and permutes, calibration passes exactly the valid hits, grouping
    yields photons by its specification and uses no hit twice, the coincidence search finds exactly the pairs in the window. Overlapping
    stages deliver what the stages one after another deliver. The pool neither loses, repeats nor reorders jobs and is never stuck.
  \<^item> \<^emph>\<open>Configuration and converters.\<close> Loading keeps the channel table well formed; packed records are read back as written; the index of a
    converted set partitions its data file; some tools fault without the ROOT output.
  \<^item> \<^emph>\<open>Calibration.\<close> Counted data reaches the process of its chip, complete and in order; the processes do not disturb each other; no
    channel is half calibrated; the tables written are loaded as they were written, rounded to eight digits.

  \<^bold>\<open>Interfaces.\<close> The contracts between components are locales: buffers as sequences, keyed tables, regular expression laws, stages, cards that
  return, servers that refine a queue, processes that keep to their entries of a table. Each is interpreted on the model of the component that
  provides it, and the properties rest on the facts of these interpretations.

  \<^bold>\<open>Parameters.\<close> Code outside the repository is an argument: the regular expressions, ini files and paths of the Boost library and of the file
  system (\<open>externals\<close>), the std::sort of the sorter (any function that sorts and permutes), the ROOT library, the registers and the memory of the
  card, the results of system calls (\<open>read\<close>, \<open>recv\<close>, \<open>send\<close>, \<open>wait\<close>), time, the contents of uninitialised memory. Hypotheses on them state documented
  behaviour only, and every property with a hypothesis has a witness.

  \<^bold>\<open>Bounds.\<close> Words have their width, \<open>int\<close> is 32 bits where a value can leave its range, and an access outside an array is a fault. Loops that
  depend on the outside (polling of registers, waiting for replies or processes) consume a list of answers and end in the fault \<open>Diverges\<close> when it is used up;
  the loops over numbers in files end because every scan consumes characters. Loops over counters have measures, with the overflow of the
  counter as a fault. The one loop that may run for ever on floating-point values, \<open>first_period\<close>, is \<open>while_option\<close>.

  \<^bold>\<open>Not modelled.\<close> Progress messages, reports, plots and histograms that do not influence the files written. The creation of sockets, shared memory
  objects and threads, which are system calls in sequence. The reader of the older file format (raw_data/DAQv1Reader.cpp), and the main program of the daemon (daqd/daqd.cpp), whose loop only hands
  the events of sockets to the handler of \<open>Client_Requests\<close>, are left out. daqd/DtFlyP.cpp and petsys_util/analyze_asic_quick_scan.cpp are not
  built: the build files do not name them, and headers the first includes are not in the repository. The ROOT macros (psDrawCTR.C, psqc_fetp.C, plot_*.cc) only draw;
  the Python library, the scripts and the graphical interface are in other languages.
\<close>

end
